(* ===== verification/Prelude.thy ===== *)
theory Prelude
  imports Main "HOL-Library.Word" "HOL-Library.Char_ord" "HOL-Library.List_Lexorder"
begin

text \<open>
  Shared types, the error monad and the list and string lemmas of the development.

  The types of the platform the server is built for (LP64): \<open>int\<close> has 32 bits, \<open>long\<close> and
  \<open>long long\<close> have 64 bits, \<open>char\<close> is a HOL character and \<open>signed char\<close> an 8 bit word. Floating
  point values are kept as their bit patterns; no arithmetic is done on them here.

  A C++ function that throws, or that runs into undefined behaviour, returns a sum: \<open>Inl\<close> holds the
  error, \<open>Inr\<close> the value.
\<close>

named_theorems res_simps \<open>equations of the error monad\<close>

type_synonym c_int = "32 word"
type_synonym c_uint = "32 word"
type_synonym c_long = "64 word"
type_synonym c_ulong = "64 word"
type_synonym c_byte = "8 word"
type_synonym c_float = "32 word"
type_synonym c_double = "64 word"
type_synonym ('e, 'a) res = "'e + 'a"

text \<open>The exceptions the modelled code throws, and the undefined behaviour it can run into.\<close>

datatype cpp_error =
    UndefinedBehaviour
  | ConversionException
  | NodeBrowserException
  | IODataProviderException
  | SubscriberCallbackException
  | SASModelProviderException
  | HaNodeManagerException
  | HaNodeManagerIODataProviderBridgeException
  | HaSessionException
  | HaSubscriptionException
  | ServerException
  | GeneratorException

subsection \<open>The error monad\<close>

definition bindR :: "('e, 'a) res \<Rightarrow> ('a \<Rightarrow> ('e, 'b) res) \<Rightarrow> ('e, 'b) res" where
  "bindR m f = (case m of Inl e \<Rightarrow> Inl e | Inr x \<Rightarrow> f x)"

definition isOk :: "('e, 'a) res \<Rightarrow> bool" where
  "isOk m = (case m of Inl _ \<Rightarrow> False | Inr _ \<Rightarrow> True)"

definition guardR :: "bool \<Rightarrow> 'e \<Rightarrow> ('e, unit) res" where
  "guardR b e = (if b then Inr () else Inl e)"

definition mapR :: "('a \<Rightarrow> 'b) \<Rightarrow> ('e, 'a) res \<Rightarrow> ('e, 'b) res" where
  "mapR f m = bindR m (\<lambda>x. Inr (f x))"

lemma bindR_simps [simp, res_simps]:
  "bindR (Inl e) f = Inl e"
  "bindR (Inr x) f = f x"
  by (simp_all add: bindR_def)

lemma isOk_simps [simp, res_simps]: "\<not> isOk (Inl e)" "isOk (Inr x)"
  by (simp_all add: isOk_def)

lemma isOk_iff: "isOk m \<longleftrightarrow> (\<exists>x. m = Inr x)"
  by (cases m) simp_all

lemma guardR_simps [simp, res_simps]: "guardR True e = Inr ()" "guardR False e = Inl e"
  by (simp_all add: guardR_def)

lemma guardR_eq [simp]:
  "guardR b e = Inr u \<longleftrightarrow> b" "guardR b e = Inl e' \<longleftrightarrow> \<not> b \<and> e' = e"
  by (auto simp: guardR_def)

lemma mapR_simps [simp, res_simps]: "mapR f (Inl e) = Inl e" "mapR f (Inr x) = Inr (f x)"
  by (simp_all add: mapR_def)

lemma mapR_eq_Inr: "mapR f m = Inr y \<longleftrightarrow> (\<exists>x. m = Inr x \<and> y = f x)"
  by (cases m) auto

lemma bindR_cong [fundef_cong]:
  "m = m' \<Longrightarrow> (\<And>x. m' = Inr x \<Longrightarrow> f x = f' x) \<Longrightarrow> bindR m f = bindR m' f'"
  by (cases m') simp_all

lemma mapR_cong [fundef_cong]:
  "m = m' \<Longrightarrow> (\<And>x. m' = Inr x \<Longrightarrow> f x = f' x) \<Longrightarrow> mapR f m = mapR f' m'"
  by (cases m') simp_all

lemma bindR_eq_Inr: "bindR m f = Inr y \<longleftrightarrow> (\<exists>x. m = Inr x \<and> f x = Inr y)"
  by (cases m) simp_all

lemma bindR_eq_Inl: "bindR m f = Inl e \<longleftrightarrow> m = Inl e \<or> (\<exists>x. m = Inr x \<and> f x = Inl e)"
  by (cases m) auto

lemma bindR_assoc: "bindR (bindR m f) g = bindR m (\<lambda>x. bindR (f x) g)"
  by (cases m) simp_all

lemma isOk_bindR [simp]: "isOk (bindR m f) \<longleftrightarrow> (\<exists>x. m = Inr x \<and> isOk (f x))"
  by (cases m) simp_all

lemma isOk_mapR [simp]: "isOk (mapR f m) = isOk m"
  by (cases m) simp_all

text \<open>A loop that converts every element and stops at the first error.\<close>

fun traverseR :: "('a \<Rightarrow> ('e, 'b) res) \<Rightarrow> 'a list \<Rightarrow> ('e, 'b list) res" where
  "traverseR f [] = Inr []"
| "traverseR f (x # xs) = bindR (f x) (\<lambda>y. bindR (traverseR f xs) (\<lambda>ys. Inr (y # ys)))"

lemma traverseR_cong [fundef_cong]:
  "xs = ys \<Longrightarrow> (\<And>x. x \<in> set ys \<Longrightarrow> f x = g x) \<Longrightarrow> traverseR f xs = traverseR g ys"
  by (induction xs arbitrary: ys) auto

lemma traverseR_eq_Inr: "traverseR f xs = Inr ys \<longleftrightarrow> list_all2 (\<lambda>x y. f x = Inr y) xs ys"
  by (induction xs arbitrary: ys) (auto simp: bindR_eq_Inr list_all2_Cons1)

lemma traverseR_length: "traverseR f xs = Inr ys \<Longrightarrow> length ys = length xs"
  by (simp add: traverseR_eq_Inr list_all2_lengthD)

lemma isOk_traverseR: "isOk (traverseR f xs) \<longleftrightarrow> (\<forall>x\<in>set xs. isOk (f x))"
  by (induction xs) (auto simp: isOk_iff bindR_eq_Inr)

lemma traverseR_map: "traverseR f (map g xs) = traverseR (f \<circ> g) xs"
  by (induction xs) simp_all

lemma traverseR_mapR: "traverseR (\<lambda>x. mapR h (f x)) xs = mapR (map h) (traverseR f xs)"
proof (induction xs)
  case (Cons x xs)
  then show ?case by (cases "f x"; cases "traverseR f xs") simp_all
qed simp

lemma traverseR_all: "(\<And>x. x \<in> set xs \<Longrightarrow> f x = Inr (g x)) \<Longrightarrow> traverseR f xs = Inr (map g xs)"
  by (induction xs) simp_all

lemma traverseR_error_from:
  "traverseR f xs = Inl e \<Longrightarrow> \<exists>x\<in>set xs. f x = Inl e"
  by (induction xs) (auto simp: bindR_eq_Inl)

lemma traverseR_first_error:
  "\<forall>u\<in>set us. isOk (f u) \<Longrightarrow> f x = Inl e \<Longrightarrow> traverseR f (us @ x # vs) = Inl e"
  by (induction us) (auto simp: isOk_iff)

text \<open>Two loops in sequence: when each element survives \<open>f\<close> then \<open>g\<close>, so does the list.\<close>

lemma traverseR_roundtrip:
  "traverseR f xs = Inr ys \<Longrightarrow> (\<And>x y. x \<in> set xs \<Longrightarrow> f x = Inr y \<Longrightarrow> g y = Inr (h x)) \<Longrightarrow>
   traverseR g ys = Inr (map h xs)"
  by (induction xs arbitrary: ys) (auto simp: bindR_eq_Inr)

definition mapVals :: "('a \<Rightarrow> 'b) \<Rightarrow> ('k \<times> 'a) list \<Rightarrow> ('k \<times> 'b) list" where
  "mapVals f xs = map (\<lambda>p. (fst p, f (snd p))) xs"

lemma mapVals_simps [simp]: "mapVals f [] = []" "mapVals f (p # ps) = (fst p, f (snd p)) # mapVals f ps"
  by (simp_all add: mapVals_def)

lemma mapVals_cong [fundef_cong]:
  "xs = ys \<Longrightarrow> (\<And>x. x \<in> snd ` set ys \<Longrightarrow> f x = g x) \<Longrightarrow> mapVals f xs = mapVals g ys"
  by (simp add: mapVals_def)

lemma mapVals_keys [simp]: "map fst (mapVals f xs) = map fst xs"
  by (simp add: mapVals_def comp_def)

lemma mapVals_ident: "(\<And>x. x \<in> snd ` set xs \<Longrightarrow> f x = x) \<Longrightarrow> mapVals f xs = xs"
  by (induction xs) auto

definition allVals :: "('a \<Rightarrow> bool) \<Rightarrow> ('k \<times> 'a) list \<Rightarrow> bool" where
  "allVals P xs = list_all (\<lambda>p. P (snd p)) xs"

lemma allVals_simps [simp]: "allVals P []" "allVals P (p # ps) \<longleftrightarrow> P (snd p) \<and> allVals P ps"
  by (simp_all add: allVals_def)

lemma allVals_cong [fundef_cong]:
  "xs = ys \<Longrightarrow> (\<And>x. x \<in> snd ` set ys \<Longrightarrow> P x = Q x) \<Longrightarrow> allVals P xs = allVals Q ys"
  by (auto simp: allVals_def list_all_iff)

lemma allVals_iff: "allVals P xs \<longleftrightarrow> (\<forall>x \<in> snd ` set xs. P x)"
  by (simp add: allVals_def list_all_iff)

text \<open>The same loop over the entries of a \<open>std::map\<close>, kept as the list of its entries by key.\<close>

definition traverseFieldsR ::
  "('a \<Rightarrow> ('e, 'b) res) \<Rightarrow> ('k \<times> 'a) list \<Rightarrow> ('e, ('k \<times> 'b) list) res" where
  "traverseFieldsR f = traverseR (\<lambda>p. bindR (f (snd p)) (\<lambda>y. Inr (fst p, y)))"

lemma traverseFieldsR_simps [simp]:
  "traverseFieldsR f [] = Inr []"
  "traverseFieldsR f (p # ps) =
     bindR (f (snd p)) (\<lambda>y. bindR (traverseFieldsR f ps) (\<lambda>ys. Inr ((fst p, y) # ys)))"
  by (simp_all add: traverseFieldsR_def bindR_assoc)

lemma traverseFieldsR_cong [fundef_cong]:
  "xs = ys \<Longrightarrow> (\<And>x. x \<in> snd ` set ys \<Longrightarrow> f x = g x) \<Longrightarrow> traverseFieldsR f xs = traverseFieldsR g ys"
  unfolding traverseFieldsR_def by (rule traverseR_cong) simp_all

lemma traverseFieldsR_keys: "traverseFieldsR f xs = Inr ys \<Longrightarrow> map fst ys = map fst xs"
  by (induction xs arbitrary: ys) (auto simp: bindR_eq_Inr)

lemma isOk_traverseFieldsR: "isOk (traverseFieldsR f xs) \<longleftrightarrow> (\<forall>p\<in>set xs. isOk (f (snd p)))"
  by (simp add: traverseFieldsR_def isOk_traverseR) (simp add: isOk_iff)

lemma traverseFieldsR_error_from:
  "traverseFieldsR f xs = Inl e \<Longrightarrow> \<exists>p\<in>set xs. f (snd p) = Inl e"
  unfolding traverseFieldsR_def by (drule traverseR_error_from) (auto simp: bindR_eq_Inl)

lemma traverseFieldsR_roundtrip:
  "traverseFieldsR f xs = Inr ys \<Longrightarrow>
   (\<And>k x y. (k, x) \<in> set xs \<Longrightarrow> f x = Inr y \<Longrightarrow> g y = Inr (h x)) \<Longrightarrow>
   traverseFieldsR g ys = Inr (mapVals h xs)"
proof (induction xs arbitrary: ys)
  case (Cons p xs)
  obtain k x where p: "p = (k, x)" by (cases p)
  from Cons.prems(1) obtain y zs where
    y: "f x = Inr y" and zs: "traverseFieldsR f xs = Inr zs" and ys: "ys = (k, y) # zs"
    by (auto simp: bindR_eq_Inr p)
  have "g y = Inr (h x)" using y p by (auto intro: Cons.prems(2))
  moreover have "traverseFieldsR g zs = Inr (mapVals h xs)"
    by (rule Cons.IH [OF zs]) (auto intro: Cons.prems(2))
  ultimately show ?case by (simp add: ys p)
qed simp

subsection \<open>Integer conversions\<close>

lemma sint_inject: "sint (v :: 'a :: len word) = sint w \<longleftrightarrow> v = w"
  by (metis signed_word_eqI)

lemma narrow_widen [simp]:
  "ucast (scast (h :: 16 word) :: 32 word) = h"
  "ucast (ucast h :: 32 word) = h"
  "ucast (scast (i :: 32 word) :: 64 word) = i"
  "ucast (ucast i :: 64 word) = i"
  "ucast (ucast h :: 64 word) = h"
proof -
  show "ucast (scast (h :: 16 word) :: 32 word) = h"
    by transfer (simp add: take_bit_signed_take_bit)
  show "ucast (ucast h :: 32 word) = h" by transfer simp
  show "ucast (scast (i :: 32 word) :: 64 word) = i"
    by transfer (simp add: take_bit_signed_take_bit)
  show "ucast (ucast i :: 64 word) = i" by transfer simp
  show "ucast (ucast h :: 64 word) = h" by transfer simp
qed

lemma sint_narrow:
  "sint (ucast v :: 16 word) = signed_take_bit 15 (sint (v :: 32 word))"
  "sint (ucast w :: 32 word) = signed_take_bit 31 (sint (w :: 64 word))"
proof -
  show "sint (ucast v :: 16 word) = signed_take_bit 15 (sint (v :: 32 word))"
    by transfer (simp add: signed_take_bit_take_bit)
  show "sint (ucast w :: 32 word) = signed_take_bit 31 (sint (w :: 64 word))"
    by transfer (simp add: signed_take_bit_take_bit)
qed

lemma sint_widen:
  "sint (scast (h :: 16 word) :: 32 word) = sint h"
  "sint (scast (i :: 32 word) :: 64 word) = sint i"
proof -
  show "sint (scast (h :: 16 word) :: 32 word) = sint h" by transfer simp
  show "sint (scast (i :: 32 word) :: 64 word) = sint i" by transfer simp
qed

lemma uint_narrow_widen:
  "uint (ucast (ucast (v :: 32 word) :: 16 word) :: 32 word) = take_bit 16 (uint v)"
  "uint (ucast (ucast (w :: 64 word) :: 32 word) :: 64 word) = take_bit 32 (uint w)"
  "uint (ucast (ucast (w :: 64 word) :: 16 word) :: 64 word) = take_bit 16 (uint w)"
proof -
  show "uint (ucast (ucast (v :: 32 word) :: 16 word) :: 32 word) = take_bit 16 (uint v)"
    by transfer (simp add: min_def)
  show "uint (ucast (ucast (w :: 64 word) :: 32 word) :: 64 word) = take_bit 32 (uint w)"
    by transfer (simp add: min_def)
  show "uint (ucast (ucast (w :: 64 word) :: 16 word) :: 64 word) = take_bit 16 (uint w)"
    by transfer (simp add: min_def)
qed

lemma narrow_exact_iff:
  "scast (ucast v :: 16 word) = (v :: 32 word) \<longleftrightarrow> - (2 ^ 15) \<le> sint v \<and> sint v < 2 ^ 15"
  "scast (ucast w :: 32 word) = (w :: 64 word) \<longleftrightarrow> - (2 ^ 31) \<le> sint w \<and> sint w < 2 ^ 31"
  "ucast (ucast v :: 16 word) = v \<longleftrightarrow> uint v < 2 ^ 16"
  "ucast (ucast w :: 32 word) = w \<longleftrightarrow> uint w < 2 ^ 32"
proof -
  show "scast (ucast v :: 16 word) = (v :: 32 word) \<longleftrightarrow> - (2 ^ 15) \<le> sint v \<and> sint v < 2 ^ 15"
    by (simp only: sint_inject [symmetric, of _ v] sint_narrow sint_widen
        signed_take_bit_int_eq_self_iff)
  show "scast (ucast w :: 32 word) = (w :: 64 word) \<longleftrightarrow> - (2 ^ 31) \<le> sint w \<and> sint w < 2 ^ 31"
    by (simp only: sint_inject [symmetric, of _ w] sint_narrow sint_widen
        signed_take_bit_int_eq_self_iff)
  show "ucast (ucast v :: 16 word) = v \<longleftrightarrow> uint v < 2 ^ 16"
    by (simp only: word_uint_eq_iff uint_narrow_widen take_bit_int_eq_self_iff) simp
  show "ucast (ucast w :: 32 word) = w \<longleftrightarrow> uint w < 2 ^ 32"
    by (simp only: word_uint_eq_iff uint_narrow_widen take_bit_int_eq_self_iff) simp
qed

subsection \<open>Functions that throw only one exception\<close>

definition throwsOnly :: "'e \<Rightarrow> ('e, 'a) res \<Rightarrow> bool" where
  "throwsOnly e m = (case m of Inl e' \<Rightarrow> e' = e | Inr _ \<Rightarrow> True)"

lemma throwsOnly_simps [simp]: "throwsOnly e (Inr x)" "throwsOnly e (Inl e') \<longleftrightarrow> e' = e"
  by (simp_all add: throwsOnly_def)

lemma throwsOnly_iff: "throwsOnly e m \<longleftrightarrow> (\<forall>e'. m = Inl e' \<longrightarrow> e' = e)"
  by (cases m) simp_all

lemma throwsOnly_bindR [intro]:
  "throwsOnly e m \<Longrightarrow> (\<And>x. m = Inr x \<Longrightarrow> throwsOnly e (f x)) \<Longrightarrow> throwsOnly e (bindR m f)"
  by (cases m) simp_all

lemma throwsOnly_mapR [simp]: "throwsOnly e (mapR f m) = throwsOnly e m"
  by (cases m) simp_all

lemma throwsOnly_traverseR [intro]:
  "(\<And>x. x \<in> set xs \<Longrightarrow> throwsOnly e (f x)) \<Longrightarrow> throwsOnly e (traverseR f xs)"
  by (induction xs) (auto intro!: throwsOnly_bindR)

lemma throwsOnly_if [intro]:
  "(b \<Longrightarrow> throwsOnly e m) \<Longrightarrow> (\<not> b \<Longrightarrow> throwsOnly e n) \<Longrightarrow> throwsOnly e (if b then m else n)"
  by simp

subsection \<open>Exact conversions\<close>

text \<open>
  The contract of a pair of conversions: a value in the domain \<open>ok\<close> converts, and converts back to
  itself. Loops over lists and over map entries inherit it.
\<close>

locale exact_conversion =
  fixes up :: "'a \<Rightarrow> ('e, 'b) res"
    and down :: "'b \<Rightarrow> ('f, 'a) res"
    and ok :: "'a \<Rightarrow> bool"
  assumes back_ok: "ok a \<Longrightarrow> \<exists>b. up a = Inr b \<and> down b = Inr a"
begin

lemma up_ok: "ok a \<Longrightarrow> isOk (up a)"
  using back_ok by (auto simp: isOk_iff)

lemma up_inj: "ok a \<Longrightarrow> ok a' \<Longrightarrow> up a = up a' \<Longrightarrow> a = a'"
  using back_ok [of a] back_ok [of a'] by auto

lemma back_list: "list_all ok xs \<Longrightarrow> \<exists>bs. traverseR up xs = Inr bs \<and> traverseR down bs = Inr xs"
proof (induction xs)
  case (Cons a xs)
  then obtain b bs where
    "up a = Inr b" "down b = Inr a" "traverseR up xs = Inr bs" "traverseR down bs = Inr xs"
    using back_ok [of a] by auto
  then show ?case by (intro exI [of _ "b # bs"]) simp
qed simp

lemma back_fields:
  "allVals ok ps \<Longrightarrow> \<exists>qs. traverseFieldsR up ps = Inr qs \<and> traverseFieldsR down qs = Inr ps"
proof (induction ps)
  case (Cons p ps)
  then obtain b qs where
    "up (snd p) = Inr b" "down b = Inr (snd p)" "traverseFieldsR up ps = Inr qs"
    "traverseFieldsR down qs = Inr ps"
    using back_ok [of "snd p"] by auto
  then show ?case by (intro exI [of _ "(fst p, b) # qs"]) simp
qed simp

end

end
