(* ===== verification/Text_Util.thy ===== *)
theory Text_Util
  imports Prelude
begin

text \<open>
  The C and C++ string functions the program uses: the value seen through \<open>c_str()\<close>, integers written
  to and read from a stream, and \<open>std::getline\<close> with a delimiter.
\<close>

text \<open>A \<open>std::string\<close> built from a \<open>const char*\<close> ends before the first NUL character.\<close>

definition cstr :: "string \<Rightarrow> string" where
  "cstr s = takeWhile (\<lambda>c. c \<noteq> CHR 0x00) s"

definition noNul :: "string \<Rightarrow> bool" where
  "noNul s = list_all (\<lambda>c. c \<noteq> CHR 0x00) s"

lemma cstr_noNul [simp]: "noNul s \<Longrightarrow> cstr s = s"
  by (auto simp: cstr_def noNul_def list_all_iff takeWhile_eq_all_conv)

lemma noNul_cstr [simp]: "noNul (cstr s)"
  by (auto simp: cstr_def noNul_def list_all_iff dest: set_takeWhileD)

lemma cstr_idem [simp]: "cstr (cstr s) = cstr s"
  by simp

lemma cstr_eq_iff: "cstr s = s \<longleftrightarrow> noNul s"
  by (metis cstr_noNul noNul_cstr)

lemma noNul_simps [simp]:
  "noNul []" "noNul (c # s) \<longleftrightarrow> c \<noteq> CHR 0x00 \<and> noNul s" "noNul (s @ t) \<longleftrightarrow> noNul s \<and> noNul t"
  by (auto simp: noNul_def)

subsection \<open>Integers in text\<close>

definition isDigit :: "char \<Rightarrow> bool" where
  "isDigit c = (48 \<le> (of_char c :: nat) \<and> (of_char c :: nat) \<le> 57)"

definition isSpaceC :: "char \<Rightarrow> bool" where
  "isSpaceC c = ((of_char c :: nat) = 32 \<or> 9 \<le> (of_char c :: nat) \<and> (of_char c :: nat) \<le> 13)"

definition digitChar :: "nat \<Rightarrow> char" where
  "digitChar d = char_of (48 + d)"

definition digitVal :: "char \<Rightarrow> nat" where
  "digitVal c = of_char c - 48"

fun showNat :: "nat \<Rightarrow> string" where
  "showNat n = (if n < 10 then [digitChar n] else showNat (n div 10) @ [digitChar (n mod 10)])"

definition showInt :: "int \<Rightarrow> string" where
  "showInt i = (if i < 0 then CHR ''-'' # showNat (nat (- i)) else showNat (nat i))"

definition digitsVal :: "string \<Rightarrow> nat" where
  "digitsVal s = foldl (\<lambda>a c. 10 * a + digitVal c) 0 s"

text \<open>
  \<open>stream >> v\<close> for an \<open>int\<close>: white space is skipped, a sign and the digits are read. At the end of
  the input the old value stays, without digits the result is 0 and an overflow gives the nearest
  bound.
\<close>

definition scanInt :: "c_int \<Rightarrow> string \<Rightarrow> c_int" where
  "scanInt old s =
    (case dropWhile isSpaceC s of
       [] \<Rightarrow> old
     | c # cs \<Rightarrow>
         (let neg = (c = CHR ''-'');
              ds = takeWhile isDigit (if neg \<or> c = CHR ''+'' then cs else c # cs);
              v = (if neg then - int (digitsVal ds) else int (digitsVal ds))
          in word_of_int (max (- (2 ^ 31)) (min (2 ^ 31 - 1) v))))"

text \<open>The same for an \<open>unsigned long\<close>, where a minus sign negates modulo \<open>2 ^ 64\<close>.\<close>

definition scanULong :: "c_ulong \<Rightarrow> string \<Rightarrow> c_ulong" where
  "scanULong old s =
    (case dropWhile isSpaceC s of
       [] \<Rightarrow> old
     | c # cs \<Rightarrow>
         (let neg = (c = CHR ''-'');
              ds = takeWhile isDigit (if neg \<or> c = CHR ''+'' then cs else c # cs);
              v = digitsVal ds
          in if v > 2 ^ 64 - 1 then - 1 else if neg then - of_nat v else of_nat v))"

lemma of_char_digitChar: "d < 10 \<Longrightarrow> (of_char (digitChar d) :: nat) = 48 + d"
  by (simp add: digitChar_def)

lemma digitChar_simps [simp]:
  "d < 10 \<Longrightarrow> isDigit (digitChar d)" "d < 10 \<Longrightarrow> digitVal (digitChar d) = d"
  by (simp_all add: isDigit_def digitVal_def of_char_digitChar)

declare showNat.simps [simp del]

lemma showNat_ne [simp]: "showNat n \<noteq> []"
  by (simp add: showNat.simps)

lemma showNat_digits: "c \<in> set (showNat n) \<Longrightarrow> isDigit c"
proof (induction n rule: showNat.induct)
  case (1 n)
  show ?case
  proof (cases "n < 10")
    case True
    with 1 show ?thesis by (simp add: showNat.simps [of n])
  next
    case False
    with 1 show ?thesis by (auto simp: showNat.simps [of n])
  qed
qed

lemma digitsVal_snoc: "digitsVal (s @ [c]) = 10 * digitsVal s + digitVal c"
  by (simp add: digitsVal_def)

lemma digitsVal_showNat [simp]: "digitsVal (showNat n) = n"
proof (induction n rule: showNat.induct)
  case (1 n)
  show ?case
  proof (cases "n < 10")
    case True
    then show ?thesis by (simp add: showNat.simps [of n] digitsVal_def)
  next
    case False
    then show ?thesis using 1 by (subst showNat.simps) (simp add: digitsVal_snoc)
  qed
qed

lemma showNat_noNul [simp]: "noNul (showNat n)"
  using showNat_digits by (fastforce simp: noNul_def list_all_iff isDigit_def)

lemma showInt_noNul [simp]: "noNul (showInt i)"
  by (simp add: showInt_def)

lemma takeWhile_showNat [simp]: "takeWhile isDigit (showNat n) = showNat n"
  by (simp add: takeWhile_eq_all_conv showNat_digits)

lemma isDigit_notSpecial: "isDigit c \<Longrightarrow> \<not> isSpaceC c \<and> c \<noteq> CHR ''-'' \<and> c \<noteq> CHR ''+''"
  by (auto simp: isDigit_def isSpaceC_def)

lemma showNat_Cons: "\<exists>c cs. showNat n = c # cs \<and> isDigit c"
  using showNat_digits [of _ n] by (cases "showNat n") auto

lemma scanULong_showNat: "n < 2 ^ 64 \<Longrightarrow> scanULong old (showNat n) = of_nat n"
proof -
  assume n: "n < 2 ^ 64"
  obtain c cs where c: "showNat n = c # cs" "isDigit c" using showNat_Cons by blast
  note d = isDigit_notSpecial [OF c(2)]
  have tw: "takeWhile isDigit cs = cs" "digitsVal (c # cs) = n"
    using takeWhile_showNat [of n] digitsVal_showNat [of n] c(2) by (simp_all add: c(1))
  then show ?thesis using n d c(2) by (simp add: tw scanULong_def c(1) Let_def)
qed

lemma scanInt_showInt:
  assumes "- (2 ^ 31) \<le> i" "i < 2 ^ 31"
  shows "scanInt old (showInt i) = word_of_int i"
proof (cases "i < 0")
  case True
  then show ?thesis
    using assms by (simp add: scanInt_def showInt_def isSpaceC_def Let_def)
next
  case False
  obtain c cs where c: "showNat (nat i) = c # cs" "isDigit c" using showNat_Cons by blast
  note d = isDigit_notSpecial [OF c(2)]
  have tw: "takeWhile isDigit cs = cs" "digitsVal (c # cs) = nat i"
    using takeWhile_showNat [of "nat i"] digitsVal_showNat [of "nat i"] c(2)
    by (simp_all add: c(1))
  then show ?thesis
    using assms d False c(2) by (simp add: tw scanInt_def showInt_def c(1) Let_def)
qed

text \<open>\<open>std::getline\<close> up to a delimiter, repeated until the stream ends.\<close>

function (sequential) getlines :: "char \<Rightarrow> string \<Rightarrow> string list" where
  "getlines d [] = []"
| "getlines d s =
     takeWhile (\<lambda>c. c \<noteq> d) s #
     (case dropWhile (\<lambda>c. c \<noteq> d) s of [] \<Rightarrow> [] | _ # rest \<Rightarrow> getlines d rest)"
  by pat_completeness auto

termination
proof (relation "measure (\<lambda>p. length (snd p))", simp)
  fix d c s a rest
  assume "dropWhile (\<lambda>c. c \<noteq> d) (c # s) = a # rest"
  then have "Suc (length rest) \<le> length (c # s)"
    by (metis length_Cons length_dropWhile_le)
  then show "((d, rest), (d, c # s)) \<in> measure (\<lambda>p. length (snd p))" by simp
qed

lemma getlines_token:
  "d \<notin> set t \<Longrightarrow> getlines d (t @ d # rest) = t # getlines d rest"
proof -
  assume t: "d \<notin> set t"
  have "takeWhile (\<lambda>c. c \<noteq> d) (t @ d # rest) = t" "dropWhile (\<lambda>c. c \<noteq> d) (t @ d # rest) = d # rest"
    using t by (auto simp: takeWhile_append dropWhile_append)
  then show ?thesis by (cases "t @ d # rest") simp_all
qed

lemma getlines_last:
  "d \<notin> set t \<Longrightarrow> t \<noteq> [] \<Longrightarrow> getlines d t = [t]"
proof -
  assume "d \<notin> set t" "t \<noteq> []"
  then have "takeWhile (\<lambda>c. c \<noteq> d) t = t" "dropWhile (\<lambda>c. c \<noteq> d) t = []"
    by (auto simp: takeWhile_eq_all_conv dropWhile_eq_Nil_conv)
  with \<open>t \<noteq> []\<close> show ?thesis by (cases t) simp_all
qed

lemma showNat_notin [simp]: "\<not> isDigit c \<Longrightarrow> c \<notin> set (showNat n)"
  using showNat_digits by blast

end
