(* ===== verification/Common_Lib.thy ===== *)
theory Common_Lib
  imports Text_Util
begin

text \<open>
  The common library: exceptions with their chain of causes (\<open>common/Exception.cpp\<close>), the stack of
  installed logger factories (\<open>common/logging/LoggerFactory.cpp\<close>) and the scoped lock
  (\<open>common/MutexLock.cpp\<close>).
\<close>

subsection \<open>Exceptions\<close>

datatype c_exception =
  CException (exMessage: string) (exFile: string) (exLine: c_int)
    (exCause: "c_exception option") (exErrorCode: "c_ulong option")

definition newException :: "string \<Rightarrow> string \<Rightarrow> c_int \<Rightarrow> c_exception" where
  "newException message file line = CException message file line None None"

text \<open>The copy constructor copies the cause through its own \<open>copy\<close>, and the error code by value.\<close>

fun copyException :: "c_exception \<Rightarrow> c_exception" where
  "copyException (CException message file line cause errorCode) =
     CException message file line
       (case cause of None \<Rightarrow> None | Some c \<Rightarrow> Some (copyException c))
       (case errorCode of Some c \<Rightarrow> Some c | None \<Rightarrow> None)"

definition setCause :: "c_exception \<Rightarrow> c_exception \<Rightarrow> c_exception" where
  "setCause cause ex =
     CException (exMessage ex) (exFile ex) (exLine ex) (Some (copyException cause)) (exErrorCode ex)"

definition setErrorCode :: "c_ulong option \<Rightarrow> c_exception \<Rightarrow> c_exception" where
  "setErrorCode code ex =
     CException (exMessage ex) (exFile ex) (exLine ex) (exCause ex)
       (case code of Some c \<Rightarrow> Some c | None \<Rightarrow> None)"

fun getErrorCode :: "c_exception \<Rightarrow> c_ulong option" where
  "getErrorCode (CException message file line cause errorCode) =
     (case (errorCode, cause) of
        (None, Some c) \<Rightarrow> getErrorCode c
      | _ \<Rightarrow> errorCode)"

fun getStackTrace :: "c_exception \<Rightarrow> string \<Rightarrow> string" where
  "getStackTrace (CException message file line cause errorCode) acc =
     (let acc' = acc @ cstr message @ [CHR 0x0A] @ ''  at '' @ cstr file @ '':'' @ showInt (sint line)
      in case cause of
           None \<Rightarrow> acc'
         | Some c \<Rightarrow> getStackTrace c (acc' @ [CHR 0x0A] @ ''Caused by: ''))"

text \<open>The chain of an exception: itself, its cause, the cause's cause and so on.\<close>

fun causeChain :: "c_exception \<Rightarrow> c_exception list" where
  "causeChain (CException m f l cause e) =
     CException m f l cause e # (case cause of None \<Rightarrow> [] | Some c \<Rightarrow> causeChain c)"

lemma copyException_id [simp]: "copyException ex = ex"
  by (induction ex rule: copyException.induct) (auto split: option.splits)

text \<open>
  The error code of an exception is the one set closest to the top of its chain of causes, and it
  has none when no exception of the chain has one.
\<close>

theorem getErrorCode_nearest:
  "getErrorCode ex = (case filter (\<lambda>e. exErrorCode e \<noteq> None) (causeChain ex) of
                        [] \<Rightarrow> None | e # _ \<Rightarrow> exErrorCode e)"
  by (induction ex rule: getErrorCode.induct) (auto split: option.splits)

lemma getErrorCode_setErrorCode:
  "getErrorCode (setErrorCode (Some c) ex) = Some c"
  "exCause ex = Some r \<Longrightarrow> getErrorCode (setErrorCode None ex) = getErrorCode r"
  "exCause ex = None \<Longrightarrow> getErrorCode (setErrorCode None ex) = None"
  by (simp_all add: setErrorCode_def)

lemma getStackTrace_append: "getStackTrace ex acc = acc @ getStackTrace ex []"
proof (induction ex arbitrary: acc rule: copyException.induct)
  case (1 m f l cause e)
  show ?case
  proof (cases cause)
    case None
    then show ?thesis by simp
  next
    case (Some c)
    note IH = "1" [OF Some]
    show ?thesis
      by (simp only: getStackTrace.simps Some option.case Let_def)
        (subst (1 2) IH, simp)
  qed
qed

text \<open>One line of a stack trace, and the trace as the lines of the chain.\<close>

definition traceEntry :: "c_exception \<Rightarrow> string" where
  "traceEntry e = cstr (exMessage e) @ [CHR 0x0A] @ ''  at '' @ cstr (exFile e) @ '':'' @
     showInt (sint (exLine e))"

fun joinWith :: "'a list \<Rightarrow> 'a list list \<Rightarrow> 'a list" where
  "joinWith sep [] = []"
| "joinWith sep [x] = x"
| "joinWith sep (x # y # ys) = x @ sep @ joinWith sep (y # ys)"

lemma causeChain_ne: "\<exists>xs. causeChain ex = ex # xs"
  by (cases ex) (auto split: option.splits)

text \<open>
  The stack trace is one entry (message, file and line) for every exception of the chain, in the
  order of the chain, joined by \<open>Caused by:\<close> lines.
\<close>

theorem getStackTrace_lines:
  "getStackTrace ex [] =
     joinWith ([CHR 0x0A] @ ''Caused by: '') (map traceEntry (causeChain ex))"
proof (induction ex rule: causeChain.induct)
  case (1 m f l cause e)
  show ?case
  proof (cases cause)
    case None
    then show ?thesis by (simp add: traceEntry_def)
  next
    case (Some c)
    obtain xs where xs: "causeChain c = c # xs" using causeChain_ne by blast
    have IH: "getStackTrace c [] = joinWith (CHR 0x0A # ''Caused by: '') (traceEntry c # map traceEntry xs)"
      using "1" [OF Some] by (simp add: xs)
    show ?thesis
      by (subst getStackTrace.simps)
        (simp add: Some xs traceEntry_def [of "CException m f l (Some c) e"] IH [symmetric]
          getStackTrace_append [of c "_ @ _"] getStackTrace_append [of c "_ # _"] Let_def)
  qed
qed

subsection \<open>The installed logger factories\<close>

text \<open>
  The interface of a stack of scoped objects: entering a scope makes its object current, leaving one
  (in any order) makes the most recent live object current again. \<open>live\<close> lists the live objects, the
  most recent last.
\<close>

datatype 'a scope_op = Enter 'a | Leave 'a

text \<open>A run of scopes, and the list of live objects it should leave.\<close>

fun runScopes ::
  "('a \<Rightarrow> 's \<Rightarrow> 's) \<Rightarrow> ('a \<Rightarrow> 's \<Rightarrow> (cpp_error, 's) res) \<Rightarrow> 'a scope_op list \<Rightarrow> 's \<Rightarrow>
   (cpp_error, 's) res"
where
  "runScopes enter leave [] s = Inr s"
| "runScopes enter leave (Enter a # ops) s = runScopes enter leave ops (enter a s)"
| "runScopes enter leave (Leave a # ops) s = bindR (leave a s) (runScopes enter leave ops)"

fun replayScopes :: "'a scope_op list \<Rightarrow> 'a list \<Rightarrow> 'a list option" where
  "replayScopes [] xs = Some xs"
| "replayScopes (Enter a # ops) xs =
     (if a \<in> set xs then None else replayScopes ops (xs @ [a]))"
| "replayScopes (Leave a # ops) xs =
     (if a \<in> set xs then replayScopes ops (remove1 a xs) else None)"

locale scope_stack =
  fixes initial :: 's
    and enter :: "'a \<Rightarrow> 's \<Rightarrow> 's"
    and leave :: "'a \<Rightarrow> 's \<Rightarrow> (cpp_error, 's) res"
    and current :: "'s \<Rightarrow> 'a option"
    and live :: "'s \<Rightarrow> 'a list"
    and inv :: "'s \<Rightarrow> bool"
  assumes inv_initial: "inv initial"
    and live_initial: "live initial = []"
    and enter_live: "inv s \<Longrightarrow> a \<notin> set (live s) \<Longrightarrow> live (enter a s) = live s @ [a]"
    and enter_inv: "inv s \<Longrightarrow> a \<notin> set (live s) \<Longrightarrow> inv (enter a s)"
    and leave_ok:
      "inv s \<Longrightarrow> a \<in> set (live s) \<Longrightarrow>
         \<exists>s'. leave a s = Inr s' \<and> live s' = remove1 a (live s) \<and> inv s'"
    and current_live: "inv s \<Longrightarrow> current s = (if live s = [] then None else Some (last (live s)))"
begin

lemma run_replay:
  "inv s \<Longrightarrow> replayScopes ops (live s) = Some ys \<Longrightarrow>
   \<exists>s'. runScopes enter leave ops s = Inr s' \<and> live s' = ys \<and> inv s'"
proof (induction ops arbitrary: s)
  case (Cons op ops)
  show ?case
  proof (cases op)
    case (Enter a)
    with Cons show ?thesis by (auto simp: enter_live enter_inv split: if_splits)
  next
    case (Leave a)
    with Cons.prems obtain s' where "leave a s = Inr s'" "live s' = remove1 a (live s)" "inv s'"
      using leave_ok [of s a] by (auto split: if_splits)
    with Cons Leave show ?thesis by (auto split: if_splits)
  qed
qed simp

lemma run_current:
  assumes "replayScopes ops [] = Some ys"
  shows "\<exists>s'. runScopes enter leave ops initial = Inr s' \<and> live s' = ys \<and>
           current s' = (if ys = [] then None else Some (last ys))"
  using run_replay [of initial ops ys] assms current_live
  by (auto simp: inv_initial live_initial)

end

text \<open>The two static members; a factory is identified by its address.\<close>

type_synonym factory = nat

record logger_state =
  iloggerFactory :: "factory option"
  previous :: "factory list option"

definition loggerInitial :: logger_state where
  "loggerInitial = \<lparr>iloggerFactory = None, previous = None\<rparr>"

definition loggerEnter :: "factory \<Rightarrow> logger_state \<Rightarrow> logger_state" where
  "loggerEnter added s =
    (let prev = (case iloggerFactory s of
                   None \<Rightarrow> previous s
                 | Some f \<Rightarrow> Some ((case previous s of None \<Rightarrow> [] | Some fs \<Rightarrow> fs) @ [f]))
     in \<lparr>iloggerFactory = Some added, previous = prev\<rparr>)"

definition loggerLeave :: "factory \<Rightarrow> logger_state \<Rightarrow> (cpp_error, logger_state) res" where
  "loggerLeave added s =
    (if iloggerFactory s = Some added then
       (case previous s of
          None \<Rightarrow> Inr (s\<lparr>iloggerFactory := None\<rparr>)
        | Some fs \<Rightarrow>
            (if fs = [] then Inl UndefinedBehaviour
             else Inr \<lparr>iloggerFactory = Some (last fs),
                       previous = (if length fs = 1 then None else Some (butlast fs))\<rparr>))
     else
       (case previous s of
          None \<Rightarrow> Inl UndefinedBehaviour
        | Some fs \<Rightarrow>
            (if length fs = 1 then Inr (s\<lparr>previous := None\<rparr>)
             else if added \<in> set fs then Inr (s\<lparr>previous := Some (remove1 added fs)\<rparr>)
             else Inl UndefinedBehaviour)))"

definition getLoggerFrom :: "logger_state \<Rightarrow> factory option" where
  "getLoggerFrom s = iloggerFactory s"

definition loggerLive :: "logger_state \<Rightarrow> factory list" where
  "loggerLive s =
    (case previous s of None \<Rightarrow> [] | Some fs \<Rightarrow> fs) @
    (case iloggerFactory s of None \<Rightarrow> [] | Some f \<Rightarrow> [f])"

definition loggerInv :: "logger_state \<Rightarrow> bool" where
  "loggerInv s =
    (distinct (loggerLive s) \<and> previous s \<noteq> Some [] \<and>
     (iloggerFactory s = None \<longrightarrow> previous s = None))"

lemma loggerLeave_ok:
  assumes "loggerInv s" "a \<in> set (loggerLive s)"
  shows "\<exists>s'. loggerLeave a s = Inr s' \<and> loggerLive s' = remove1 a (loggerLive s) \<and> loggerInv s'"
proof -
  obtain f where f: "iloggerFactory s = Some f"
    using assms by (cases "iloggerFactory s") (auto simp: loggerInv_def loggerLive_def)
  show ?thesis
  proof (cases "previous s")
    case None
    then show ?thesis using assms f by (auto simp: loggerLeave_def loggerLive_def loggerInv_def)
  next
    case (Some fs)
    then have d: "distinct fs" "f \<notin> set fs" "fs \<noteq> []" "a \<in> set fs \<or> a = f"
      using assms f by (auto simp: loggerLive_def loggerInv_def)
    show ?thesis
    proof (cases "a = f")
      case True
      then show ?thesis
        using d f Some
        by (cases fs rule: rev_cases)
          (auto simp: loggerLeave_def loggerLive_def loggerInv_def remove1_append)
    next
      case False
      then have "a \<in> set fs" using d by simp
      then show ?thesis
        using d f Some False
        by (cases fs; cases "tl fs")
          (auto simp: loggerLeave_def loggerLive_def loggerInv_def remove1_append distinct_remove1
            split: if_splits dest: in_set_remove1 notin_set_remove1)
    qed
  qed
qed

interpretation lf: scope_stack loggerInitial loggerEnter loggerLeave getLoggerFrom loggerLive loggerInv
proof (unfold_locales, goal_cases)
  case (3 s a)
  then show ?case by (auto simp: loggerEnter_def loggerLive_def loggerInv_def split: option.splits)
next
  case (4 s a)
  then show ?case by (auto simp: loggerEnter_def loggerLive_def loggerInv_def split: option.splits)
next
  case (5 s a)
  then show ?case by (rule loggerLeave_ok)
next
  case (6 s)
  then show ?case by (auto simp: getLoggerFrom_def loggerLive_def loggerInv_def split: option.splits)
qed (simp_all add: loggerInitial_def loggerInv_def loggerLive_def)

text \<open>
  C32. Logger factories may be destroyed in any order: after every sequence of constructions (of
  factories not yet installed) and destructions (of installed ones) no undefined behaviour has
  happened, the installed factories are the ones that are alive in order of construction, and
  \<open>getLogger\<close> uses the most recent of them.
\<close>

theorem logger_scopes:
  "replayScopes ops [] = Some ys \<Longrightarrow>
   \<exists>s. runScopes loggerEnter loggerLeave ops loggerInitial = Inr s \<and> loggerLive s = ys \<and>
       getLoggerFrom s = (if ys = [] then None else Some (last ys))"
  by (rule lf.run_current)

theorem logger_scopes_witness:
  "\<exists>s. runScopes loggerEnter loggerLeave [Enter 1, Enter 2, Enter 3, Leave 2, Leave 3, Enter 4, Leave 1]
         loggerInitial = Inr s \<and> loggerLive s = [4] \<and> getLoggerFrom s = Some 4"
  using logger_scopes [of "[Enter 1, Enter 2, Enter 3, Leave 2, Leave 3, Enter 4, Leave 1]" "[4]"]
  by simp

end
