(* ===== verification/Io_Values.thy ===== *)
theory Io_Values
  imports Common_Lib
begin

text \<open>
  The values of the internal interface (\<open>ioDataProvider/\<close>): node ids, scalars, arrays, structures, node
  properties and event data. A class with a tagged union is a datatype with one constructor per tag; a
  pointer that may be \<open>NULL\<close> is an option. The private members are reached through their selectors as
  the getters do. A \<open>std::map\<close> is the list of its entries in key order.
\<close>

subsection \<open>Node ids\<close>

datatype io_node_id =
    NodeIdNumeric (ioNamespaceIndex: c_int) c_long
  | NodeIdString (ioNamespaceIndex: c_int) string

fun nodeIdEquals :: "io_node_id \<Rightarrow> io_node_id \<Rightarrow> bool" where
  "nodeIdEquals (NodeIdNumeric n i) (NodeIdNumeric m j) = (n = m \<and> i = j)"
| "nodeIdEquals (NodeIdString n s) (NodeIdString m t) = (n = m \<and> s = t)"
| "nodeIdEquals (NodeIdNumeric _ _) (NodeIdString _ _) = False"
| "nodeIdEquals (NodeIdString _ _) (NodeIdNumeric _ _) = False"

lemma nodeIdEquals_eq [simp]: "nodeIdEquals a b \<longleftrightarrow> a = b"
  by (cases a; cases b) simp_all

fun ioNodeIdToString :: "io_node_id \<Rightarrow> string" where
  "ioNodeIdToString (NodeIdNumeric n i) =
     ''IODataProviderNamespace::NodeId[type='' @ ''numeric,ns='' @ showInt (sint n) @
     '',value='' @ showInt (sint i) @ '']''"
| "ioNodeIdToString (NodeIdString n s) =
     ''IODataProviderNamespace::NodeId[type='' @ ''string,ns='' @ showInt (sint n) @
     '',value='' @ cstr s @ '']''"

lemma ioNodeIdToString_noNul [simp]: "noNul (ioNodeIdToString n)"
  by (cases n) simp_all

subsection \<open>Scalars\<close>

datatype io_scalar =
    IOBool bool
  | IOSChar c_byte
  | IOChar char
  | IOInt c_int
  | IOUInt c_uint
  | IOLong c_long
  | IOULong c_ulong
  | IOLLong "64 word"
  | IOULLong "64 word"
  | IOFloat c_float
  | IODouble c_double
  | IOString "string option"
  | IOByteString "c_byte list option"
  | IOLocalizedText "string option" "string option"

text \<open>The numbers of \<open>Scalar::Type\<close>; an array carries one of them or one of \<open>Variant::Type\<close>.\<close>

definition ioBOOL :: int where "ioBOOL = 1"
definition ioSCHAR :: int where "ioSCHAR = 2"
definition ioCHAR :: int where "ioCHAR = 3"
definition ioINT :: int where "ioINT = 4"
definition ioUINT :: int where "ioUINT = 5"
definition ioLONG :: int where "ioLONG = 6"
definition ioULONG :: int where "ioULONG = 7"
definition ioLLONG :: int where "ioLLONG = 8"
definition ioULLONG :: int where "ioULLONG = 9"
definition ioFLOAT :: int where "ioFLOAT = 10"
definition ioDOUBLE :: int where "ioDOUBLE = 11"
definition ioSTRING :: int where "ioSTRING = 12"
definition ioBYTE_STRING :: int where "ioBYTE_STRING = 15"
definition ioLOCALIZED_TEXT :: int where "ioLOCALIZED_TEXT = 21"
definition ioVARIANT :: int where "ioVARIANT = 24"
definition ioSCALAR :: int where "ioSCALAR = - 1"
definition ioARRAY :: int where "ioARRAY = 30"
definition ioNODE_ID :: int where "ioNODE_ID = 31"
definition ioSTRUCTURE :: int where "ioSTRUCTURE = 32"
definition ioNODE_PROPERTIES :: int where "ioNODE_PROPERTIES = 33"
definition ioOPC_UA_EVENT_DATA :: int where "ioOPC_UA_EVENT_DATA = 34"

lemmas io_type_nums =
  ioBOOL_def ioSCHAR_def ioCHAR_def ioINT_def ioUINT_def ioLONG_def ioULONG_def ioLLONG_def
  ioULLONG_def ioFLOAT_def ioDOUBLE_def ioSTRING_def ioBYTE_STRING_def ioLOCALIZED_TEXT_def
  ioVARIANT_def ioSCALAR_def ioARRAY_def ioNODE_ID_def ioSTRUCTURE_def ioNODE_PROPERTIES_def
  ioOPC_UA_EVENT_DATA_def

fun ioScalarType :: "io_scalar \<Rightarrow> int" where
  "ioScalarType (IOBool _) = ioBOOL"
| "ioScalarType (IOSChar _) = ioSCHAR"
| "ioScalarType (IOChar _) = ioCHAR"
| "ioScalarType (IOInt _) = ioINT"
| "ioScalarType (IOUInt _) = ioUINT"
| "ioScalarType (IOLong _) = ioLONG"
| "ioScalarType (IOULong _) = ioULONG"
| "ioScalarType (IOLLong _) = ioLLONG"
| "ioScalarType (IOULLong _) = ioULLONG"
| "ioScalarType (IOFloat _) = ioFLOAT"
| "ioScalarType (IODouble _) = ioDOUBLE"
| "ioScalarType (IOString _) = ioSTRING"
| "ioScalarType (IOByteString _) = ioBYTE_STRING"
| "ioScalarType (IOLocalizedText _ _) = ioLOCALIZED_TEXT"

subsection \<open>Variants\<close>

datatype value_handling = VhNone | VhSync | VhAsync

text \<open>
  Event data carries the source node, the message, the severity and the data of the fields; the data
  of a field is its node, its value (or \<open>NULL\<close>) and its exception (or \<open>NULL\<close>).
\<close>

datatype io_variant =
    IOScalar io_scalar
  | IOArray int "io_variant list option"
  | IONodeId io_node_id
  | IOStructure io_node_id "(string \<times> io_variant) list"
  | IONodeProperties value_handling
  | IOEventData io_node_id string c_int
      "(io_node_id \<times> io_variant option \<times> c_exception option) list"

fun ioVariantType :: "io_variant \<Rightarrow> int" where
  "ioVariantType (IOScalar _) = ioSCALAR"
| "ioVariantType (IOArray _ _) = ioARRAY"
| "ioVariantType (IONodeId _) = ioNODE_ID"
| "ioVariantType (IOStructure _ _) = ioSTRUCTURE"
| "ioVariantType (IONodeProperties _) = ioNODE_PROPERTIES"
| "ioVariantType (IOEventData _ _ _ _) = ioOPC_UA_EVENT_DATA"

text \<open>The data of a node, and the data of a method call.\<close>

record io_node_data =
  ndNodeId :: io_node_id
  ndData :: "io_variant option"
  ndException :: "c_exception option"

record io_method_data =
  mdObjectNodeId :: io_node_id
  mdMethodNodeId :: io_node_id
  mdMethodArgs :: "io_variant list"
  mdException :: "c_exception option"

definition newNodeData :: "io_node_id \<Rightarrow> io_variant option \<Rightarrow> io_node_data" where
  "newNodeData n v = \<lparr>ndNodeId = n, ndData = v, ndException = None\<rparr>"

definition newMethodData :: "io_node_id \<Rightarrow> io_node_id \<Rightarrow> io_variant list \<Rightarrow> io_method_data" where
  "newMethodData obj m args =
    \<lparr>mdObjectNodeId = obj, mdMethodNodeId = m, mdMethodArgs = args, mdException = None\<rparr>"

end
