(* ===== verification/Bin_Values.thy ===== *)
theory Bin_Values
  imports Text_Util
begin

text \<open>
  The values of the binary protocol (\<open>provider/binary/messages/dto/\<close>): parameter ids with their text
  form, scalars, arrays and structs.
\<close>

subsection \<open>Parameter ids\<close>

datatype param_id =
    ParamNumeric (paramNamespaceIndex: c_int) c_ulong
  | ParamString (paramNamespaceIndex: c_int) string

fun paramIdToString :: "param_id \<Rightarrow> string" where
  "paramIdToString (ParamNumeric n i) = ''NS'' @ showInt (sint n) @ ''|'' @ ''Numeric|'' @ showNat (unat i)"
| "paramIdToString (ParamString n s) = ''NS'' @ showInt (sint n) @ ''|'' @ ''String|'' @ cstr s"

text \<open>
  \<open>ParamId(std::string)\<close>: the value read from the text. A freshly created private part is zero, so an
  unreadable text gives the numeric id 0 of namespace 0.
\<close>

definition paramIdParse :: "string \<Rightarrow> param_id" where
  "paramIdParse fullString =
    (let v = getlines (CHR ''|'') fullString in
     if length v > 2 then
       (let vns = getlines (CHR ''S'') (v ! 0);
            ns = (if length vns > 1 then scanInt 0 (vns ! 1) else 0)
        in if v ! 1 = ''Numeric'' then ParamNumeric ns (scanULong 0 (v ! 2))
           else ParamString ns (v ! 2))
     else ParamNumeric 0 0)"

text \<open>
  The object the constructor leaves: for a string id the member points to a string of the local
  vector, which is gone when the constructor returns.
\<close>

datatype param_id_object =
    PObjNumeric c_int c_ulong
  | PObjString c_int string
  | PObjDangling c_int

definition newParamIdParsed :: "string \<Rightarrow> param_id_object" where
  "newParamIdParsed fullString =
    (case paramIdParse fullString of
       ParamNumeric n i \<Rightarrow> PObjNumeric n i
     | ParamString n _ \<Rightarrow> PObjDangling n)"

definition newParamId :: "param_id \<Rightarrow> param_id_object" where
  "newParamId p = (case p of ParamNumeric n i \<Rightarrow> PObjNumeric n i | ParamString n s \<Rightarrow> PObjString n s)"

fun paramIdValue :: "param_id_object \<Rightarrow> (cpp_error, param_id) res" where
  "paramIdValue (PObjNumeric n i) = Inr (ParamNumeric n i)"
| "paramIdValue (PObjString n s) = Inr (ParamString n s)"
| "paramIdValue (PObjDangling n) = Inl UndefinedBehaviour"

lemma paramIdValue_new [simp]: "paramIdValue (newParamId p) = Inr p"
  by (cases p) (simp_all add: newParamId_def)

definition paramIdTextual :: "param_id \<Rightarrow> bool" where
  "paramIdTextual p =
    (case p of ParamNumeric _ _ \<Rightarrow> True
     | ParamString _ s \<Rightarrow> s \<noteq> [] \<and> noNul s \<and> CHR ''|'' \<notin> set s)"

lemma showInt_notin [simp]: "\<not> isDigit c \<Longrightarrow> c \<noteq> CHR ''-'' \<Longrightarrow> c \<notin> set (showInt i)"
  by (simp add: showInt_def)

lemma showInt_ne [simp]: "showInt i \<noteq> []"
  by (simp add: showInt_def)

lemma isDigit_lits [simp]: "\<not> isDigit (CHR ''|'')" "\<not> isDigit (CHR ''S'')"
  by (simp_all add: isDigit_def)

lemma scanInt_showInt_word [simp]: "scanInt old (showInt (sint (w :: c_int))) = w"
proof -
  have "- (2 ^ 31) \<le> sint w" "sint w < 2 ^ 31"
    using sint_greater_eq [of w] sint_less [of w] by simp_all
  then show ?thesis by (simp add: scanInt_showInt)
qed

lemma scanULong_showNat_word [simp]: "scanULong old (showNat (unat (w :: c_ulong))) = w"
  using unsigned_less [of w, where 'a = nat] by (simp add: scanULong_showNat)

lemma getlines_ns: "getlines (CHR ''S'') (''NS'' @ showInt i) = [''N'', showInt i]"
  using getlines_token [of "CHR ''S''" "''N''" "showInt i"] by (simp add: getlines_last)

lemma getlines_text:
  "kind \<noteq> [] \<Longrightarrow> CHR ''|'' \<notin> set kind \<Longrightarrow>
   getlines (CHR ''|'') (''NS'' @ showInt i @ ''|'' @ kind @ ''|'' @ rest) =
     (''NS'' @ showInt i) # kind # getlines (CHR ''|'') rest"
  using getlines_token [of "CHR ''|''" "''NS'' @ showInt i" "kind @ ''|'' @ rest"]
    getlines_token [of "CHR ''|''" kind rest]
  by simp

lemma getlines_Cons:
  "s \<noteq> [] \<Longrightarrow> \<exists>ts. getlines d s = takeWhile (\<lambda>c. c \<noteq> d) s # ts"
  by (cases s) simp_all

lemma paramIdParse_numeric: "paramIdParse (paramIdToString (ParamNumeric n i)) = ParamNumeric n i"
  using getlines_text [of "''Numeric''" "sint n" "showNat (unat i)"] getlines_ns [of "sint n"]
  by (simp add: paramIdParse_def getlines_last Let_def)

lemma paramIdParse_string:
  "paramIdParse (paramIdToString (ParamString n s)) =
     (if cstr s = [] then ParamNumeric 0 0
      else ParamString n (takeWhile (\<lambda>c. c \<noteq> CHR ''|'') (cstr s)))"
proof (cases "cstr s = []")
  case True
  then show ?thesis
    using getlines_text [of "''String''" "sint n" "[]"] by (simp add: paramIdParse_def)
next
  case False
  then obtain ts where
    "getlines (CHR ''|'') (cstr s) = takeWhile (\<lambda>c. c \<noteq> CHR ''|'') (cstr s) # ts"
    using getlines_Cons by blast
  then show ?thesis
    using False getlines_text [of "''String''" "sint n" "cstr s"] getlines_ns [of "sint n"]
    by (simp add: paramIdParse_def Let_def)
qed

text \<open>
  The text of a parameter id reads back as the same id exactly for the numeric ids and for the
  string ids that are not empty and contain neither a bar nor a NUL.
\<close>

theorem paramId_text_roundtrip:
  "paramIdParse (paramIdToString p) = p \<longleftrightarrow> paramIdTextual p"
proof (cases p)
  case (ParamNumeric n i)
  then show ?thesis
    using paramIdParse_numeric by (simp add: paramIdTextual_def del: paramIdToString.simps)
next
  case (ParamString n s)
  have "takeWhile (\<lambda>c. c \<noteq> CHR ''|'') (cstr s) = s \<longleftrightarrow> noNul s \<and> CHR ''|'' \<notin> set s"
  proof
    assume a: "takeWhile (\<lambda>c. c \<noteq> CHR ''|'') (cstr s) = s"
    then have "length s \<le> length (cstr s)" by (metis length_takeWhile_le)
    moreover have "length (cstr s) \<le> length s" by (simp add: cstr_def length_takeWhile_le)
    ultimately have "cstr s = s"
      by (metis a cstr_def le_antisym takeWhile_eq_take take_all_iff)
    then show "noNul s \<and> CHR ''|'' \<notin> set s"
      using a by (auto simp: cstr_eq_iff takeWhile_eq_all_conv)
  qed (auto simp: takeWhile_eq_all_conv)
  then show ?thesis
    using ParamString paramIdParse_string [of n s]
    by (auto simp: paramIdTextual_def simp del: paramIdToString.simps)
qed

text \<open>
  The object constructed from the text of a string id cannot be used: its member points to a string
  that is destroyed at the end of the constructor (and an empty id turns into the numeric id 0).
\<close>

theorem paramId_parsed_object:
  "paramIdValue (newParamIdParsed (paramIdToString p)) =
     (case p of
        ParamNumeric n i \<Rightarrow> Inr (ParamNumeric n i)
      | ParamString n s \<Rightarrow> if cstr s = [] then Inr (ParamNumeric 0 0) else Inl UndefinedBehaviour)"
proof (cases p)
  case (ParamNumeric n i)
  then show ?thesis
    using paramIdParse_numeric [of n i] by (simp add: newParamIdParsed_def)
next
  case (ParamString n s)
  then show ?thesis
    using paramIdParse_string [of n s] by (simp add: newParamIdParsed_def)
qed

subsection \<open>Variants\<close>

datatype bin_scalar =
    BBoolean bool
  | BChar char
  | BByte c_byte
  | BShort c_int
  | BInt c_long
  | BLong "64 word"
  | BFloat c_float
  | BDouble c_double

text \<open>The numbers of \<open>Scalar::Type\<close> and \<open>Variant::Type\<close>.\<close>

definition binBOOLEAN :: int where "binBOOLEAN = 0"
definition binCHAR :: int where "binCHAR = 1"
definition binBYTE :: int where "binBYTE = 2"
definition binSHORT :: int where "binSHORT = 3"
definition binINT :: int where "binINT = 4"
definition binLONG :: int where "binLONG = 5"
definition binFLOAT :: int where "binFLOAT = 6"
definition binDOUBLE :: int where "binDOUBLE = 7"
definition binARRAY :: int where "binARRAY = 8"
definition binSTRUCT :: int where "binSTRUCT = 9"

lemmas bin_type_nums =
  binBOOLEAN_def binCHAR_def binBYTE_def binSHORT_def binINT_def binLONG_def binFLOAT_def
  binDOUBLE_def binARRAY_def binSTRUCT_def

fun binScalarType :: "bin_scalar \<Rightarrow> int" where
  "binScalarType (BBoolean _) = binBOOLEAN"
| "binScalarType (BChar _) = binCHAR"
| "binScalarType (BByte _) = binBYTE"
| "binScalarType (BShort _) = binSHORT"
| "binScalarType (BInt _) = binINT"
| "binScalarType (BLong _) = binLONG"
| "binScalarType (BFloat _) = binFLOAT"
| "binScalarType (BDouble _) = binDOUBLE"

datatype bin_variant =
    BScalar bin_scalar
  | BArray int "bin_variant list"
  | BStruct param_id "(string \<times> bin_variant) list"

text \<open>Reading a member of the union that was not written last is undefined.\<close>

fun binGetChar :: "bin_variant \<Rightarrow> (cpp_error, char) res" where
  "binGetChar (BScalar (BChar c)) = Inr c"
| "binGetChar _ = Inl UndefinedBehaviour"

fun binGetByte :: "bin_variant \<Rightarrow> (cpp_error, c_byte) res" where
  "binGetByte (BScalar (BByte b)) = Inr b"
| "binGetByte _ = Inl UndefinedBehaviour"

end
