(* ===== verification/Converter_Bin2IO.thy ===== *)
theory Converter_Bin2IO
  imports Io_Values Bin_Values
begin

text \<open>
  The converter between binary values and values of the internal interface
  (\<open>provider/binary/messages/ConverterBin2IO.cpp\<close>), in both directions.
\<close>

subsection \<open>Binary to internal\<close>

text \<open>A parameter id without a name space of its own gets the one of the destination.\<close>

definition bin2ioNodeId :: "param_id \<Rightarrow> c_int \<Rightarrow> io_node_id" where
  "bin2ioNodeId paramId destNamespaceIndex =
    (let namespaceIndex =
           (if 0 \<le> sint (paramNamespaceIndex paramId) then paramNamespaceIndex paramId
            else destNamespaceIndex)
     in case paramId of
          ParamNumeric _ i \<Rightarrow> NodeIdNumeric namespaceIndex i
        | ParamString _ s \<Rightarrow> NodeIdString namespaceIndex s)"

fun bin2ioScalar :: "bin_scalar \<Rightarrow> io_scalar" where
  "bin2ioScalar (BBoolean b) = IOBool b"
| "bin2ioScalar (BByte b) = IOSChar b"
| "bin2ioScalar (BChar c) = IOChar c"
| "bin2ioScalar (BShort i) = IOInt i"
| "bin2ioScalar (BInt i) = IOLong i"
| "bin2ioScalar (BLong i) = IOLLong i"
| "bin2ioScalar (BFloat f) = IOFloat f"
| "bin2ioScalar (BDouble f) = IODouble f"

definition bin2ioArrayType :: "int \<Rightarrow> int option" where
  "bin2ioArrayType t =
    (if t = binBOOLEAN then Some ioBOOL
     else if t = binSHORT then Some ioINT
     else if t = binINT then Some ioLONG
     else if t = binLONG then Some ioLLONG
     else if t = binFLOAT then Some ioFLOAT
     else if t = binDOUBLE then Some ioDOUBLE
     else if t = binARRAY then Some ioARRAY
     else if t = binSTRUCT then Some ioSTRUCTURE
     else None)"

text \<open>An array of arrays takes the type of its first scalar element, once there is one.\<close>

definition arrayTypeAfter :: "int \<Rightarrow> io_variant \<Rightarrow> int" where
  "arrayTypeAfter arrayType v =
    (case v of IOScalar s \<Rightarrow> if arrayType = ioARRAY then ioScalarType s else arrayType
     | _ \<Rightarrow> arrayType)"

text \<open>The conversion of arrays and structures, over the conversion of their parts.\<close>

definition bin2ioArrayValue ::
  "(bin_variant \<Rightarrow> (cpp_error, io_variant) res) \<Rightarrow> int \<Rightarrow> bin_variant list \<Rightarrow> (cpp_error, io_variant) res"
where
  "bin2ioArrayValue convert t elements =
     (if t = binCHAR then
        bindR (traverseR binGetChar elements) (\<lambda>str. Inr (IOScalar (IOString (Some (cstr str)))))
      else if t = binBYTE then
        bindR (traverseR binGetByte elements) (\<lambda>str. Inr (IOScalar (IOByteString (Some str))))
      else
        (case bin2ioArrayType t of
           None \<Rightarrow> Inl ConversionException
         | Some arrayType \<Rightarrow>
             bindR (traverseR convert elements)
               (\<lambda>elems. Inr (IOArray (foldl arrayTypeAfter arrayType elems) (Some elems)))))"

definition bin2ioStructureValue ::
  "(bin_variant \<Rightarrow> (cpp_error, io_variant) res) \<Rightarrow> c_int \<Rightarrow> param_id \<Rightarrow> (string \<times> bin_variant) list \<Rightarrow>
   (cpp_error, io_variant) res"
where
  "bin2ioStructureValue convert dest structId members =
     bindR (traverseFieldsR convert members)
       (\<lambda>fieldData. Inr (IOStructure (bin2ioNodeId structId dest) fieldData))"

lemma bin2ioArrayValue_cong [fundef_cong]:
  "t = t' \<Longrightarrow> es = es' \<Longrightarrow> (\<And>x. x \<in> set es' \<Longrightarrow> f x = g x) \<Longrightarrow>
   bin2ioArrayValue f t es = bin2ioArrayValue g t' es'"
  unfolding bin2ioArrayValue_def using traverseR_cong [of es es' f g] by (simp split: option.split)

lemma bin2ioStructureValue_cong [fundef_cong]:
  "d = d' \<Longrightarrow> p = p' \<Longrightarrow> ms = ms' \<Longrightarrow> (\<And>x. x \<in> snd ` set ms' \<Longrightarrow> f x = g x) \<Longrightarrow>
   bin2ioStructureValue f d p ms = bin2ioStructureValue g d' p' ms'"
  unfolding bin2ioStructureValue_def using traverseFieldsR_cong [of ms ms' f g] by simp

fun bin2io :: "c_int \<Rightarrow> bin_variant \<Rightarrow> (cpp_error, io_variant) res" where
  "bin2io dest (BScalar s) = Inr (IOScalar (bin2ioScalar s))"
| "bin2io dest (BArray t elements) = bin2ioArrayValue (bin2io dest) t elements"
| "bin2io dest (BStruct structId members) = bin2ioStructureValue (bin2io dest) dest structId members"

lemmas bin2io_defs [simp] = bin2ioArrayValue_def bin2ioStructureValue_def

subsection \<open>Internal to binary\<close>

fun io2binNodeId :: "io_node_id \<Rightarrow> param_id" where
  "io2binNodeId (NodeIdNumeric n i) = ParamNumeric n i"
| "io2binNodeId (NodeIdString n s) = ParamString n s"

definition charArray :: "string \<Rightarrow> bin_variant" where
  "charArray s = BArray binCHAR (map (\<lambda>c. BScalar (BChar c)) s)"

definition byteArray :: "c_byte list \<Rightarrow> bin_variant" where
  "byteArray bs = BArray binBYTE (map (\<lambda>b. BScalar (BByte b)) bs)"

text \<open>A node id is sent as the text of its debug representation.\<close>

definition io2binNodeIdValue :: "io_node_id \<Rightarrow> bin_variant" where
  "io2binNodeIdValue n = charArray (ioNodeIdToString n)"

fun io2binScalar :: "io_scalar \<Rightarrow> (cpp_error, bin_variant) res" where
  "io2binScalar (IOBool b) = Inr (BScalar (BBoolean b))"
| "io2binScalar (IOSChar b) = Inr (BScalar (BByte b))"
| "io2binScalar (IOChar c) = Inr (BScalar (BChar c))"
| "io2binScalar (IOInt i) = Inr (BScalar (BShort i))"
| "io2binScalar (IOUInt u) = Inr (BScalar (BInt (ucast u)))"
| "io2binScalar (IOLong i) = Inr (BScalar (BInt i))"
| "io2binScalar (IOULong u) = Inr (BScalar (BLong u))"
| "io2binScalar (IOLLong i) = Inr (BScalar (BLong i))"
| "io2binScalar (IOFloat f) = Inr (BScalar (BFloat f))"
| "io2binScalar (IODouble f) = Inr (BScalar (BDouble f))"
| "io2binScalar (IOString s) = Inr (charArray (case s of None \<Rightarrow> [] | Some t \<Rightarrow> t))"
| "io2binScalar (IOByteString s) = Inr (byteArray (case s of None \<Rightarrow> [] | Some t \<Rightarrow> t))"
| "io2binScalar (IOLocalizedText locale text) =
     Inr (charArray (case text of None \<Rightarrow> [] | Some t \<Rightarrow> t))"
| "io2binScalar (IOULLong _) = Inl ConversionException"

definition io2binArrayType :: "int \<Rightarrow> int option" where
  "io2binArrayType t =
    (if t = ioBOOL then Some binBOOLEAN
     else if t = ioSCHAR then Some binBYTE
     else if t = ioINT then Some binSHORT
     else if t = ioUINT then Some binINT
     else if t = ioLONG then Some binINT
     else if t = ioULONG then Some binLONG
     else if t = ioLLONG then Some binLONG
     else if t = ioFLOAT then Some binFLOAT
     else if t = ioDOUBLE then Some binDOUBLE
     else if t = ioSTRING \<or> t = ioBYTE_STRING \<or> t = ioLOCALIZED_TEXT \<or> t = ioVARIANT
       then Some binARRAY
     else if t = ioSTRUCTURE then Some binSTRUCT
     else None)"

definition io2binArrayValue ::
  "(io_variant \<Rightarrow> (cpp_error, bin_variant) res) \<Rightarrow> int \<Rightarrow> io_variant list option \<Rightarrow>
   (cpp_error, bin_variant) res"
where
  "io2binArrayValue convert t elements =
     (case elements of
        None \<Rightarrow> Inl ConversionException
      | Some elems \<Rightarrow>
          (case io2binArrayType t of
             None \<Rightarrow> Inl ConversionException
           | Some arrayType \<Rightarrow>
               bindR (traverseR convert elems) (\<lambda>es. Inr (BArray arrayType es))))"

definition io2binStructureValue ::
  "(io_variant \<Rightarrow> (cpp_error, bin_variant) res) \<Rightarrow> io_node_id \<Rightarrow> (string \<times> io_variant) list \<Rightarrow>
   (cpp_error, bin_variant) res"
where
  "io2binStructureValue convert dataTypeId fieldData =
     bindR (traverseFieldsR convert fieldData) (\<lambda>fs. Inr (BStruct (io2binNodeId dataTypeId) fs))"

lemma io2binArrayValue_cong [fundef_cong]:
  "t = t' \<Longrightarrow> es = es' \<Longrightarrow> (\<And>xs x. es' = Some xs \<Longrightarrow> x \<in> set xs \<Longrightarrow> f x = g x) \<Longrightarrow>
   io2binArrayValue f t es = io2binArrayValue g t' es'"
  unfolding io2binArrayValue_def
  by (auto split: option.splits intro!: bindR_cong traverseR_cong)

lemma io2binStructureValue_cong [fundef_cong]:
  "n = n' \<Longrightarrow> ms = ms' \<Longrightarrow> (\<And>x. x \<in> snd ` set ms' \<Longrightarrow> f x = g x) \<Longrightarrow>
   io2binStructureValue f n ms = io2binStructureValue g n' ms'"
  unfolding io2binStructureValue_def using traverseFieldsR_cong [of ms ms' f g] by simp

fun io2bin :: "io_variant \<Rightarrow> (cpp_error, bin_variant) res" where
  "io2bin (IOScalar s) = io2binScalar s"
| "io2bin (IOArray t elements) = io2binArrayValue io2bin t elements"
| "io2bin (IOStructure dataTypeId fieldData) = io2binStructureValue io2bin dataTypeId fieldData"
| "io2bin (IONodeId n) = Inr (io2binNodeIdValue n)"
| "io2bin (IONodeProperties _) = Inl ConversionException"
| "io2bin (IOEventData _ _ _ _) = Inl ConversionException"

lemmas io2bin_defs [simp] = io2binArrayValue_def io2binStructureValue_def

subsection \<open>Binary values that survive the way to the internal interface and back\<close>

text \<open>The value with the name space of every struct id resolved.\<close>

fun resolveNs :: "c_int \<Rightarrow> bin_variant \<Rightarrow> bin_variant" where
  "resolveNs dest (BScalar s) = BScalar s"
| "resolveNs dest (BArray t es) = BArray t (map (resolveNs dest) es)"
| "resolveNs dest (BStruct p ms) =
     BStruct (io2binNodeId (bin2ioNodeId p dest)) (mapVals (resolveNs dest) ms)"

definition isTextChar :: "bin_variant \<Rightarrow> bool" where
  "isTextChar v = (case binGetChar v of Inl _ \<Rightarrow> False | Inr c \<Rightarrow> c \<noteq> CHR 0x00)"

definition isByteScalar :: "bin_variant \<Rightarrow> bool" where
  "isByteScalar v = isOk (binGetByte v)"

fun textArray :: "bin_variant \<Rightarrow> bool" where
  "textArray (BArray t _) = (t = binCHAR \<or> t = binBYTE)"
| "textArray _ = False"

fun becomesScalar :: "bin_variant \<Rightarrow> bool" where
  "becomesScalar (BScalar _) = True"
| "becomesScalar (BArray t _) = (t = binCHAR \<or> t = binBYTE)"
| "becomesScalar (BStruct _ _) = False"

fun firstScalarIsText :: "bin_variant list \<Rightarrow> bool" where
  "firstScalarIsText [] = False"
| "firstScalarIsText (e # es) = (if becomesScalar e then textArray e else firstScalarIsText es)"

fun binStable :: "bin_variant \<Rightarrow> bool" where
  "binStable (BScalar s) = True"
| "binStable (BArray t es) =
     (if t = binCHAR then list_all isTextChar es
      else if t = binBYTE then list_all isByteScalar es
      else bin2ioArrayType t \<noteq> None \<and> list_all binStable es \<and>
           (t = binARRAY \<longrightarrow> firstScalarIsText es))"
| "binStable (BStruct p ms) = allVals binStable ms"

lemma binGetChar_eq: "binGetChar v = Inr c \<longleftrightarrow> v = BScalar (BChar c)"
  by (cases v rule: binGetChar.cases) auto

lemma binGetByte_eq: "binGetByte v = Inr b \<longleftrightarrow> v = BScalar (BByte b)"
  by (cases v rule: binGetByte.cases) auto

lemma traverse_chars:
  "traverseR binGetChar es = Inr cs \<longleftrightarrow> es = map (\<lambda>c. BScalar (BChar c)) cs"
  by (induction es arbitrary: cs) (auto simp: bindR_eq_Inr binGetChar_eq)

lemma traverse_bytes:
  "traverseR binGetByte es = Inr bs \<longleftrightarrow> es = map (\<lambda>b. BScalar (BByte b)) bs"
  by (induction es arbitrary: bs) (auto simp: bindR_eq_Inr binGetByte_eq)

lemma traverse_chars_map [simp]: "traverseR binGetChar (map (\<lambda>c. BScalar (BChar c)) cs) = Inr cs"
  by (simp add: traverse_chars)

lemma traverse_bytes_map [simp]: "traverseR binGetByte (map (\<lambda>b. BScalar (BByte b)) bs) = Inr bs"
  by (simp add: traverse_bytes)

lemma isTextChar_eq: "isTextChar e \<longleftrightarrow> (\<exists>c. e = BScalar (BChar c) \<and> c \<noteq> CHR 0x00)"
  by (auto simp: isTextChar_def binGetChar_eq split: sum.splits)

lemma isByteScalar_eq: "isByteScalar e \<longleftrightarrow> (\<exists>b. e = BScalar (BByte b))"
  by (simp add: isByteScalar_def isOk_iff binGetByte_eq)

lemma list_all_map_ex:
  "list_all (\<lambda>e. \<exists>c. e = f c \<and> P c) es \<longleftrightarrow> (\<exists>cs. es = map f cs \<and> list_all P cs)"
proof (induction es)
  case (Cons e es)
  show ?case
  proof
    assume "list_all (\<lambda>e. \<exists>c. e = f c \<and> P c) (e # es)"
    then obtain c cs where "e = f c" "P c" "es = map f cs" "list_all P cs"
      using Cons by auto
    then have "e # es = map f (c # cs) \<and> list_all P (c # cs)" by simp
    then show "\<exists>cs. e # es = map f cs \<and> list_all P cs" by (rule exI)
  next
    assume "\<exists>cs. e # es = map f cs \<and> list_all P cs"
    then show "list_all (\<lambda>e. \<exists>c. e = f c \<and> P c) (e # es)"
      by (auto simp: list_all_iff Cons_eq_map_conv) blast+
  qed
qed simp

lemma list_all_textChar:
  "list_all isTextChar es \<longleftrightarrow> (\<exists>cs. es = map (\<lambda>c. BScalar (BChar c)) cs \<and> noNul cs)"
  unfolding isTextChar_eq noNul_def by (rule list_all_map_ex)

lemma list_all_byteScalar:
  "list_all isByteScalar es \<longleftrightarrow> (\<exists>bs. es = map (\<lambda>b. BScalar (BByte b)) bs)"
  using list_all_map_ex [of "\<lambda>b. BScalar (BByte b)" "\<lambda>_. True" es]
  by (simp add: isByteScalar_eq list_all_iff)

lemma ioScalarType_not_array [simp]: "ioScalarType s \<noteq> ioARRAY"
  by (cases s) (simp_all add: io_type_nums)

lemma foldl_arrayType_fixed: "ty \<noteq> ioARRAY \<Longrightarrow> foldl arrayTypeAfter ty vs = ty"
  by (induction vs) (auto simp: arrayTypeAfter_def split: io_variant.splits)

lemma io2bin_scalar_type:
  "io2binArrayType (ioScalarType (bin2ioScalar s)) \<noteq> Some binARRAY"
  by (cases s) (simp_all add: io2binArrayType_def io_type_nums bin_type_nums)

lemma bin2io_becomesScalar:
  assumes "bin2io dest e = Inr v"
  shows "(becomesScalar e \<longleftrightarrow> (\<exists>s. v = IOScalar s)) \<and>
    (\<forall>s. v = IOScalar s \<longrightarrow> textArray e = (io2binArrayType (ioScalarType s) = Some binARRAY))"
proof (cases e)
  case (BScalar s)
  then show ?thesis using assms io2bin_scalar_type by auto
next
  case (BArray t es)
  then show ?thesis
    using assms
    by (auto simp: bindR_eq_Inr io2binArrayType_def io_type_nums bin_type_nums
        split: if_splits option.splits)
next
  case (BStruct p ms)
  then show ?thesis using assms by (auto simp: bindR_eq_Inr)
qed

lemma array_type_back:
  "traverseR (bin2io dest) es = Inr vs \<Longrightarrow>
   io2binArrayType (foldl arrayTypeAfter ioARRAY vs) = Some binARRAY \<longleftrightarrow> firstScalarIsText es"
proof (induction es arbitrary: vs)
  case Nil
  then show ?case by (simp add: io2binArrayType_def io_type_nums)
next
  case (Cons e es)
  then obtain v ws where v: "bin2io dest e = Inr v" "traverseR (bin2io dest) es = Inr ws" "vs = v # ws"
    by (auto simp: bindR_eq_Inr)
  note * = bin2io_becomesScalar [OF v(1)]
  show ?case
  proof (cases "becomesScalar e")
    case True
    then obtain s where "v = IOScalar s" using * by auto
    then show ?thesis using * True v(3)
      by (simp add: arrayTypeAfter_def [of ioARRAY] foldl_arrayType_fixed)
  next
    case False
    then have "arrayTypeAfter ioARRAY v = ioARRAY"
      using * by (auto simp: arrayTypeAfter_def split: io_variant.splits)
    then show ?thesis using Cons.IH [OF v(2)] False v(3) by simp
  qed
qed

lemma array_types_back:
  assumes "bin2ioArrayType t = Some ty" "traverseR (bin2io dest) es = Inr vs"
  shows "io2binArrayType (foldl arrayTypeAfter ty vs) = Some t \<longleftrightarrow>
    (t = binARRAY \<longrightarrow> firstScalarIsText es)"
proof (cases "t = binARRAY")
  case True
  then show ?thesis
    using assms array_type_back by (auto simp: bin2ioArrayType_def bin_type_nums)
next
  case False
  then show ?thesis
    using assms
    by (auto simp: bin2ioArrayType_def foldl_arrayType_fixed io_type_nums io2binArrayType_def
        split: if_splits)
qed

lemma io2bin_scalar_back: "io2binScalar (bin2ioScalar s) = Inr (BScalar s)"
  by (cases s) simp_all

lemma map_eq_traverse_back:
  assumes "traverseR f es = Inr vs" "\<And>e. e \<in> set es \<Longrightarrow> (bindR (f e) g = Inr (r e)) = P e"
  shows "traverseR g vs = Inr (map r es) \<longleftrightarrow> list_all P es"
  using assms
proof (induction es arbitrary: vs)
  case (Cons e es)
  then obtain v ws where v: "f e = Inr v" "traverseR f es = Inr ws" "vs = v # ws"
    by (auto simp: bindR_eq_Inr)
  have "traverseR g ws = Inr (map r es) \<longleftrightarrow> list_all P es"
    by (rule Cons.IH [OF v(2)]) (simp add: Cons.prems)
  moreover have "g v = Inr (r e) \<longleftrightarrow> P e" using Cons.prems(2) [of e] v(1) by simp
  ultimately show ?case using v(3) by (auto simp: bindR_eq_Inr)
qed auto

lemma map_eq_traverseFields_back:
  assumes "traverseFieldsR f es = Inr vs"
    and "\<And>e. e \<in> snd ` set es \<Longrightarrow> (bindR (f e) g = Inr (r e)) = P e"
  shows "traverseFieldsR g vs = Inr (mapVals r es) \<longleftrightarrow> allVals P es"
  using assms
proof (induction es arbitrary: vs)
  case (Cons e es)
  then obtain v ws where
    v: "f (snd e) = Inr v" "traverseFieldsR f es = Inr ws" "vs = (fst e, v) # ws"
    by (auto simp: bindR_eq_Inr)
  have "traverseFieldsR g ws = Inr (mapVals r es) \<longleftrightarrow> allVals P es"
    by (rule Cons.IH [OF v(2)]) (simp add: Cons.prems)
  moreover have "g v = Inr (r (snd e)) \<longleftrightarrow> P (snd e)" using Cons.prems(2) [of "snd e"] v(1) by simp
  ultimately show ?case using v(3) by (cases e) (auto simp: bindR_eq_Inr)
qed auto

lemma charArray_back: "bin2io dest (charArray s) = Inr (IOScalar (IOString (Some (cstr s))))"
proof -
  have "traverseR binGetChar (map (\<lambda>c. BScalar (BChar c)) s) = Inr s"
    by (simp add: traverse_chars)
  then show ?thesis by (simp add: charArray_def)
qed

lemma byteArray_back: "bin2io dest (byteArray bs) = Inr (IOScalar (IOByteString (Some bs)))"
proof -
  have "traverseR binGetByte (map (\<lambda>b. BScalar (BByte b)) bs) = Inr bs"
    by (simp add: traverse_bytes)
  then show ?thesis by (simp add: byteArray_def bin_type_nums)
qed

lemma resolveNs_chars [simp]:
  "map (resolveNs dest) (map (\<lambda>c. BScalar (BChar c)) cs) = map (\<lambda>c. BScalar (BChar c)) cs"
  "map (resolveNs dest) (map (\<lambda>b. BScalar (BByte b)) bs) = map (\<lambda>b. BScalar (BByte b)) bs"
  by simp_all

lemma bin_back_chars:
  "bindR (bin2io dest (BArray binCHAR es)) io2bin = Inr (BArray binCHAR (map (resolveNs dest) es)) \<longleftrightarrow>
   list_all isTextChar es"
proof -
  have inj: "map (\<lambda>c. BScalar (BChar c)) xs = map (\<lambda>c. BScalar (BChar c)) ys \<longleftrightarrow> xs = ys" for xs ys
    by (rule inj_map_eq_map) (simp add: inj_def)
  show ?thesis
  proof (cases "traverseR binGetChar es")
    case (Inl e)
    then have "\<not> list_all isTextChar es" by (auto simp: list_all_textChar)
    with Inl show ?thesis by simp
  next
    case (Inr cs)
    then have "es = map (\<lambda>c. BScalar (BChar c)) cs" by (simp add: traverse_chars)
    with Inr show ?thesis
      by (auto simp: list_all_textChar charArray_def inj cstr_eq_iff simp del: map_map)
  qed
qed

lemma bin_back_bytes:
  "bindR (bin2io dest (BArray binBYTE es)) io2bin = Inr (BArray binBYTE (map (resolveNs dest) es)) \<longleftrightarrow>
   list_all isByteScalar es"
proof (cases "traverseR binGetByte es")
  case (Inl e)
  then have "\<not> list_all isByteScalar es" by (auto simp: list_all_byteScalar)
  with Inl show ?thesis by (simp add: bin_type_nums)
next
  case (Inr bs)
  then have "es = map (\<lambda>b. BScalar (BByte b)) bs" by (simp add: traverse_bytes)
  with Inr show ?thesis
    by (auto simp: list_all_byteScalar byteArray_def bin_type_nums simp del: map_map)
qed


subsection \<open>Values of the internal interface that can be sent, and what comes back\<close>

fun ioSendable :: "io_variant \<Rightarrow> bool" where
  "ioSendable (IOScalar s) = (case s of IOULLong _ \<Rightarrow> False | _ \<Rightarrow> True)"
| "ioSendable (IOArray t elements) =
     (case elements of None \<Rightarrow> False
      | Some elems \<Rightarrow> io2binArrayType t \<noteq> None \<and> list_all ioSendable elems)"
| "ioSendable (IOStructure n fs) = allVals ioSendable fs"
| "ioSendable (IONodeId n) = True"
| "ioSendable _ = False"

text \<open>The elements of an array of bytes are bytes.\<close>

fun isSChar :: "io_variant \<Rightarrow> bool" where
  "isSChar (IOScalar (IOSChar b)) = True"
| "isSChar _ = False"

fun sCharOf :: "io_variant \<Rightarrow> c_byte" where
  "sCharOf (IOScalar (IOSChar b)) = b"
| "sCharOf _ = 0"

fun bytesTyped :: "io_variant \<Rightarrow> bool" where
  "bytesTyped (IOArray t elements) =
     (case elements of None \<Rightarrow> True
      | Some elems \<Rightarrow> (if t = ioSCHAR then list_all isSChar elems else list_all bytesTyped elems))"
| "bytesTyped (IOStructure n fs) = allVals bytesTyped fs"
| "bytesTyped _ = True"

text \<open>The value after one trip: wider integers, no \<open>NULL\<close> strings, no localized texts.\<close>

definition orNil :: "'a list option \<Rightarrow> 'a list" where
  "orNil x = (case x of None \<Rightarrow> [] | Some xs \<Rightarrow> xs)"

fun ioNormalScalar :: "io_scalar \<Rightarrow> io_scalar" where
  "ioNormalScalar (IOUInt u) = IOLong (ucast u)"
| "ioNormalScalar (IOULong u) = IOLLong u"
| "ioNormalScalar (IOString s) = IOString (Some (cstr (orNil s)))"
| "ioNormalScalar (IOByteString s) = IOByteString (Some (orNil s))"
| "ioNormalScalar (IOLocalizedText l t) = IOString (Some (cstr (orNil t)))"
| "ioNormalScalar s = s"

fun ioNormal :: "c_int \<Rightarrow> io_variant \<Rightarrow> io_variant" where
  "ioNormal dest (IOScalar s) = IOScalar (ioNormalScalar s)"
| "ioNormal dest (IOArray t elements) =
     (case elements of None \<Rightarrow> IOArray t None
      | Some elems \<Rightarrow>
          (if t = ioSCHAR then IOScalar (IOByteString (Some (map sCharOf elems)))
           else
             (case Option.bind (io2binArrayType t) bin2ioArrayType of
                None \<Rightarrow> IOArray t (Some (map (ioNormal dest) elems))
              | Some ty \<Rightarrow>
                  IOArray (foldl arrayTypeAfter ty (map (ioNormal dest) elems))
                    (Some (map (ioNormal dest) elems)))))"
| "ioNormal dest (IOStructure n fs) =
     IOStructure (bin2ioNodeId (io2binNodeId n) dest) (mapVals (ioNormal dest) fs)"
| "ioNormal dest (IONodeId n) = IOScalar (IOString (Some (ioNodeIdToString n)))"
| "ioNormal dest v = v"

text \<open>A loop whose elements succeed or fail with one known error.\<close>

lemma traverseR_if:
  "(\<And>x. x \<in> set xs \<Longrightarrow> f x = (if P x then Inr (g x) else Inl e)) \<Longrightarrow>
   traverseR f xs = (if list_all P xs then Inr (map g xs) else Inl e)"
  by (induction xs) auto

lemma traverseFieldsR_if:
  "(\<And>x. x \<in> snd ` set xs \<Longrightarrow> f x = (if P x then Inr (g x) else Inl e)) \<Longrightarrow>
   traverseFieldsR f xs = (if allVals P xs then Inr (mapVals g xs) else Inl e)"
  by (induction xs) auto

lemma traverseFieldsR_mapVals_if:
  "(\<And>x. x \<in> snd ` set xs \<Longrightarrow> f (h x) = (if P x then Inr (g x) else Inl e)) \<Longrightarrow>
   traverseFieldsR f (mapVals h xs) = (if allVals P xs then Inr (mapVals g xs) else Inl e)"
  by (induction xs) auto

definition io2binVal :: "io_variant \<Rightarrow> bin_variant" where
  "io2binVal v = (case io2bin v of Inr b \<Rightarrow> b | Inl _ \<Rightarrow> BArray 0 [])"

lemma io2bin_if:
  "io2bin v = (if ioSendable v then Inr (io2binVal v) else Inl ConversionException)"
proof (induction v rule: io2bin.induct)
  case (1 s)
  then show ?case by (cases s) (simp_all add: io2binVal_def)
next
  case (2 t elements)
  show ?case
  proof (cases "elements = None \<or> io2binArrayType t = None")
    case True
    then show ?thesis by (auto simp: io2binVal_def split: option.splits)
  next
    case False
    then obtain elems ty where *: "elements = Some elems" "io2binArrayType t = Some ty" by auto
    have "traverseR io2bin elems =
        (if list_all ioSendable elems then Inr (map io2binVal elems) else Inl ConversionException)"
      by (rule traverseR_if) (rule 2 [OF *(1)])
    then show ?thesis by (simp add: * io2binVal_def)
  qed
next
  case (3 n fs)
  have "traverseFieldsR io2bin fs =
      (if allVals ioSendable fs then Inr (mapVals io2binVal fs) else Inl ConversionException)"
    by (rule traverseFieldsR_if) (rule 3)
  then show ?case by (simp add: io2binVal_def)
qed (simp_all add: io2binVal_def)

text \<open>
  Sending a value of the internal interface either gives a binary value or throws a conversion
  exception, and it throws exactly for the values that contain an unsigned 64 bit integer, a \<open>NULL\<close>
  array, an array of an unsupported element type (characters, unsigned 64 bit integers, node ids,
  nested arrays), node properties or event data.
\<close>

theorem io2bin_error_set:
  "io2bin v \<in> (if ioSendable v then range Inr else {Inl ConversionException})"
  using io2bin_if [of v] by simp

lemma io2binArrayType_bytes: "io2binArrayType t = Some binBYTE \<longleftrightarrow> t = ioSCHAR"
  by (auto simp: io2binArrayType_def io_type_nums bin_type_nums)

lemma io2binArrayType_range:
  "io2binArrayType t = Some ty \<Longrightarrow> ty \<noteq> binCHAR \<and> (ty = binBYTE \<or> bin2ioArrayType ty \<noteq> None)"
  by (auto simp: io2binArrayType_def bin2ioArrayType_def io_type_nums bin_type_nums
      split: if_splits)

lemma sent_byte:
  "io2bin x = Inr b \<Longrightarrow>
   binGetByte b = (if isSChar x then Inr (sCharOf x) else Inl UndefinedBehaviour)"
  by (cases x rule: isSChar.cases)
    (auto simp: charArray_def byteArray_def io2binNodeIdValue_def bindR_eq_Inr split: option.splits)

lemma sendable_byte:
  "ioSendable x \<Longrightarrow>
   binGetByte (io2binVal x) = (if isSChar x then Inr (sCharOf x) else Inl UndefinedBehaviour)"
  using io2bin_if [of x] by (intro sent_byte) simp

lemma ioNormalScalar_back:
  "io2binScalar s = Inr b \<Longrightarrow> bin2io dest b = Inr (IOScalar (ioNormalScalar s))"
  by (cases s) (auto simp: charArray_back byteArray_back orNil_def split: option.splits)

text \<open>
  What comes back after a value was sent and read again: nothing when it cannot be sent, otherwise
  its normal form, with every unsigned integer in the next wider signed type and every text a string.
  An array declared to hold bytes but holding anything else is the only value whose trip is undefined.
\<close>

theorem io_bin_io_normal_form:
  "bindR (io2bin v) (bin2io dest) =
    (if \<not> ioSendable v then Inl ConversionException
     else if bytesTyped v then Inr (ioNormal dest v)
     else Inl UndefinedBehaviour)"
proof (induction v rule: io2bin.induct)
  case (1 s)
  show ?case
  proof (cases "io2binScalar s")
    case (Inr b)
    then show ?thesis
      using io2bin_if [of "IOScalar s"] ioNormalScalar_back [OF Inr] by (simp split: if_splits)
  qed (use io2bin_if [of "IOScalar s"] in \<open>simp split: if_splits\<close>)
next
  case (2 t elements)
  show ?case
  proof (cases "ioSendable (IOArray t elements)")
    case True
    then obtain elems ty where *: "elements = Some elems" "io2binArrayType t = Some ty"
      and s: "list_all ioSendable elems"
      by (auto split: option.splits)
    have el: "traverseR io2bin elems = Inr (map io2binVal elems)"
      using s io2bin_if by (intro traverseR_all) (simp add: list_all_iff)
    show ?thesis
    proof (cases "t = ioSCHAR")
      case True
      have "traverseR binGetByte (map io2binVal elems) =
          (if list_all isSChar elems then Inr (map sCharOf elems) else Inl UndefinedBehaviour)"
        unfolding traverseR_map
        by (rule traverseR_if) (use s in \<open>simp add: list_all_iff sendable_byte\<close>)
      then show ?thesis
        using True * s el by (simp add: io2binArrayType_def io_type_nums bin_type_nums)
    next
      case False
      then have ty: "ty \<noteq> binCHAR" "ty \<noteq> binBYTE" "bin2ioArrayType ty \<noteq> None"
        using io2binArrayType_range [OF *(2)] io2binArrayType_bytes [of t] * by auto
      have IH: "bin2io dest (io2binVal x) =
          (if bytesTyped x then Inr (ioNormal dest x) else Inl UndefinedBehaviour)"
        if "x \<in> set elems" for x
        using 2 [OF *(1) that] s that io2bin_if [of x] by (simp add: list_all_iff)
      have "traverseR (bin2io dest) (map io2binVal elems) =
          (if list_all bytesTyped elems then Inr (map (ioNormal dest) elems)
           else Inl UndefinedBehaviour)"
        unfolding traverseR_map by (rule traverseR_if) (simp add: IH)
      then show ?thesis using False * s el ty by auto
    qed
  qed (use io2bin_if [of "IOArray t elements"] in simp)
next
  case (3 n fs)
  show ?case
  proof (cases "ioSendable (IOStructure n fs)")
    case True
    then have s: "allVals ioSendable fs" "\<forall>x\<in>snd ` set fs. ioSendable x"
      by (simp_all add: allVals_iff)
    have "traverseFieldsR io2bin fs = Inr (mapVals io2binVal fs)"
      using traverseFieldsR_if [of fs io2bin ioSendable io2binVal ConversionException] io2bin_if s
      by simp
    moreover have "bin2io dest (io2binVal x) =
        (if bytesTyped x then Inr (ioNormal dest x) else Inl UndefinedBehaviour)"
      if "x \<in> snd ` set fs" for x
      using "3.IH" [OF that] bspec [OF s(2) that] io2bin_if [of x] by simp
    then have "traverseFieldsR (bin2io dest) (mapVals io2binVal fs) =
        (if allVals bytesTyped fs then Inr (mapVals (ioNormal dest) fs) else Inl UndefinedBehaviour)"
      by (rule traverseFieldsR_mapVals_if)
    ultimately show ?thesis using s by simp
  qed (use io2bin_if [of "IOStructure n fs"] in simp)
qed (simp_all add: io2binNodeIdValue_def charArray_back)

end
