(* ===== verification/Ua_Model.thy ===== *)
theory Ua_Model
  imports Common_Lib
begin

text \<open>
  The OPC UA data the program exchanges with the SDK, and sorted maps.

  The SDK is not part of the repository. Its data is modelled by its documented content: node ids with
  their four kinds of identifiers, variants by their built-in type, structures by the values of the
  fields that are set. Its services are parameters of the definitions that use them.
\<close>

subsection \<open>Maps with sorted keys\<close>

text \<open>A \<open>std::map\<close> is the list of its entries, sorted by key. \<open>m[k] = v\<close> inserts or overwrites.\<close>

fun smInsert :: "'k :: linorder \<Rightarrow> 'v \<Rightarrow> ('k \<times> 'v) list \<Rightarrow> ('k \<times> 'v) list" where
  "smInsert k v [] = [(k, v)]"
| "smInsert k v (p # ps) =
     (if k < fst p then (k, v) # p # ps
      else if k = fst p then (k, v) # ps
      else p # smInsert k v ps)"

definition smErase :: "'k :: linorder \<Rightarrow> ('k \<times> 'v) list \<Rightarrow> ('k \<times> 'v) list" where
  "smErase k ps = filter (\<lambda>p. fst p \<noteq> k) ps"

definition smInv :: "('k :: linorder \<times> 'v) list \<Rightarrow> bool" where
  "smInv ps = sorted_wrt (<) (map fst ps)"

text \<open>The interface of a map: what a lookup returns after an insertion and after a removal.\<close>

locale map_spec =
  fixes empty :: 'm
    and insert :: "'k \<Rightarrow> 'v \<Rightarrow> 'm \<Rightarrow> 'm"
    and erase :: "'k \<Rightarrow> 'm \<Rightarrow> 'm"
    and find :: "'m \<Rightarrow> 'k \<Rightarrow> 'v option"
    and inv :: "'m \<Rightarrow> bool"
  assumes inv_empty: "inv empty"
    and find_empty: "find empty k = None"
    and inv_insert: "inv m \<Longrightarrow> inv (insert k v m)"
    and find_insert: "inv m \<Longrightarrow> find (insert k v m) j = (if j = k then Some v else find m j)"
    and inv_erase: "inv m \<Longrightarrow> inv (erase k m)"
    and find_erase: "inv m \<Longrightarrow> find (erase k m) j = (if j = k then None else find m j)"
begin

lemma inv_fold: "inv m \<Longrightarrow> inv (foldl (\<lambda>m p. insert (fst p) (snd p) m) m ps)"
  by (induction ps arbitrary: m) (simp_all add: inv_insert)

lemma find_fold:
  "inv m \<Longrightarrow> distinct (map fst ps) \<Longrightarrow>
   find (foldl (\<lambda>m p. insert (fst p) (snd p) m) m ps) k =
     (case map_of ps k of Some v \<Rightarrow> Some v | None \<Rightarrow> find m k)"
proof (induction ps arbitrary: m)
  case (Cons p ps)
  have "find (foldl (\<lambda>m p. insert (fst p) (snd p) m) (insert (fst p) (snd p) m) ps) k =
      (case map_of ps k of Some v \<Rightarrow> Some v | None \<Rightarrow> find (insert (fst p) (snd p) m) k)"
    using Cons.prems by (intro Cons.IH) (simp_all add: inv_insert)
  moreover have "map_of ps (fst p) = None"
    using Cons.prems(2) by (auto simp: map_of_eq_None_iff)
  ultimately show ?case
    using Cons.prems(1) by (cases p) (auto simp: find_insert split: option.splits)
qed simp

lemma erase_insert_other:
  "inv m \<Longrightarrow> j \<noteq> k \<Longrightarrow> find (erase k (insert k v m)) j = find m j"
  by (simp add: inv_insert find_erase find_insert)

end

lemma map_of_smInsert [simp]: "map_of (smInsert k v ps) = (map_of ps)(k \<mapsto> v)"
  by (induction ps) (auto simp: fun_eq_iff)

lemma set_fst_smInsert [simp]: "fst ` set (smInsert k v ps) = insert k (fst ` set ps)"
  by (induction ps) (auto simp: image_iff)

lemma smInv_Nil [simp]: "smInv []"
  by (simp add: smInv_def)

lemma smInv_Cons [simp]: "smInv (p # ps) \<longleftrightarrow> (\<forall>q\<in>set ps. fst p < fst q) \<and> smInv ps"
  by (simp add: smInv_def)

lemma smInv_smInsert [simp]: "smInv ps \<Longrightarrow> smInv (smInsert k v ps)"
proof (induction ps)
  case (Cons p ps)
  have "\<forall>q\<in>set (smInsert k v ps). fst p < fst q" if "fst p < k"
  proof
    fix q assume "q \<in> set (smInsert k v ps)"
    then have "fst q \<in> insert k (fst ` set ps)"
      using set_fst_smInsert by (metis imageI)
    then show "fst p < fst q" using Cons.prems that by auto
  qed
  with Cons show ?case by (auto dest: less_trans)
qed simp

lemma smInv_distinct: "smInv ps \<Longrightarrow> distinct (map fst ps)"
  by (simp add: smInv_def strict_sorted_iff)

lemma map_of_smErase [simp]: "map_of (smErase k ps) = (map_of ps)(k := None)"
  by (induction ps) (auto simp: smErase_def fun_eq_iff)

lemma smInv_smErase [simp]: "smInv ps \<Longrightarrow> smInv (smErase k ps)"
  by (induction ps) (auto simp: smErase_def)

interpretation sm: map_spec "[]" smInsert smErase map_of smInv
  by unfold_locales simp_all

lemma smInv_unique:
  "smInv ps \<Longrightarrow> smInv qs \<Longrightarrow> map_of ps = map_of qs \<Longrightarrow> ps = qs"
  using map_sorted_distinct_set_unique [of fst ps qs] smInv_distinct [of ps] smInv_distinct [of qs]
    map_of_eqI [of qs ps] map_of_inject_set [of ps qs]
  by (auto simp: smInv_def strict_sorted_iff distinct_map)

lemma smInsert_in_order:
  "\<forall>q\<in>set ps. fst q < k \<Longrightarrow> smInsert k v ps = ps @ [(k, v)]"
  by (induction ps) (auto dest: less_asym)

subsection \<open>Node ids\<close>

datatype ua_node_id =
    UaNumeric (uaNamespaceIndex: "16 word") "32 word"
  | UaString (uaNamespaceIndex: "16 word") string
  | UaGuid (uaNamespaceIndex: "16 word") "c_byte list"
  | UaOpaque (uaNamespaceIndex: "16 word") "c_byte list"

text \<open>\<open>identifierNumeric()\<close> is only valid for a numeric identifier.\<close>

fun identifierNumeric :: "ua_node_id \<Rightarrow> (cpp_error, 32 word) res" where
  "identifierNumeric (UaNumeric _ i) = Inr i"
| "identifierNumeric _ = Inl UndefinedBehaviour"

fun isNumericId :: "ua_node_id \<Rightarrow> bool" where
  "isNumericId (UaNumeric _ _) = True"
| "isNumericId _ = False"

lemma isNumericId_iff: "isNumericId n \<longleftrightarrow> (\<exists>ns i. n = UaNumeric ns i)"
  by (cases n) simp_all

text \<open>The numbers of the built-in types and of the types of name space 0 the program tells apart.\<close>

abbreviation (input) "OpcUaType_Null \<equiv> 0 :: 32 word"
abbreviation (input) "OpcUaType_Boolean \<equiv> 1 :: 32 word"
abbreviation (input) "OpcUaType_SByte \<equiv> 2 :: 32 word"
abbreviation (input) "OpcUaType_Byte \<equiv> 3 :: 32 word"
abbreviation (input) "OpcUaType_Int16 \<equiv> 4 :: 32 word"
abbreviation (input) "OpcUaType_UInt16 \<equiv> 5 :: 32 word"
abbreviation (input) "OpcUaType_Int32 \<equiv> 6 :: 32 word"
abbreviation (input) "OpcUaType_UInt32 \<equiv> 7 :: 32 word"
abbreviation (input) "OpcUaType_Int64 \<equiv> 8 :: 32 word"
abbreviation (input) "OpcUaType_UInt64 \<equiv> 9 :: 32 word"
abbreviation (input) "OpcUaType_Float \<equiv> 10 :: 32 word"
abbreviation (input) "OpcUaType_Double \<equiv> 11 :: 32 word"
abbreviation (input) "OpcUaType_String \<equiv> 12 :: 32 word"
abbreviation (input) "OpcUaType_DateTime \<equiv> 13 :: 32 word"
abbreviation (input) "OpcUaType_ByteString \<equiv> 15 :: 32 word"
abbreviation (input) "OpcUaType_NodeId \<equiv> 17 :: 32 word"
abbreviation (input) "OpcUaType_LocalizedText \<equiv> 21 :: 32 word"
abbreviation (input) "OpcUaId_Structure \<equiv> 22 :: 32 word"
abbreviation (input) "OpcUaType_DataValue \<equiv> 23 :: 32 word"
abbreviation (input) "OpcUaType_Variant \<equiv> 24 :: 32 word"
abbreviation (input) "OpcUaId_Enumeration \<equiv> 29 :: 32 word"
abbreviation (input) "OpcUaId_Duration \<equiv> 290 :: 32 word"
abbreviation (input) "OpcUaId_UtcTime \<equiv> 294 :: 32 word"
abbreviation (input) "OpcUaId_Union \<equiv> 12756 :: 32 word"

subsection \<open>Variants\<close>

text \<open>
  A \<open>UaVariant\<close>: a scalar of a built-in type, or an array with its element type. A string that is null
  is \<open>None\<close>; so is the unset locale or text of a localized text. A byte string without bytes is null.
  A date is the number of 100 ns ticks. An extension object is the list of its set fields; the value
  of a field is \<open>None\<close> when the SDK reports a bad status for it. \<open>UaOther\<close> is a scalar of a
  type the program does not read.
\<close>

datatype ua_variant =
    UaNull
  | UaBool bool
  | UaSByte c_byte
  | UaByte c_byte
  | UaInt16 "16 word"
  | UaUInt16 "16 word"
  | UaInt32 "32 word"
  | UaUInt32 "32 word"
  | UaInt64 "64 word"
  | UaUInt64 "64 word"
  | UaFloat c_float
  | UaDouble c_double
  | UaStr "string option"
  | UaDateTime "64 word"
  | UaByteStr "c_byte list"
  | UaNodeIdVal ua_node_id
  | UaLocText "string option" "string option"
  | UaExt "(string \<times> ua_variant option) list"
  | UaDataVal ua_variant
  | UaOther "32 word"
  | UaArr "32 word" "ua_variant list"

fun uaIsArray :: "ua_variant \<Rightarrow> bool" where
  "uaIsArray (UaArr _ _) = True"
| "uaIsArray _ = False"

text \<open>Induction over a variant: the parts the converter reaches.\<close>

fun uaIsLeaf :: "ua_variant \<Rightarrow> bool" where
  "uaIsLeaf (UaArr _ _) = False"
| "uaIsLeaf (UaExt _) = False"
| "uaIsLeaf (UaDataVal _) = False"
| "uaIsLeaf _ = True"

lemma ua_variant_parts_induct [case_names arr ext dataval leaf]:
  assumes "\<And>t xs. (\<And>x. x \<in> set xs \<Longrightarrow> P x) \<Longrightarrow> P (UaArr t xs)"
    and "\<And>eo. (\<And>k x. (k, Some x) \<in> set eo \<Longrightarrow> P x) \<Longrightarrow> P (UaExt eo)"
    and "\<And>u. P u \<Longrightarrow> (\<And>t xs x. u = UaArr t xs \<Longrightarrow> x \<in> set xs \<Longrightarrow> P x) \<Longrightarrow> P (UaDataVal u)"
    and "\<And>v. uaIsLeaf v \<Longrightarrow> P v"
  shows "P v"
proof -
  have "P v \<and> (\<forall>t xs. v = UaArr t xs \<longrightarrow> (\<forall>x\<in>set xs. P x))"
  proof (induction v)
    case (UaExt eo)
    have "P (UaExt eo)"
    proof (rule assms(2))
      fix k x assume "(k, Some x) \<in> set eo"
      then show "P x" using UaExt.IH [of "(k, Some x)" "Some x" x] by simp
    qed
    then show ?case by simp
  qed (use assms in auto)
  then show ?thesis by simp
qed

text \<open>A field of a structured type, with whether it is optional and whether it is an array, and the definition of the type.\<close>

record ua_field =
  fldName :: string
  fldTypeId :: ua_node_id
  fldOptional :: bool
  fldArray :: bool

record ua_structure_def =
  sdIsUnion :: bool
  sdChildren :: "ua_field list"

text \<open>
  The services a converter uses: the callback of \<open>ConverterUa2IO::ConverterCallback\<close>, and the SDK's
  \<open>UaVariant::dataType()\<close>.
\<close>

record converter_env =
  cbGetSuperTypes :: "ua_node_id \<Rightarrow> (cpp_error, ua_node_id list option) res"
  cbGetStructureDefinition :: "ua_node_id \<Rightarrow> (cpp_error, ua_structure_def) res"
  sdkDataType :: "ua_variant \<Rightarrow> ua_node_id"

text \<open>The classes of nodes (\<open>OpcUa_NodeClass\<close>).\<close>

datatype node_class =
  NcObject | NcVariable | NcMethod | NcObjectType | NcVariableType | NcReferenceType | NcDataType | NcView | NcOther "32 word"

end
