(* ===== verification/Type_Sources.thy ===== *)
theory Type_Sources
  imports Ua_Model
begin

text \<open>
  The sources of type information: the cache in front of a converter callback
  (\<open>binaryServer/CachedConverterCallback.cpp\<close>) and the browser of the server's address space
  (\<open>sasModelProvider/base/NodeBrowser.cpp\<close>).
\<close>

subsection \<open>The interface\<close>

text \<open>
  A source answers queries for super types and for structure definitions, possibly changing its state.
  Its contract: every answer is the one of a fixed specification.
\<close>

datatype type_query = QuerySuperTypes ua_node_id | QueryDefinition ua_node_id

datatype type_answer =
    SuperTypesAnswer "(cpp_error, ua_node_id list) res"
  | DefinitionAnswer "(cpp_error, ua_structure_def) res"

fun answerQuery ::
  "('s \<Rightarrow> ua_node_id \<Rightarrow> (cpp_error, ua_node_id list) res \<times> 's) \<Rightarrow>
   ('s \<Rightarrow> ua_node_id \<Rightarrow> (cpp_error, ua_structure_def) res \<times> 's) \<Rightarrow> 's \<Rightarrow> type_query \<Rightarrow> type_answer \<times> 's"
where
  "answerQuery superTypes definition' s (QuerySuperTypes t) =
     (case superTypes s t of (a, s') \<Rightarrow> (SuperTypesAnswer a, s'))"
| "answerQuery superTypes definition' s (QueryDefinition t) =
     (case definition' s t of (a, s') \<Rightarrow> (DefinitionAnswer a, s'))"

fun answerQueries ::
  "('s \<Rightarrow> ua_node_id \<Rightarrow> (cpp_error, ua_node_id list) res \<times> 's) \<Rightarrow>
   ('s \<Rightarrow> ua_node_id \<Rightarrow> (cpp_error, ua_structure_def) res \<times> 's) \<Rightarrow> 's \<Rightarrow> type_query list \<Rightarrow>
   type_answer list \<times> 's"
where
  "answerQueries superTypes definition' s [] = ([], s)"
| "answerQueries superTypes definition' s (q # qs) =
     (case answerQuery superTypes definition' s q of
        (a, s') \<Rightarrow> (case answerQueries superTypes definition' s' qs of (as', s'') \<Rightarrow> (a # as', s'')))"

fun specAnswer ::
  "(ua_node_id \<Rightarrow> (cpp_error, ua_node_id list) res) \<Rightarrow> (ua_node_id \<Rightarrow> (cpp_error, ua_structure_def) res) \<Rightarrow>
   type_query \<Rightarrow> type_answer"
where
  "specAnswer specS specD (QuerySuperTypes t) = SuperTypesAnswer (specS t)"
| "specAnswer specS specD (QueryDefinition t) = DefinitionAnswer (specD t)"

locale type_source =
  fixes superTypes :: "'s \<Rightarrow> ua_node_id \<Rightarrow> (cpp_error, ua_node_id list) res \<times> 's"
    and definition' :: "'s \<Rightarrow> ua_node_id \<Rightarrow> (cpp_error, ua_structure_def) res \<times> 's"
    and specS :: "ua_node_id \<Rightarrow> (cpp_error, ua_node_id list) res"
    and specD :: "ua_node_id \<Rightarrow> (cpp_error, ua_structure_def) res"
    and inv :: "'s \<Rightarrow> bool"
  assumes superTypes_spec: "inv s \<Longrightarrow> fst (superTypes s t) = specS t \<and> inv (snd (superTypes s t))"
    and definition_spec: "inv s \<Longrightarrow> fst (definition' s t) = specD t \<and> inv (snd (definition' s t))"
begin

lemma query_spec:
  "inv s \<Longrightarrow> fst (answerQuery superTypes definition' s q) = specAnswer specS specD q \<and>
     inv (snd (answerQuery superTypes definition' s q))"
  using superTypes_spec definition_spec by (cases q) (simp_all add: case_prod_beta)

lemma queries_spec:
  "inv s \<Longrightarrow> fst (answerQueries superTypes definition' s qs) = map (specAnswer specS specD) qs \<and>
     inv (snd (answerQueries superTypes definition' s qs))"
  by (induction qs arbitrary: s) (simp_all add: case_prod_beta query_spec)

end

subsection \<open>The cache\<close>

text \<open>
  The callback behind the cache may return no super types, or a null definition; both are errors. The
  mutex is left out here.
\<close>

record type_callback =
  tcSuperTypes :: "ua_node_id \<Rightarrow> (cpp_error, ua_node_id list option) res"
  tcDefinition :: "ua_node_id \<Rightarrow> (cpp_error, ua_structure_def option) res"

record type_cache =
  ccSuperTypes :: "ua_node_id \<Rightarrow> ua_node_id list option"
  ccDefinitions :: "ua_node_id \<Rightarrow> ua_structure_def option"

definition clearCache :: "type_cache \<Rightarrow> type_cache" where
  "clearCache c = c\<lparr>ccSuperTypes := (\<lambda>_. None), ccDefinitions := (\<lambda>_. None)\<rparr>"

definition emptyCache :: type_cache where
  "emptyCache = \<lparr>ccSuperTypes = (\<lambda>_. None), ccDefinitions = (\<lambda>_. None)\<rparr>"

definition cachedDefinition ::
  "type_callback \<Rightarrow> type_cache \<Rightarrow> ua_node_id \<Rightarrow> (cpp_error, ua_structure_def) res \<times> type_cache"
where
  "cachedDefinition cb c typeId =
    (case ccDefinitions c typeId of
       Some sd \<Rightarrow> (Inr sd, c)
     | None \<Rightarrow>
         (case tcDefinition cb typeId of
            Inl e \<Rightarrow> (Inl e, c)
          | Inr None \<Rightarrow> (Inl ConversionException, c)
          | Inr (Some sd) \<Rightarrow> (Inr sd, c\<lparr>ccDefinitions := (ccDefinitions c)(typeId \<mapsto> sd)\<rparr>)))"

definition cachedSuperTypes ::
  "type_callback \<Rightarrow> type_cache \<Rightarrow> ua_node_id \<Rightarrow> (cpp_error, ua_node_id list) res \<times> type_cache"
where
  "cachedSuperTypes cb c typeId =
    (case ccSuperTypes c typeId of
       Some ts \<Rightarrow> (Inr ts, c)
     | None \<Rightarrow>
         (case tcSuperTypes cb typeId of
            Inl e \<Rightarrow> (Inl e, c)
          | Inr None \<Rightarrow> (Inl ConversionException, c)
          | Inr (Some ts) \<Rightarrow> (Inr ts, c\<lparr>ccSuperTypes := (ccSuperTypes c)(typeId \<mapsto> ts)\<rparr>)))"

text \<open>What the callback answers itself, and a cache that agrees with it.\<close>

definition directSuperTypes :: "type_callback \<Rightarrow> ua_node_id \<Rightarrow> (cpp_error, ua_node_id list) res" where
  "directSuperTypes cb t =
    bindR (tcSuperTypes cb t) (\<lambda>ts. case ts of None \<Rightarrow> Inl ConversionException | Some xs \<Rightarrow> Inr xs)"

definition directDefinition :: "type_callback \<Rightarrow> ua_node_id \<Rightarrow> (cpp_error, ua_structure_def) res" where
  "directDefinition cb t =
    bindR (tcDefinition cb t) (\<lambda>sd. case sd of None \<Rightarrow> Inl ConversionException | Some d \<Rightarrow> Inr d)"

definition cacheInv :: "type_callback \<Rightarrow> type_cache \<Rightarrow> bool" where
  "cacheInv cb c =
    ((\<forall>t ts. ccSuperTypes c t = Some ts \<longrightarrow> directSuperTypes cb t = Inr ts) \<and>
     (\<forall>t sd. ccDefinitions c t = Some sd \<longrightarrow> directDefinition cb t = Inr sd))"

lemma cacheInv_empty [simp]: "cacheInv cb emptyCache" "cacheInv cb (clearCache c)"
  by (simp_all add: cacheInv_def emptyCache_def clearCache_def)

interpretation cache: type_source
  "cachedSuperTypes cb" "cachedDefinition cb" "directSuperTypes cb" "directDefinition cb" "cacheInv cb"
  for cb
proof (unfold_locales, goal_cases)
  case (1 s t)
  then show ?case
    by (auto simp: cachedSuperTypes_def directSuperTypes_def cacheInv_def
        split: option.split sum.split)
next
  case (2 s t)
  then show ?case
    by (auto simp: cachedDefinition_def directDefinition_def cacheInv_def
        split: option.split sum.split)
qed

text \<open>
  C31. The cache is transparent: whatever is asked of an empty cache, in any order, it answers what the
  callback answers, errors included.
\<close>

theorem cache_transparent:
  "fst (answerQueries (cachedSuperTypes cb) (cachedDefinition cb) emptyCache qs) =
     map (specAnswer (directSuperTypes cb) (directDefinition cb)) qs"
  using cache.queries_spec [of cb emptyCache qs] by simp

subsection \<open>Preloading\<close>

text \<open>
  \<open>preload\<close> visits the type and then, recursively, the types of its fields. The pending calls are kept
  as a list; the outer \<open>None\<close> is a recursion that does not end.
\<close>

definition isStructuredId :: "32 word \<Rightarrow> bool" where
  "isStructuredId i = (i = OpcUaId_Structure \<or> i = OpcUaId_Union)"

definition isNullNodeId :: "ua_node_id \<Rightarrow> bool" where
  "isNullNodeId n = (n = UaNumeric 0 0)"

text \<open>One visit: the error, or the types of the fields to visit next.\<close>

definition preloadVisit ::
  "type_callback \<Rightarrow> ua_node_id \<Rightarrow> type_cache \<Rightarrow> (cpp_error, ua_node_id list) res \<times> type_cache"
where
  "preloadVisit cb typeId c =
    (if uaNamespaceIndex typeId = 0 then (Inr [], c)
     else
       (case cachedSuperTypes cb c typeId of
          (Inl e, c') \<Rightarrow> (Inl e, c')
        | (Inr ts, c') \<Rightarrow>
            (if ts = [] \<or> isNullNodeId (last ts) then (Inl ConversionException, c')
             else
               (case identifierNumeric (last ts) of
                  Inl e \<Rightarrow> (Inl e, c')
                | Inr i \<Rightarrow>
                    (if isStructuredId i then
                       (case cachedDefinition cb c' typeId of
                          (Inl e, c'') \<Rightarrow> (Inl e, c'')
                        | (Inr sd, c'') \<Rightarrow> (Inr (map fldTypeId (sdChildren sd)), c''))
                     else (Inr [], c'))))))"

partial_function (option) preloadTypes ::
  "type_callback \<Rightarrow> ua_node_id list \<Rightarrow> type_cache \<Rightarrow> ((cpp_error, unit) res \<times> type_cache) option"
where
  "preloadTypes cb pending c =
    (case pending of
       [] \<Rightarrow> Some (Inr (), c)
     | typeId # rest \<Rightarrow>
         (case preloadVisit cb typeId c of
            (Inl e, c') \<Rightarrow> Some (Inl e, c')
          | (Inr fieldTypes, c') \<Rightarrow> preloadTypes cb (fieldTypes @ rest) c'))"

definition preload ::
  "type_callback \<Rightarrow> ua_node_id \<Rightarrow> type_cache \<Rightarrow> ((cpp_error, unit) res \<times> type_cache) option"
where
  "preload cb typeId c = preloadTypes cb [typeId] c"

text \<open>What a visit finds, over the callback alone.\<close>

definition fieldTypesOf :: "type_callback \<Rightarrow> ua_node_id \<Rightarrow> (cpp_error, ua_node_id list) res" where
  "fieldTypesOf cb t =
    (if uaNamespaceIndex t = 0 then Inr []
     else bindR (directSuperTypes cb t) (\<lambda>ts.
       if ts = [] \<or> isNullNodeId (last ts) then Inl ConversionException
       else bindR (identifierNumeric (last ts)) (\<lambda>i.
         if isStructuredId i then mapR (\<lambda>sd. map fldTypeId (sdChildren sd)) (directDefinition cb t)
         else Inr [])))"

lemma preloadVisit_spec:
  assumes "cacheInv cb c"
  shows "fst (preloadVisit cb t c) = fieldTypesOf cb t \<and> cacheInv cb (snd (preloadVisit cb t c))"
proof -
  have s: "fst (cachedSuperTypes cb c t) = directSuperTypes cb t" "cacheInv cb (snd (cachedSuperTypes cb c t))"
    using cache.superTypes_spec [OF assms] by simp_all
  have d: "fst (cachedDefinition cb c' t) = directDefinition cb t \<and> cacheInv cb (snd (cachedDefinition cb c' t))"
    if "cacheInv cb c'" for c'
    using cache.definition_spec [OF that] by simp
  obtain a c' where ac: "cachedSuperTypes cb c t = (a, c')" by (cases "cachedSuperTypes cb c t")
  obtain b c'' where bc: "cachedDefinition cb c' t = (b, c'')" by (cases "cachedDefinition cb c' t")
  have "cacheInv cb c'" "a = directSuperTypes cb t" using s ac by simp_all
  moreover from this(1) have "b = directDefinition cb t" "cacheInv cb c''"
    using d [of c'] bc by simp_all
  ultimately show ?thesis
    using assms
    by (auto simp: preloadVisit_def fieldTypesOf_def ac bc split: sum.split)
qed

lemma preloadTypes_step:
  "preloadTypes cb [] c = Some (Inr (), c)"
  "preloadTypes cb (t # rest) c =
     (case preloadVisit cb t c of (Inl e, c') \<Rightarrow> Some (Inl e, c')
      | (Inr ts, c') \<Rightarrow> preloadTypes cb (ts @ rest) c')"
  by (subst preloadTypes.simps; simp)+

text \<open>The types whose fields can be followed to the end.\<close>

inductive preloadable :: "type_callback \<Rightarrow> ua_node_id \<Rightarrow> bool" for cb where
  visit: "fieldTypesOf cb t = Inr ts \<Longrightarrow> \<forall>u\<in>set ts. preloadable cb u \<Longrightarrow> preloadable cb t"

inductive_cases preloadableE: "preloadable cb t"

definition fieldStep :: "type_callback \<Rightarrow> ua_node_id \<Rightarrow> ua_node_id \<Rightarrow> bool" where
  "fieldStep cb t u = (case fieldTypesOf cb t of Inr ts \<Rightarrow> u \<in> set ts | Inl _ \<Rightarrow> False)"

lemma preload_success_preloadable:
  "preloadTypes cb ts c = Some y \<Longrightarrow> fst y = Inr () \<Longrightarrow> cacheInv cb c \<Longrightarrow> \<forall>t\<in>set ts. preloadable cb t"
proof (induction rule: preloadTypes.raw_induct [rotated, consumes 1, case_names step])
  case (step rec cb ts c y)
  show ?case
  proof (cases ts)
    case (Cons t rest)
    obtain a c' where v: "preloadVisit cb t c = (a, c')" by (cases "preloadVisit cb t c")
    have a: "a = fieldTypesOf cb t" "cacheInv cb c'"
      using preloadVisit_spec [OF step.prems(2), of t] v by simp_all
    obtain us where us: "a = Inr us" "rec cb (us @ rest) c' = Some y"
      using step.hyps step.prems(1) Cons v by (cases a) auto
    have "\<forall>u\<in>set (us @ rest). preloadable cb u"
      using step.IH [OF us(2) step.prems(1) a(2)] .
    moreover have "preloadable cb t"
      using a(1) us(1) calculation by (intro preloadable.visit [of cb t us]) simp_all
    ultimately show ?thesis using Cons by simp
  qed simp
qed

lemma preloadable_preload:
  "preloadable cb t \<Longrightarrow> cacheInv cb c \<Longrightarrow>
   \<exists>c'. cacheInv cb c' \<and> preloadTypes cb (t # rest) c = preloadTypes cb rest c'"
proof (induction t arbitrary: c rest rule: preloadable.induct)
  case (visit t ts)
  obtain a c' where v: "preloadVisit cb t c = (a, c')" by (cases "preloadVisit cb t c")
  have a: "a = Inr ts" "cacheInv cb c'"
    using preloadVisit_spec [OF visit.prems, of t] v visit.hyps(1) by simp_all
  have "\<exists>c''. cacheInv cb c'' \<and> preloadTypes cb (us @ rest) d = preloadTypes cb rest c''"
    if "set us \<subseteq> set ts" "cacheInv cb d" for us d
    using that
  proof (induction us arbitrary: d)
    case (Cons u us)
    then obtain d' where "cacheInv cb d'" "preloadTypes cb (u # us @ rest) d = preloadTypes cb (us @ rest) d'"
      using visit.IH by fastforce
    with Cons.IH [of d'] Cons.prems(1) show ?case by auto
  qed auto
  from this [of ts c'] a show ?case by (simp add: preloadTypes_step v)
qed

text \<open>
  Preloading a type succeeds exactly when the types of its fields can be followed to the end, each
  of them with a base type and, for a structure, a definition.
\<close>

theorem preload_succeeds_iff:
  "cacheInv cb c \<Longrightarrow>
   (\<exists>c'. preload cb t c = Some (Inr (), c')) \<longleftrightarrow> preloadable cb t"
proof
  assume c: "cacheInv cb c"
  assume "\<exists>c'. preload cb t c = Some (Inr (), c')"
  then show "preloadable cb t"
    using preload_success_preloadable [of cb "[t]" c] c by (auto simp: preload_def)
next
  assume "cacheInv cb c" "preloadable cb t"
  then show "\<exists>c'. preload cb t c = Some (Inr (), c')"
    using preloadable_preload [of cb t c "[]"] by (auto simp: preload_def preloadTypes_step)
qed

lemma preloadable_acyclic: "preloadable cb t \<Longrightarrow> \<not> (fieldStep cb)\<^sup>+\<^sup>+ t t"
proof (induction t rule: preloadable.induct)
  case (visit t ts)
  have step: "fieldStep cb t u \<longleftrightarrow> u \<in> set ts" for u using visit.hyps(1) by (simp add: fieldStep_def)
  show ?case
  proof
    assume "(fieldStep cb)\<^sup>+\<^sup>+ t t"
    then obtain u where u: "fieldStep cb t u" "(fieldStep cb)\<^sup>*\<^sup>* u t" by (metis tranclpD)
    then have "(fieldStep cb)\<^sup>+\<^sup>+ u u" by (metis rtranclp_into_tranclp1)
    with u(1) step visit.IH show False by blast
  qed
qed

text \<open>
  Preloading a type that contains itself, directly or through the types of its fields, never
  succeeds: the recursion does not end unless a type on the way fails.
\<close>

theorem preload_recursive_type:
  "cacheInv cb c \<Longrightarrow> (fieldStep cb)\<^sup>+\<^sup>+ t t \<Longrightarrow> preload cb t c \<noteq> Some (Inr (), c')"
  using preload_success_preloadable [of cb "[t]" c] preloadable_acyclic [of cb t]
  by (auto simp: preload_def)

text \<open>A structure with one field of its own type, for the examples.\<close>

definition exampleCallback :: type_callback where
  "exampleCallback =
    \<lparr>tcSuperTypes = (\<lambda>t. Inr (Some [UaNumeric 0 22])),
     tcDefinition = (\<lambda>t. Inr (Some \<lparr>sdIsUnion = False,
       sdChildren = [\<lparr>fldName = ''next'',
         fldTypeId = (if t = UaNumeric 2 1 then t else UaNumeric 0 6), fldOptional = True, fldArray = False\<rparr>]\<rparr>))\<rparr>"

lemma exampleCallback_fields:
  "fieldTypesOf exampleCallback (UaNumeric 2 1) = Inr [UaNumeric 2 1]"
  "fieldTypesOf exampleCallback (UaNumeric 2 2) = Inr [UaNumeric 0 6]"
  "fieldTypesOf exampleCallback (UaNumeric 0 6) = Inr []"
  by (simp_all add: fieldTypesOf_def directSuperTypes_def directDefinition_def exampleCallback_def
      isNullNodeId_def isStructuredId_def)

theorem preload_succeeds_iff_witness:
  "\<exists>c'. preload exampleCallback (UaNumeric 2 2) emptyCache = Some (Inr (), c')"
proof (subst preload_succeeds_iff)
  have "preloadable exampleCallback (UaNumeric 0 6)"
    by (rule preloadable.visit [OF exampleCallback_fields(3)]) simp
  then show "preloadable exampleCallback (UaNumeric 2 2)"
    by (intro preloadable.visit [OF exampleCallback_fields(2)]) simp
qed simp

theorem preload_recursive_type_witness:
  "preload exampleCallback (UaNumeric 2 1) emptyCache \<noteq> Some (Inr (), emptyCache)"
  by (rule preload_recursive_type)
    (auto simp: fieldStep_def exampleCallback_fields intro: tranclp.r_into_trancl)

subsection \<open>The node browser\<close>

text \<open>
  A node id belongs to the root node manager, to the own one, or to the first associated one with its
  name space. The address space is a parameter: which nodes exist, and what browsing the inverse
  \<open>HasSubtype\<close> references of a node gives.
\<close>

datatype node_manager = RootManager | BaseManager | AssociatedManager nat

fun associatedManager :: "nat \<Rightarrow> 16 word \<Rightarrow> 16 word list \<Rightarrow> node_manager option" where
  "associatedManager i ns [] = None"
| "associatedManager i ns (n # nss) =
     (if n = ns then Some (AssociatedManager i) else associatedManager (Suc i) ns nss)"

definition getNodeManagerUaNode :: "16 word \<Rightarrow> 16 word list option \<Rightarrow> ua_node_id \<Rightarrow> node_manager option" where
  "getNodeManagerUaNode baseNs associated nodeId =
    (if uaNamespaceIndex nodeId = 0 then Some RootManager
     else if baseNs = uaNamespaceIndex nodeId then Some BaseManager
     else (case associated of None \<Rightarrow> None | Some nss \<Rightarrow> associatedManager 0 (uaNamespaceIndex nodeId) nss))"

definition browserGetNode ::
  "16 word \<Rightarrow> 16 word list option \<Rightarrow> (node_manager \<Rightarrow> ua_node_id \<Rightarrow> bool) \<Rightarrow> ua_node_id \<Rightarrow> bool"
where
  "browserGetNode baseNs associated hasNode nodeId =
    (case getNodeManagerUaNode baseNs associated nodeId of None \<Rightarrow> False | Some m \<Rightarrow> hasNode m nodeId)"

partial_function (option) superTypesLoop ::
  "(ua_node_id \<Rightarrow> bool) \<Rightarrow> (ua_node_id \<Rightarrow> ua_node_id list option) \<Rightarrow> ua_node_id \<Rightarrow> ua_node_id list \<Rightarrow>
   (cpp_error, ua_node_id list) res option"
where
  "superTypesLoop getNode browse typeId ret =
    (if \<not> getNode typeId \<or> uaNamespaceIndex typeId = 0 then Some (Inr ret)
     else
       (case browse typeId of
          None \<Rightarrow> Some (Inl NodeBrowserException)
        | Some refs \<Rightarrow>
            (if refs = [] then Some (Inr ret)
             else superTypesLoop getNode browse (last refs) (ret @ refs))))"

definition browserSuperTypes ::
  "(ua_node_id \<Rightarrow> bool) \<Rightarrow> (ua_node_id \<Rightarrow> ua_node_id list option) \<Rightarrow> ua_node_id \<Rightarrow>
   (cpp_error, ua_node_id list) res option"
where
  "browserSuperTypes getNode browse typeId = superTypesLoop getNode browse typeId []"

lemma associatedManager_first:
  "associatedManager i ns nss = Some (AssociatedManager j) \<Longrightarrow>
   i \<le> j \<and> j - i < length nss \<and> nss ! (j - i) = ns \<and> ns \<notin> set (take (j - i) nss)"
proof (induction nss arbitrary: i)
  case (Cons n nss)
  show ?case
  proof (cases "n = ns")
    case False
    then have "associatedManager (Suc i) ns nss = Some (AssociatedManager j)" using Cons.prems by simp
    from Cons.IH [OF this] have *: "Suc i \<le> j" "j - Suc i < length nss" "nss ! (j - Suc i) = ns"
      "ns \<notin> set (take (j - Suc i) nss)" by simp_all
    then have "j - i = Suc (j - Suc i)" by simp
    with * False show ?thesis by simp
  qed (use Cons.prems in simp)
qed simp

text \<open>A type the loop climbs from, and its super types in the order they are collected.\<close>

definition superTypeRefs ::
  "(ua_node_id \<Rightarrow> bool) \<Rightarrow> (ua_node_id \<Rightarrow> ua_node_id list option) \<Rightarrow> ua_node_id \<Rightarrow> ua_node_id list"
where
  "superTypeRefs getNode browse t =
    (if getNode t \<and> uaNamespaceIndex t \<noteq> 0 then (case browse t of None \<Rightarrow> [] | Some refs \<Rightarrow> refs) else [])"

lemma superTypesLoop_result:
  "superTypesLoop getNode browse t ret = Some y \<Longrightarrow> y = Inr ts \<Longrightarrow>
   \<exists>us. ts = ret @ us \<and> superTypeRefs getNode browse (last (t # us)) = []"
proof (induction arbitrary: ts rule: superTypesLoop.raw_induct [rotated, consumes 1, case_names step])
  case (step rec getNode browse t ret y)
  show ?case
  proof (cases "superTypeRefs getNode browse t = []")
    case True
    then have "y = Inr ret"
      using step.hyps step.prems
      by (auto simp: superTypeRefs_def split: if_splits option.splits)
    with True step.prems show ?thesis by (intro exI [of _ "[]"]) simp
  next
    case False
    then obtain refs where refs: "getNode t" "uaNamespaceIndex t \<noteq> 0" "browse t = Some refs" "refs \<noteq> []"
      by (auto simp: superTypeRefs_def split: if_splits option.splits)
    then have "rec getNode browse (last refs) (ret @ refs) = Some y" using step.hyps by simp
    from step.IH [OF this step.prems] obtain us where
      "ts = (ret @ refs) @ us" "superTypeRefs getNode browse (last (last refs # us)) = []" by blast
    then show ?thesis using refs(4) by (intro exI [of _ "refs @ us"]) (simp split: if_splits)
  qed
qed

lemma superTypesLoop_returns:
  assumes "\<And>t u refs. getNode t \<Longrightarrow> browse t = Some refs \<Longrightarrow> u \<in> set refs \<Longrightarrow> rank u < (rank t :: nat)"
  shows "\<exists>y. superTypesLoop getNode browse t ret = Some y"
proof (induction "rank t" arbitrary: t ret rule: less_induct)
  case less
  show ?case
  proof (cases "superTypeRefs getNode browse t = []")
    case True
    then show ?thesis
      by (subst superTypesLoop.simps) (auto simp: superTypeRefs_def split: if_splits option.splits)
  next
    case False
    then obtain refs where refs: "getNode t" "uaNamespaceIndex t \<noteq> 0" "browse t = Some refs" "refs \<noteq> []"
      by (auto simp: superTypeRefs_def split: if_splits option.splits)
    then have "rank (last refs) < rank t" using assms by simp
    from less [OF this] refs show ?thesis by (subst superTypesLoop.simps) auto
  qed
qed

text \<open>
  The super types of a type end with a type the browser cannot climb from: one of name space 0, a
  node that does not exist or one without a super type. When the type hierarchy has no cycle the
  browser returns for every type.
\<close>

theorem browser_super_types:
  assumes "\<And>t u refs. getNode t \<Longrightarrow> browse t = Some refs \<Longrightarrow> u \<in> set refs \<Longrightarrow> rank u < (rank t :: nat)"
  shows "\<exists>r. browserSuperTypes getNode browse t = Some r \<and>
    (case r of
       Inl e \<Rightarrow> e = NodeBrowserException
     | Inr ts \<Rightarrow> superTypeRefs getNode browse (last (t # ts)) = [])"
proof -
  obtain r where r: "superTypesLoop getNode browse t [] = Some r"
    using superTypesLoop_returns [of getNode browse rank t "[]"] assms by blast
  have err: "superTypesLoop getNode browse t ret = Some y \<Longrightarrow> y = Inl e \<Longrightarrow> e = NodeBrowserException"
    for t ret y e
    by (induction rule: superTypesLoop.raw_induct [rotated, consumes 1, case_names step])
      (auto split: if_splits option.splits)
  show ?thesis
  proof (cases r)
    case (Inl e)
    then show ?thesis using r err by (auto simp: browserSuperTypes_def)
  next
    case (Inr ts)
    then show ?thesis
      using r superTypesLoop_result [OF r Inr] by (auto simp: browserSuperTypes_def)
  qed
qed

theorem browser_super_types_witness:
  "\<exists>r. browserSuperTypes (\<lambda>t. True) (\<lambda>t. if t = UaNumeric 2 1 then Some [UaNumeric 0 22] else Some [])
      (UaNumeric 2 1) = Some r \<and>
    (case r of
       Inl e \<Rightarrow> e = NodeBrowserException
     | Inr ts \<Rightarrow> superTypeRefs (\<lambda>t. True)
         (\<lambda>t. if t = UaNumeric 2 1 then Some [UaNumeric 0 22] else Some []) (last (UaNumeric 2 1 # ts)) = [])"
  by (rule browser_super_types [where rank = "\<lambda>t. if t = UaNumeric 2 1 then 1 else 0"])
    (auto split: if_splits)

subsection \<open>Typed nodes\<close>

text \<open>
  The getters of the browser give the node only if it has the class they cast to; the reference that was taken
  on a node of another class is not released. The structure definition of an unknown name space is the empty one.
\<close>

record browser_node =
  bnClass :: node_class
  bnId :: ua_node_id

definition browserNode ::
  "16 word \<Rightarrow> 16 word list option \<Rightarrow> (node_manager \<Rightarrow> ua_node_id \<Rightarrow> browser_node option) \<Rightarrow> ua_node_id \<Rightarrow>
   browser_node option"
where
  "browserNode baseNs associated nodes nodeId =
    (case getNodeManagerUaNode baseNs associated nodeId of None \<Rightarrow> None | Some m \<Rightarrow> nodes m nodeId)"

definition castNode :: "node_class \<Rightarrow> browser_node option \<Rightarrow> browser_node option" where
  "castNode cls node = (case node of None \<Rightarrow> None | Some n \<Rightarrow> if bnClass n = cls then Some n else None)"

definition browserDataType where
  "browserDataType baseNs associated nodes nodeId = castNode NcDataType (browserNode baseNs associated nodes nodeId)"

definition browserObjectType where
  "browserObjectType baseNs associated nodes nodeId = castNode NcObjectType (browserNode baseNs associated nodes nodeId)"

definition browserObject where
  "browserObject baseNs associated nodes nodeId = castNode NcObject (browserNode baseNs associated nodes nodeId)"

definition browserVariableType where
  "browserVariableType baseNs associated nodes nodeId = castNode NcVariableType (browserNode baseNs associated nodes nodeId)"

definition browserVariable where
  "browserVariable baseNs associated nodes nodeId = castNode NcVariable (browserNode baseNs associated nodes nodeId)"

definition browserMethod where
  "browserMethod baseNs associated nodes nodeId = castNode NcMethod (browserNode baseNs associated nodes nodeId)"

definition browserStructureDefinition ::
  "16 word \<Rightarrow> 16 word list option \<Rightarrow> (node_manager \<Rightarrow> ua_node_id \<Rightarrow> ua_structure_def) \<Rightarrow> ua_structure_def \<Rightarrow> ua_node_id \<Rightarrow>
   ua_structure_def"
where
  "browserStructureDefinition baseNs associated definitions noDefinition dataTypeId =
    (case getNodeManagerUaNode baseNs associated dataTypeId of None \<Rightarrow> noDefinition | Some m \<Rightarrow> definitions m dataTypeId)"

lemma browserNode_exists:
  "browserGetNode baseNs associated (\<lambda>m n. nodes m n \<noteq> None) nodeId \<longleftrightarrow> browserNode baseNs associated nodes nodeId \<noteq> None"
  by (simp add: browserGetNode_def browserNode_def split: option.split)

lemma castNode_Some: "castNode cls node = Some n \<longleftrightarrow> node = Some n \<and> bnClass n = cls"
  by (auto simp: castNode_def split: option.splits)

end
