(* ===== verification/Ha_Subscription.thy ===== *)
theory Ha_Subscription
  imports Ua_Model
begin

text \<open>
  The client's subscription (\<open>binaryServer/HaSubscription.cpp\<close>): the monitored items by client handle,
  the calls that add and remove them, and the notifications of the server. What the server answers is a
  parameter of each operation. An operation returns its error, if any, and the state it leaves.
\<close>

subsection \<open>State\<close>

record node_attr =
  naNodeId :: ua_node_id
  naValue :: "ua_variant option"
  naDataType :: "ua_node_id option"
  naNodeClass :: "node_class option"
  naException :: "cpp_error option"

record event_field =
  efNodeId :: ua_node_id
  efQualifiedName :: "(16 word \<times> string) option"
  efDataTypeId :: "ua_node_id option"
  efValue :: "ua_variant option"
  efException :: "cpp_error option"

record monitored_item =
  miId :: "32 word"
  miNodeAttr :: node_attr
  miEventFields :: "event_field list option"

text \<open>The subscription object of the SDK is known by its id; no object is \<open>None\<close>.\<close>

record ha_subscription =
  hsHandleCounter :: "32 word"
  hsSubscription :: "32 word option"
  hsItems :: "(32 word \<times> monitored_item) list"

definition newHaSubscription :: ha_subscription where
  "newHaSubscription = \<lparr>hsHandleCounter = 1, hsSubscription = None, hsItems = []\<rparr>"

record create_request =
  crHandle :: "32 word"
  crNodeId :: ua_node_id
  crEvent :: bool

text \<open>
  The answers of the server: the id of a created subscription (or a bad status), the status and id of
  each item of a call to add items, the status of each item of a call to remove items (or a bad status
  of the whole call), and the status of the deletion of the subscription.
\<close>

record server_answers =
  saCreateSubscription :: "32 word option"
  saDeleteSubscription :: bool
  saCreateItems :: "create_request list \<Rightarrow> (bool \<times> 32 word) list option"
  saDeleteItems :: "32 word list \<Rightarrow> bool list option"

type_synonym sub_result = "(cpp_error, unit) res \<times> ha_subscription"

subsection \<open>The subscription object\<close>

definition createSubscription :: "server_answers \<Rightarrow> ha_subscription \<Rightarrow> sub_result" where
  "createSubscription srv s =
    (case saCreateSubscription srv of
       None \<Rightarrow> (Inl HaSubscriptionException, s\<lparr>hsSubscription := None\<rparr>)
     | Some i \<Rightarrow> (Inr (), s\<lparr>hsSubscription := Some i\<rparr>))"

definition deleteSubscription :: "server_answers \<Rightarrow> ha_subscription \<Rightarrow> sub_result" where
  "deleteSubscription srv s =
    (case hsSubscription s of
       None \<Rightarrow> (Inr (), s)
     | Some _ \<Rightarrow>
         if saDeleteSubscription srv then (Inr (), s\<lparr>hsSubscription := None\<rparr>)
         else (Inl HaSubscriptionException, s))"

subsection \<open>Adding items\<close>

text \<open>
  The loop over the nodes: every node gets the next client handle and is entered before the call. An
  event type without event fields, an event field without a qualified name, a node without a node class
  and an overflow of the counter are undefined behaviour.
\<close>

definition newMonitoredItem :: "node_attr \<Rightarrow> event_field list option \<Rightarrow> monitored_item" where
  "newMonitoredItem attr evFields =
    \<lparr>miId = 0, miNodeAttr = attr\<lparr>naValue := None, naException := None\<rparr>, miEventFields = evFields\<rparr>"

definition eventFieldsOf ::
  "(ua_node_id \<Rightarrow> event_field list option) \<Rightarrow> node_attr \<Rightarrow> (cpp_error, event_field list option) res"
where
  "eventFieldsOf eventFields attr =
    (case naNodeClass attr of
       None \<Rightarrow> Inl UndefinedBehaviour
     | Some NcObjectType \<Rightarrow>
         (case eventFields (naNodeId attr) of
            None \<Rightarrow> Inl UndefinedBehaviour
          | Some fs \<Rightarrow>
              if list_all (\<lambda>f. efQualifiedName f \<noteq> None) fs then Inr (Some fs) else Inl UndefinedBehaviour)
     | Some _ \<Rightarrow> Inr None)"

fun enterItems ::
  "(ua_node_id \<Rightarrow> event_field list option) \<Rightarrow> node_attr list \<Rightarrow> ha_subscription \<Rightarrow>
   (cpp_error, create_request list \<times> ha_subscription) res"
where
  "enterItems eventFields [] s = Inr ([], s)"
| "enterItems eventFields (attr # attrs) s =
     bindR (eventFieldsOf eventFields attr) (\<lambda>evFields.
       if hsHandleCounter s = 0x7FFFFFFF then Inl UndefinedBehaviour
       else
         bindR (enterItems eventFields attrs
             (s\<lparr>hsHandleCounter := hsHandleCounter s + 1,
                hsItems := smInsert (hsHandleCounter s) (newMonitoredItem attr evFields) (hsItems s)\<rparr>))
           (\<lambda>(reqs, s'). Inr (\<lparr>crHandle = hsHandleCounter s, crNodeId = naNodeId attr,
                crEvent = (naNodeClass attr = Some NcObjectType)\<rparr> # reqs, s')))"

text \<open>
  The results: a good one stores the id of the item, the handles of the others stay in the list of
  the added items. The flag says whether an item failed.
\<close>

fun storeResults ::
  "(bool \<times> 32 word) list \<Rightarrow> create_request list \<Rightarrow> ha_subscription \<Rightarrow> 32 word list \<Rightarrow> bool \<Rightarrow>
   (cpp_error, ha_subscription \<times> 32 word list \<times> bool) res"
where
  "storeResults [] reqs s added failed = Inr (s, added, failed)"
| "storeResults (r # rs) [] s added failed = Inl UndefinedBehaviour"
| "storeResults ((good, itemId) # rs) (req # reqs) s added failed =
     (case map_of (hsItems s) (crHandle req) of
        None \<Rightarrow> Inl UndefinedBehaviour
      | Some item \<Rightarrow>
          if good then
            storeResults rs reqs
              (s\<lparr>hsItems := smInsert (crHandle req) (item\<lparr>miId := itemId\<rparr>) (hsItems s)\<rparr>)
              (removeAll (crHandle req) added) failed
          else storeResults rs reqs s added True)"

definition dropItems :: "32 word list \<Rightarrow> ha_subscription \<Rightarrow> ha_subscription" where
  "dropItems handles s = s\<lparr>hsItems := foldl (\<lambda>items h. smErase h items) (hsItems s) handles\<rparr>"

text \<open>The clean up after a failure, which ends with the exception.\<close>

definition addFailed :: "server_answers \<Rightarrow> 32 word list \<Rightarrow> ha_subscription \<Rightarrow> sub_result" where
  "addFailed srv added s =
    (if added = [] then (Inl HaSubscriptionException, s)
     else
       (let s' = dropItems added s in
        if hsItems s' = [] then
          (case deleteSubscription srv s' of
             (Inl e, s'') \<Rightarrow> (Inl e, s'')
           | (Inr _, s'') \<Rightarrow> (Inl HaSubscriptionException, s''))
        else (Inl HaSubscriptionException, s')))"

definition addItems ::
  "node_attr list \<Rightarrow> (ua_node_id \<Rightarrow> event_field list option) \<Rightarrow> server_answers \<Rightarrow> ha_subscription \<Rightarrow>
   sub_result"
where
  "addItems nodeAttributes eventFields srv s =
    (if nodeAttributes = [] then (Inr (), s)
     else
       (case enterItems eventFields nodeAttributes s of
          Inl e \<Rightarrow> (Inl e, s)
        | Inr (reqs, s1) \<Rightarrow>
            (case (if hsSubscription s1 = None then createSubscription srv s1 else (Inr (), s1)) of
               (Inl e, s2) \<Rightarrow> (Inl e, s2)
             | (Inr _, s2) \<Rightarrow>
                 (case saCreateItems srv reqs of
                    None \<Rightarrow> addFailed srv (map crHandle reqs) s2
                  | Some results \<Rightarrow>
                      (case storeResults results reqs s2 (map crHandle reqs) False of
                         Inl e \<Rightarrow> (Inl e, s2)
                       | Inr (s3, added, failed) \<Rightarrow>
                           if failed then addFailed srv added s3 else (Inr (), s3))))))"

subsection \<open>Removing items\<close>

text \<open>For each node id the first item (in handle order) of that node.\<close>

definition matchItem :: "ha_subscription \<Rightarrow> ua_node_id \<Rightarrow> (32 word \<times> 32 word) option" where
  "matchItem s nodeId =
    (case find (\<lambda>p. nodeId = naNodeId (miNodeAttr (snd p))) (hsItems s) of
       None \<Rightarrow> None | Some (h, item) \<Rightarrow> Some (h, miId item))"

fun applyRemovals :: "bool list \<Rightarrow> 32 word list \<Rightarrow> ha_subscription \<Rightarrow> bool \<Rightarrow> (cpp_error, ha_subscription \<times> bool) res" where
  "applyRemovals [] hs s failed = Inr (s, failed)"
| "applyRemovals (g # gs) [] s failed = Inl UndefinedBehaviour"
| "applyRemovals (g # gs) (h # hs) s failed =
     (case map_of (hsItems s) h of
        None \<Rightarrow> applyRemovals gs hs s failed
      | Some _ \<Rightarrow>
          if g then applyRemovals gs hs (s\<lparr>hsItems := smErase h (hsItems s)\<rparr>) failed
          else applyRemovals gs hs s True)"

definition removeItems :: "ua_node_id list \<Rightarrow> server_answers \<Rightarrow> ha_subscription \<Rightarrow> sub_result" where
  "removeItems nodeIds srv s =
    (let matches = List.map_filter (matchItem s) nodeIds in
     if matches = [] then (Inr (), s)
     else
       (case hsSubscription s of
          None \<Rightarrow> (Inl UndefinedBehaviour, s)
        | Some _ \<Rightarrow>
            (case saDeleteItems srv (map snd matches) of
               None \<Rightarrow> (Inl HaSubscriptionException, s)
             | Some results \<Rightarrow>
                 (case applyRemovals results (map fst matches) s False of
                    Inl e \<Rightarrow> (Inl e, s)
                  | Inr (s', failed) \<Rightarrow>
                      if failed then (Inl HaSubscriptionException, s')
                      else if hsItems s' = [] then deleteSubscription srv s'
                      else (Inr (), s')))))"

definition removeAllItems :: "server_answers \<Rightarrow> ha_subscription \<Rightarrow> sub_result" where
  "removeAllItems srv s = removeItems (map (\<lambda>p. naNodeId (miNodeAttr (snd p))) (hsItems s)) srv s"

subsection \<open>Notifications\<close>

text \<open>
  The server reports that the subscription is gone: all items are entered anew in a new subscription.
  Errors of the clean up and of the new subscription are logged. The event fields are collected by node
  id, so that of two items of the same node the later one counts.
\<close>

definition eventFieldsByNode :: "(32 word \<times> monitored_item) list \<Rightarrow> ua_node_id \<Rightarrow> event_field list option" where
  "eventFieldsByNode items =
    foldl (\<lambda>m p. case miEventFields (snd p) of
        None \<Rightarrow> m | Some fs \<Rightarrow> m(naNodeId (miNodeAttr (snd p)) \<mapsto> fs)) (\<lambda>_. None) items"

definition subscriptionStatusChanged :: "bool \<Rightarrow> server_answers \<Rightarrow> ha_subscription \<Rightarrow> sub_result" where
  "subscriptionStatusChanged badSubscriptionId srv s =
    (if hsSubscription s = None then (Inl UndefinedBehaviour, s)
     else if \<not> badSubscriptionId then (Inr (), s)
     else
       (case deleteSubscription srv (s\<lparr>hsItems := []\<rparr>) of
          (Inl e, s1) \<Rightarrow> (Inr (), s1)
        | (Inr _, s1) \<Rightarrow>
            (case addItems (map (\<lambda>p. miNodeAttr (snd p)) (hsItems s)) (eventFieldsByNode (hsItems s)) srv s1 of
               (Inl UndefinedBehaviour, s2) \<Rightarrow> (Inl UndefinedBehaviour, s2)
             | (_, s2) \<Rightarrow> (Inr (), s2))))"

text \<open>
  Data changes: for each notification of a known handle the callback is called with one attribute that
  has the value or an exception; the result lists the calls. What the callback throws is logged.
\<close>

record data_notification =
  dnClientHandle :: "32 word"
  dnGood :: bool
  dnValue :: ua_variant

definition attrWithValue :: "data_notification \<Rightarrow> node_attr \<Rightarrow> node_attr" where
  "attrWithValue n attr =
    (if dnGood n then attr\<lparr>naValue := Some (dnValue n)\<rparr>
     else attr\<lparr>naException := Some HaSubscriptionException\<rparr>)"

fun dataChange :: "data_notification list \<Rightarrow> ha_subscription \<Rightarrow> node_attr list" where
  "dataChange [] s = []"
| "dataChange (n # ns) s =
     (case map_of (hsItems s) (dnClientHandle n) of
        None \<Rightarrow> dataChange ns s
      | Some item \<Rightarrow> attrWithValue n (miNodeAttr item) # dataChange ns s)"

text \<open>
  Events: a handle that is not known, an item without event fields and an event with too few values
  are undefined behaviour; the calls made before are lost with the process.
\<close>

record event_notification =
  enClientHandle :: "32 word"
  enValues :: "ua_variant list"

fun fillEventFields :: "event_field list \<Rightarrow> ua_variant list \<Rightarrow> (cpp_error, event_field list) res" where
  "fillEventFields [] vs = Inr []"
| "fillEventFields (f # fs) [] =
     (if efException f = None then Inl UndefinedBehaviour
      else bindR (fillEventFields fs []) (\<lambda>fs'. Inr (f # fs')))"
| "fillEventFields (f # fs) (v # vs) =
     bindR (fillEventFields fs vs) (\<lambda>fs'.
       Inr ((if efException f = None then f\<lparr>efValue := Some v\<rparr> else f) # fs'))"

definition newEvent :: "ha_subscription \<Rightarrow> event_notification \<Rightarrow> (cpp_error, ua_node_id \<times> event_field list) res" where
  "newEvent s n =
    (case map_of (hsItems s) (enClientHandle n) of
       None \<Rightarrow> Inl UndefinedBehaviour
     | Some item \<Rightarrow>
         (case miEventFields item of
            None \<Rightarrow> Inl UndefinedBehaviour
          | Some fs \<Rightarrow>
              bindR (fillEventFields fs (enValues n)) (\<lambda>fs'. Inr (naNodeId (miNodeAttr item), fs'))))"

definition newEvents ::
  "event_notification list \<Rightarrow> ha_subscription \<Rightarrow> (cpp_error, (ua_node_id \<times> event_field list) list) res" where
  "newEvents ns s = traverseR (newEvent s) ns"

subsection \<open>The invariant\<close>

text \<open>
  The items are ordered by handle, every handle is below the counter, and the copies kept of the node
  attributes hold no value and no exception. An item of an event type has event fields with qualified
  names, an item of another node has none.
\<close>

definition itemWf :: "monitored_item \<Rightarrow> bool" where
  "itemWf item =
    (case naNodeClass (miNodeAttr item) of
       None \<Rightarrow> False
     | Some NcObjectType \<Rightarrow>
         (case miEventFields item of
            None \<Rightarrow> False | Some fs \<Rightarrow> list_all (\<lambda>f. efQualifiedName f \<noteq> None) fs)
     | Some _ \<Rightarrow> miEventFields item = None)"

lemma itemWf_id [simp]: "itemWf (item\<lparr>miId := i\<rparr>) = itemWf item"
  by (simp add: itemWf_def cong: option.case_cong node_class.case_cong)

lemma itemWf_new:
  assumes "eventFieldsOf ev attr = Inr evs"
  shows "itemWf (newMonitoredItem attr evs)"
proof (cases "ev (naNodeId attr)")
  case None
  with assms show ?thesis
    by (auto simp: itemWf_def newMonitoredItem_def eventFieldsOf_def split: option.splits node_class.splits)
next
  case (Some fs)
  show ?thesis
    using assms unfolding eventFieldsOf_def Some
    by (auto simp: itemWf_def newMonitoredItem_def split: option.splits node_class.splits if_splits)
qed

definition itemInv :: "32 word \<Rightarrow> 32 word \<times> monitored_item \<Rightarrow> bool" where
  "itemInv c p \<longleftrightarrow> fst p < c \<and> itemWf (snd p) \<and>
     naValue (miNodeAttr (snd p)) = None \<and> naException (miNodeAttr (snd p)) = None"

definition haInv :: "ha_subscription \<Rightarrow> bool" where
  "haInv s \<longleftrightarrow> smInv (hsItems s) \<and> list_all (itemInv (hsHandleCounter s)) (hsItems s) \<and>
     hsHandleCounter s \<le> 0x7FFFFFFF"

text \<open>What the subscription promises is a list of handles with their nodes.\<close>

definition monitoredNodes :: "ha_subscription \<Rightarrow> (32 word \<times> ua_node_id) list" where
  "monitoredNodes s = map (\<lambda>p. (fst p, naNodeId (miNodeAttr (snd p)))) (hsItems s)"

definition requestedNode :: "create_request \<Rightarrow> 32 word \<times> ua_node_id" where
  "requestedNode r = (crHandle r, crNodeId r)"

lemma monitoredNodes_update [simp]:
  "monitoredNodes (s\<lparr>hsSubscription := x\<rparr>) = monitoredNodes s"
  "monitoredNodes (s\<lparr>hsHandleCounter := c\<rparr>) = monitoredNodes s"
  "monitoredNodes (s\<lparr>hsItems := []\<rparr>) = []"
  by (simp_all add: monitoredNodes_def)

lemma haInv_subscription [simp]: "haInv (s\<lparr>hsSubscription := x\<rparr>) \<longleftrightarrow> haInv s"
  by (simp add: haInv_def)

lemma haInv_clear [simp]: "haInv s \<Longrightarrow> haInv (s\<lparr>hsItems := []\<rparr>)"
  by (simp add: haInv_def)

lemma haInv_new: "haInv newHaSubscription"
  by (simp add: haInv_def newHaSubscription_def)

lemma haInv_erase:
  "haInv s \<Longrightarrow> haInv (s\<lparr>hsItems := smErase h (hsItems s)\<rparr>)"
  by (auto simp: haInv_def smErase_def list_all_iff smInv_def sorted_wrt_map sorted_wrt_filter)

lemma unat_next_handle: "(c :: 32 word) < 0x7FFFFFFF \<Longrightarrow> unat (c + 1) = unat c + 1"
proof -
  assume "c < 0x7FFFFFFF"
  then have "unat c + 1 < 2 ^ LENGTH(32)" by (simp add: word_less_nat_alt)
  then show ?thesis by (simp add: unat_word_ariths)
qed

lemma next_handle_greater: "(c :: 32 word) < 0x7FFFFFFF \<Longrightarrow> x < c \<Longrightarrow> x < c + 1"
  by (simp add: word_less_nat_alt unat_next_handle)

lemma next_handle_self: "(c :: 32 word) < 0x7FFFFFFF \<Longrightarrow> c < c + 1 \<and> c + 1 \<le> 0x7FFFFFFF"
  using unat_next_handle [of c] by (simp add: word_less_nat_alt word_le_nat_alt)

lemma smInsert_next:
  "haInv s \<Longrightarrow> smInsert (hsHandleCounter s) x (hsItems s) = hsItems s @ [(hsHandleCounter s, x)]"
  by (rule smInsert_in_order) (auto simp: haInv_def list_all_iff itemInv_def)

lemma haInv_next:
  "haInv s \<Longrightarrow> hsHandleCounter s \<noteq> 0x7FFFFFFF \<Longrightarrow> eventFieldsOf ev attr = Inr evs \<Longrightarrow>
   haInv (s\<lparr>hsHandleCounter := hsHandleCounter s + 1,
     hsItems := hsItems s @ [(hsHandleCounter s, newMonitoredItem attr evs)]\<rparr>)"
  using next_handle_self [of "hsHandleCounter s"] next_handle_greater [of "hsHandleCounter s"] itemWf_new [of ev attr evs]
  by (auto simp: haInv_def list_all_iff itemInv_def newMonitoredItem_def smInv_def sorted_wrt_append)

lemma smInsert_existing:
  "smInv ps \<Longrightarrow> map_of ps k = Some v \<Longrightarrow>
   smInsert k w ps = map (\<lambda>p. if fst p = k then (k, w) else p) ps"
proof (induction ps)
  case (Cons p ps)
  show ?case
  proof (cases "fst p = k")
    case True
    then have "map (\<lambda>p. if fst p = k then (k, w) else p) ps = ps"
      using Cons.prems by (intro map_idI) auto
    with True show ?thesis by simp
  next
    case False
    with Cons.prems have *: "map_of ps k = Some v" by (cases p) simp
    then have "fst p < k" using Cons.prems map_of_SomeD by fastforce
    with False Cons * show ?thesis by (auto dest: less_asym)
  qed
qed simp

subsection \<open>What the operations keep\<close>

lemma enterItems_ok:
  "haInv s \<Longrightarrow> enterItems ev attrs s = Inr (reqs, s') \<Longrightarrow>
   haInv s' \<and> hsSubscription s' = hsSubscription s \<and> map crNodeId reqs = map naNodeId attrs \<and>
   monitoredNodes s' = monitoredNodes s @ map requestedNode reqs"
proof (induction ev attrs s arbitrary: reqs s' rule: enterItems.induct)
  case (2 ev attr attrs s)
  from 2(3) obtain evs reqs' where
    ev: "eventFieldsOf ev attr = Inr evs" and c: "hsHandleCounter s \<noteq> 0x7FFFFFFF" and
    rest: "enterItems ev attrs (s\<lparr>hsHandleCounter := hsHandleCounter s + 1,
      hsItems := smInsert (hsHandleCounter s) (newMonitoredItem attr evs) (hsItems s)\<rparr>) = Inr (reqs', s')" and
    reqs: "reqs = \<lparr>crHandle = hsHandleCounter s, crNodeId = naNodeId attr,
      crEvent = (naNodeClass attr = Some NcObjectType)\<rparr> # reqs'"
    by (auto simp: bindR_eq_Inr split: if_splits)
  from 2(1) [OF ev c _ rest] haInv_next [OF 2(2) c ev]
  show ?case by (simp add: smInsert_next [OF 2(2)] reqs monitoredNodes_def requestedNode_def newMonitoredItem_def)
qed simp

lemma storeResult_keeps:
  assumes "haInv s" and "map_of (hsItems s) h = Some item"
  shows "haInv (s\<lparr>hsItems := smInsert h (item\<lparr>miId := i\<rparr>) (hsItems s)\<rparr>)"
    and "monitoredNodes (s\<lparr>hsItems := smInsert h (item\<lparr>miId := i\<rparr>) (hsItems s)\<rparr>) = monitoredNodes s"
proof -
  have sm: "smInv (hsItems s)" using assms(1) by (simp add: haInv_def)
  have same: "p = (h, item)" if "p \<in> set (hsItems s)" and "fst p = h" for p
    using map_of_is_SomeI [OF smInv_distinct [OF sm], of "fst p" "snd p"] that assms(2) by (cases p) simp
  show "haInv (s\<lparr>hsItems := smInsert h (item\<lparr>miId := i\<rparr>) (hsItems s)\<rparr>)"
    using assms(1) same map_of_SomeD [OF assms(2)]
    by (auto simp: haInv_def list_all_iff itemInv_def smInsert_existing [OF sm assms(2)] smInv_smInsert [OF sm, of h, unfolded smInsert_existing [OF sm assms(2)]])
  show "monitoredNodes (s\<lparr>hsItems := smInsert h (item\<lparr>miId := i\<rparr>) (hsItems s)\<rparr>) = monitoredNodes s"
    using same by (auto simp: monitoredNodes_def smInsert_existing [OF sm assms(2)])
qed

text \<open>The handles of the good results.\<close>

definition goodRequests :: "(bool \<times> 32 word) list \<Rightarrow> create_request list \<Rightarrow> create_request list" where
  "goodRequests results reqs = map snd (filter (\<lambda>p. fst (fst p)) (zip results reqs))"

lemma goodRequests_simps [simp]:
  "goodRequests [] reqs = []"
  "goodRequests rs [] = []"
  "goodRequests ((g, i) # rs) (req # reqs) = (if g then req # goodRequests rs reqs else goodRequests rs reqs)"
  by (simp_all add: goodRequests_def)

lemma storeResults_ok:
  "haInv s \<Longrightarrow> storeResults rs reqs s added failed = Inr (s', added', failed') \<Longrightarrow>
   haInv s' \<and> hsSubscription s' = hsSubscription s \<and> monitoredNodes s' = monitoredNodes s \<and>
   added' = filter (\<lambda>h. h \<notin> crHandle ` set (goodRequests rs reqs)) added \<and>
   failed' = (failed \<or> list_ex (\<lambda>r. \<not> fst r) rs) \<and> length rs \<le> length reqs"
proof (induction rs reqs s added failed arbitrary: s' added' failed' rule: storeResults.induct)
  case (3 good i rs req reqs s added failed)
  from 3(4) obtain item where item: "map_of (hsItems s) (crHandle req) = Some item"
    by (auto split: option.splits)
  show ?case
  proof (cases good)
    case True
    with 3(4) item have rest: "storeResults rs reqs
        (s\<lparr>hsItems := smInsert (crHandle req) (item\<lparr>miId := i\<rparr>) (hsItems s)\<rparr>)
        (removeAll (crHandle req) added) failed = Inr (s', added', failed')" by simp
    have "filter P (removeAll h added) = filter (\<lambda>x. x \<noteq> h \<and> P x) added" for P h
      by (induction added) auto
    with 3(1) [OF item True _ rest] storeResult_keeps [OF 3(3) item, of i] True
    show ?thesis by simp
  next
    case False
    with 3(4) item have rest: "storeResults rs reqs s added True = Inr (s', added', failed')" by simp
    from 3(2) [OF item False 3(3) rest] False show ?thesis by simp
  qed
qed auto

lemma foldl_smErase: "foldl (\<lambda>items h. smErase h items) ps hs = filter (\<lambda>p. fst p \<notin> set hs) ps"
  by (induction hs arbitrary: ps) (auto simp: smErase_def intro: filter_cong)

lemma dropItems_items [simp]: "hsItems (dropItems hs s) = filter (\<lambda>p. fst p \<notin> set hs) (hsItems s)"
  by (simp add: dropItems_def foldl_smErase)

lemma dropItems_nodes [simp]:
  "monitoredNodes (dropItems hs s) = filter (\<lambda>p. fst p \<notin> set hs) (monitoredNodes s)"
  by (simp add: monitoredNodes_def filter_map o_def)

lemma dropItems_subscription [simp]: "hsSubscription (dropItems hs s) = hsSubscription s"
  by (simp add: dropItems_def)

lemma dropItems_inv: "haInv s \<Longrightarrow> haInv (dropItems hs s)"
  by (auto simp: haInv_def dropItems_def foldl_smErase list_all_iff smInv_def sorted_wrt_map sorted_wrt_filter)

lemma deleteSubscription_keeps:
  "monitoredNodes (snd (deleteSubscription srv s)) = monitoredNodes s"
  "haInv s \<Longrightarrow> haInv (snd (deleteSubscription srv s))"
  "hsItems (snd (deleteSubscription srv s)) = hsItems s"
  by (auto simp: deleteSubscription_def split: option.splits)

lemma deleteSubscription_error:
  "fst (deleteSubscription srv s) = Inl e \<Longrightarrow> e = HaSubscriptionException"
  by (auto simp: deleteSubscription_def split: option.splits if_splits)

lemma createSubscription_keeps:
  "monitoredNodes (snd (createSubscription srv s)) = monitoredNodes s"
  "haInv s \<Longrightarrow> haInv (snd (createSubscription srv s))"
  by (auto simp: createSubscription_def split: option.splits)

lemma addFailed_state:
  "monitoredNodes (snd (addFailed srv added s)) = filter (\<lambda>p. fst p \<notin> set added) (monitoredNodes s)"
  "haInv s \<Longrightarrow> haInv (snd (addFailed srv added s))"
  "fst (addFailed srv added s) = Inl HaSubscriptionException"
  using deleteSubscription_keeps [where srv = srv and s = "dropItems added s"] dropItems_inv [of s added]
    deleteSubscription_error [where srv = srv and s = "dropItems added s"]
  by (auto simp: addFailed_def Let_def split: prod.splits sum.splits)

lemma haInv_handles:
  assumes "haInv s"
  shows "distinct (map fst (monitoredNodes s))"
  using assms smInv_distinct [of "hsItems s"] by (simp add: haInv_def monitoredNodes_def o_def)

text \<open>
  The subscription of the call: the one that exists or the one created for it.
\<close>

definition subscriptionFor :: "server_answers \<Rightarrow> ha_subscription \<Rightarrow> 32 word option" where
  "subscriptionFor srv s =
    (case hsSubscription s of None \<Rightarrow> saCreateSubscription srv | Some i \<Rightarrow> Some i)"

lemma addItems_entered:
  assumes "enterItems ev attrs s = Inr (reqs, s1)" and "attrs \<noteq> []"
    and "subscriptionFor srv s1 = Some i"
  shows "addItems attrs ev srv s =
    (case saCreateItems srv reqs of
       None \<Rightarrow> addFailed srv (map crHandle reqs) (s1\<lparr>hsSubscription := Some i\<rparr>)
     | Some results \<Rightarrow>
         (case storeResults results reqs (s1\<lparr>hsSubscription := Some i\<rparr>) (map crHandle reqs) False of
            Inl e \<Rightarrow> (Inl e, s1\<lparr>hsSubscription := Some i\<rparr>)
          | Inr (s3, added, failed) \<Rightarrow> if failed then addFailed srv added s3 else (Inr (), s3)))"
proof (cases "hsSubscription s1")
  case (Some j)
  with assms(3) have same: "s1\<lparr>hsSubscription := Some i\<rparr> = s1" by (simp add: subscriptionFor_def)
  from Some assms show ?thesis unfolding same by (simp add: addItems_def)
qed (use assms in \<open>simp add: addItems_def subscriptionFor_def createSubscription_def\<close>)

lemma addItems_no_subscription:
  assumes "enterItems ev attrs s = Inr (reqs, s1)" and "attrs \<noteq> []"
    and "subscriptionFor srv s1 = None"
  shows "addItems attrs ev srv s = (Inl HaSubscriptionException, s1\<lparr>hsSubscription := None\<rparr>)"
  using assms
  by (auto simp: addItems_def subscriptionFor_def createSubscription_def split: option.splits)

lemma addItems_inv:
  assumes "haInv s"
  shows "haInv (snd (addItems attrs ev srv s))"
proof (cases "attrs = []")
  case False
  show ?thesis
  proof (cases "enterItems ev attrs s")
    case (Inl e)
    with False assms show ?thesis by (simp add: addItems_def)
  next
    case (Inr r)
    obtain reqs s1 where r: "r = (reqs, s1)" by (cases r)
    note enter = Inr [unfolded r]
    have inv: "haInv (s1\<lparr>hsSubscription := x\<rparr>)" for x
      using enterItems_ok [OF assms enter] by simp
    show ?thesis
    proof (cases "subscriptionFor srv s1")
      case None
      from addItems_no_subscription [OF enter False None] inv show ?thesis by simp
    next
      case (Some i)
      from addItems_entered [OF enter False Some] inv storeResults_ok [OF inv [of "Some i"], of _ reqs]
      show ?thesis by (auto simp: addFailed_state(2) split: option.splits sum.splits)
    qed
  qed
qed (simp add: addItems_def assms)

lemma applyRemovals_ok:
  "applyRemovals gs hs s failed = Inr (s', failed') \<Longrightarrow>
   hsItems s' = filter (\<lambda>p. fst p \<notin> snd ` set (filter fst (zip gs hs))) (hsItems s) \<and>
   hsSubscription s' = hsSubscription s \<and> hsHandleCounter s' = hsHandleCounter s"
proof (induction gs hs s failed arbitrary: s' failed' rule: applyRemovals.induct)
  case (3 g gs h hs s failed)
  show ?case
  proof (cases "map_of (hsItems s) h")
    case None
    then have "h \<notin> fst ` set (hsItems s)" by (simp add: map_of_eq_None_iff)
    then have same: "filter (\<lambda>p. fst p \<notin> snd ` set (filter fst (zip (g # gs) (h # hs)))) (hsItems s) =
      filter (\<lambda>p. fst p \<notin> snd ` set (filter fst (zip gs hs))) (hsItems s)"
      by (intro filter_cong) (auto simp: image_iff)
    from 3(4) None have "applyRemovals gs hs s failed = Inr (s', failed')" by simp
    from 3(1) [OF None this] show ?thesis unfolding same .
  next
    case (Some item)
    show ?thesis
    proof (cases g)
      case True
      with 3(4) Some have "applyRemovals gs hs (s\<lparr>hsItems := smErase h (hsItems s)\<rparr>) failed = Inr (s', failed')"
        by simp
      from 3(2) [OF Some True this] True show ?thesis by (simp add: smErase_def)
    next
      case False
      with 3(4) Some have "applyRemovals gs hs s True = Inr (s', failed')" by simp
      from 3(3) [OF Some False this] False show ?thesis by simp
    qed
  qed
qed auto

lemma haInv_filter: "haInv s \<Longrightarrow> haInv (s\<lparr>hsItems := filter P (hsItems s)\<rparr>)"
  by (auto simp: haInv_def list_all_iff smInv_def sorted_wrt_map sorted_wrt_filter)

lemma applyRemovals_inv:
  assumes "haInv s" and "applyRemovals gs hs s failed = Inr (s', failed')"
  shows "haInv s'"
  using haInv_filter [OF assms(1), of "\<lambda>p. fst p \<notin> snd ` set (filter fst (zip gs hs))"] applyRemovals_ok [OF assms(2)]
  by (simp add: haInv_def)

lemma removeItems_inv: "haInv s \<Longrightarrow> haInv (snd (removeItems ids srv s))"
  by (auto simp: removeItems_def Let_def
      split: option.splits sum.splits intro: applyRemovals_inv intro!: deleteSubscription_keeps(2))

lemma removeAllItems_inv: "haInv s \<Longrightarrow> haInv (snd (removeAllItems srv s))"
  by (simp add: removeAllItems_def removeItems_inv)

lemma subscriptionStatusChanged_inv:
  assumes "haInv s"
  shows "haInv (snd (subscriptionStatusChanged gone srv s))"
proof -
  obtain r1 s1 where d: "deleteSubscription srv (s\<lparr>hsItems := []\<rparr>) = (r1, s1)" by (cases rule: prod.exhaust)
  then have "haInv s1"
    using deleteSubscription_keeps(2) [of "s\<lparr>hsItems := []\<rparr>" srv] assms by simp
  then have add: "haInv (snd (addItems attrs ev srv s1))" for attrs ev by (rule addItems_inv)
  show ?thesis
    using assms \<open>haInv s1\<close> add [of "map (\<lambda>p. miNodeAttr (snd p)) (hsItems s)" "eventFieldsByNode (hsItems s)"]
    by (auto simp: subscriptionStatusChanged_def d split: sum.splits prod.splits cpp_error.splits)
qed

text \<open>
  The life of a subscription: the calls of the session and the status notifications of the server, in
  any order and with any answers of the server. A call that runs into undefined behaviour ends it.
\<close>

inductive haStep :: "ha_subscription \<Rightarrow> ha_subscription \<Rightarrow> bool" where
  step_add: "addItems attrs ev srv s = (r, s') \<Longrightarrow> r \<noteq> Inl UndefinedBehaviour \<Longrightarrow> haStep s s'"
| step_remove: "removeItems ids srv s = (r, s') \<Longrightarrow> r \<noteq> Inl UndefinedBehaviour \<Longrightarrow> haStep s s'"
| step_remove_all: "removeAllItems srv s = (r, s') \<Longrightarrow> r \<noteq> Inl UndefinedBehaviour \<Longrightarrow> haStep s s'"
| step_status: "subscriptionStatusChanged gone srv s = (r, s') \<Longrightarrow> r \<noteq> Inl UndefinedBehaviour \<Longrightarrow> haStep s s'"

inductive haReachable :: "ha_subscription \<Rightarrow> bool" where
  start: "haReachable newHaSubscription"
| step: "haReachable s \<Longrightarrow> haStep s s' \<Longrightarrow> haReachable s'"

lemma haStep_inv: "haStep s s' \<Longrightarrow> haInv s \<Longrightarrow> haInv s'"
  by (induction rule: haStep.induct)
    (metis addItems_inv removeItems_inv removeAllItems_inv subscriptionStatusChanged_inv snd_conv)+

lemma haReachable_inv: "haReachable s \<Longrightarrow> haInv s"
  by (induction rule: haReachable.induct) (auto intro: haInv_new haStep_inv)

subsection \<open>Removal\<close>

definition firstOfNode :: "ha_subscription \<Rightarrow> 32 word \<times> ua_node_id \<Rightarrow> bool" where
  "firstOfNode s p \<longleftrightarrow> find (\<lambda>q. snd q = snd p) (monitoredNodes s) = Some p"

lemma find_of_map: "find P (map f xs) = map_option f (find (P \<circ> f) xs)"
  by (induction xs) auto

lemma matchItem_find:
  "map_option fst (matchItem s n) = map_option fst (find (\<lambda>q. snd q = n) (monitoredNodes s))"
  by (auto simp: monitoredNodes_def find_of_map matchItem_def o_def eq_commute [of n] split: option.splits)

definition allGood :: "server_answers \<Rightarrow> bool" where
  "allGood srv \<longleftrightarrow> saDeleteSubscription srv \<and> saDeleteItems srv = (\<lambda>ids. Some (map (\<lambda>_. True) ids))"

lemma applyRemovals_all_good:
  "\<exists>s'. applyRemovals (map (\<lambda>_. True) ms) (map f ms) s failed = Inr (s', failed)"
  by (induction ms arbitrary: s) (auto split: option.splits)

lemma good_handles: "snd ` set (filter fst (zip (map (\<lambda>_. True) ms) (map f ms))) = f ` set ms"
  by (induction ms) auto

lemma set_map_filter: "set (List.map_filter f xs) = {y. \<exists>x\<in>set xs. f x = Some y}"
  by (induction xs) (auto simp: map_filter_simps split: option.splits)

lemma matched_handles:
  assumes "haInv s" and "p \<in> set (monitoredNodes s)"
  shows "fst p \<in> fst ` set (List.map_filter (matchItem s) ids) \<longleftrightarrow> snd p \<in> set ids \<and> firstOfNode s p"
proof -
  have same: "q = p" if "q \<in> set (monitoredNodes s)" "fst q = fst p" for q
    using haInv_handles [OF assms(1)] that assms(2) by (auto simp: distinct_map dest: inj_onD)
  have "(\<exists>m. matchItem s n = Some m \<and> fst m = fst p) \<longleftrightarrow> find (\<lambda>q. snd q = n) (monitoredNodes s) = Some p" for n
  proof -
    have "(\<exists>m. matchItem s n = Some m \<and> fst m = fst p) \<longleftrightarrow> map_option fst (matchItem s n) = Some (fst p)"
      by auto
    also have "\<dots> \<longleftrightarrow> find (\<lambda>q. snd q = n) (monitoredNodes s) = Some p"
    proof (cases "find (\<lambda>q. snd q = n) (monitoredNodes s)")
      case (Some q)
      then have "q \<in> set (monitoredNodes s)" by (auto simp: find_Some_iff)
      with same [of q] have "fst q = fst p \<longleftrightarrow> q = p" by blast
      with Some show ?thesis by (simp add: matchItem_find)
    qed (simp add: matchItem_find)
    finally show ?thesis .
  qed
  then show ?thesis
    by (auto simp: set_map_filter image_iff firstOfNode_def find_Some_iff) metis+
qed

lemma removeItems_good:
  assumes "haInv s" and "hsSubscription s = Some i" and "allGood srv"
  shows "fst (removeItems ids srv s) = Inr ()"
    and "monitoredNodes (snd (removeItems ids srv s)) =
      filter (\<lambda>p. \<not> (snd p \<in> set ids \<and> firstOfNode s p)) (monitoredNodes s)"
proof -
  let ?ms = "List.map_filter (matchItem s) ids"
  obtain s' where s': "applyRemovals (map (\<lambda>_. True) (map snd ?ms)) (map fst ?ms) s False = Inr (s', False)"
    using applyRemovals_all_good [of ?ms fst s False] by (auto simp: o_def)
  show "fst (removeItems ids srv s) = Inr ()"
    using assms s' by (auto simp: removeItems_def Let_def allGood_def deleteSubscription_def o_def split: option.splits)
  have items: "hsItems s' = filter (\<lambda>p. fst p \<notin> fst ` set ?ms) (hsItems s)"
    using applyRemovals_ok [OF s'] by (simp only: map_map o_def good_handles)
  have "monitoredNodes (snd (removeItems ids srv s)) = filter (\<lambda>p. fst p \<notin> fst ` set ?ms) (monitoredNodes s)"
    using assms s' items
    by (auto simp: removeItems_def Let_def allGood_def deleteSubscription_keeps monitoredNodes_def filter_map o_def
        split: option.splits)
  also have "\<dots> = filter (\<lambda>p. \<not> (snd p \<in> set ids \<and> firstOfNode s p)) (monitoredNodes s)"
    using matched_handles [OF assms(1)] by (intro filter_cong) auto
  finally show "monitoredNodes (snd (removeItems ids srv s)) =
      filter (\<lambda>p. \<not> (snd p \<in> set ids \<and> firstOfNode s p)) (monitoredNodes s)" .
qed

subsection \<open>The results of adding items\<close>

lemma storeResults_total:
  "list_all (\<lambda>r. map_of (hsItems s) (crHandle r) \<noteq> None) reqs \<Longrightarrow> length rs = length reqs \<Longrightarrow>
   \<exists>x. storeResults rs reqs s added failed = Inr x"
proof (induction rs reqs s added failed rule: storeResults.induct)
  case (3 good i rs req reqs s added failed)
  from 3(3) obtain item where item: "map_of (hsItems s) (crHandle req) = Some item" by auto
  show ?case
  proof (cases good)
    case True
    have "list_all (\<lambda>r. map_of (smInsert (crHandle req) (item\<lparr>miId := i\<rparr>) (hsItems s)) (crHandle r) \<noteq> None) reqs"
      using 3(3) by (auto simp: list_all_iff)
    with 3(1) [OF item True] 3(4) item True show ?thesis by simp
  next
    case False
    with 3(2) [OF item False] 3(3,4) item show ?thesis by simp
  qed
qed auto

lemma entered_known:
  assumes "haInv s" and "enterItems ev attrs s = Inr (reqs, s1)"
  shows "list_all (\<lambda>r. map_of (hsItems s1) (crHandle r) \<noteq> None) reqs"
proof -
  have "fst ` set (monitoredNodes s1) = fst ` set (hsItems s1)"
    by (simp add: monitoredNodes_def image_image)
  moreover have "crHandle ` set reqs \<subseteq> fst ` set (monitoredNodes s1)"
    using enterItems_ok [OF assms] by (force simp: requestedNode_def)
  ultimately show ?thesis by (auto simp: list_all_iff map_of_eq_None_iff)
qed

lemma goodRequests_subset: "set (goodRequests rs reqs) \<subseteq> set reqs"
  by (auto simp: goodRequests_def dest: set_zip_rightD)

lemma goodRequests_all: "length rs = length reqs \<Longrightarrow> list_all fst rs \<Longrightarrow> goodRequests rs reqs = reqs"
  by (induction rs reqs rule: list_induct2) auto

lemma filter_goodRequests:
  "length rs = length reqs \<Longrightarrow> distinct (map crHandle reqs) \<Longrightarrow>
   filter (\<lambda>r. crHandle r \<in> crHandle ` set (goodRequests rs reqs)) reqs = goodRequests rs reqs"
proof (induction rs reqs rule: list_induct2)
  case (Cons r rs req reqs)
  have out: "crHandle req \<notin> crHandle ` set (goodRequests rs reqs)"
    using Cons.prems goodRequests_subset [of rs reqs] by auto
  have "filter (\<lambda>r. crHandle r \<in> insert (crHandle req) H) reqs = filter (\<lambda>r. crHandle r \<in> H) reqs" for H
    using Cons.prems by (intro filter_cong) (auto simp: image_iff)
  with Cons out show ?case by (cases r) simp
qed simp

lemma kept_nodes:
  assumes "haInv s" and "enterItems ev attrs s = Inr (reqs, s1)" and "length rs = length reqs"
  shows "filter (\<lambda>p. fst p \<notin> set (filter (\<lambda>h. h \<notin> crHandle ` set (goodRequests rs reqs)) (map crHandle reqs)))
      (monitoredNodes s1) = monitoredNodes s @ map requestedNode (goodRequests rs reqs)"
proof -
  note ok = enterItems_ok [OF assms(1,2)]
  have "distinct (map fst (monitoredNodes s @ map requestedNode reqs))"
    using ok haInv_handles [of s1] by simp
  then have old: "fst ` set (monitoredNodes s) \<inter> crHandle ` set reqs = {}" and new: "distinct (map crHandle reqs)"
    by (auto simp: o_def requestedNode_def image_image)
  let ?G = "crHandle ` set (goodRequests rs reqs)"
  let ?P = "\<lambda>h. h \<notin> set (filter (\<lambda>h. h \<notin> ?G) (map crHandle reqs))"
  have "filter (\<lambda>p. ?P (fst p)) (monitoredNodes s) = monitoredNodes s"
    using old by (intro filter_True) auto
  moreover have "filter (\<lambda>p. ?P (fst p)) (map requestedNode reqs) = map requestedNode (goodRequests rs reqs)"
  proof -
    have "filter (\<lambda>r. ?P (crHandle r)) reqs = filter (\<lambda>r. crHandle r \<in> ?G) reqs"
      by (intro filter_cong) auto
    with filter_goodRequests [OF assms(3) new] show ?thesis
      by (simp add: filter_map o_def requestedNode_def)
  qed
  ultimately show ?thesis using ok by simp
qed

lemma addItems_results:
  assumes "haInv s" and enter: "enterItems ev attrs s = Inr (reqs, s1)" and "attrs \<noteq> []"
    and sub: "subscriptionFor srv s1 = Some i"
    and res: "saCreateItems srv reqs = Some results" and len: "length results = length reqs"
  shows "fst (addItems attrs ev srv s) = (if list_all fst results then Inr () else Inl HaSubscriptionException)"
    and "monitoredNodes (snd (addItems attrs ev srv s)) = monitoredNodes s @ map requestedNode (goodRequests results reqs)"
proof -
  let ?s2 = "s1\<lparr>hsSubscription := Some i\<rparr>"
  have inv: "haInv ?s2" using enterItems_ok [OF assms(1,2)] by simp
  obtain s3 added failed where st: "storeResults results reqs ?s2 (map crHandle reqs) False = Inr (s3, added, failed)"
    using storeResults_total [of ?s2 reqs results] entered_known [OF assms(1,2)] len by fastforce
  note so = storeResults_ok [OF inv st]
  have failed: "failed \<longleftrightarrow> \<not> list_all fst results" using so by (auto simp: list_all_iff list_ex_iff)
  have add: "addItems attrs ev srv s = (if failed then addFailed srv added s3 else (Inr (), s3))"
    using addItems_entered [OF enter assms(3) sub] res st by simp
  show "fst (addItems attrs ev srv s) = (if list_all fst results then Inr () else Inl HaSubscriptionException)"
    using failed by (simp add: add addFailed_state(3))
  show "monitoredNodes (snd (addItems attrs ev srv s)) = monitoredNodes s @ map requestedNode (goodRequests results reqs)"
  proof (cases failed)
    case True
    with kept_nodes [OF assms(1,2) len] so show ?thesis by (simp add: add addFailed_state(1))
  next
    case False
    with failed have "goodRequests results reqs = reqs" using goodRequests_all [OF len] by simp
    with False so enterItems_ok [OF assms(1,2)] show ?thesis by (simp add: add)
  qed
qed

lemma addItems_success:
  assumes "haInv s" and "addItems attrs ev srv s = (Inr (), s')"
  shows "map snd (monitoredNodes s') = map snd (monitoredNodes s) @ map naNodeId attrs"
proof (cases "attrs = []")
  case True
  with assms show ?thesis by (simp add: addItems_def)
next
  case False
  obtain reqs s1 where enter: "enterItems ev attrs s = Inr (reqs, s1)"
    using assms(2) False by (cases "enterItems ev attrs s") (auto simp: addItems_def)
  obtain i where sub: "subscriptionFor srv s1 = Some i"
    using addItems_no_subscription [OF enter False] assms(2) by (cases "subscriptionFor srv s1") auto
  let ?s2 = "s1\<lparr>hsSubscription := Some i\<rparr>"
  have inv: "haInv ?s2" using enterItems_ok [OF assms(1) enter] by simp
  have notfailed: "(Inr (), x) = addFailed srv a t \<Longrightarrow> False" for a t x
    using addFailed_state(3) [of srv a t] by (metis fst_conv sum.distinct(1))
  obtain results added where
    st: "storeResults results reqs ?s2 (map crHandle reqs) False = Inr (s', added, False)"
    using addItems_entered [OF enter False sub] assms(2)
    by (auto split: option.splits sum.splits if_splits dest: notfailed)
  have "map snd (monitoredNodes s') = map snd (monitoredNodes s) @ map crNodeId reqs"
    using storeResults_ok [OF inv st] enterItems_ok [OF assms(1) enter] by (simp add: requestedNode_def o_def)
  with enterItems_ok [OF assms(1) enter] show ?thesis by simp
qed

subsection \<open>Entering the items anew\<close>

lemma enterItems_total:
  "list_all (\<lambda>a. isOk (eventFieldsOf ev a)) attrs \<Longrightarrow> unat (hsHandleCounter s) + length attrs \<le> 0x7FFFFFFF \<Longrightarrow>
   \<exists>x. enterItems ev attrs s = Inr x"
proof (induction ev attrs s rule: enterItems.induct)
  case (2 ev attr attrs s)
  from 2(2) obtain evs where ev: "eventFieldsOf ev attr = Inr evs" by (auto simp: isOk_iff)
  from 2(3) have c: "hsHandleCounter s < 0x7FFFFFFF" by (simp add: word_less_nat_alt)
  then have c': "hsHandleCounter s \<noteq> 0x7FFFFFFF" by auto
  obtain x where "enterItems ev attrs (s\<lparr>hsHandleCounter := hsHandleCounter s + 1,
      hsItems := smInsert (hsHandleCounter s) (newMonitoredItem attr evs) (hsItems s)\<rparr>) = Inr x"
    using 2(1) [OF ev c'] 2(2,3) unat_next_handle [OF c] by auto
  then show ?case using ev c' by (cases x) simp
qed simp

lemma foldl_fields_stable:
  "(\<exists>gs. m n = Some gs \<and> list_all P gs) \<Longrightarrow>
   list_all (\<lambda>p. case miEventFields (snd p) of None \<Rightarrow> True | Some fs \<Rightarrow> list_all P fs) items \<Longrightarrow>
   \<exists>gs. foldl (\<lambda>m p. case miEventFields (snd p) of
        None \<Rightarrow> m | Some fs \<Rightarrow> m(naNodeId (miNodeAttr (snd p)) \<mapsto> fs)) m items n = Some gs \<and> list_all P gs"
  by (induction items arbitrary: m) (auto split: option.splits)

lemma foldl_fields_found:
  "list_all (\<lambda>p. case miEventFields (snd p) of None \<Rightarrow> True | Some fs \<Rightarrow> list_all P fs) items \<Longrightarrow>
   p \<in> set items \<Longrightarrow> miEventFields (snd p) \<noteq> None \<Longrightarrow>
   \<exists>gs. foldl (\<lambda>m p. case miEventFields (snd p) of
        None \<Rightarrow> m | Some fs \<Rightarrow> m(naNodeId (miNodeAttr (snd p)) \<mapsto> fs)) m items (naNodeId (miNodeAttr (snd p))) = Some gs
     \<and> list_all P gs"
proof (induction items arbitrary: m)
  case (Cons q items)
  show ?case
  proof (cases "p = q")
    case True
    with Cons.prems show ?thesis by (auto intro!: foldl_fields_stable)
  next
    case False
    with Cons show ?thesis by simp
  qed
qed simp

lemma itemWf_fields:
  "itemWf item \<Longrightarrow> case miEventFields item of None \<Rightarrow> True | Some fs \<Rightarrow> list_all (\<lambda>f. efQualifiedName f \<noteq> None) fs"
  by (auto simp: itemWf_def split: option.splits node_class.splits)

lemma readding_possible:
  assumes "haInv s"
  shows "list_all (\<lambda>a. isOk (eventFieldsOf (eventFieldsByNode (hsItems s)) a)) (map (\<lambda>p. miNodeAttr (snd p)) (hsItems s))"
proof -
  have wf: "itemWf (snd p)" if "p \<in> set (hsItems s)" for p
    using assms that by (auto simp: haInv_def list_all_iff itemInv_def)
  have all: "list_all (\<lambda>p. case miEventFields (snd p) of None \<Rightarrow> True
      | Some fs \<Rightarrow> list_all (\<lambda>f. efQualifiedName f \<noteq> None) fs) (hsItems s)"
    using wf itemWf_fields by (fastforce simp: list_all_iff)
  have "isOk (eventFieldsOf (eventFieldsByNode (hsItems s)) (miNodeAttr (snd p)))" if "p \<in> set (hsItems s)" for p
    using wf [OF that] foldl_fields_found [OF all that, of "\<lambda>_. None"]
    by (auto simp: itemWf_def eventFieldsOf_def eventFieldsByNode_def isOk_iff split: option.splits node_class.splits)
  then show ?thesis by (auto simp: list_all_iff)
qed

lemma fillEventFields_error:
  "fillEventFields fs vs = Inl e \<longleftrightarrow>
   e = UndefinedBehaviour \<and> list_ex (\<lambda>f. efException f = None) (drop (length vs) fs)"
  by (induction fs vs rule: fillEventFields.induct) (auto simp: bindR_eq_Inl)

lemma first_of_all:
  assumes "distinct xs"
  shows "(\<forall>p\<in>set xs. find (\<lambda>q. snd q = snd p) xs = Some p) \<longleftrightarrow> distinct (map snd xs)"
proof
  assume first: "\<forall>p\<in>set xs. find (\<lambda>q. snd q = snd p) xs = Some p"
  have "snd (xs ! a) \<noteq> snd (xs ! b)" if "a < b" "b < length xs" for a b
  proof
    assume eq: "snd (xs ! a) = snd (xs ! b)"
    from first that(2) obtain k where "k < length xs" "xs ! k = xs ! b" "\<forall>j<k. snd (xs ! j) \<noteq> snd (xs ! b)"
      by (auto simp: find_Some_iff) (metis nth_mem)
    moreover from this have "k = b" using assms that(2) by (simp add: nth_eq_iff_index_eq)
    ultimately show False using that(1) eq by blast
  qed
  then show "distinct (map snd xs)"
    by (auto simp: distinct_conv_nth) (metis nat_neq_iff)
next
  assume d: "distinct (map snd xs)"
  show "\<forall>p\<in>set xs. find (\<lambda>q. snd q = snd p) xs = Some p"
  proof
    fix p assume "p \<in> set xs"
    then obtain k where "k < length xs" "p = xs ! k" by (auto simp: in_set_conv_nth)
    with d show "find (\<lambda>q. snd q = snd p) xs = Some p"
      by (auto simp: find_Some_iff distinct_conv_nth intro!: exI [of _ k])
  qed
qed

lemma removeAll_empty_iff:
  assumes "haInv s" and "hsSubscription s = Some i" and "allGood srv"
  shows "monitoredNodes (snd (removeAllItems srv s)) = [] \<longleftrightarrow> distinct (map snd (monitoredNodes s))"
proof -
  have "distinct (monitoredNodes s)" using haInv_handles [OF assms(1)] by (simp add: distinct_map)
  note first = first_of_all [OF this]
  have "set (map (\<lambda>p. naNodeId (miNodeAttr (snd p))) (hsItems s)) = snd ` set (monitoredNodes s)"
    by (simp add: monitoredNodes_def image_image)
  then show ?thesis
    unfolding removeAllItems_def removeItems_good(2) [OF assms] first [symmetric]
    by (auto simp: filter_empty_conv firstOfNode_def)
qed

lemma statusChanged_readds:
  assumes inv: "haInv s" and "hsSubscription s = Some i" and "saDeleteSubscription srv"
    and "saCreateSubscription srv = Some j"
    and items: "saCreateItems srv = (\<lambda>reqs. Some (map (\<lambda>r. (True, f r)) reqs))"
    and room: "unat (hsHandleCounter s) + length (hsItems s) \<le> 0x7FFFFFFF"
  shows "\<exists>s'. subscriptionStatusChanged True srv s = (Inr (), s') \<and>
    map snd (monitoredNodes s') = map snd (monitoredNodes s)"
proof -
  let ?s1 = "s\<lparr>hsItems := [], hsSubscription := None\<rparr>"
  let ?attrs = "map (\<lambda>p. miNodeAttr (snd p)) (hsItems s)" and ?ev = "eventFieldsByNode (hsItems s)"
  have inv1: "haInv ?s1" using inv by (simp add: haInv_def)
  have del: "deleteSubscription srv (s\<lparr>hsItems := []\<rparr>) = (Inr (), ?s1)"
    using assms by (simp add: deleteSubscription_def)
  have "fst (addItems ?attrs ?ev srv ?s1) = Inr ()"
  proof (cases "hsItems s = []")
    case False
    obtain reqs s2 where enter: "enterItems ?ev ?attrs ?s1 = Inr (reqs, s2)"
      using enterItems_total [OF readding_possible [OF inv], of ?s1] room by auto
    have "subscriptionFor srv s2 = Some j"
      using enterItems_ok [OF inv1 enter] assms(4) by (simp add: subscriptionFor_def)
    from addItems_results(1) [OF inv1 enter _ this, of "map (\<lambda>r. (True, f r)) reqs"] False items
    show ?thesis by (simp add: list_all_iff)
  qed (simp add: addItems_def)
  then obtain s' where add: "addItems ?attrs ?ev srv ?s1 = (Inr (), s')"
    by (cases "addItems ?attrs ?ev srv ?s1") auto
  have "map snd (monitoredNodes s') = map snd (monitoredNodes s)"
    using addItems_success [OF inv1 add] by (simp add: monitoredNodes_def o_def)
  with add del assms(2) show ?thesis by (simp add: subscriptionStatusChanged_def)
qed

lemma dataChange_map:
  "dataChange ns s = List.map_filter
     (\<lambda>n. map_option (\<lambda>item. attrWithValue n (miNodeAttr item)) (map_of (hsItems s) (dnClientHandle n))) ns"
  by (induction ns) (auto simp: map_filter_simps split: option.splits)

lemma newEvent_error:
  "newEvent s n = Inl e \<longleftrightarrow> e = UndefinedBehaviour \<and>
    (case map_of (hsItems s) (enClientHandle n) of None \<Rightarrow> True
     | Some item \<Rightarrow>
         (case miEventFields item of None \<Rightarrow> True
          | Some fs \<Rightarrow> list_ex (\<lambda>f. efException f = None) (drop (length (enValues n)) fs)))"
  by (auto simp: newEvent_def bindR_eq_Inl fillEventFields_error split: option.splits)

subsection \<open>A session\<close>

text \<open>
  Two variables and an event type with two fields, one of them with an exception; a server that
  accepts everything, one that refuses the item of handle 2 and one that creates no subscription.
\<close>

definition variableAttr :: "32 word \<Rightarrow> node_attr" where
  "variableAttr n = \<lparr>naNodeId = UaNumeric 4 n, naValue = None, naDataType = None,
    naNodeClass = Some NcVariable, naException = None\<rparr>"

definition alarmAttr :: node_attr where
  "alarmAttr = \<lparr>naNodeId = UaNumeric 4 1006, naValue = None, naDataType = None,
    naNodeClass = Some NcObjectType, naException = None\<rparr>"

definition alarmFields :: "ua_node_id \<Rightarrow> event_field list option" where
  "alarmFields n = (if n = UaNumeric 4 1006 then
     Some [\<lparr>efNodeId = UaNumeric 4 6101, efQualifiedName = Some (4, ''Level''), efDataTypeId = None, efValue = None, efException = None\<rparr>,
           \<lparr>efNodeId = UaNumeric 4 6102, efQualifiedName = Some (4, ''Cause''), efDataTypeId = None, efValue = None, efException = Some HaSubscriptionException\<rparr>]
     else None)"

definition friendlyServer :: server_answers where
  "friendlyServer = \<lparr>saCreateSubscription = Some 7, saDeleteSubscription = True,
    saCreateItems = (\<lambda>reqs. Some (map (\<lambda>r. (True, crHandle r + 100)) reqs)),
    saDeleteItems = (\<lambda>ids. Some (map (\<lambda>_. True) ids))\<rparr>"

definition pickyServer :: server_answers where
  "pickyServer = friendlyServer\<lparr>saCreateItems :=
    (\<lambda>reqs. Some (map (\<lambda>r. (crHandle r \<noteq> 2, crHandle r + 100)) reqs))\<rparr>"

definition refusingServer :: server_answers where
  "refusingServer = friendlyServer\<lparr>saCreateSubscription := None\<rparr>"

definition monitoring :: ha_subscription where
  "monitoring = snd (addItems [variableAttr 1, alarmAttr] alarmFields friendlyServer newHaSubscription)"

definition monitoringTwice :: ha_subscription where
  "monitoringTwice = snd (addItems [variableAttr 1, variableAttr 1] alarmFields friendlyServer newHaSubscription)"

lemmas session_defs =
  variableAttr_def alarmAttr_def alarmFields_def friendlyServer_def pickyServer_def refusingServer_def
  newHaSubscription_def addItems_def createSubscription_def eventFieldsOf_def newMonitoredItem_def

lemma monitoring_eval:
  "addItems [variableAttr 1, alarmAttr] alarmFields friendlyServer newHaSubscription =
   (Inr (), \<lparr>hsHandleCounter = 3, hsSubscription = Some 7,
     hsItems = [(1, \<lparr>miId = 101, miNodeAttr = variableAttr 1, miEventFields = None\<rparr>),
                (2, \<lparr>miId = 102, miNodeAttr = alarmAttr, miEventFields = alarmFields (UaNumeric 4 1006)\<rparr>)]\<rparr>)"
  by (simp add: session_defs)

lemma monitoringTwice_eval:
  "addItems [variableAttr 1, variableAttr 1] alarmFields friendlyServer newHaSubscription =
   (Inr (), \<lparr>hsHandleCounter = 3, hsSubscription = Some 7,
     hsItems = [(1, \<lparr>miId = 101, miNodeAttr = variableAttr 1, miEventFields = None\<rparr>),
                (2, \<lparr>miId = 102, miNodeAttr = variableAttr 1, miEventFields = None\<rparr>)]\<rparr>)"
  by (simp add: session_defs)

lemma haReachable_add:
  "haReachable s \<Longrightarrow> fst (addItems attrs ev srv s) \<noteq> Inl UndefinedBehaviour \<Longrightarrow>
   haReachable (snd (addItems attrs ev srv s))"
  by (rule haReachable.step, assumption, rule haStep.step_add) (rule prod.collapse [symmetric])

lemma monitoring_reachable: "haReachable monitoring"
  unfolding monitoring_def by (rule haReachable_add) (auto simp: monitoring_eval intro: haReachable.start)

lemma monitoringTwice_reachable: "haReachable monitoringTwice"
  unfolding monitoringTwice_def by (rule haReachable_add) (auto simp: monitoringTwice_eval intro: haReachable.start)

lemma monitoring_nodes:
  "monitoredNodes monitoring = [(1, UaNumeric 4 1), (2, UaNumeric 4 1006)]"
  "monitoredNodes monitoringTwice = [(1, UaNumeric 4 1), (2, UaNumeric 4 1)]"
  unfolding monitoring_def monitoring_eval monitoringTwice_def monitoringTwice_eval
  by (simp_all add: monitoredNodes_def variableAttr_def alarmAttr_def)

text \<open>The requests for the variables 1, 2 and 3 of a new subscription.\<close>

definition threeRequests :: "create_request list" where
  "threeRequests = map (\<lambda>n. \<lparr>crHandle = n, crNodeId = UaNumeric 4 n, crEvent = False\<rparr>) [1, 2, 3]"

lemma enter_three:
  "\<exists>s1. enterItems alarmFields (map variableAttr [1, 2, 3]) newHaSubscription = Inr (threeRequests, s1) \<and>
    subscriptionFor srv s1 = saCreateSubscription srv"
  by (simp add: session_defs threeRequests_def subscriptionFor_def)

subsection \<open>Properties\<close>

text \<open>
  C10. In every state a subscription can get into, whatever the server answers, the items are ordered by
  handle, no handle is used twice, every handle is below the counter of the next one, and the monitored
  items are ready for notifications: event types have event fields with qualified names, no stored node
  holds a value or an exception of an earlier notification.
\<close>

theorem subscription_invariant:
  assumes "haReachable s"
  shows "sorted_wrt (<) (map fst (monitoredNodes s)) \<and>
     list_all (\<lambda>p. fst p < hsHandleCounter s) (monitoredNodes s) \<and>
     list_all (\<lambda>p. itemWf (snd p) \<and> naValue (miNodeAttr (snd p)) = None \<and>
           naException (miNodeAttr (snd p)) = None) (hsItems s)"
  using haReachable_inv [OF assms]
  by (auto simp: haInv_def smInv_def monitoredNodes_def o_def list_all_iff itemInv_def)

theorem subscription_invariant_witness:
  "sorted_wrt (<) (map fst (monitoredNodes monitoring)) \<and> monitoredNodes monitoring \<noteq> []"
  using subscription_invariant [OF monitoring_reachable] by (simp add: monitoring_nodes)

text \<open>
  The results of a call that adds items: the items the server accepted are monitored after the ones
  of before, in the order of the request and under its handles; the ones it refused are dropped again.
  The call succeeds when no item was refused, otherwise it ends with the exception of a subscription.
\<close>

theorem add_items_results:
  assumes "haReachable s" and "attrs \<noteq> []" and "enterItems ev attrs s = Inr (reqs, s1)"
    and "subscriptionFor srv s1 = Some i"
    and "saCreateItems srv reqs = Some results" and "length results = length reqs"
  shows "fst (addItems attrs ev srv s) = (if list_all fst results then Inr () else Inl HaSubscriptionException) \<and>
     monitoredNodes (snd (addItems attrs ev srv s)) =
       monitoredNodes s @ map requestedNode (goodRequests results reqs) \<and>
     map crNodeId reqs = map naNodeId attrs"
  using addItems_results [OF haReachable_inv [OF assms(1)] assms(3,2,4,5,6)]
    enterItems_ok [OF haReachable_inv [OF assms(1)] assms(3)] by simp

theorem add_items_results_witness:
  "monitoredNodes (snd (addItems (map variableAttr [1, 2, 3]) alarmFields pickyServer newHaSubscription)) =
     [(1, UaNumeric 4 1), (3, UaNumeric 4 3)]"
proof -
  obtain s1 where enter: "enterItems alarmFields (map variableAttr [1, 2, 3]) newHaSubscription = Inr (threeRequests, s1)"
    and sub: "subscriptionFor pickyServer s1 = Some 7"
    using enter_three [of pickyServer] by (auto simp: pickyServer_def friendlyServer_def)
  from add_items_results [OF haReachable.start _ enter sub, of "[(True, 101), (False, 102), (True, 103)]"]
  show ?thesis
    by (simp add: threeRequests_def pickyServer_def friendlyServer_def goodRequests_def requestedNode_def
        monitoredNodes_def newHaSubscription_def)
qed

text \<open>
  When no subscription exists and the server creates none, the call fails, but the items stay
  entered: they are monitored nowhere and a later removal of all items runs into undefined behaviour.
\<close>

theorem add_without_subscription:
  assumes "haReachable s" and "attrs \<noteq> []" and "enterItems ev attrs s = Inr (reqs, s1)"
    and "hsSubscription s = None" and "saCreateSubscription srv = None"
  shows "\<exists>s'. addItems attrs ev srv s = (Inl HaSubscriptionException, s') \<and>
     monitoredNodes s' = monitoredNodes s @ map requestedNode reqs \<and>
     fst (removeAllItems srv' s') = Inl UndefinedBehaviour"
proof -
  note ok = enterItems_ok [OF haReachable_inv [OF assms(1)] assms(3)]
  let ?s' = "s1\<lparr>hsSubscription := None\<rparr>"
  have "subscriptionFor srv s1 = None" using ok assms by (simp add: subscriptionFor_def)
  note add = addItems_no_subscription [OF assms(3,2) this]
  have "fst (removeAllItems srv' ?s') = Inl UndefinedBehaviour"
  proof -
    have "hsItems ?s' \<noteq> []" using ok assms(2) by (auto simp: monitoredNodes_def)
    then obtain p ps where "hsItems ?s' = p # ps" by (cases "hsItems ?s'") auto
    then show ?thesis
      by (simp add: removeAllItems_def removeItems_def map_filter_simps matchItem_def split: prod.splits)
  qed
  with add ok show ?thesis by simp
qed

theorem add_without_subscription_witness:
  "\<exists>s'. addItems (map variableAttr [1, 2, 3]) alarmFields refusingServer newHaSubscription = (Inl HaSubscriptionException, s') \<and>
     fst (removeAllItems friendlyServer s') = Inl UndefinedBehaviour"
proof -
  obtain s1 where "enterItems alarmFields (map variableAttr [1, 2, 3]) newHaSubscription = Inr (threeRequests, s1)"
    using enter_three by blast
  from add_without_subscription [OF haReachable.start _ this, of refusingServer friendlyServer]
  show ?thesis by (auto simp: newHaSubscription_def refusingServer_def)
qed

text \<open>
  A removal the server accepts takes away, for each given node, the first item of that node and
  nothing else; removing all items leaves none exactly when no node is monitored twice.
\<close>

theorem remove_items_first:
  assumes "haReachable s" and "hsSubscription s = Some i" and "allGood srv"
  shows "fst (removeItems ids srv s) = Inr () \<and>
    monitoredNodes (snd (removeItems ids srv s)) =
      filter (\<lambda>p. \<not> (snd p \<in> set ids \<and> firstOfNode s p)) (monitoredNodes s) \<and>
    (monitoredNodes (snd (removeAllItems srv s)) = [] \<longleftrightarrow> distinct (map snd (monitoredNodes s)))"
  using removeItems_good [OF haReachable_inv [OF assms(1)] assms(2,3)]
    removeAll_empty_iff [OF haReachable_inv [OF assms(1)] assms(2,3)] by simp

theorem remove_items_first_witness:
  "monitoredNodes (snd (removeItems [UaNumeric 4 1] friendlyServer monitoring)) = [(2, UaNumeric 4 1006)] \<and>
   monitoredNodes (snd (removeAllItems friendlyServer monitoringTwice)) \<noteq> []"
proof -
  have good: "allGood friendlyServer" by (simp add: allGood_def friendlyServer_def)
  have sub: "hsSubscription monitoring = Some 7" "hsSubscription monitoringTwice = Some 7"
    by (simp_all add: monitoring_def monitoring_eval monitoringTwice_def monitoringTwice_eval)
  from remove_items_first [OF monitoring_reachable sub(1) good, of "[UaNumeric 4 1]"]
    remove_items_first [OF monitoringTwice_reachable sub(2) good]
  show ?thesis by (simp add: monitoring_nodes firstOfNode_def)
qed

text \<open>
  When the server reports that the subscription is gone and answers the calls that follow, all nodes
  are monitored again, each as often as before and in the same order.
\<close>

theorem status_changed_readds:
  assumes "haReachable s" and "hsSubscription s = Some i" and "saDeleteSubscription srv"
    and "saCreateSubscription srv = Some j"
    and "saCreateItems srv = (\<lambda>reqs. Some (map (\<lambda>r. (True, f r)) reqs))"
    and "unat (hsHandleCounter s) + length (hsItems s) \<le> 0x7FFFFFFF"
  shows "\<exists>s'. subscriptionStatusChanged True srv s = (Inr (), s') \<and>
    map snd (monitoredNodes s') = map snd (monitoredNodes s)"
  by (rule statusChanged_readds [OF haReachable_inv [OF assms(1)] assms(2-6)])

theorem status_changed_readds_witness:
  "\<exists>s'. subscriptionStatusChanged True friendlyServer monitoring = (Inr (), s') \<and>
    map snd (monitoredNodes s') = [UaNumeric 4 1, UaNumeric 4 1006]"
proof -
  have "hsSubscription monitoring = Some 7" and "unat (hsHandleCounter monitoring) + length (hsItems monitoring) \<le> 0x7FFFFFFF"
    by (simp_all add: monitoring_def monitoring_eval)
  from status_changed_readds [OF monitoring_reachable this(1) _ _ _ this(2), of friendlyServer 7 "\<lambda>r. crHandle r + 100"]
  show ?thesis by (simp add: friendlyServer_def monitoring_nodes)
qed

text \<open>
  Data changes are delivered in their order, each under the node its handle stands for: with the
  value when the status is good, with an exception and without value otherwise. Those of unknown
  handles are dropped.
\<close>

theorem data_change_delivery:
  assumes "haReachable s"
  shows "map (\<lambda>a. (naNodeId a, naValue a, naException a)) (dataChange ns s) =
    List.map_filter (\<lambda>n. map_option (\<lambda>node. (node,
        if dnGood n then Some (dnValue n) else None,
        if dnGood n then None else Some HaSubscriptionException))
      (map_of (monitoredNodes s) (dnClientHandle n))) ns"
proof -
  have nodes: "map_of (monitoredNodes s) h = map_option (\<lambda>item. naNodeId (miNodeAttr item)) (map_of (hsItems s) h)" for h
  proof -
    have "monitoredNodes s = map (\<lambda>(h, item). (h, naNodeId (miNodeAttr item))) (hsItems s)"
      by (auto simp: monitoredNodes_def)
    then show ?thesis by (simp add: map_of_map)
  qed
  have clean: "naValue (miNodeAttr item) = None \<and> naException (miNodeAttr item) = None"
    if "map_of (hsItems s) h = Some item" for h item
    using haReachable_inv [OF assms] map_of_SomeD [OF that] by (auto simp: haInv_def list_all_iff itemInv_def)
  show ?thesis
    by (induction ns) (auto simp: map_filter_simps nodes attrWithValue_def clean split: option.splits)
qed

theorem data_change_delivery_witness:
  "map naNodeId (dataChange [\<lparr>dnClientHandle = 1, dnGood = True, dnValue = UaNull\<rparr>,
     \<lparr>dnClientHandle = 9, dnGood = True, dnValue = UaNull\<rparr>] monitoring) = [UaNumeric 4 1]"
proof -
  have nodes: "map naNodeId (dataChange ns s) =
    map fst (map (\<lambda>a. (naNodeId a, naValue a, naException a)) (dataChange ns s))" for ns s
    by simp
  show ?thesis
    unfolding nodes data_change_delivery [OF monitoring_reachable]
    by (simp add: monitoring_nodes map_filter_simps)
qed

text \<open>
  Events run into undefined behaviour exactly when one of them has an unknown handle, belongs to an
  item without event fields, or has too few values for the fields without an exception.
\<close>

theorem new_events_undefined:
  "newEvents ns s = Inl e \<longleftrightarrow> e = UndefinedBehaviour \<and>
    list_ex (\<lambda>n. case map_of (hsItems s) (enClientHandle n) of None \<Rightarrow> True
      | Some item \<Rightarrow>
         (case miEventFields item of None \<Rightarrow> True
          | Some fs \<Rightarrow> list_ex (\<lambda>f. efException f = None) (drop (length (enValues n)) fs))) ns"
proof (induction ns)
  case (Cons n ns)
  have "newEvents (n # ns) s = Inl e \<longleftrightarrow>
    newEvent s n = Inl e \<or> (\<exists>y. newEvent s n = Inr y) \<and> newEvents ns s = Inl e"
    by (auto simp: newEvents_def bindR_eq_Inl)
  also have "(\<exists>y. newEvent s n = Inr y) \<longleftrightarrow> newEvent s n \<noteq> Inl UndefinedBehaviour"
    using newEvent_error [of s n] by (cases "newEvent s n") auto
  finally show ?case unfolding Cons newEvent_error by auto
qed (simp add: newEvents_def)

end
