(* ===== verification/Event_Types.thy ===== *)
theory Event_Types
  imports Ua_Model
begin

text \<open>
  The registry of event types and their fields (\<open>sasModelProvider/base/EventTypeRegistry.cpp\<close>) and the
  data of one event (\<open>EventTypeData.cpp\<close>). The SDK's index of a field name and its XML notation of a
  node id are parameters.
\<close>

subsection \<open>The registry\<close>

type_synonym qualified_name = "16 word \<times> string"

record event_registry =
  erTypes :: "ua_node_id \<Rightarrow> ua_node_id option"
  erFields :: "string \<Rightarrow> ua_node_id option"

definition emptyRegistry :: event_registry where
  "emptyRegistry = \<lparr>erTypes = (\<lambda>_. None), erFields = (\<lambda>_. None)\<rparr>"

definition getKey :: "(ua_node_id \<Rightarrow> string) \<Rightarrow> ua_node_id \<Rightarrow> 32 word \<Rightarrow> string" where
  "getKey xmlString eventTypeId fieldIndex = xmlString eventTypeId @ '':'' @ showNat (unat fieldIndex)"

definition registerEventType :: "ua_node_id \<Rightarrow> ua_node_id \<Rightarrow> event_registry \<Rightarrow> event_registry" where
  "registerEventType superType newType r = r\<lparr>erTypes := (erTypes r)(newType \<mapsto> superType)\<rparr>"

definition registerEventField ::
  "(ua_node_id \<Rightarrow> string) \<Rightarrow> (qualified_name \<Rightarrow> 32 word) \<Rightarrow> ua_node_id \<Rightarrow> ua_node_id \<Rightarrow>
   qualified_name \<Rightarrow> event_registry \<Rightarrow> event_registry"
where
  "registerEventField xmlString fieldIndexOf eventTypeId fieldNodeId filterName r =
    r\<lparr>erFields := (erFields r)(getKey xmlString eventTypeId (fieldIndexOf filterName) \<mapsto> fieldNodeId)\<rparr>"

text \<open>
  The lookup climbs to the super type until a field is found or a type has none. The outer \<open>None\<close> is a
  loop that does not end, \<open>Some None\<close> the result \<open>NULL\<close>.
\<close>

partial_function (option) getEventFieldNodeId ::
  "(ua_node_id \<Rightarrow> string) \<Rightarrow> event_registry \<Rightarrow> ua_node_id \<Rightarrow> 32 word \<Rightarrow> ua_node_id option option"
where
  "getEventFieldNodeId xmlString r typeId fieldIndex =
    (case erFields r (getKey xmlString typeId fieldIndex) of
       Some n \<Rightarrow> Some (Some n)
     | None \<Rightarrow>
         (case erTypes r typeId of
            Some superType \<Rightarrow> getEventFieldNodeId xmlString r superType fieldIndex
          | None \<Rightarrow> Some None))"

text \<open>Different types or indexes have different keys when the XML notation tells node ids apart.\<close>

lemma showNat_inj: "showNat m = showNat n \<longleftrightarrow> m = n"
  by (metis digitsVal_showNat)

lemma last_colon_split:
  "CHR '':'' \<notin> set s \<Longrightarrow> CHR '':'' \<notin> set t \<Longrightarrow> a @ CHR '':'' # s = b @ CHR '':'' # t \<Longrightarrow> a = b \<and> s = t"
  by (auto simp: append_eq_append_conv2 append_eq_Cons_conv Cons_eq_append_conv)

lemma getKey_inj:
  assumes "inj xmlString"
  shows "getKey xmlString a i = getKey xmlString b j \<longleftrightarrow> a = b \<and> i = j"
proof
  assume "getKey xmlString a i = getKey xmlString b j"
  moreover have "\<not> isDigit (CHR '':'')" by (simp add: isDigit_def)
  ultimately have "xmlString a = xmlString b" "showNat (unat i) = showNat (unat j)"
    using last_colon_split [of "showNat (unat i)" "showNat (unat j)" "xmlString a" "xmlString b"]
    by (simp_all add: getKey_def)
  then show "a = b \<and> i = j" using assms by (simp add: showNat_inj inj_eq)
qed simp

subsection \<open>The lookup finds the nearest registration\<close>

text \<open>The ancestor of a type \<open>n\<close> steps up.\<close>

fun ancestor :: "event_registry \<Rightarrow> nat \<Rightarrow> ua_node_id \<Rightarrow> ua_node_id option" where
  "ancestor r 0 t = Some t"
| "ancestor r (Suc n) t = (case erTypes r t of None \<Rightarrow> None | Some s \<Rightarrow> ancestor r n s)"

lemma ancestor_Suc: "ancestor r (Suc n) t = Option.bind (ancestor r n t) (erTypes r)"
proof (induction n arbitrary: t)
  case 0
  then show ?case by (simp split: option.split)
next
  case (Suc n)
  show ?case
  proof (cases "erTypes r t")
    case (Some s)
    then show ?thesis using Suc [of s] by (simp only: ancestor.simps option.case)
  qed simp
qed

definition fieldAt :: "(ua_node_id \<Rightarrow> string) \<Rightarrow> event_registry \<Rightarrow> 32 word \<Rightarrow> ua_node_id \<Rightarrow> ua_node_id option" where
  "fieldAt xmlString r i t = erFields r (getKey xmlString t i)"

lemma lookup_step:
  "getEventFieldNodeId xs r t i =
    (case fieldAt xs r i t of Some n \<Rightarrow> Some (Some n)
     | None \<Rightarrow> (case erTypes r t of Some s \<Rightarrow> getEventFieldNodeId xs r s i | None \<Rightarrow> Some None))"
  unfolding fieldAt_def by (rule getEventFieldNodeId.simps)

text \<open>Climbing past types without the field does not change the result.\<close>

lemma lookup_climb:
  "ancestor r n t = Some a \<Longrightarrow>
   (\<And>m b. m < n \<Longrightarrow> ancestor r m t = Some b \<Longrightarrow> fieldAt xs r i b = None) \<Longrightarrow>
   getEventFieldNodeId xs r t i = getEventFieldNodeId xs r a i"
proof (induction n arbitrary: t)
  case (Suc n)
  obtain s where s: "erTypes r t = Some s" "ancestor r n s = Some a"
    using Suc.prems(1) by (auto split: option.splits)
  have "fieldAt xs r i b = None" if "m < n" "ancestor r m s = Some b" for m b
    using Suc.prems(2) [of "Suc m" b] that s(1) by simp
  then have "getEventFieldNodeId xs r s i = getEventFieldNodeId xs r a i"
    using Suc.IH [OF s(2)] by blast
  moreover have "fieldAt xs r i t = None" using Suc.prems(2) [of 0 t] by simp
  ultimately show ?case by (subst lookup_step) (simp add: s(1))
qed simp

lemma lookup_result:
  "getEventFieldNodeId xs r t i = Some f \<Longrightarrow>
   \<exists>n a. ancestor r n t = Some a \<and> fieldAt xs r i a = f \<and> (f = None \<longrightarrow> erTypes r a = None) \<and>
     (\<forall>m<n. \<forall>b. ancestor r m t = Some b \<longrightarrow> fieldAt xs r i b = None)"
proof (induction rule: getEventFieldNodeId.raw_induct [rotated, consumes 1, case_names step])
  case (step rec xs r t i f)
  show ?case
  proof (cases "fieldAt xs r i t")
    case (Some n)
    then show ?thesis
      using step(2) by (intro exI [of _ 0] exI [of _ t]) (auto simp: fieldAt_def)
  next
    case None
    show ?thesis
    proof (cases "erTypes r t")
      case None': None
      then show ?thesis
        using step(2) None by (intro exI [of _ 0] exI [of _ t]) (simp add: fieldAt_def)
    next
      case s: (Some s)
      then have "rec xs r s i = Some f" using step(2) None by (simp add: fieldAt_def)
      from step(1) [OF this] obtain n a where a: "ancestor r n s = Some a" "fieldAt xs r i a = f"
        "f = None \<longrightarrow> erTypes r a = None"
        "\<forall>m<n. \<forall>b. ancestor r m s = Some b \<longrightarrow> fieldAt xs r i b = None"
        by (elim exE conjE) (rule that)
      have "fieldAt xs r i b = None" if "m < Suc n" "ancestor r m t = Some b" for m b
        using that a(4) None s by (cases m) auto
      then show ?thesis using a s by (intro exI [of _ "Suc n"] exI [of _ a]) auto
    qed
  qed
qed

text \<open>
  The lookup of an event field returns the registration of the nearest type, from the event's type
  upwards, that has one for the index.
\<close>

theorem event_field_nearest:
  "getEventFieldNodeId xs r t i = Some (Some f) \<longleftrightarrow>
    (\<exists>n a. ancestor r n t = Some a \<and> fieldAt xs r i a = Some f \<and>
       list_all (\<lambda>m. Option.bind (ancestor r m t) (fieldAt xs r i) = None) [0..<n])"
  (is "_ \<longleftrightarrow> ?spec")
proof
  assume "getEventFieldNodeId xs r t i = Some (Some f)"
  from lookup_result [OF this] obtain n a where
    "ancestor r n t = Some a" "fieldAt xs r i a = Some f"
    "\<forall>m<n. \<forall>b. ancestor r m t = Some b \<longrightarrow> fieldAt xs r i b = None"
    by (elim exE conjE) (rule that)
  moreover from this(3) have "list_all (\<lambda>m. Option.bind (ancestor r m t) (fieldAt xs r i) = None) [0..<n]"
    by (auto simp: list_all_iff split: Option.bind_split)
  ultimately show ?spec by blast
next
  assume ?spec
  then obtain n a where a: "ancestor r n t = Some a" "fieldAt xs r i a = Some f"
    "list_all (\<lambda>m. Option.bind (ancestor r m t) (fieldAt xs r i) = None) [0..<n]"
    by blast
  have "fieldAt xs r i b = None" if "m < n" "ancestor r m t = Some b" for m b
  proof -
    have "Option.bind (ancestor r m t) (fieldAt xs r i) = None"
      using a(3) that(1) by (simp add: list_all_iff)
    then show ?thesis by (simp add: that(2))
  qed
  from lookup_climb [OF a(1) this] a(2) show "getEventFieldNodeId xs r t i = Some (Some f)"
    by (subst (asm) lookup_step [of xs r a]) simp
qed

subsection \<open>Termination of the lookup\<close>

text \<open>The types registered so far, each one before any of its sub types and not as its own super type.\<close>

inductive registered :: "event_registry \<Rightarrow> bool" where
  start: "registered emptyRegistry"
| type: "registered r \<Longrightarrow> erTypes r newType = None \<Longrightarrow> newType \<notin> ran (erTypes r) \<Longrightarrow>
     newType \<noteq> superType \<Longrightarrow> registered (registerEventType superType newType r)"
| field: "registered r \<Longrightarrow>
     registered (registerEventField xs fieldIndexOf eventTypeId fieldNodeId filterName r)"

definition ranked :: "event_registry \<Rightarrow> bool" where
  "ranked r = (\<exists>rank :: ua_node_id \<Rightarrow> nat. \<forall>t s. erTypes r t = Some s \<longrightarrow> rank s < rank t)"

lemma registered_ranked: "registered r \<Longrightarrow> ranked r"
proof (induction rule: registered.induct)
  case start
  then show ?case by (simp add: ranked_def emptyRegistry_def)
next
  case (type r new sup)
  then obtain rank :: "ua_node_id \<Rightarrow> nat"
    where rank: "\<And>t s. erTypes r t = Some s \<Longrightarrow> rank s < rank t"
    by (auto simp: ranked_def)
  have "(rank(new := Suc (rank sup))) s < (rank(new := Suc (rank sup))) t"
    if "erTypes (registerEventType sup new r) t = Some s" for t s
  proof (cases "t = new")
    case True
    then show ?thesis using that type.hyps by (simp add: registerEventType_def)
  next
    case False
    then have "erTypes r t = Some s" using that by (simp add: registerEventType_def)
    moreover from this have "s \<noteq> new" using type.hyps by (auto simp: ran_def)
    ultimately show ?thesis using rank False by simp
  qed
  then show ?case unfolding ranked_def by blast
next
  case (field r)
  then show ?case by (simp add: ranked_def registerEventField_def)
qed

lemma ranked_lookup: "ranked r \<Longrightarrow> \<exists>f. getEventFieldNodeId xs r t i = Some f"
proof -
  assume "ranked r"
  then obtain rank :: "ua_node_id \<Rightarrow> nat"
    where rank: "\<And>t s. erTypes r t = Some s \<Longrightarrow> rank s < rank t"
    by (auto simp: ranked_def)
  show ?thesis
  proof (induction "rank t" arbitrary: t rule: less_induct)
    case less
    then show ?case using rank by (subst lookup_step) (auto split: option.splits)
  qed
qed

text \<open>
  When every event type was registered before its sub types, the lookup of a field returns, for
  every type and index.
\<close>

theorem event_field_lookup_returns:
  "registered r \<Longrightarrow> \<exists>f. getEventFieldNodeId xs r t i = Some f"
  by (rule ranked_lookup) (rule registered_ranked)

theorem event_field_lookup_returns_witness:
  "\<exists>f. getEventFieldNodeId (\<lambda>_. []) (registerEventType (UaNumeric 0 2041) (UaNumeric 2 1) emptyRegistry)
     (UaNumeric 2 1) 3 = Some f"
  by (rule event_field_lookup_returns)
    (intro registered.type registered.start; simp add: emptyRegistry_def)

text \<open>
  The lookup does not return exactly when the chain of super types does not end (the registry does
  not refuse a cycle) and no type of it has the field.
\<close>

theorem event_field_lookup_diverges:
  "getEventFieldNodeId xs r t i = None \<longleftrightarrow>
    (\<forall>n. case ancestor r n t of None \<Rightarrow> False | Some a \<Rightarrow> fieldAt xs r i a = None)"
  (is "_ \<longleftrightarrow> ?endless")
proof
  assume *: "getEventFieldNodeId xs r t i = None"
  show ?endless
  proof
    fix n
    show "case ancestor r n t of None \<Rightarrow> False | Some a \<Rightarrow> fieldAt xs r i a = None"
      using *
    proof (induction n arbitrary: t)
      case 0
      then show ?case by (subst (asm) lookup_step) (auto split: option.splits)
    next
      case (Suc n)
      then obtain s where "erTypes r t = Some s" "getEventFieldNodeId xs r s i = None"
        by (subst (asm) (2) lookup_step) (auto split: option.splits)
      with Suc.IH [of s] show ?case by simp
    qed
  qed
next
  assume *: ?endless
  show "getEventFieldNodeId xs r t i = None"
  proof (rule ccontr)
    assume "getEventFieldNodeId xs r t i \<noteq> None"
    then obtain f where "getEventFieldNodeId xs r t i = Some f" by blast
    from lookup_result [OF this] obtain n a where
      a: "ancestor r n t = Some a" "fieldAt xs r i a = f" "f = None \<longrightarrow> erTypes r a = None"
      by (elim exE conjE) (rule that)
    have "ancestor r (Suc n) t = None" using ancestor_Suc [of r n t] a spec [OF *, of n] by simp
    with spec [OF *, of "Suc n"] show False by simp
  qed
qed

subsection \<open>The data of an event\<close>

text \<open>
  The constructor copies the type id through \<open>identifierNumeric()\<close>, which is only valid for a numeric id.
\<close>

record event_type_data =
  etdTypeId :: ua_node_id
  etdFieldData :: "ua_node_id \<Rightarrow> ua_variant option"

definition newEventTypeData :: "ua_node_id \<Rightarrow> (cpp_error, event_type_data) res" where
  "newEventTypeData eventTypeNodeId =
    bindR (identifierNumeric eventTypeNodeId) (\<lambda>i.
      Inr \<lparr>etdTypeId = UaNumeric (uaNamespaceIndex eventTypeNodeId) i, etdFieldData = (\<lambda>_. None)\<rparr>)"

definition addFieldData :: "ua_node_id \<Rightarrow> ua_variant \<Rightarrow> event_type_data \<Rightarrow> event_type_data" where
  "addFieldData fieldNodeId value d = d\<lparr>etdFieldData := (etdFieldData d)(fieldNodeId \<mapsto> value)\<rparr>"

text \<open>A field of the base event, a value, or nothing (an error is logged).\<close>

datatype event_field_data = BaseEventField | FieldValue ua_variant | MissingFieldData

definition getFieldData ::
  "(ua_node_id \<Rightarrow> string) \<Rightarrow> event_registry \<Rightarrow> event_type_data \<Rightarrow> 32 word \<Rightarrow> event_field_data option"
where
  "getFieldData xmlString r d index =
    (case getEventFieldNodeId xmlString r (etdTypeId d) index of
       None \<Rightarrow> None
     | Some None \<Rightarrow> Some BaseEventField
     | Some (Some nodeId) \<Rightarrow>
         Some (case etdFieldData d nodeId of None \<Rightarrow> MissingFieldData | Some v \<Rightarrow> FieldValue v))"

definition eventWithData ::
  "ua_node_id \<Rightarrow> (ua_node_id \<times> ua_variant) list \<Rightarrow> (cpp_error, event_type_data) res"
where
  "eventWithData t fs = mapR (\<lambda>d. foldl (\<lambda>d p. addFieldData (fst p) (snd p) d) d fs) (newEventTypeData t)"

lemma fold_addFieldData:
  "etdTypeId (foldl (\<lambda>d p. addFieldData (fst p) (snd p) d) d fs) = etdTypeId d"
  "etdFieldData (foldl (\<lambda>d p. addFieldData (fst p) (snd p) d) d fs) =
     (\<lambda>n. case map_of (rev fs) n of Some v \<Rightarrow> Some v | None \<Rightarrow> etdFieldData d n)"
  by (induction fs rule: rev_induct) (auto simp: addFieldData_def)

text \<open>
  For an event type with a numeric id, a field of the event holds the value added last for the
  nearest registered field node, base fields come from the base class, and a registered field without a
  value stays empty; an event of a type with a string id is undefined behaviour at its construction.
\<close>

theorem event_data_fields:
  "mapR (\<lambda>d. getFieldData xs r d i) (eventWithData t fs) =
    (if isNumericId t then
       Inr (case getEventFieldNodeId xs r t i of
              None \<Rightarrow> None
            | Some None \<Rightarrow> Some BaseEventField
            | Some (Some f) \<Rightarrow>
                Some (case map_of (rev fs) f of None \<Rightarrow> MissingFieldData | Some v \<Rightarrow> FieldValue v))
     else Inl UndefinedBehaviour)"
  by (cases t)
    (simp_all add: eventWithData_def newEventTypeData_def getFieldData_def fold_addFieldData
      cong: option.case_cong split: option.split)

end
