(* ===== verification/Converter_Ua2IO.thy ===== *)
theory Converter_Ua2IO
  imports Ua_Model Io_Values
begin

text \<open>
  The converter from OPC UA values to values of the internal interface
  (\<open>sasModelProvider/base/ConverterUa2IO.cpp\<close>, the overloads of \<open>convertUa2io\<close>). The switch over the
  built-in types of \<open>convertUaBuildInType2io\<close> is split into groups of its cases; \<open>None\<close> is the
  \<open>NULL\<close> result of that function.
\<close>

definition ua2ioNodeId :: "ua_node_id \<Rightarrow> (cpp_error, io_node_id) res" where
  "ua2ioNodeId nodeId =
    (case nodeId of
       UaNumeric ns i \<Rightarrow> Inr (NodeIdNumeric (ucast ns) (ucast i))
     | UaString ns s \<Rightarrow> Inr (NodeIdString (ucast ns) (cstr s))
     | _ \<Rightarrow> Inl ConversionException)"

definition getBuildInType :: "converter_env \<Rightarrow> ua_node_id \<Rightarrow> (cpp_error, ua_node_id) res" where
  "getBuildInType env typeId =
    (if uaNamespaceIndex typeId = 0 then Inr typeId
     else bindR (cbGetSuperTypes env typeId)
       (\<lambda>superTypes. case superTypes of
          Some (t # ts) \<Rightarrow> Inr (last (t # ts))
        | _ \<Rightarrow> Inl ConversionException))"

subsection \<open>Built-in types\<close>

abbreviation (input) scalarR :: "io_scalar \<Rightarrow> (cpp_error, io_variant option) res" where
  "scalarR s \<equiv> Inr (Some (IOScalar s))"

definition uaNarrow2io :: "32 word \<Rightarrow> ua_variant \<Rightarrow> (cpp_error, io_variant option) res" where
  "uaNarrow2io srcType value =
    (if srcType = OpcUaType_Boolean then
       (case value of UaBool b \<Rightarrow> scalarR (IOBool b) | _ \<Rightarrow> Inl ConversionException)
     else if srcType = OpcUaType_SByte then
       (case value of UaSByte b \<Rightarrow> scalarR (IOSChar b) | _ \<Rightarrow> Inl ConversionException)
     else if srcType = OpcUaType_Byte then
       (case value of UaByte b \<Rightarrow> scalarR (IOChar (char_of (unat b))) | _ \<Rightarrow> Inl ConversionException)
     else if srcType = OpcUaType_Int16 then
       (case value of UaInt16 i \<Rightarrow> scalarR (IOInt (scast i)) | _ \<Rightarrow> Inl ConversionException)
     else
       (case value of UaUInt16 i \<Rightarrow> scalarR (IOUInt (ucast i)) | _ \<Rightarrow> Inl ConversionException))"

definition uaWide2io :: "32 word \<Rightarrow> ua_variant \<Rightarrow> (cpp_error, io_variant option) res" where
  "uaWide2io srcType value =
    (if srcType = OpcUaType_Int32 \<or> srcType = OpcUaId_Enumeration then
       (case value of
          UaUInt16 i \<Rightarrow> scalarR (IOLong (ucast i))
        | UaInt32 i \<Rightarrow> scalarR (IOLong (scast i))
        | _ \<Rightarrow> Inl ConversionException)
     else if srcType = OpcUaType_UInt32 then
       (case value of UaUInt32 i \<Rightarrow> scalarR (IOULong (ucast i)) | _ \<Rightarrow> Inl ConversionException)
     else if srcType = OpcUaType_Int64 then
       (case value of UaInt64 i \<Rightarrow> scalarR (IOLLong i) | _ \<Rightarrow> Inl ConversionException)
     else
       (case value of UaUInt64 i \<Rightarrow> scalarR (IOULLong i) | _ \<Rightarrow> Inl ConversionException))"

definition uaFloatText2io :: "32 word \<Rightarrow> ua_variant \<Rightarrow> (cpp_error, io_variant option) res" where
  "uaFloatText2io srcType value =
    (if srcType = OpcUaType_Float then
       (case value of UaFloat f \<Rightarrow> scalarR (IOFloat f) | _ \<Rightarrow> Inl ConversionException)
     else if srcType = OpcUaType_Double \<or> srcType = OpcUaId_Duration then
       (case value of UaDouble f \<Rightarrow> scalarR (IODouble f) | _ \<Rightarrow> Inl ConversionException)
     else if srcType = OpcUaType_String then
       (case value of
          UaStr s \<Rightarrow> scalarR (IOString (case s of None \<Rightarrow> None | Some t \<Rightarrow> Some (cstr t)))
        | _ \<Rightarrow> Inl ConversionException)
     else
       (case value of UaDateTime i \<Rightarrow> scalarR (IOLLong i) | _ \<Rightarrow> Inl ConversionException))"

definition uaBytesId2io :: "32 word \<Rightarrow> ua_variant \<Rightarrow> (cpp_error, io_variant option) res" where
  "uaBytesId2io srcType value =
    (if srcType = OpcUaType_ByteString then
       (case value of
          UaByteStr bs \<Rightarrow> scalarR (IOByteString (if bs = [] then None else Some bs))
        | _ \<Rightarrow> Inl ConversionException)
     else
       (case value of
          UaNodeIdVal n \<Rightarrow>
            (case n of
               UaNumeric ns i \<Rightarrow> Inr (Some (IONodeId (NodeIdNumeric (ucast ns) (ucast i))))
             | UaString ns s \<Rightarrow> Inr (Some (IONodeId (NodeIdString (ucast ns) (cstr s))))
             | _ \<Rightarrow> Inl ConversionException)
        | _ \<Rightarrow> Inl ConversionException))"

definition uaLocText2io :: "32 word \<Rightarrow> ua_variant \<Rightarrow> (cpp_error, io_variant option) res" where
  "uaLocText2io srcType value =
    (if srcType = OpcUaType_LocalizedText then
       (case value of
          UaLocText locale text \<Rightarrow> scalarR (IOLocalizedText (map_option cstr locale) (map_option cstr text))
        | _ \<Rightarrow> Inl ConversionException)
     else scalarR (IOString (Some ''NULL'')))"

text \<open>A data value: an array of variants becomes an array, anything else is converted by its own type.\<close>

definition uaDataValue2io ::
  "converter_env \<Rightarrow> (ua_variant \<Rightarrow> ua_node_id \<Rightarrow> (cpp_error, io_variant) res) \<Rightarrow> ua_variant \<Rightarrow>
   (cpp_error, io_variant option) res"
where
  "uaDataValue2io env convert value =
    (case value of
       UaDataVal uav \<Rightarrow>
         (case uav of
            UaArr t xs \<Rightarrow>
              bindR (traverseR
                  (\<lambda>element. if uaIsArray element then Inl ConversionException
                             else convert element (sdkDataType env element))
                  (if t = OpcUaType_Variant then xs else []))
                (\<lambda>elements. Inr (Some (IOArray ioVARIANT (Some elements))))
          | _ \<Rightarrow> mapR Some (convert uav (sdkDataType env uav)))
     | _ \<Rightarrow> Inl ConversionException)"

definition uaBuildInType2io ::
  "converter_env \<Rightarrow> (ua_variant \<Rightarrow> ua_node_id \<Rightarrow> (cpp_error, io_variant) res) \<Rightarrow>
   ua_node_id \<Rightarrow> ua_variant \<Rightarrow> (cpp_error, io_variant option) res"
where
  "uaBuildInType2io env convert srcDataTypeId value =
    bindR (identifierNumeric srcDataTypeId) (\<lambda>srcType.
      if uaNamespaceIndex srcDataTypeId \<noteq> 0 then Inr None
      else if srcType \<in> {OpcUaType_Boolean, OpcUaType_SByte, OpcUaType_Byte, OpcUaType_Int16,
                         OpcUaType_UInt16}
        then uaNarrow2io srcType value
      else if srcType \<in> {OpcUaType_Int32, OpcUaId_Enumeration, OpcUaType_UInt32, OpcUaType_Int64,
                         OpcUaType_UInt64}
        then uaWide2io srcType value
      else if srcType \<in> {OpcUaType_Float, OpcUaType_Double, OpcUaId_Duration, OpcUaType_String,
                         OpcUaType_DateTime, OpcUaId_UtcTime}
        then uaFloatText2io srcType value
      else if srcType \<in> {OpcUaType_ByteString, OpcUaType_NodeId} then uaBytesId2io srcType value
      else if srcType \<in> {OpcUaType_LocalizedText, OpcUaType_Null} then uaLocText2io srcType value
      else if srcType = OpcUaType_Variant then uaDataValue2io env convert value
      else Inl ConversionException)"

subsection \<open>Structures, arrays and the converter itself\<close>

text \<open>
  The fields of a structure in the order of its definition: \<open>fieldData\<close> collects the converted values.
  A field that is not set is skipped when it is optional and an error otherwise; a bad status for a
  value that is set is an error.
\<close>

fun uaStructureFields2io ::
  "(ua_variant \<Rightarrow> ua_node_id \<Rightarrow> (cpp_error, io_variant) res) \<Rightarrow> (string \<times> ua_variant option) list \<Rightarrow>
   ua_field list \<Rightarrow> (string \<times> io_variant) list \<Rightarrow> (cpp_error, (string \<times> io_variant) list) res"
where
  "uaStructureFields2io convert sv [] fieldData = Inr fieldData"
| "uaStructureFields2io convert sv (sf # sfs) fieldData =
     (case map_of sv (fldName sf) of
        None \<Rightarrow>
          if fldOptional sf then uaStructureFields2io convert sv sfs fieldData
          else Inl ConversionException
      | Some None \<Rightarrow> Inl ConversionException
      | Some (Some fieldValue) \<Rightarrow>
          bindR (convert fieldValue (fldTypeId sf))
            (\<lambda>v. uaStructureFields2io convert sv sfs (smInsert (fldName sf) v fieldData)))"

text \<open>The field a union holds, or none when the union is null.\<close>

definition uaUnionField2io ::
  "(ua_variant \<Rightarrow> ua_node_id \<Rightarrow> (cpp_error, io_variant) res) \<Rightarrow> (string \<times> ua_variant option) list \<Rightarrow>
   ua_field list \<Rightarrow> (cpp_error, (string \<times> io_variant) list) res"
where
  "uaUnionField2io convert uv sfs =
    (case uv of
       (name, Some value) # _ \<Rightarrow>
         (case find (\<lambda>sf. fldName sf = name) sfs of
            None \<Rightarrow> Inr []
          | Some sf \<Rightarrow> bindR (convert value (fldTypeId sf)) (\<lambda>v. Inr [(fldName sf, v)]))
     | _ \<Rightarrow> Inr [])"

definition uaExtensionObject2io ::
  "converter_env \<Rightarrow> (ua_variant \<Rightarrow> ua_node_id \<Rightarrow> (cpp_error, io_variant) res) \<Rightarrow>
   (string \<times> ua_variant option) list \<Rightarrow> ua_node_id \<Rightarrow> (cpp_error, io_variant) res"
where
  "uaExtensionObject2io env convert eo srcDataTypeId =
    bindR (ua2ioNodeId srcDataTypeId) (\<lambda>nodeId.
    bindR (cbGetStructureDefinition env srcDataTypeId) (\<lambda>sd.
    bindR (if sdIsUnion sd then uaUnionField2io convert eo (sdChildren sd)
           else uaStructureFields2io convert eo (sdChildren sd) [])
      (\<lambda>fieldData. Inr (IOStructure nodeId fieldData))))"

definition getIoArrayType :: "ua_node_id \<Rightarrow> (cpp_error, int) res" where
  "getIoArrayType dataTypeId =
    (if uaNamespaceIndex dataTypeId = 0 then
       bindR (identifierNumeric dataTypeId) (\<lambda>i.
         if i = OpcUaType_Null then Inr ioSTRING
         else if i = OpcUaType_Int16 then Inr ioINT
         else if i = OpcUaType_UInt16 then Inr ioUINT
         else if i = OpcUaType_Int32 \<or> i = OpcUaId_Enumeration then Inr ioLONG
         else if i = OpcUaType_UInt32 then Inr ioULONG
         else if i = OpcUaType_String then Inr ioSTRING
         else if i = OpcUaType_LocalizedText then Inr ioLOCALIZED_TEXT
         else if i = OpcUaType_Variant then Inr ioVARIANT
         else if i = OpcUaId_Structure \<or> i = OpcUaId_Union then Inr ioSTRUCTURE
         else Inl ConversionException)
     else Inl ConversionException)"

definition uaArray2io ::
  "converter_env \<Rightarrow> (ua_variant \<Rightarrow> ua_node_id \<Rightarrow> (cpp_error, io_variant) res) \<Rightarrow>
   ua_variant list \<Rightarrow> ua_node_id \<Rightarrow> (cpp_error, io_variant) res"
where
  "uaArray2io env convert xs srcDataTypeId =
    bindR (getBuildInType env srcDataTypeId) (\<lambda>buildInDataTypeId.
    bindR (getIoArrayType buildInDataTypeId) (\<lambda>arrayType.
    bindR (traverseR
        (\<lambda>uav. if uaIsArray uav then Inl ConversionException else convert uav srcDataTypeId) xs)
      (\<lambda>elements. Inr (IOArray arrayType (Some elements)))))"

text \<open>\<open>toExtensionObject\<close> leaves the object empty when the variant holds none.\<close>

fun toExtensionObject :: "ua_variant \<Rightarrow> (string \<times> ua_variant option) list" where
  "toExtensionObject (UaExt eo) = eo"
| "toExtensionObject _ = []"

text \<open>The scalars of \<open>convertUa2io\<close>, and the recursion through arrays, structures and data values.\<close>

definition uaScalar2io ::
  "converter_env \<Rightarrow> (ua_variant \<Rightarrow> ua_node_id \<Rightarrow> (cpp_error, io_variant) res) \<Rightarrow>
   ua_variant \<Rightarrow> ua_node_id \<Rightarrow> (cpp_error, io_variant) res"
where
  "uaScalar2io env convert value srcDataTypeId =
    bindR (getBuildInType env srcDataTypeId) (\<lambda>buildInDataTypeId.
    bindR (identifierNumeric buildInDataTypeId) (\<lambda>i.
      if i = OpcUaId_Structure \<or> i = OpcUaId_Union then
        uaExtensionObject2io env convert (toExtensionObject value) srcDataTypeId
      else
        bindR (uaBuildInType2io env convert buildInDataTypeId value)
          (\<lambda>ret. case ret of None \<Rightarrow> Inl ConversionException | Some v \<Rightarrow> Inr v)))"

lemma uaStructureFields2io_cong [fundef_cong]:
  assumes "sv = sv'" "sfs = sfs'" "acc = acc'"
    and "\<And>k v t. (k, Some v) \<in> set sv' \<Longrightarrow> f v t = g v t"
  shows "uaStructureFields2io f sv sfs acc = uaStructureFields2io g sv' sfs' acc'"
proof -
  have "uaStructureFields2io f sv' sfs acc = uaStructureFields2io g sv' sfs acc"
    by (induction sfs arbitrary: acc)
      (auto split: option.splits intro!: bindR_cong assms(4) dest!: map_of_SomeD)
  then show ?thesis by (simp add: assms)
qed

lemma uaUnionField2io_cong [fundef_cong]:
  assumes "sv = sv'" "sfs = sfs'" "\<And>k v t. (k, Some v) \<in> set sv' \<Longrightarrow> f v t = g v t"
  shows "uaUnionField2io f sv sfs = uaUnionField2io g sv' sfs'"
proof -
  have "f v t = g v t" if "sv' = (n, Some v) # ps" for n v ps t
    using assms(3) [of n v t] that by simp
  then show ?thesis
    unfolding uaUnionField2io_def assms(1,2)
    by (auto split: list.splits option.splits prod.splits intro!: bindR_cong)
qed

lemma uaExtensionObject2io_cong [fundef_cong]:
  assumes "env = env'" "eo = eo'" "ty = ty'" "\<And>k v t. (k, Some v) \<in> set eo' \<Longrightarrow> f v t = g v t"
  shows "uaExtensionObject2io env f eo ty = uaExtensionObject2io env' g eo' ty'"
proof -
  have "uaStructureFields2io f eo' = uaStructureFields2io g eo'"
    by (intro ext uaStructureFields2io_cong refl) (rule assms(4))
  moreover have "uaUnionField2io f eo' = uaUnionField2io g eo'"
    by (intro ext uaUnionField2io_cong refl) (rule assms(4))
  ultimately show ?thesis
    unfolding uaExtensionObject2io_def assms(1-3) by (intro bindR_cong refl) (simp split: if_split)
qed

lemma uaArray2io_cong [fundef_cong]:
  assumes "env = env'" "xs = xs'" "ty = ty'" "\<And>v t. v \<in> set xs' \<Longrightarrow> f v t = g v t"
  shows "uaArray2io env f xs ty = uaArray2io env' g xs' ty'"
  unfolding uaArray2io_def assms(1-3)
  by (intro bindR_cong refl traverseR_cong) (simp add: assms(4))

lemma uaDataValue2io_cong [fundef_cong]:
  assumes "env = env'" "v = v'"
    and "\<And>x t. v' = UaDataVal x \<Longrightarrow> f x t = g x t"
    and "\<And>x t ty xs. v' = UaDataVal (UaArr ty xs) \<Longrightarrow> x \<in> set xs \<Longrightarrow> f x t = g x t"
  shows "uaDataValue2io env f v = uaDataValue2io env' g v'"
proof (cases v')
  case (UaDataVal u)
  note h = assms(3) [OF this] assms(4)
  show ?thesis
  proof (cases u)
    case (UaArr t xs)
    have "traverseR (\<lambda>e. if uaIsArray e then Inl ConversionException else f e (sdkDataType env' e)) xs =
        traverseR (\<lambda>e. if uaIsArray e then Inl ConversionException else g e (sdkDataType env' e)) xs"
      by (rule traverseR_cong) (use h UaArr UaDataVal in auto)
    then show ?thesis using UaArr UaDataVal assms(1,2) by (simp add: uaDataValue2io_def)
  qed (use h UaDataVal assms(1,2) in \<open>simp_all add: uaDataValue2io_def\<close>)
qed (use assms(1,2) in \<open>simp_all add: uaDataValue2io_def\<close>)

lemma uaBuildInType2io_cong [fundef_cong]:
  assumes "env = env'" "b = b'" "v = v'"
    and "\<And>x t. v' = UaDataVal x \<Longrightarrow> f x t = g x t"
    and "\<And>x t ty xs. v' = UaDataVal (UaArr ty xs) \<Longrightarrow> x \<in> set xs \<Longrightarrow> f x t = g x t"
  shows "uaBuildInType2io env f b v = uaBuildInType2io env' g b' v'"
  unfolding uaBuildInType2io_def assms(1-3)
  using uaDataValue2io_cong [OF refl refl, of v' f g env'] assms(4,5) by (intro bindR_cong) auto

lemma uaScalar2io_cong [fundef_cong]:
  assumes "env = env'" "v = v'" "ty = ty'"
    and "\<And>k x t eo. v' = UaExt eo \<Longrightarrow> (k, Some x) \<in> set eo \<Longrightarrow> f x t = g x t"
    and "\<And>x t. v' = UaDataVal x \<Longrightarrow> f x t = g x t"
    and "\<And>x t ty xs. v' = UaDataVal (UaArr ty xs) \<Longrightarrow> x \<in> set xs \<Longrightarrow> f x t = g x t"
  shows "uaScalar2io env f v ty = uaScalar2io env' g v' ty'"
proof -
  have "uaExtensionObject2io env' f (toExtensionObject v') ty' =
      uaExtensionObject2io env' g (toExtensionObject v') ty'"
    by (rule uaExtensionObject2io_cong) (use assms(4) in \<open>cases v'; auto\<close>)+
  moreover have "uaBuildInType2io env' f b v' = uaBuildInType2io env' g b v'" for b
    by (rule uaBuildInType2io_cong) (use assms(5,6) in auto)
  ultimately show ?thesis
    unfolding uaScalar2io_def assms(1-3) by (intro bindR_cong refl) (simp split: if_split)
qed

fun ua2io :: "converter_env \<Rightarrow> ua_variant \<Rightarrow> ua_node_id \<Rightarrow> (cpp_error, io_variant) res" where
  "ua2io env (UaArr t xs) srcDataTypeId = uaArray2io env (ua2io env) xs srcDataTypeId"
| "ua2io env value srcDataTypeId = uaScalar2io env (ua2io env) value srcDataTypeId"

subsection \<open>The loops over the fields of a structure\<close>

text \<open>Both converters build the fields of a structure from what each field of the definition gives.\<close>

fun collectFields ::
  "(ua_field \<Rightarrow> (cpp_error, 'x option) res) \<Rightarrow> ua_field list \<Rightarrow> (cpp_error, (string \<times> 'x) list) res"
where
  "collectFields g [] = Inr []"
| "collectFields g (sf # sfs) =
     bindR (g sf) (\<lambda>r. bindR (collectFields g sfs)
       (\<lambda>ps. Inr (case r of None \<Rightarrow> ps | Some x \<Rightarrow> (fldName sf, x) # ps)))"

definition uaField2io ::
  "(ua_variant \<Rightarrow> ua_node_id \<Rightarrow> (cpp_error, io_variant) res) \<Rightarrow> (string \<times> ua_variant option) list \<Rightarrow>
   ua_field \<Rightarrow> (cpp_error, io_variant option) res"
where
  "uaField2io convert sv sf =
    (case map_of sv (fldName sf) of
       None \<Rightarrow> if fldOptional sf then Inr None else Inl ConversionException
     | Some None \<Rightarrow> Inl ConversionException
     | Some (Some v) \<Rightarrow> mapR Some (convert v (fldTypeId sf)))"

abbreviation insertAll :: "('k :: linorder \<times> 'v) list \<Rightarrow> ('k \<times> 'v) list \<Rightarrow> ('k \<times> 'v) list" where
  "insertAll m ps \<equiv> foldl (\<lambda>m p. smInsert (fst p) (snd p) m) m ps"

lemma collect_loop:
  assumes "\<And>acc. loop [] acc = Inr acc"
    and "\<And>sf sfs acc. loop (sf # sfs) acc =
      bindR (g sf) (\<lambda>r. loop sfs (case r of None \<Rightarrow> acc | Some x \<Rightarrow> smInsert (fldName sf) x acc))"
  shows "loop sfs acc = mapR (insertAll acc) (collectFields g sfs)"
proof (induction sfs arbitrary: acc)
  case (Cons sf sfs)
  show ?case
  proof (cases "g sf")
    case (Inr r)
    then show ?thesis
      by (cases r; cases "collectFields g sfs") (simp_all add: assms(2) Cons)
  qed (simp add: assms(2))
qed (simp add: assms(1))

lemma uaStructureFields2io_collect:
  "uaStructureFields2io convert sv sfs acc =
     mapR (insertAll acc) (collectFields (uaField2io convert sv) sfs)"
proof (rule collect_loop)
  fix sf sfs acc
  show "uaStructureFields2io convert sv (sf # sfs) acc =
      bindR (uaField2io convert sv sf) (\<lambda>r. uaStructureFields2io convert sv sfs
        (case r of None \<Rightarrow> acc | Some x \<Rightarrow> smInsert (fldName sf) x acc))"
    by (auto simp: uaField2io_def mapR_def bindR_assoc split: option.split)
qed simp

lemma isOk_collectFields: "isOk (collectFields g sfs) \<longleftrightarrow> (\<forall>sf\<in>set sfs. isOk (g sf))"
proof (induction sfs)
  case (Cons sf sfs)
  then show ?case by (cases "g sf"; cases "collectFields g sfs") simp_all
qed simp

lemma collectFields_ConsE:
  assumes "collectFields g (sf # sfs) = Inr ps"
  obtains r qs where "g sf = Inr r" "collectFields g sfs = Inr qs"
    "ps = (case r of None \<Rightarrow> qs | Some x \<Rightarrow> (fldName sf, x) # qs)"
  using assms by (auto simp: bindR_eq_Inr)

lemma collectFields_names: "collectFields g sfs = Inr ps \<Longrightarrow> fst ` set ps \<subseteq> fldName ` set sfs"
proof (induction sfs arbitrary: ps)
  case (Cons sf sfs)
  from Cons.prems obtain r qs where *: "g sf = Inr r" "collectFields g sfs = Inr qs"
    "ps = (case r of None \<Rightarrow> qs | Some x \<Rightarrow> (fldName sf, x) # qs)"
    by (rule collectFields_ConsE)
  show ?case using Cons.IH [OF *(2)] *(3) by (auto split: option.splits)
qed simp

lemma collectFields_distinct:
  "collectFields g sfs = Inr ps \<Longrightarrow> distinct (map fldName sfs) \<Longrightarrow> distinct (map fst ps)"
proof (induction sfs arbitrary: ps)
  case (Cons sf sfs)
  from Cons.prems(1) obtain r qs where *: "g sf = Inr r" "collectFields g sfs = Inr qs"
    "ps = (case r of None \<Rightarrow> qs | Some x \<Rightarrow> (fldName sf, x) # qs)"
    by (rule collectFields_ConsE)
  with Cons collectFields_names [OF *(2)] show ?case by (auto split: option.splits)
qed simp

lemma collectFields_lookup:
  "collectFields g sfs = Inr ps \<Longrightarrow> distinct (map fldName sfs) \<Longrightarrow> sf \<in> set sfs \<Longrightarrow>
   g sf = Inr (map_of ps (fldName sf))"
proof (induction sfs arbitrary: ps)
  case (Cons sf' sfs)
  from Cons.prems(1) obtain r qs where *: "g sf' = Inr r" "collectFields g sfs = Inr qs"
    "ps = (case r of None \<Rightarrow> qs | Some x \<Rightarrow> (fldName sf', x) # qs)"
    by (rule collectFields_ConsE)
  show ?case
  proof (cases "sf = sf'")
    case True
    have "fldName sf' \<notin> fst ` set qs"
      using collectFields_names [OF *(2)] Cons.prems(2) by auto
    then have "map_of qs (fldName sf') = None" by (simp add: map_of_eq_None_iff)
    then show ?thesis using * True by (auto split: option.splits)
  next
    case False
    then have m: "sf \<in> set sfs" using Cons.prems(3) by simp
    moreover have "fldName sf' \<notin> fldName ` set sfs" using Cons.prems(2) by simp
    ultimately have n: "fldName sf \<noteq> fldName sf'" by (metis imageI)
    have "g sf = Inr (map_of qs (fldName sf))"
      by (rule Cons.IH [OF *(2)]) (use Cons.prems m in auto)
    then show ?thesis using * n by (auto split: option.splits)
  qed
qed simp

lemma collectFields_lookup_other:
  "collectFields g sfs = Inr ps \<Longrightarrow> k \<notin> fldName ` set sfs \<Longrightarrow> map_of ps k = None"
  using collectFields_names [of g sfs ps] by (auto simp: map_of_eq_None_iff)

lemma insertAll_lookup:
  "distinct (map fst ps) \<Longrightarrow> map_of (insertAll [] ps) = map_of ps"
  by (rule ext) (simp add: sm.find_fold split: option.split)

lemma insertAll_inv: "smInv (insertAll [] ps)"
  by (simp add: sm.inv_fold)

lemma fields_iff:
  assumes "distinct (map fldName sfs)"
  shows "mapR (insertAll []) (collectFields g sfs) = Inr fd \<longleftrightarrow>
    smInv fd \<and> fst ` set fd \<subseteq> fldName ` set sfs \<and>
    (\<forall>sf\<in>set sfs. g sf = Inr (map_of fd (fldName sf)))"
proof
  assume "mapR (insertAll []) (collectFields g sfs) = Inr fd"
  then obtain ps where ps: "collectFields g sfs = Inr ps" "fd = insertAll [] ps"
    by (auto simp: mapR_eq_Inr)
  have "map_of fd = map_of ps"
    using collectFields_distinct [OF ps(1) assms] ps(2) by (simp add: insertAll_lookup)
  moreover from this have "fst ` set fd = fst ` set ps" by (metis dom_map_of_conv_image_fst)
  ultimately show "smInv fd \<and> fst ` set fd \<subseteq> fldName ` set sfs \<and>
      (\<forall>sf\<in>set sfs. g sf = Inr (map_of fd (fldName sf)))"
    using collectFields_lookup [OF ps(1) assms] collectFields_names [OF ps(1)]
    by (simp add: ps(2) insertAll_inv)
next
  assume *: "smInv fd \<and> fst ` set fd \<subseteq> fldName ` set sfs \<and>
      (\<forall>sf\<in>set sfs. g sf = Inr (map_of fd (fldName sf)))"
  then have "isOk (collectFields g sfs)" by (simp add: isOk_collectFields)
  then obtain ps where ps: "collectFields g sfs = Inr ps" by (auto simp: isOk_iff)
  have "map_of ps k = map_of fd k" for k
  proof (cases "k \<in> fldName ` set sfs")
    case True
    then obtain sf where "sf \<in> set sfs" "k = fldName sf" by auto
    then show ?thesis using collectFields_lookup [OF ps assms, of sf] * by auto
  next
    case False
    then have "map_of fd k = None" using * by (auto simp: map_of_eq_None_iff)
    then show ?thesis using collectFields_lookup_other [OF ps False] by simp
  qed
  then have "map_of (insertAll [] ps) = map_of fd"
    using collectFields_distinct [OF ps assms] by (simp add: insertAll_lookup fun_eq_iff)
  then have "insertAll [] ps = fd" using * insertAll_inv smInv_unique by blast
  then show "mapR (insertAll []) (collectFields g sfs) = Inr fd" using ps by simp
qed

text \<open>A type whose base type is the structure or the union type.\<close>

definition structuredType :: "converter_env \<Rightarrow> ua_node_id \<Rightarrow> bool" where
  "structuredType env ty =
    (case getBuildInType env ty of
       Inr (UaNumeric _ i) \<Rightarrow> i = OpcUaId_Structure \<or> i = OpcUaId_Union
     | _ \<Rightarrow> False)"

lemma ua2io_ext:
  "structuredType env ty \<Longrightarrow> ua2io env (UaExt eo) ty = uaExtensionObject2io env (ua2io env) eo ty"
  by (auto simp: structuredType_def uaScalar2io_def split: sum.splits ua_node_id.splits)

text \<open>
  C26. An extension object of a structured type converts to the structure whose fields are exactly the
  converted values of the set fields of the type, in key order; the conversion fails when a mandatory
  field is not set, a status is bad or a field fails to convert.
\<close>

theorem ua2io_structure_fields:
  assumes "structuredType env ty" "ua2ioNodeId ty = Inr nodeId"
    and "cbGetStructureDefinition env ty = Inr sd" "\<not> sdIsUnion sd"
    and "distinct (map fldName (sdChildren sd))"
  shows "ua2io env (UaExt eo) ty = Inr r \<longleftrightarrow>
    (\<exists>fd. r = IOStructure nodeId fd \<and> smInv fd \<and> fst ` set fd \<subseteq> fldName ` set (sdChildren sd) \<and>
       (\<forall>sf\<in>set (sdChildren sd). uaField2io (ua2io env) eo sf = Inr (map_of fd (fldName sf))))"
proof -
  have "ua2io env (UaExt eo) ty =
      bindR (mapR (insertAll []) (collectFields (uaField2io (ua2io env) eo) (sdChildren sd)))
        (\<lambda>fd. Inr (IOStructure nodeId fd))"
    by (subst ua2io_ext [OF assms(1)])
      (simp add: uaExtensionObject2io_def uaStructureFields2io_collect assms(2-4))
  then show ?thesis
    using fields_iff [OF assms(5), of "uaField2io (ua2io env) eo"] by (auto simp: bindR_eq_Inr)
qed

text \<open>A small type system for the examples: a structure with a mandatory and an optional field.\<close>

definition exampleUaStruct :: ua_node_id where "exampleUaStruct = UaNumeric 2 100"

definition exampleEnv :: converter_env where
  "exampleEnv =
    \<lparr>cbGetSuperTypes = (\<lambda>ty. if ty = exampleUaStruct then Inr (Some [UaNumeric 0 22])
        else if ty = UaNumeric 2 5 then Inr (Some [UaNumeric 2 4, UaNumeric 0 29])
        else Inl ConversionException),
     cbGetStructureDefinition = (\<lambda>ty. if ty = exampleUaStruct
        then Inr \<lparr>sdIsUnion = False,
          sdChildren = [\<lparr>fldName = ''speed'', fldTypeId = UaNumeric 0 6, fldOptional = False, fldArray = False\<rparr>,
                        \<lparr>fldName = ''name'', fldTypeId = UaNumeric 0 12, fldOptional = True, fldArray = False\<rparr>]\<rparr>
        else Inl ConversionException),
     sdkDataType = (\<lambda>_. UaNumeric 0 6)\<rparr>"

theorem ua2io_structure_fields_witness:
  "ua2io exampleEnv (UaExt [(''speed'', Some (UaInt32 7))]) exampleUaStruct =
     Inr (IOStructure (NodeIdNumeric 2 100) [(''speed'', IOScalar (IOLong 7))])"
  by (subst ua2io_structure_fields
      [where nodeId = "NodeIdNumeric 2 100" and
        sd = "\<lparr>sdIsUnion = False,
          sdChildren = [\<lparr>fldName = ''speed'', fldTypeId = UaNumeric 0 6, fldOptional = False, fldArray = False\<rparr>,
                        \<lparr>fldName = ''name'', fldTypeId = UaNumeric 0 12, fldOptional = True, fldArray = False\<rparr>]\<rparr>"])
    (simp_all add: exampleEnv_def exampleUaStruct_def structuredType_def getBuildInType_def
      ua2ioNodeId_def uaField2io_def uaScalar2io_def uaBuildInType2io_def uaWide2io_def)

subsection \<open>Errors of the converter\<close>

text \<open>
  What the converter expects of its callback: it throws conversion exceptions only, base types are
  numeric, and so are the type ids of name space 0.
\<close>

definition typeIdOk :: "ua_node_id \<Rightarrow> bool" where
  "typeIdOk ty = (uaNamespaceIndex ty = 0 \<longrightarrow> isNumericId ty)"

definition envOk :: "converter_env \<Rightarrow> bool" where
  "envOk env =
    ((\<forall>ty. throwsOnly ConversionException (cbGetSuperTypes env ty)) \<and>
     (\<forall>ty ts. cbGetSuperTypes env ty = Inr (Some ts) \<longrightarrow> ts \<noteq> [] \<longrightarrow> isNumericId (last ts)) \<and>
     (\<forall>ty. throwsOnly ConversionException (cbGetStructureDefinition env ty)) \<and>
     (\<forall>ty sd. cbGetStructureDefinition env ty = Inr sd \<longrightarrow>
        (\<forall>sf\<in>set (sdChildren sd). typeIdOk (fldTypeId sf))) \<and>
     (\<forall>v. typeIdOk (sdkDataType env v)))"

lemma getBuildInType_ok:
  assumes "envOk env" "typeIdOk ty"
  shows "throwsOnly ConversionException (getBuildInType env ty)"
    and "getBuildInType env ty = Inr b \<Longrightarrow> isNumericId b"
proof -
  show "throwsOnly ConversionException (getBuildInType env ty)"
    using assms(1) unfolding getBuildInType_def envOk_def
    by (auto intro!: throwsOnly_bindR split: option.split list.split)
  assume b: "getBuildInType env ty = Inr b"
  show "isNumericId b"
  proof (cases "uaNamespaceIndex ty = 0")
    case True
    then show ?thesis using b assms(2) by (simp add: getBuildInType_def typeIdOk_def)
  next
    case False
    with b obtain sup where sup: "cbGetSuperTypes env ty = Inr sup"
      "(case sup of Some (t # ts) \<Rightarrow> Inr (last (t # ts)) | _ \<Rightarrow> Inl ConversionException) = Inr b"
      by (auto simp: getBuildInType_def bindR_eq_Inr simp del: last.simps)
    then obtain ts where "sup = Some ts" "ts \<noteq> []" "b = last ts"
      by (auto split: option.splits list.splits)
    then show ?thesis using sup(1) assms(1) by (simp add: envOk_def)
  qed
qed

lemma numeric_throwsOnly:
  "isNumericId b \<Longrightarrow> throwsOnly e (identifierNumeric b)"
  by (cases b) simp_all

lemma leaf_throwsOnly:
  "throwsOnly ConversionException (uaNarrow2io i v)"
  "throwsOnly ConversionException (uaWide2io i v)"
  "throwsOnly ConversionException (uaFloatText2io i v)"
  "throwsOnly ConversionException (uaBytesId2io i v)"
  "throwsOnly ConversionException (uaLocText2io i v)"
  "throwsOnly ConversionException (ua2ioNodeId n)"
  by (auto simp: uaNarrow2io_def uaWide2io_def uaFloatText2io_def uaBytesId2io_def uaLocText2io_def
      ua2ioNodeId_def split: ua_variant.split ua_node_id.split)

lemma getIoArrayType_throwsOnly:
  "isNumericId b \<Longrightarrow> throwsOnly ConversionException (getIoArrayType b)"
  by (cases b) (simp_all add: getIoArrayType_def)

lemma structureFields_throwsOnly:
  "(\<And>k v t. (k, Some v) \<in> set sv \<Longrightarrow> t \<in> fldTypeId ` set sfs \<Longrightarrow>
      throwsOnly ConversionException (f v t)) \<Longrightarrow>
   throwsOnly ConversionException (uaStructureFields2io f sv sfs acc)"
  by (induction sfs arbitrary: acc)
    (auto split: option.splits intro!: throwsOnly_bindR dest!: map_of_SomeD)

lemma unionField_throwsOnly:
  assumes "\<And>k v t. (k, Some v) \<in> set uv \<Longrightarrow> t \<in> fldTypeId ` set sfs \<Longrightarrow>
      throwsOnly ConversionException (f v t)"
  shows "throwsOnly ConversionException (uaUnionField2io f uv sfs)"
proof -
  have "throwsOnly ConversionException (f v (fldTypeId sf))"
    if "uv = (n, Some v) # ps" "find (\<lambda>sf. fldName sf = n) sfs = Some sf" for n v ps sf
    using assms [of n v "fldTypeId sf"] that by (auto simp: find_Some_iff)
  then show ?thesis
    by (auto simp: uaUnionField2io_def split: list.split option.split intro!: throwsOnly_bindR)
qed

lemma uaScalar2io_throwsOnly:
  assumes "envOk env" "typeIdOk ty"
    and ext: "\<And>k x eo t. v = UaExt eo \<Longrightarrow> (k, Some x) \<in> set eo \<Longrightarrow> typeIdOk t \<Longrightarrow>
      throwsOnly ConversionException (f x t)"
    and val: "\<And>x t. v = UaDataVal x \<Longrightarrow> typeIdOk t \<Longrightarrow> throwsOnly ConversionException (f x t)"
    and arr: "\<And>x t ty xs. v = UaDataVal (UaArr ty xs) \<Longrightarrow> x \<in> set xs \<Longrightarrow> typeIdOk t \<Longrightarrow>
      throwsOnly ConversionException (f x t)"
  shows "throwsOnly ConversionException (uaScalar2io env f v ty)"
proof -
  have dt: "typeIdOk (sdkDataType env x)" for x using assms(1) by (simp add: envOk_def)
  have dv: "throwsOnly ConversionException (uaDataValue2io env f v)"
    using val arr dt
    by (auto simp: uaDataValue2io_def split: ua_variant.split
        intro!: throwsOnly_bindR throwsOnly_traverseR)
  have b: "throwsOnly ConversionException (uaBuildInType2io env f b v)" if "isNumericId b" for b
    unfolding uaBuildInType2io_def
    by (intro throwsOnly_bindR numeric_throwsOnly that throwsOnly_if leaf_throwsOnly dv) simp_all
  have sdt: "typeIdOk t" if "cbGetStructureDefinition env ty = Inr sd" "t \<in> fldTypeId ` set (sdChildren sd)"
    for sd t
    using assms(1) that by (auto simp: envOk_def)
  have e: "throwsOnly ConversionException (f x t)"
    if "(k, Some x) \<in> set (toExtensionObject v)" "typeIdOk t" for k x t
    using that ext by (cases v) auto
  have x: "throwsOnly ConversionException (uaExtensionObject2io env f (toExtensionObject v) ty)"
    unfolding uaExtensionObject2io_def
    by (intro throwsOnly_bindR leaf_throwsOnly throwsOnly_if structureFields_throwsOnly
        unionField_throwsOnly)
      (use assms(1) e sdt in \<open>auto simp: envOk_def\<close>)
  show ?thesis
    unfolding uaScalar2io_def
    using getBuildInType_ok [OF assms(1,2)] b x
    by (auto intro!: throwsOnly_bindR throwsOnly_if numeric_throwsOnly split: option.split)
qed

lemma ua2io_throwsOnly:
  "envOk env \<Longrightarrow> typeIdOk ty \<Longrightarrow> throwsOnly ConversionException (ua2io env v ty)"
proof (induction v arbitrary: ty rule: ua_variant_parts_induct)
  case (arr t xs)
  then show ?case
    using getBuildInType_ok [OF arr.prems] getIoArrayType_throwsOnly
    by (auto simp: uaArray2io_def intro!: throwsOnly_bindR throwsOnly_traverseR throwsOnly_if)
next
  case (ext eo)
  then show ?case by (auto intro!: uaScalar2io_throwsOnly)
next
  case (dataval u)
  then show ?case by (auto intro!: uaScalar2io_throwsOnly)
next
  case (leaf v)
  then have "ua2io env v ty = uaScalar2io env (ua2io env) v ty" by (cases v) simp_all
  then show ?case using leaf by (auto intro!: uaScalar2io_throwsOnly)
qed


lemma exampleEnv_ok: "envOk exampleEnv"
  by (auto simp: envOk_def exampleEnv_def typeIdOk_def split: if_splits)


end
