(* ===== verification/Converter_Io2Ua.thy ===== *)
theory Converter_Io2Ua
  imports Converter_Ua2IO
begin

text \<open>
  The converter from values of the internal interface to OPC UA values
  (\<open>sasModelProvider/base/ConverterUa2IO.cpp\<close>, the overloads of \<open>convertIo2ua\<close>). The switch of
  \<open>convertIoScalar2ua\<close> over the scalar types is split into groups of its cases; \<open>None\<close> is a result
  that stayed \<open>NULL\<close>, which the function turns into a conversion exception.
\<close>

unbundle bit_operations_syntax

definition io2uaNodeId :: "io_node_id \<Rightarrow> ua_node_id" where
  "io2uaNodeId nodeId =
    (case nodeId of
       NodeIdNumeric ns i \<Rightarrow> UaNumeric (ucast ns) (ucast i)
     | NodeIdString ns s \<Rightarrow> UaString (ucast ns) (cstr s))"

subsection \<open>Scalars\<close>

text \<open>
  The range checks of the source use \<open>2 ^ 15\<close> and \<open>2 ^ 31\<close>, where the operator is the exclusive or and
  binds weaker than the comparison: \<open>v < 2 ^ 15\<close> is \<open>(v < 2) ^ 15\<close>.
\<close>

definition checkUInt16 :: "c_long \<Rightarrow> bool" where
  "checkUInt16 v = (0 \<le> sint v \<and> (of_bool (sint v < 2) XOR (15 :: int)) \<noteq> 0)"

definition checkUInt32 :: "64 word \<Rightarrow> bool" where
  "checkUInt32 v = (0 \<le> sint v \<and> (of_bool (sint v < 2) XOR (31 :: int)) \<noteq> 0)"

definition ioNarrow2ua :: "io_scalar \<Rightarrow> 32 word \<Rightarrow> ua_variant option" where
  "ioNarrow2ua value i =
    (case value of
       IOBool b \<Rightarrow> if i = OpcUaType_Boolean then Some (UaBool b) else None
     | IOSChar b \<Rightarrow> if i = OpcUaType_SByte then Some (UaSByte b) else None
     | IOChar c \<Rightarrow> if i = OpcUaType_Byte then Some (UaByte (of_nat (of_char c))) else None
     | IOInt v \<Rightarrow> if i = OpcUaType_Int16 then Some (UaInt16 (ucast v)) else None
     | IOUInt v \<Rightarrow> if i = OpcUaType_UInt16 then Some (UaUInt16 (ucast v)) else None
     | _ \<Rightarrow> None)"

definition ioWide2ua :: "io_scalar \<Rightarrow> 32 word \<Rightarrow> (cpp_error, ua_variant option) res" where
  "ioWide2ua value i =
    (case value of
       IOLong v \<Rightarrow>
         if i = OpcUaType_Int32 \<or> i = OpcUaId_Enumeration then Inr (Some (UaInt32 (ucast v)))
         else if i = OpcUaType_UInt32 then Inr (Some (UaUInt32 (ucast v)))
         else if i = OpcUaType_UInt16 then
           (if checkUInt16 v then Inr (Some (UaUInt16 (ucast v))) else Inl ConversionException)
         else Inr None
     | IOULong v \<Rightarrow> if i = OpcUaType_UInt32 then Inr (Some (UaUInt32 (ucast v))) else Inr None
     | IOLLong v \<Rightarrow>
         if i = OpcUaType_Int64 then Inr (Some (UaInt64 v))
         else if i = OpcUaType_UInt32 then
           (if checkUInt32 v then Inr (Some (UaUInt32 (ucast v))) else Inl ConversionException)
         else if i = OpcUaType_DateTime \<or> i = OpcUaId_UtcTime then Inr (Some (UaDateTime v))
         else Inr None
     | IOULLong v \<Rightarrow> if i = OpcUaType_UInt64 then Inr (Some (UaUInt64 v)) else Inr None
     | _ \<Rightarrow> Inr None)"

definition ioText2ua :: "io_scalar \<Rightarrow> 32 word \<Rightarrow> ua_variant option" where
  "ioText2ua value i =
    (case value of
       IOFloat f \<Rightarrow> if i = OpcUaType_Float then Some (UaFloat f) else None
     | IODouble f \<Rightarrow>
         if i = OpcUaType_Double \<or> i = OpcUaId_Duration then Some (UaDouble f) else None
     | IOString s \<Rightarrow>
         if i = OpcUaType_String then Some (UaStr (map_option cstr s))
         else if i = OpcUaType_LocalizedText then
           Some (case s of None \<Rightarrow> UaLocText None None | Some t \<Rightarrow> UaLocText (Some ''en'') (Some (cstr t)))
         else None
     | IOByteString s \<Rightarrow>
         if i = OpcUaType_ByteString then Some (UaByteStr (case s of None \<Rightarrow> [] | Some bs \<Rightarrow> bs))
         else None
     | IOLocalizedText locale text \<Rightarrow>
         if i = OpcUaType_LocalizedText
         then Some (UaLocText (map_option cstr locale) (map_option cstr text)) else None
     | _ \<Rightarrow> None)"

definition ioScalar2ua :: "io_scalar \<Rightarrow> ua_node_id \<Rightarrow> (cpp_error, ua_variant) res" where
  "ioScalar2ua value destDataTypeId =
    bindR (identifierNumeric destDataTypeId) (\<lambda>i.
    bindR (case value of
             IOLong _ \<Rightarrow> ioWide2ua value i
           | IOULong _ \<Rightarrow> ioWide2ua value i
           | IOLLong _ \<Rightarrow> ioWide2ua value i
           | IOULLong _ \<Rightarrow> ioWide2ua value i
           | IOFloat _ \<Rightarrow> Inr (ioText2ua value i)
           | IODouble _ \<Rightarrow> Inr (ioText2ua value i)
           | IOString _ \<Rightarrow> Inr (ioText2ua value i)
           | IOByteString _ \<Rightarrow> Inr (ioText2ua value i)
           | IOLocalizedText _ _ \<Rightarrow> Inr (ioText2ua value i)
           | _ \<Rightarrow> Inr (ioNarrow2ua value i))
      (\<lambda>ret. case ret of None \<Rightarrow> Inl ConversionException | Some v \<Rightarrow> Inr v))"

subsection \<open>Structures\<close>

text \<open>A union takes at most one value, for one of its fields.\<close>

definition ioUnion2ua ::
  "(io_variant \<Rightarrow> ua_node_id \<Rightarrow> (cpp_error, ua_variant) res) \<Rightarrow> (string \<times> io_variant) list \<Rightarrow>
   ua_field list \<Rightarrow> (cpp_error, (string \<times> ua_variant option) list) res"
where
  "ioUnion2ua convert fieldData sfs =
    (case fieldData of
       [] \<Rightarrow> Inr []
     | [(fieldName, value)] \<Rightarrow>
         (case find (\<lambda>sf. fldName sf = cstr fieldName) sfs of
            None \<Rightarrow> Inl ConversionException
          | Some sf \<Rightarrow>
              bindR (convert value (fldTypeId sf)) (\<lambda>v. Inr [(fldName sf, Some v)]))
     | _ \<Rightarrow> Inl ConversionException)"

fun ioStructureFields2ua ::
  "(io_variant \<Rightarrow> ua_node_id \<Rightarrow> (cpp_error, ua_variant) res) \<Rightarrow> (string \<times> io_variant) list \<Rightarrow>
   ua_field list \<Rightarrow> (string \<times> ua_variant option) list \<Rightarrow>
   (cpp_error, (string \<times> ua_variant option) list) res"
where
  "ioStructureFields2ua convert fieldData [] sv = Inr sv"
| "ioStructureFields2ua convert fieldData (sf # sfs) sv =
     (case map_of fieldData (fldName sf) of
        None \<Rightarrow>
          if fldOptional sf then ioStructureFields2ua convert fieldData sfs sv
          else Inl ConversionException
      | Some value \<Rightarrow>
          bindR (convert value (fldTypeId sf))
            (\<lambda>fieldValue. ioStructureFields2ua convert fieldData sfs
                (smInsert (fldName sf) (Some fieldValue) sv)))"

definition ioStructure2ua ::
  "converter_env \<Rightarrow> (io_variant \<Rightarrow> ua_node_id \<Rightarrow> (cpp_error, ua_variant) res) \<Rightarrow>
   (string \<times> io_variant) list \<Rightarrow> ua_node_id \<Rightarrow> (cpp_error, ua_variant) res"
where
  "ioStructure2ua env convert fieldData destDataTypeId =
    bindR (cbGetStructureDefinition env destDataTypeId) (\<lambda>sd.
    bindR (if sdIsUnion sd then ioUnion2ua convert fieldData (sdChildren sd)
           else ioStructureFields2ua convert fieldData (sdChildren sd) [])
      (\<lambda>eo. Inr (UaExt eo)))"

subsection \<open>Arrays\<close>

text \<open>
  The element of an array is cast to the class its array type names; reading a member it does not
  hold, and following the \<open>NULL\<close> pointer of a null string, is undefined.
\<close>

fun elemLong :: "io_variant \<Rightarrow> (cpp_error, c_long) res" where
  "elemLong (IOScalar (IOLong v)) = Inr v"
| "elemLong _ = Inl UndefinedBehaviour"

fun elemULong :: "io_variant \<Rightarrow> (cpp_error, c_ulong) res" where
  "elemULong (IOScalar (IOULong v)) = Inr v"
| "elemULong _ = Inl UndefinedBehaviour"

fun elemLLong :: "io_variant \<Rightarrow> (cpp_error, 64 word) res" where
  "elemLLong (IOScalar (IOLLong v)) = Inr v"
| "elemLLong _ = Inl UndefinedBehaviour"

fun elemString :: "io_variant \<Rightarrow> (cpp_error, string) res" where
  "elemString (IOScalar (IOString (Some s))) = Inr (cstr s)"
| "elemString _ = Inl UndefinedBehaviour"

fun elemLocalizedText :: "io_variant \<Rightarrow> (cpp_error, string option \<times> string option) res" where
  "elemLocalizedText (IOScalar (IOLocalizedText l t)) = Inr (map_option cstr l, map_option cstr t)"
| "elemLocalizedText _ = Inl UndefinedBehaviour"

definition ioStructureArray2ua ::
  "(io_variant \<Rightarrow> ua_node_id \<Rightarrow> (cpp_error, ua_variant) res) \<Rightarrow> io_variant list \<Rightarrow> ua_node_id \<Rightarrow>
   (cpp_error, ua_variant) res"
where
  "ioStructureArray2ua convert elements destDataTypeId =
    mapR (UaArr OpcUaId_Structure)
      (traverseR (\<lambda>elem. case elem of IOStructure _ _ \<Rightarrow> convert elem destDataTypeId
                          | _ \<Rightarrow> Inl UndefinedBehaviour) elements)"

definition ioUInt16Array2ua :: "int \<Rightarrow> io_variant list \<Rightarrow> (cpp_error, ua_variant) res" where
  "ioUInt16Array2ua arrayType elements =
    mapR (\<lambda>xs. UaArr OpcUaType_UInt16 (map UaUInt16 xs))
      (traverseR (\<lambda>elem. if arrayType = ioLONG then mapR ucast (elemLong elem) else Inr 0) elements)"

definition ioInt32Array2ua :: "int \<Rightarrow> io_variant list \<Rightarrow> (cpp_error, ua_variant) res" where
  "ioInt32Array2ua arrayType elements =
    mapR (\<lambda>xs. UaArr OpcUaType_Int32 (map UaInt32 xs))
      (traverseR (\<lambda>elem. if arrayType = ioLONG then mapR ucast (elemLong elem) else Inr 0) elements)"

definition ioUInt32Array2ua :: "int \<Rightarrow> io_variant list \<Rightarrow> (cpp_error, ua_variant) res" where
  "ioUInt32Array2ua arrayType elements =
    mapR (\<lambda>xs. UaArr OpcUaType_UInt32 (map UaUInt32 xs))
      (traverseR (\<lambda>elem. if arrayType = ioULONG then mapR ucast (elemULong elem)
                          else if arrayType = ioLLONG then mapR ucast (elemLLong elem)
                          else Inr 0) elements)"

definition ioStringArray2ua :: "int \<Rightarrow> io_variant list \<Rightarrow> (cpp_error, ua_variant) res" where
  "ioStringArray2ua arrayType elements =
    mapR (\<lambda>xs. UaArr OpcUaType_String (map UaStr xs))
      (traverseR (\<lambda>elem. if arrayType = ioSTRING then mapR Some (elemString elem) else Inr None)
        elements)"

definition ioLocalizedTextArray2ua :: "int \<Rightarrow> io_variant list \<Rightarrow> (cpp_error, ua_variant) res" where
  "ioLocalizedTextArray2ua arrayType elements =
    mapR (\<lambda>xs. UaArr OpcUaType_LocalizedText (map (\<lambda>p. UaLocText (fst p) (snd p)) xs))
      (traverseR
        (\<lambda>elem. if arrayType = ioSTRING then mapR (\<lambda>s. (Some ''en'', Some s)) (elemString elem)
                 else if arrayType = ioLOCALIZED_TEXT then elemLocalizedText elem
                 else Inr (None, None)) elements)"

text \<open>Which array types can become which built-in types.\<close>

definition ioBuildInArray2ua ::
  "int \<Rightarrow> io_variant list \<Rightarrow> 32 word \<Rightarrow> (cpp_error, ua_variant) res"
where
  "ioBuildInArray2ua arrayType elements i =
    (if arrayType = ioLONG then
       (if i = OpcUaType_Int32 \<or> i = OpcUaId_Enumeration then ioInt32Array2ua arrayType elements
        else if i = OpcUaType_UInt16 then ioUInt16Array2ua arrayType elements
        else Inl ConversionException)
     else if arrayType = ioULONG then
       (if i = OpcUaType_UInt32 then ioUInt32Array2ua arrayType elements else Inl ConversionException)
     else if arrayType = ioLLONG then
       (if i = OpcUaType_UInt32 then ioUInt32Array2ua arrayType elements else Inl ConversionException)
     else if arrayType = ioSTRING then
       (if i = OpcUaType_String then ioStringArray2ua arrayType elements
        else if i = OpcUaType_LocalizedText then ioLocalizedTextArray2ua arrayType elements
        else Inl ConversionException)
     else if arrayType = ioLOCALIZED_TEXT then
       (if i = OpcUaType_LocalizedText then ioLocalizedTextArray2ua arrayType elements
        else Inl ConversionException)
     else Inl ConversionException)"

definition ioArray2ua ::
  "converter_env \<Rightarrow> (io_variant \<Rightarrow> ua_node_id \<Rightarrow> (cpp_error, ua_variant) res) \<Rightarrow> int \<Rightarrow>
   io_variant list option \<Rightarrow> ua_node_id \<Rightarrow> (cpp_error, ua_variant) res"
where
  "ioArray2ua env convert arrayType elements destDataTypeId =
    (case elements of
       None \<Rightarrow> Inl ConversionException
     | Some elems \<Rightarrow>
         (if arrayType = ioSTRUCTURE then ioStructureArray2ua convert elems destDataTypeId
          else
            bindR (getBuildInType env destDataTypeId) (\<lambda>b.
              if arrayType \<in> {ioLONG, ioULONG, ioLLONG, ioSTRING, ioLOCALIZED_TEXT}
              then bindR (identifierNumeric b) (ioBuildInArray2ua arrayType elems)
              else Inl ConversionException)))"

subsection \<open>The converter\<close>

lemma ioStructureFields2ua_cong:
  assumes "\<And>v t. v \<in> snd ` set fd \<Longrightarrow> f v t = g v t"
  shows "ioStructureFields2ua f fd sfs acc = ioStructureFields2ua g fd sfs acc"
proof (induction sfs arbitrary: acc)
  case (Cons sf sfs)
  have "f v t = g v t" if "map_of fd (fldName sf) = Some v" for v t
    using assms [of v t] map_of_SomeD [OF that] by force
  with Cons show ?case by (auto split: option.split intro!: bindR_cong)
qed simp

lemma ioUnion2ua_cong:
  assumes "\<And>v t. v \<in> snd ` set fd \<Longrightarrow> f v t = g v t"
  shows "ioUnion2ua f fd sfs = ioUnion2ua g fd sfs"
  using assms
  by (cases fd rule: remdups_adj.cases)
    (auto simp: ioUnion2ua_def split: option.split intro!: bindR_cong)

lemma ioStructure2ua_cong [fundef_cong]:
  assumes "env = env'" "fd = fd'" "ty = ty'" "\<And>v t. v \<in> snd ` set fd' \<Longrightarrow> f v t = g v t"
  shows "ioStructure2ua env f fd ty = ioStructure2ua env' g fd' ty'"
proof -
  have "ioStructureFields2ua f fd' = ioStructureFields2ua g fd'"
    by (intro ext ioStructureFields2ua_cong) (rule assms(4))
  moreover have "ioUnion2ua f fd' = ioUnion2ua g fd'"
    by (intro ext ioUnion2ua_cong) (rule assms(4))
  ultimately show ?thesis
    unfolding ioStructure2ua_def assms(1-3) by (intro bindR_cong refl) (simp split: if_split)
qed

lemma ioArray2ua_cong [fundef_cong]:
  assumes "env = env'" "t = t'" "es = es'" "ty = ty'"
    and "\<And>xs v t. es' = Some xs \<Longrightarrow> v \<in> set xs \<Longrightarrow> f v t = g v t"
  shows "ioArray2ua env f t es ty = ioArray2ua env' g t' es' ty'"
proof (cases es')
  case (Some xs)
  have "ioStructureArray2ua f xs ty' = ioStructureArray2ua g xs ty'"
    unfolding ioStructureArray2ua_def
    by (intro mapR_cong refl traverseR_cong) (use assms(5) [OF Some] in \<open>auto split: io_variant.split\<close>)
  then show ?thesis using Some by (simp add: ioArray2ua_def assms(1-4))
qed (simp add: ioArray2ua_def assms(1-4))

fun io2ua :: "converter_env \<Rightarrow> io_variant \<Rightarrow> ua_node_id \<Rightarrow> (cpp_error, ua_variant) res" where
  "io2ua env (IOArray arrayType elements) destDataTypeId =
     ioArray2ua env (io2ua env) arrayType elements destDataTypeId"
| "io2ua env (IOStructure dataTypeId fieldData) destDataTypeId =
     ioStructure2ua env (io2ua env) fieldData destDataTypeId"
| "io2ua env (IOScalar s) destDataTypeId =
     bindR (getBuildInType env destDataTypeId) (\<lambda>b. ioScalar2ua s b)"
| "io2ua env (IONodeId _) destDataTypeId = Inl ConversionException"
| "io2ua env (IONodeProperties _) destDataTypeId = Inl ConversionException"
| "io2ua env (IOEventData _ _ _ _) destDataTypeId = Inl ConversionException"

subsection \<open>Scalars that are read back as they were written\<close>

lemma checks_sign [simp]: "checkUInt16 v \<longleftrightarrow> 0 \<le> sint v" "checkUInt32 v \<longleftrightarrow> 0 \<le> sint v"
  by (simp_all add: checkUInt16_def checkUInt32_def of_bool_def)

text \<open>
  The range checks for a \<open>LONG\<close> written to a \<open>UInt16\<close> and for an \<open>LLONG\<close> written to a
  \<open>UInt32\<close> let every non-negative value pass: only the sign is checked, and a value beyond the range of
  the destination is truncated.
\<close>

theorem io2ua_range_checks:
  "ioScalar2ua (IOLong v) (UaNumeric ns OpcUaType_UInt16) =
     (if 0 \<le> sint v then Inr (UaUInt16 (ucast v)) else Inl ConversionException) \<and>
   ioScalar2ua (IOLLong w) (UaNumeric ns OpcUaType_UInt32) =
     (if 0 \<le> sint w then Inr (UaUInt32 (ucast w)) else Inl ConversionException)"
  by (simp add: ioScalar2ua_def ioWide2ua_def)

definition optNoNul :: "string option \<Rightarrow> bool" where
  "optNoNul s = (case s of None \<Rightarrow> True | Some t \<Rightarrow> noNul t)"

lemma optNoNul_cstr: "map_option cstr s = s \<longleftrightarrow> optNoNul s"
  by (cases s) (simp_all add: optNoNul_def cstr_eq_iff)

definition ioUaExact :: "32 word \<Rightarrow> io_scalar \<Rightarrow> bool" where
  "ioUaExact i s =
    (case s of
       IOBool _ \<Rightarrow> i = OpcUaType_Boolean
     | IOSChar _ \<Rightarrow> i = OpcUaType_SByte
     | IOChar _ \<Rightarrow> i = OpcUaType_Byte
     | IOInt v \<Rightarrow> i = OpcUaType_Int16 \<and> - (2 ^ 15) \<le> sint v \<and> sint v < 2 ^ 15
     | IOUInt v \<Rightarrow> i = OpcUaType_UInt16 \<and> uint v < 2 ^ 16
     | IOLong v \<Rightarrow> i \<in> {OpcUaType_Int32, OpcUaId_Enumeration} \<and> - (2 ^ 31) \<le> sint v \<and> sint v < 2 ^ 31
     | IOULong v \<Rightarrow> i = OpcUaType_UInt32 \<and> uint v < 2 ^ 32
     | IOLLong _ \<Rightarrow> i \<in> {OpcUaType_Int64, OpcUaType_DateTime, OpcUaId_UtcTime}
     | IOULLong _ \<Rightarrow> i = OpcUaType_UInt64
     | IOFloat _ \<Rightarrow> i = OpcUaType_Float
     | IODouble _ \<Rightarrow> i \<in> {OpcUaType_Double, OpcUaId_Duration}
     | IOString t \<Rightarrow> i = OpcUaType_String \<and> optNoNul t
     | IOByteString bs \<Rightarrow> i = OpcUaType_ByteString \<and> bs \<noteq> Some []
     | IOLocalizedText l t \<Rightarrow> i = OpcUaType_LocalizedText \<and> optNoNul l \<and> optNoNul t)"

lemma char_byte_char: "char_of (unat (word_of_nat (of_char c) :: c_byte)) = (c :: char)"
proof -
  have "unat (word_of_nat (of_char c) :: c_byte) = of_char c"
    using of_char_mod_256 [of c, where 'a = nat] by (simp add: unat_of_nat)
  then show ?thesis by simp
qed

lemma unat_byte_mod [simp]: "unat (b :: c_byte) mod 256 = unat b"
  using unsigned_less [of b, where 'a = nat] by simp

lemma char_byte_char_conv [simp]:
  "char_of (unat (of_nat (of_char c) :: c_byte)) = (c :: char)"
  using char_byte_char by simp

lemma uaScalar2io_base:
  "i \<noteq> OpcUaId_Structure \<Longrightarrow> i \<noteq> OpcUaId_Union \<Longrightarrow>
   uaScalar2io env f v (UaNumeric 0 i) =
     bindR (uaBuildInType2io env f (UaNumeric 0 i) v)
       (\<lambda>ret. case ret of None \<Rightarrow> Inl ConversionException | Some x \<Rightarrow> Inr x)"
  by (simp add: uaScalar2io_def getBuildInType_def)

lemmas ua_leaf_defs =
  uaNarrow2io_def uaWide2io_def uaFloatText2io_def uaBytesId2io_def uaLocText2io_def

lemmas io_leaf_defs = ioNarrow2ua_def ioWide2ua_def ioText2ua_def

lemmas scalar_trip_defs =
  getBuildInType_def ioScalar2ua_def io_leaf_defs uaScalar2io_base uaBuildInType2io_def ua_leaf_defs

text \<open>
  A scalar written to a type of name space 0 and read back is unchanged exactly when the type is
  one of its own and its value is in the OPC UA range of that type (strings without NUL, byte strings
  not empty).
\<close>

theorem io_ua_io_scalar_exact:
  "bindR (io2ua env (IOScalar s) (UaNumeric 0 i)) (\<lambda>v. ua2io env v (UaNumeric 0 i)) = Inr (IOScalar s)
     \<longleftrightarrow> ioUaExact i s"
  by (cases s)
    (auto simp: scalar_trip_defs ioUaExact_def narrow_exact_iff optNoNul_def cstr_eq_iff
      split: option.splits)

subsection \<open>OPC UA values that survive the way to the internal interface and back\<close>

definition uaScalarStable :: "32 word \<Rightarrow> ua_variant \<Rightarrow> bool" where
  "uaScalarStable i v =
    (case v of
       UaBool _ \<Rightarrow> i = OpcUaType_Boolean
     | UaSByte _ \<Rightarrow> i = OpcUaType_SByte
     | UaByte _ \<Rightarrow> i = OpcUaType_Byte
     | UaInt16 _ \<Rightarrow> i = OpcUaType_Int16
     | UaUInt16 _ \<Rightarrow> i = OpcUaType_UInt16
     | UaInt32 _ \<Rightarrow> i \<in> {OpcUaType_Int32, OpcUaId_Enumeration}
     | UaUInt32 _ \<Rightarrow> i = OpcUaType_UInt32
     | UaInt64 _ \<Rightarrow> i = OpcUaType_Int64
     | UaUInt64 _ \<Rightarrow> i = OpcUaType_UInt64
     | UaFloat _ \<Rightarrow> i = OpcUaType_Float
     | UaDouble _ \<Rightarrow> i \<in> {OpcUaType_Double, OpcUaId_Duration}
     | UaStr s \<Rightarrow> i = OpcUaType_String \<and> optNoNul s
     | UaDateTime _ \<Rightarrow> i \<in> {OpcUaType_DateTime, OpcUaId_UtcTime}
     | UaByteStr _ \<Rightarrow> i = OpcUaType_ByteString
     | UaLocText l t \<Rightarrow> i = OpcUaType_LocalizedText \<and> optNoNul l \<and> optNoNul t
     | _ \<Rightarrow> False)"

text \<open>The arrays both directions support: the type of the array, and its elements.\<close>

definition uaArrayTag :: "32 word \<Rightarrow> 32 word option" where
  "uaArrayTag i =
    (if i = OpcUaType_Int32 \<or> i = OpcUaId_Enumeration then Some OpcUaType_Int32
     else if i = OpcUaType_UInt32 then Some OpcUaType_UInt32
     else if i = OpcUaType_String then Some OpcUaType_String
     else if i = OpcUaType_LocalizedText then Some OpcUaType_LocalizedText
     else None)"

definition uaElemStable :: "32 word \<Rightarrow> ua_variant \<Rightarrow> bool" where
  "uaElemStable i v = (uaScalarStable i v \<and> v \<noteq> UaStr None)"

fun uaIsExt :: "ua_variant \<Rightarrow> bool" where
  "uaIsExt (UaExt _) = True"
| "uaIsExt _ = False"

definition structureStable ::
  "(ua_variant \<Rightarrow> ua_node_id \<Rightarrow> bool) \<Rightarrow> (string \<times> ua_variant option) list \<Rightarrow> ua_field list \<Rightarrow> bool"
where
  "structureStable P eo sfs =
    (smInv eo \<and> fst ` set eo \<subseteq> fldName ` set sfs \<and>
     list_all (\<lambda>sf. case map_of eo (fldName sf) of
         None \<Rightarrow> fldOptional sf
       | Some None \<Rightarrow> False
       | Some (Some v) \<Rightarrow> P v (fldTypeId sf)) sfs)"

definition unionStable ::
  "(ua_variant \<Rightarrow> ua_node_id \<Rightarrow> bool) \<Rightarrow> (string \<times> ua_variant option) list \<Rightarrow> ua_field list \<Rightarrow> bool"
where
  "unionStable P eo sfs =
    (case eo of
       [] \<Rightarrow> True
     | [(n, Some v)] \<Rightarrow>
         noNul n \<and>
         (case find (\<lambda>sf. fldName sf = n) sfs of None \<Rightarrow> False | Some sf \<Rightarrow> P v (fldTypeId sf))
     | _ \<Rightarrow> False)"

definition extStable ::
  "converter_env \<Rightarrow> (ua_variant \<Rightarrow> ua_node_id \<Rightarrow> bool) \<Rightarrow> (string \<times> ua_variant option) list \<Rightarrow>
   ua_node_id \<Rightarrow> bool"
where
  "extStable env P eo ty =
    (structuredType env ty \<and> isOk (ua2ioNodeId ty) \<and>
     (case cbGetStructureDefinition env ty of
        Inl _ \<Rightarrow> False
      | Inr sd \<Rightarrow>
          distinct (map fldName (sdChildren sd)) \<and>
          (if sdIsUnion sd then unionStable P eo (sdChildren sd)
           else structureStable P eo (sdChildren sd))))"

definition arrayStable ::
  "converter_env \<Rightarrow> (ua_variant \<Rightarrow> ua_node_id \<Rightarrow> bool) \<Rightarrow> 32 word \<Rightarrow> ua_variant list \<Rightarrow> ua_node_id \<Rightarrow> bool"
where
  "arrayStable env P t xs ty =
    (case getBuildInType env ty of
       Inr (UaNumeric ns i) \<Rightarrow>
         ns = 0 \<and>
         (if i = OpcUaId_Structure \<or> i = OpcUaId_Union
          then t = OpcUaId_Structure \<and> list_all (\<lambda>x. uaIsExt x \<and> P x ty) xs
          else uaArrayTag i = Some t \<and> list_all (uaElemStable i) xs)
     | _ \<Rightarrow> False)"

lemma structureStable_cong:
  assumes "\<And>k v t. (k, Some v) \<in> set eo \<Longrightarrow> P v t = Q v t"
  shows "structureStable P eo sfs = structureStable Q eo sfs"
  unfolding structureStable_def
  by (intro arg_cong2 [where f = "(\<and>)"] refl list.pred_cong)
    (auto split: option.split simp: assms dest!: map_of_SomeD)

lemma extStable_cong [fundef_cong]:
  assumes "env = env'" "eo = eo'" "ty = ty'"
    and "\<And>k v t. (k, Some v) \<in> set eo' \<Longrightarrow> P v t = Q v t"
  shows "extStable env P eo ty = extStable env' Q eo' ty'"
proof -
  have "unionStable P eo' sfs = unionStable Q eo' sfs" for sfs
    using assms(4) by (fastforce simp: unionStable_def split: list.split option.split)
  then show ?thesis
    using structureStable_cong [of eo' P Q] assms(4)
    by (auto simp: extStable_def assms(1-3) split: sum.split)
qed

lemma arrayStable_cong [fundef_cong]:
  assumes "env = env'" "t = t'" "xs = xs'" "ty = ty'" "\<And>v t. v \<in> set xs' \<Longrightarrow> P v t = Q v t"
  shows "arrayStable env P t xs ty = arrayStable env' Q t' xs' ty'"
  using assms by (auto simp: arrayStable_def list_all_iff split: sum.split ua_node_id.split)

fun uaStable :: "converter_env \<Rightarrow> ua_variant \<Rightarrow> ua_node_id \<Rightarrow> bool" where
  "uaStable env (UaArr t xs) ty = arrayStable env (uaStable env) t xs ty"
| "uaStable env (UaExt eo) ty = extStable env (uaStable env) eo ty"
| "uaStable env v ty =
     (case getBuildInType env ty of
        Inr (UaNumeric ns i) \<Rightarrow> ns = 0 \<and> uaScalarStable i v
      | _ \<Rightarrow> False)"

lemma scalar_back:
  assumes "uaScalarStable i v"
  shows "\<exists>s. (\<forall>env f. uaScalar2io env f v (UaNumeric 0 i) = Inr (IOScalar s)) \<and>
    ioScalar2ua s (UaNumeric 0 i) = Inr v"
  using assms
  by (cases v)
    (auto simp: uaScalarStable_def scalar_trip_defs optNoNul_cstr option.map_comp
        comp_def optNoNul_def split: option.split)

lemma stable_not_structured: "uaScalarStable i v \<Longrightarrow> i \<noteq> OpcUaId_Structure \<and> i \<noteq> OpcUaId_Union"
  by (auto simp: uaScalarStable_def split: ua_variant.splits)

lemma uaScalar2io_by_base:
  assumes "getBuildInType env ty = Inr (UaNumeric 0 i)" "i \<noteq> OpcUaId_Structure" "i \<noteq> OpcUaId_Union"
  shows "uaScalar2io env f v ty = uaScalar2io env f v (UaNumeric 0 i)"
  using assms by (simp add: uaScalar2io_def getBuildInType_def)

lemma leaf_back:
  assumes "getBuildInType env ty = Inr (UaNumeric 0 i)" "uaScalarStable i v"
  shows "\<exists>s. ua2io env v ty = Inr (IOScalar s) \<and> ioScalar2ua s (UaNumeric 0 i) = Inr v"
proof -
  have "ua2io env v ty = uaScalar2io env (ua2io env) v ty"
    using assms(2) by (cases v) (simp_all add: uaScalarStable_def)
  then show ?thesis
    using scalar_back [OF assms(2)] stable_not_structured [OF assms(2)]
      uaScalar2io_by_base [OF assms(1)] by auto
qed

text \<open>The element loops of the array conversions, uniformly.\<close>

definition elem2ua :: "32 word \<Rightarrow> io_variant \<Rightarrow> (cpp_error, ua_variant) res" where
  "elem2ua i e =
    (if i = OpcUaType_Int32 \<or> i = OpcUaId_Enumeration then mapR (\<lambda>w. UaInt32 (ucast w)) (elemLong e)
     else if i = OpcUaType_UInt32 then mapR (\<lambda>w. UaUInt32 (ucast w)) (elemULong e)
     else if i = OpcUaType_String then mapR (\<lambda>s. UaStr (Some s)) (elemString e)
     else mapR (\<lambda>p. UaLocText (fst p) (snd p)) (elemLocalizedText e))"

lemma mapR_comp: "mapR f (mapR g m) = mapR (\<lambda>x. f (g x)) m"
  by (cases m) simp_all

lemma mapR_traverse_map:
  "mapR (\<lambda>xs. h (map f xs)) (traverseR g es) = mapR h (traverseR (\<lambda>e. mapR f (g e)) es)"
  by (simp add: traverseR_mapR mapR_comp)

lemma build_in_array_elem:
  assumes "uaArrayTag i = Some t"
  shows "\<exists>at. getIoArrayType (UaNumeric 0 i) = Inr at \<and>
    at \<in> {ioLONG, ioULONG, ioLLONG, ioSTRING, ioLOCALIZED_TEXT} \<and>
    ioBuildInArray2ua at es i = mapR (UaArr t) (traverseR (elem2ua i) es)"
  using assms
  by (auto simp: uaArrayTag_def getIoArrayType_def ioBuildInArray2ua_def io_type_nums
      elem2ua_def [abs_def] ioInt32Array2ua_def ioUInt32Array2ua_def ioStringArray2ua_def
      ioLocalizedTextArray2ua_def mapR_traverse_map mapR_comp split: if_splits)

lemma elem_back:
  assumes "getBuildInType env ty = Inr (UaNumeric 0 i)" "uaArrayTag i = Some t" "uaElemStable i x"
  shows "\<exists>e. ua2io env x ty = Inr e \<and> elem2ua i e = Inr x"
proof -
  have i: "i \<noteq> OpcUaId_Structure" "i \<noteq> OpcUaId_Union"
    using assms(2) by (auto simp: uaArrayTag_def split: if_splits)
  show ?thesis
    using assms(2,3) uaScalar2io_by_base [OF assms(1) i]
    by (cases x)
      (auto simp: uaElemStable_def uaScalarStable_def elem2ua_def uaArrayTag_def scalar_trip_defs
        optNoNul_def option.map_comp comp_def split: if_splits option.splits)
qed

text \<open>A stable array, structure and union.\<close>

definition ioField2ua ::
  "(io_variant \<Rightarrow> ua_node_id \<Rightarrow> (cpp_error, ua_variant) res) \<Rightarrow> (string \<times> io_variant) list \<Rightarrow>
   ua_field \<Rightarrow> (cpp_error, ua_variant option option) res"
where
  "ioField2ua convert fd sf =
    (case map_of fd (fldName sf) of
       None \<Rightarrow> if fldOptional sf then Inr None else Inl ConversionException
     | Some v \<Rightarrow> mapR (\<lambda>x. Some (Some x)) (convert v (fldTypeId sf)))"

lemma ioStructureFields2ua_collect:
  "ioStructureFields2ua convert fd sfs acc =
     mapR (insertAll acc) (collectFields (ioField2ua convert fd) sfs)"
proof (rule collect_loop)
  fix sf sfs acc
  show "ioStructureFields2ua convert fd (sf # sfs) acc =
      bindR (ioField2ua convert fd sf) (\<lambda>r. ioStructureFields2ua convert fd sfs
        (case r of None \<Rightarrow> acc | Some x \<Rightarrow> smInsert (fldName sf) x acc))"
    by (auto simp: ioField2ua_def mapR_def bindR_assoc split: option.split)
qed simp

lemma structure_back:
  assumes d: "distinct (map fldName sfs)" and st: "structureStable P eo sfs"
    and conv: "\<And>v t. P v t \<Longrightarrow> (\<exists>k. (k, Some v) \<in> set eo) \<Longrightarrow> \<exists>x. f v t = Inr x \<and> g x t = Inr v"
  shows "\<exists>fd. uaStructureFields2io f eo sfs [] = Inr fd \<and> ioStructureFields2ua g fd sfs [] = Inr eo"
proof -
  have cases: "map_of eo (fldName sf) = None \<and> fldOptional sf \<or>
      (\<exists>v x. map_of eo (fldName sf) = Some (Some v) \<and> f v (fldTypeId sf) = Inr x \<and>
        g x (fldTypeId sf) = Inr v)" if "sf \<in> set sfs" for sf
  proof -
    have *: "case map_of eo (fldName sf) of None \<Rightarrow> fldOptional sf | Some None \<Rightarrow> False
        | Some (Some v) \<Rightarrow> P v (fldTypeId sf)"
      using st that by (simp add: structureStable_def list_all_iff)
    show ?thesis
    proof (cases "map_of eo (fldName sf)")
      case (Some r)
      with * obtain v where v: "r = Some v" "P v (fldTypeId sf)" by (cases r) auto
      with Some have "(fldName sf, Some v) \<in> set eo" by (simp add: map_of_SomeD)
      with conv [OF v(2)] v(1) Some show ?thesis by auto
    qed (use * in simp)
  qed
  have "isOk (collectFields (uaField2io f eo) sfs)"
    using cases by (fastforce simp: isOk_collectFields uaField2io_def)
  then obtain fd where fd: "mapR (insertAll []) (collectFields (uaField2io f eo) sfs) = Inr fd"
    by (auto simp: isOk_iff)
  have "ioField2ua g fd sf = Inr (map_of eo (fldName sf))" if "sf \<in> set sfs" for sf
  proof -
    have *: "Inr (map_of fd (fldName sf)) = uaField2io f eo sf"
      using fields_iff [OF d, of "uaField2io f eo" fd] fd that by simp
    show ?thesis
      using cases [OF that]
    proof (elim disjE exE conjE)
      fix v x assume v: "map_of eo (fldName sf) = Some (Some v)" "f v (fldTypeId sf) = Inr x"
        "g x (fldTypeId sf) = Inr v"
      then have "map_of fd (fldName sf) = Some x" using * by (simp add: uaField2io_def)
      then show ?thesis using v by (simp add: ioField2ua_def)
    qed (use * in \<open>simp add: uaField2io_def ioField2ua_def\<close>)
  qed
  then have "mapR (insertAll []) (collectFields (ioField2ua g fd) sfs) = Inr eo"
    using st by (simp add: fields_iff [OF d] structureStable_def)
  with fd show ?thesis by (auto simp: uaStructureFields2io_collect ioStructureFields2ua_collect)
qed

lemma unionStable_iff:
  "unionStable P eo sfs \<longleftrightarrow> eo = [] \<or>
    (\<exists>n v sf. eo = [(n, Some v)] \<and> noNul n \<and> find (\<lambda>sf. fldName sf = n) sfs = Some sf \<and>
       P v (fldTypeId sf))"
  by (cases eo; cases "tl eo"; cases "snd (hd eo)") (auto simp: unionStable_def split: option.split)

lemma union_back:
  assumes st: "unionStable P eo sfs"
    and conv: "\<And>v t. P v t \<Longrightarrow> (\<exists>k. (k, Some v) \<in> set eo) \<Longrightarrow> \<exists>x. f v t = Inr x \<and> g x t = Inr v"
  shows "\<exists>fd. uaUnionField2io f eo sfs = Inr fd \<and> ioUnion2ua g fd sfs = Inr eo"
proof (cases "eo = []")
  case True
  then show ?thesis by (simp add: uaUnionField2io_def ioUnion2ua_def)
next
  case False
  then obtain n v sf where *: "eo = [(n, Some v)]" "noNul n"
    "find (\<lambda>sf. fldName sf = n) sfs = Some sf" "P v (fldTypeId sf)"
    using st by (auto simp: unionStable_iff)
  then have n: "fldName sf = n" by (auto simp: find_Some_iff)
  obtain x where "f v (fldTypeId sf) = Inr x" "g x (fldTypeId sf) = Inr v"
    using conv [OF *(4)] *(1) by auto
  then show ?thesis using * n by (simp add: uaUnionField2io_def ioUnion2ua_def)
qed

lemma ext_back:
  assumes st: "extStable env P eo ty"
    and conv: "\<And>v t. P v t \<Longrightarrow> (\<exists>k. (k, Some v) \<in> set eo) \<Longrightarrow>
      \<exists>x. ua2io env v t = Inr x \<and> io2ua env x t = Inr v"
  shows "\<exists>n fd. ua2io env (UaExt eo) ty = Inr (IOStructure n fd) \<and>
    ioStructure2ua env (io2ua env) fd ty = Inr (UaExt eo)"
proof -
  obtain sd n where sd: "structuredType env ty" "ua2ioNodeId ty = Inr n"
    "cbGetStructureDefinition env ty = Inr sd" "distinct (map fldName (sdChildren sd))"
    "if sdIsUnion sd then unionStable P eo (sdChildren sd) else structureStable P eo (sdChildren sd)"
    using st by (auto simp: extStable_def isOk_iff split: sum.splits)
  have "\<exists>fd. (if sdIsUnion sd then uaUnionField2io (ua2io env) eo (sdChildren sd)
        else uaStructureFields2io (ua2io env) eo (sdChildren sd) []) = Inr fd \<and>
      (if sdIsUnion sd then ioUnion2ua (io2ua env) fd (sdChildren sd)
        else ioStructureFields2ua (io2ua env) fd (sdChildren sd) []) = Inr eo"
    using sd(5) structure_back [OF sd(4) _ conv] union_back [OF _ conv] by (simp split: if_splits)
  then show ?thesis
    unfolding ua2io_ext [OF sd(1)]
    by (auto simp: uaExtensionObject2io_def ioStructure2ua_def sd(2,3))
qed

lemma structure_array_back:
  assumes "\<And>x. x \<in> set xs \<Longrightarrow> \<exists>n fd. f x = Inr (IOStructure n fd) \<and> g (IOStructure n fd) ty = Inr x"
  shows "\<exists>es. traverseR f xs = Inr es \<and> ioStructureArray2ua g es ty = Inr (UaArr OpcUaId_Structure xs)"
proof -
  have "\<exists>es. traverseR f xs = Inr es \<and>
      traverseR (\<lambda>e. case e of IOStructure _ _ \<Rightarrow> g e ty | _ \<Rightarrow> Inl UndefinedBehaviour) es = Inr xs"
    using assms
  proof (induction xs)
    case (Cons x xs)
    then obtain es where "traverseR f xs = Inr es"
      "traverseR (\<lambda>e. case e of IOStructure _ _ \<Rightarrow> g e ty | _ \<Rightarrow> Inl UndefinedBehaviour) es = Inr xs"
      by auto
    moreover obtain n fd where "f x = Inr (IOStructure n fd)" "g (IOStructure n fd) ty = Inr x"
      using Cons.prems [of x] by auto
    ultimately show ?case by auto
  qed simp
  then show ?thesis by (auto simp: ioStructureArray2ua_def)
qed

lemma uaIsExt_iff: "uaIsExt x \<longleftrightarrow> (\<exists>eo. x = UaExt eo)"
  by (cases x) simp_all

text \<open>The elements of a stable array are converted exactly.\<close>

definition elemOk :: "converter_env \<Rightarrow> ua_node_id \<Rightarrow> 32 word \<Rightarrow> ua_variant \<Rightarrow> bool" where
  "elemOk env ty i x =
    (getBuildInType env ty = Inr (UaNumeric 0 i) \<and> uaArrayTag i \<noteq> None \<and> uaElemStable i x)"

interpretation elem: exact_conversion
  "\<lambda>x. if uaIsArray x then Inl ConversionException else ua2io env x ty" "elem2ua i" "elemOk env ty i"
  for env ty i
proof
  fix a assume a: "elemOk env ty i a"
  then have "\<not> uaIsArray a"
    by (cases a) (auto simp: elemOk_def uaElemStable_def uaScalarStable_def)
  then show "\<exists>e. (if uaIsArray a then Inl ConversionException else ua2io env a ty) = Inr e \<and>
      elem2ua i e = Inr a"
    using a elem_back [of env ty i _ a] by (auto simp: elemOk_def)
qed

lemma ua_io_ua:
  "uaStable env v ty \<Longrightarrow>
   \<exists>x. ua2io env v ty = Inr x \<and> io2ua env x ty = Inr v \<and> (uaIsExt v \<longrightarrow> (\<exists>n fd. x = IOStructure n fd))"
proof (induction v arbitrary: ty rule: ua_variant_parts_induct)
  case (ext eo)
  then have "extStable env (uaStable env) eo ty" by simp
  from ext_back [OF this] ext.IH show ?case by fastforce
next
  case (arr t xs)
  then obtain i where b: "getBuildInType env ty = Inr (UaNumeric 0 i)"
    by (auto simp: arrayStable_def split: sum.splits ua_node_id.splits)
  show ?case
  proof (cases "i = OpcUaId_Structure \<or> i = OpcUaId_Union")
    case True
    then have t: "t = OpcUaId_Structure" and x: "\<And>x. x \<in> set xs \<Longrightarrow> uaIsExt x \<and> uaStable env x ty"
      using arr.prems b by (auto simp: arrayStable_def list_all_iff)
    have "\<exists>es. traverseR (\<lambda>x. if uaIsArray x then Inl ConversionException else ua2io env x ty) xs = Inr es \<and>
        ioStructureArray2ua (io2ua env) es ty = Inr (UaArr OpcUaId_Structure xs)"
    proof (rule structure_array_back)
      fix x assume "x \<in> set xs"
      with x [OF this] arr.IH [of x ty] show "\<exists>n fd.
          (if uaIsArray x then Inl ConversionException else ua2io env x ty) = Inr (IOStructure n fd) \<and>
          io2ua env (IOStructure n fd) ty = Inr x"
        by (cases x) auto
    qed
    then show ?thesis
      using True b t
      by (auto simp: uaArray2io_def ioArray2ua_def getIoArrayType_def io_type_nums)
  next
    case False
    then have t: "uaArrayTag i = Some t" and x: "list_all (uaElemStable i) xs"
      using arr.prems b by (auto simp: arrayStable_def)
    then have "list_all (elemOk env ty i) xs" using b by (simp add: elemOk_def list_all_iff)
    from elem.back_list [OF this] obtain es where es:
      "traverseR (\<lambda>x. if uaIsArray x then Inl ConversionException else ua2io env x ty) xs = Inr es"
      "traverseR (elem2ua i) es = Inr xs"
      by blast
    obtain at where "getIoArrayType (UaNumeric 0 i) = Inr at"
      "at \<in> {ioLONG, ioULONG, ioLLONG, ioSTRING, ioLOCALIZED_TEXT}"
      "ioBuildInArray2ua at es i = mapR (UaArr t) (traverseR (elem2ua i) es)"
      using build_in_array_elem [OF t] by blast
    then show ?thesis using es b by (auto simp: uaArray2io_def ioArray2ua_def io_type_nums)
  qed
next
  case (dataval u)
  then show ?case by (auto simp: uaScalarStable_def split: sum.splits ua_node_id.splits)
next
  case (leaf v)
  then obtain i where b: "getBuildInType env ty = Inr (UaNumeric 0 i)" "uaScalarStable i v"
    by (cases v) (auto split: sum.splits ua_node_id.splits)
  then show ?case using leaf_back [OF b] leaf by (cases v) auto
qed

interpretation uaio: exact_conversion
  "\<lambda>v. ua2io env v ty" "\<lambda>x. io2ua env x ty" "\<lambda>v. uaStable env v ty"
  for env ty
  using ua_io_ua by unfold_locales blast

text \<open>
  C1. Every stable OPC UA value converts to the internal interface and back to the same value: scalars
  of the supported built-in types and their time and enumeration subtypes, arrays of 32 bit integers,
  strings, localized texts and structures, structures with mandatory and optional fields, and unions,
  nested to any depth.
\<close>

theorem ua_io_ua_roundtrip:
  "uaStable env v ty \<Longrightarrow> \<exists>x. ua2io env v ty = Inr x \<and> io2ua env x ty = Inr v"
  by (rule uaio.back_ok)

lemma exampleEnv_stable:
  "uaStable exampleEnv
     (UaArr 22 [UaExt [(''name'', Some (UaStr (Some ''a''))), (''speed'', Some (UaInt32 7))],
                UaExt [(''speed'', Some (UaInt32 (- 1)))]]) exampleUaStruct"
  by (simp add: arrayStable_def extStable_def structureStable_def structuredType_def exampleEnv_def
      exampleUaStruct_def getBuildInType_def ua2ioNodeId_def uaScalarStable_def optNoNul_def
      less_list_code)

theorem ua_io_ua_roundtrip_witness:
  "\<exists>x. ua2io exampleEnv
     (UaArr 22 [UaExt [(''name'', Some (UaStr (Some ''a''))), (''speed'', Some (UaInt32 7))],
                UaExt [(''speed'', Some (UaInt32 (- 1)))]]) exampleUaStruct = Inr x \<and>
     io2ua exampleEnv x exampleUaStruct =
       Inr (UaArr 22 [UaExt [(''name'', Some (UaStr (Some ''a''))), (''speed'', Some (UaInt32 7))],
                UaExt [(''speed'', Some (UaInt32 (- 1)))]])"
  by (rule ua_io_ua_roundtrip) (rule exampleEnv_stable)

subsection \<open>Node ids and structures\<close>

definition uaNodeIdOk :: "ua_node_id \<Rightarrow> bool" where
  "uaNodeIdOk n =
    (case n of UaNumeric _ _ \<Rightarrow> True | UaString _ s \<Rightarrow> noNul s | _ \<Rightarrow> False)"

interpretation uanid: exact_conversion ua2ioNodeId "\<lambda>m. Inr (io2uaNodeId m)" uaNodeIdOk
proof
  fix n assume "uaNodeIdOk n"
  then show "\<exists>m. ua2ioNodeId n = Inr m \<and> Inr (io2uaNodeId m) = Inr n"
    by (cases n) (auto simp: uaNodeIdOk_def ua2ioNodeId_def io2uaNodeId_def)
qed

lemma uint_less_iff:
  "ucast (ucast (n :: 32 word) :: 16 word) = n \<longleftrightarrow> uint n < 2 ^ 16"
  "ucast (ucast (i :: 64 word) :: 32 word) = i \<longleftrightarrow> uint i < 2 ^ 32"
  by (fact narrow_exact_iff)+

text \<open>
  A node id of OPC UA survives the way to the internal interface and back exactly when it is
  numeric or a string without NUL; a node id of the internal interface survives the other way round
  exactly when its name space fits 16 bits and its number 32 bits, or its string has no NUL.
\<close>

theorem node_id_roundtrips:
  "(mapR io2uaNodeId (ua2ioNodeId n) = Inr n \<longleftrightarrow> uaNodeIdOk n) \<and>
   (ua2ioNodeId (io2uaNodeId m) = Inr m \<longleftrightarrow>
     (case m of
        NodeIdNumeric ns i \<Rightarrow> uint ns < 2 ^ 16 \<and> uint i < 2 ^ 32
      | NodeIdString ns s \<Rightarrow> uint ns < 2 ^ 16 \<and> noNul s))"
  by (cases n; cases m)
    (simp_all add: uaNodeIdOk_def ua2ioNodeId_def io2uaNodeId_def uint_less_iff cstr_eq_iff)

text \<open>
  A structure converts to the extension object that holds exactly the converted values of the
  fields of its type, whatever type the structure names itself; it fails when a mandatory field has no
  value or a value does not convert. Values for fields the type does not have are dropped.
\<close>

theorem io2ua_structure_fields:
  assumes "cbGetStructureDefinition env ty = Inr sd" "\<not> sdIsUnion sd"
    and "distinct (map fldName (sdChildren sd))"
  shows "io2ua env (IOStructure n fd) ty = Inr r \<longleftrightarrow>
    (\<exists>eo. r = UaExt eo \<and> smInv eo \<and> fst ` set eo \<subseteq> fldName ` set (sdChildren sd) \<and>
       (\<forall>sf\<in>set (sdChildren sd). ioField2ua (io2ua env) fd sf = Inr (map_of eo (fldName sf))))"
  using fields_iff [OF assms(3), of "ioField2ua (io2ua env) fd"]
  by (auto simp: ioStructure2ua_def assms(1,2) ioStructureFields2ua_collect bindR_eq_Inr)

theorem io2ua_structure_fields_witness:
  "io2ua exampleEnv
     (IOStructure (NodeIdNumeric 9 9) [(''other'', IOScalar (IOBool True)), (''speed'', IOScalar (IOLong 7))])
     exampleUaStruct = Inr (UaExt [(''speed'', Some (UaInt32 7))])"
  by (subst io2ua_structure_fields
      [where sd = "\<lparr>sdIsUnion = False,
          sdChildren = [\<lparr>fldName = ''speed'', fldTypeId = UaNumeric 0 6, fldOptional = False, fldArray = False\<rparr>,
                        \<lparr>fldName = ''name'', fldTypeId = UaNumeric 0 12, fldOptional = True, fldArray = False\<rparr>]\<rparr>"])
    (simp_all add: exampleEnv_def exampleUaStruct_def ioField2ua_def scalar_trip_defs)

text \<open>
  For a union type a structure converts exactly when it is empty, which gives the null union, or
  has one field that is a field of the union and converts.
\<close>

theorem io2ua_union:
  assumes "cbGetStructureDefinition env ty = Inr sd" "sdIsUnion sd"
  shows "io2ua env (IOStructure n fd) ty = Inr r \<longleftrightarrow>
    fd = [] \<and> r = UaExt [] \<or>
    (\<exists>k v sf x. fd = [(k, v)] \<and> find (\<lambda>sf. fldName sf = cstr k) (sdChildren sd) = Some sf \<and>
       io2ua env v (fldTypeId sf) = Inr x \<and> r = UaExt [(fldName sf, Some x)])"
  by (cases fd; cases "tl fd")
    (auto simp: ioStructure2ua_def assms ioUnion2ua_def bindR_eq_Inr split: option.splits)

definition exampleUnionEnv :: converter_env where
  "exampleUnionEnv = exampleEnv\<lparr>cbGetStructureDefinition := (\<lambda>_. Inr \<lparr>sdIsUnion = True,
     sdChildren = [\<lparr>fldName = ''x'', fldTypeId = UaNumeric 0 6, fldOptional = False, fldArray = False\<rparr>]\<rparr>)\<rparr>"

theorem io2ua_union_witness:
  "io2ua exampleUnionEnv (IOStructure (NodeIdNumeric 9 9) [(''x'', IOScalar (IOLong 7))])
     exampleUaStruct = Inr (UaExt [(''x'', Some (UaInt32 7))])"
  by (subst io2ua_union
      [where sd = "\<lparr>sdIsUnion = True,
          sdChildren = [\<lparr>fldName = ''x'', fldTypeId = UaNumeric 0 6, fldOptional = False, fldArray = False\<rparr>]\<rparr>"])
    (simp_all add: exampleUnionEnv_def scalar_trip_defs)

subsection \<open>Types\<close>

text \<open>The built-in type a value has, for an array that of its elements.\<close>

fun uaTypeOf :: "ua_variant \<Rightarrow> 32 word" where
  "uaTypeOf UaNull = 0"
| "uaTypeOf (UaBool _) = OpcUaType_Boolean"
| "uaTypeOf (UaSByte _) = OpcUaType_SByte"
| "uaTypeOf (UaByte _) = OpcUaType_Byte"
| "uaTypeOf (UaInt16 _) = OpcUaType_Int16"
| "uaTypeOf (UaUInt16 _) = OpcUaType_UInt16"
| "uaTypeOf (UaInt32 _) = OpcUaType_Int32"
| "uaTypeOf (UaUInt32 _) = OpcUaType_UInt32"
| "uaTypeOf (UaInt64 _) = OpcUaType_Int64"
| "uaTypeOf (UaUInt64 _) = OpcUaType_UInt64"
| "uaTypeOf (UaFloat _) = OpcUaType_Float"
| "uaTypeOf (UaDouble _) = OpcUaType_Double"
| "uaTypeOf (UaStr _) = OpcUaType_String"
| "uaTypeOf (UaDateTime _) = OpcUaType_DateTime"
| "uaTypeOf (UaByteStr _) = OpcUaType_ByteString"
| "uaTypeOf (UaNodeIdVal _) = OpcUaType_NodeId"
| "uaTypeOf (UaLocText _ _) = OpcUaType_LocalizedText"
| "uaTypeOf (UaExt _) = OpcUaId_Structure"
| "uaTypeOf (UaDataVal _) = OpcUaType_DataValue"
| "uaTypeOf (UaOther t) = t"
| "uaTypeOf (UaArr t _) = t"

text \<open>The built-in type by which a type of name space 0 is represented.\<close>

definition representedBy :: "32 word \<Rightarrow> 32 word" where
  "representedBy i =
    (if i = OpcUaId_Enumeration then OpcUaType_Int32
     else if i = OpcUaId_Duration then OpcUaType_Double
     else if i = OpcUaId_UtcTime then OpcUaType_DateTime
     else i)"

fun uaElements :: "ua_variant \<Rightarrow> ua_variant list" where
  "uaElements (UaArr t xs) = xs"
| "uaElements v = []"

lemma ioScalar2ua_type: "ioScalar2ua s (UaNumeric ns i) = Inr v \<Longrightarrow> uaTypeOf v = representedBy i \<and> \<not> uaIsArray v"
  by (cases s) (auto simp: ioScalar2ua_def io_leaf_defs representedBy_def split: if_splits option.splits)

lemma ioBuildInArray2ua_type:
  "ioBuildInArray2ua t es i = Inr v \<Longrightarrow>
   uaTypeOf v = representedBy i \<and> uaIsArray v \<and> (\<forall>u\<in>set (uaElements v). uaTypeOf u = representedBy i)"
  by (auto simp: ioBuildInArray2ua_def ioUInt16Array2ua_def ioInt32Array2ua_def ioUInt32Array2ua_def
      ioStringArray2ua_def ioLocalizedTextArray2ua_def mapR_eq_Inr representedBy_def split: if_splits)

lemma io2ua_structure_ext: "io2ua env (IOStructure n fd) ty = Inr v \<Longrightarrow> \<exists>eo. v = UaExt eo"
  by (auto simp: ioStructure2ua_def bindR_eq_Inr mapR_eq_Inr split: if_splits)

text \<open>
  C27. A converted value has the type it is converted to: a scalar the built-in type that represents the
  destination, an array of elements of that type, a structure is an extension object, and an array of
  structures an array of them.
\<close>

theorem io2ua_types:
  "io2ua env x ty = Inr v \<Longrightarrow> getBuildInType env ty = Inr (UaNumeric ns i) \<Longrightarrow>
   (case x of
      IOStructure _ _ \<Rightarrow> uaTypeOf v = OpcUaId_Structure \<and> \<not> uaIsArray v
    | IOArray t _ \<Rightarrow>
        uaIsArray v \<and> uaTypeOf v = (if t = ioSTRUCTURE then OpcUaId_Structure else representedBy i) \<and>
        (\<forall>u\<in>set (uaElements v). uaTypeOf u = uaTypeOf v)
    | _ \<Rightarrow> uaTypeOf v = representedBy i \<and> \<not> uaIsArray v)"
proof (cases x)
  case (IOArray t elements)
  assume v: "io2ua env x ty = Inr v" and b: "getBuildInType env ty = Inr (UaNumeric ns i)"
  then obtain elems where elems: "elements = Some elems"
    using IOArray by (cases elements) (auto simp: ioArray2ua_def)
  show ?thesis
  proof (cases "t = ioSTRUCTURE")
    case True
    then obtain us where us: "v = UaArr OpcUaId_Structure us"
      "list_all2 (\<lambda>e u. (case e of IOStructure _ _ \<Rightarrow> io2ua env e ty | _ \<Rightarrow> Inl UndefinedBehaviour) = Inr u) elems us"
      using v IOArray elems by (auto simp: ioArray2ua_def ioStructureArray2ua_def mapR_eq_Inr traverseR_eq_Inr)
    have "uaTypeOf u = OpcUaId_Structure" if "u \<in> set us" for u
    proof -
      obtain e where "(case e of IOStructure _ _ \<Rightarrow> io2ua env e ty | _ \<Rightarrow> Inl UndefinedBehaviour) = Inr u"
        using us(2) \<open>u \<in> set us\<close> by (auto simp: list_all2_conv_all_nth in_set_conv_nth)
      then show ?thesis
        by (auto simp del: io2ua.simps split: io_variant.splits dest!: io2ua_structure_ext)
    qed
    then show ?thesis using us(1) IOArray True by auto
  next
    case False
    have "ioBuildInArray2ua t elems i = Inr v"
      using v IOArray False elems b by (auto simp: ioArray2ua_def split: if_splits)
    from ioBuildInArray2ua_type [OF this] show ?thesis using IOArray False by simp
  qed
next
  case (IOStructure n fd)
  assume "io2ua env x ty = Inr v"
  then show ?thesis using io2ua_structure_ext [of env n fd ty v] IOStructure by (auto simp del: io2ua.simps)
next
  case (IOScalar s)
  assume "io2ua env x ty = Inr v" "getBuildInType env ty = Inr (UaNumeric ns i)"
  then show ?thesis using ioScalar2ua_type [of s ns i v] IOScalar by simp
qed simp_all

theorem io2ua_types_witness:
  "uaTypeOf (UaArr OpcUaType_Int32 [UaInt32 5, UaInt32 7]) = OpcUaType_Int32"
proof -
  have v: "io2ua exampleEnv (IOArray ioLONG (Some [IOScalar (IOLong 5), IOScalar (IOLong 7)])) (UaNumeric 0 29) =
      Inr (UaArr OpcUaType_Int32 [UaInt32 5, UaInt32 7])"
    by (simp add: ioArray2ua_def getBuildInType_def ioBuildInArray2ua_def ioInt32Array2ua_def io_type_nums)
  have b: "getBuildInType exampleEnv (UaNumeric 0 29) = Inr (UaNumeric 0 29)" by (simp add: getBuildInType_def)
  from io2ua_types [OF v b] show ?thesis by (simp add: representedBy_def io_type_nums)
qed

end
