(* ===== verification/Io_Bridge.thy ===== *)
theory Io_Bridge
  imports Converter_Io2Ua "HOL-Library.Multiset"
begin

text \<open>
  The bridge of a node manager to the data provider behind it
  (\<open>sasModelProvider/base/HaNodeManagerIODataProviderBridge.cpp\<close>): reading, writing, the attribute hook,
  method calls, and the start of value handling. The provider and the value slots of the server are
  parameters. Exceptions the functions catch only count as a failure; undefined behaviour is not caught.
  The data generator is compiled out (\<open>USE_DATA_GENERATOR\<close>), so its pointer is \<open>NULL\<close>.
\<close>

subsection \<open>Catching\<close>

text \<open>A caught exception gives \<open>None\<close>.\<close>

definition attemptR :: "(cpp_error, 'a) res \<Rightarrow> (cpp_error, 'a option) res" where
  "attemptR m =
    (case m of
       Inl e \<Rightarrow> if e = UndefinedBehaviour then Inl UndefinedBehaviour else Inr None
     | Inr x \<Rightarrow> Inr (Some x))"

lemma attemptR_Inr [simp]: "attemptR (Inr x) = Inr (Some x)"
  by (simp add: attemptR_def)

lemma attemptR_eq_Inl [simp]: "attemptR m = Inl e \<longleftrightarrow> m = Inl UndefinedBehaviour \<and> e = UndefinedBehaviour"
  by (auto simp: attemptR_def split: sum.splits)

lemma attemptR_eq_Some [simp]: "attemptR m = Inr (Some x) \<longleftrightarrow> m = Inr x"
  by (auto simp: attemptR_def split: sum.splits)

lemma attemptR_eq_None: "attemptR m = Inr None \<longleftrightarrow> (\<exists>e. m = Inl e \<and> e \<noteq> UndefinedBehaviour)"
  by (auto simp: attemptR_def split: sum.splits)

subsection \<open>The state of the bridge\<close>

text \<open>
  The default properties and the properties of single nodes, as the provider gave them; \<open>NULL\<close> data in
  that list is a missing value handling, data of another kind an invalid cast.
\<close>

record io_bridge =
  brEnv :: converter_env
  brDefault :: "value_handling option"
  brProps :: "io_node_data list option"

record ua_variable =
  uvNodeId :: ua_node_id
  uvDataType :: ua_node_id

definition getValueHandling :: "io_bridge \<Rightarrow> io_node_id \<Rightarrow> (cpp_error, value_handling) res" where
  "getValueHandling br nodeId =
    bindR (case brProps br of
        None \<Rightarrow> Inr (brDefault br)
      | Some props \<Rightarrow>
          (case find (\<lambda>p. nodeIdEquals nodeId (ndNodeId p)) props of
             None \<Rightarrow> Inr (brDefault br)
           | Some p \<Rightarrow>
               (case ndData p of
                  None \<Rightarrow> Inr None
                | Some (IONodeProperties vh) \<Rightarrow> Inr (Some vh)
                | Some _ \<Rightarrow> Inl UndefinedBehaviour)))
      (\<lambda>vh. case vh of Some h \<Rightarrow> Inr h | None \<Rightarrow> Inl HaNodeManagerIODataProviderBridgeException)"

text \<open>The node of the provider for a variable, or \<open>None\<close> when its value handling is disabled.\<close>

definition handledNode :: "io_bridge \<Rightarrow> ua_node_id \<Rightarrow> (cpp_error, io_node_id option) res" where
  "handledNode br nodeId =
    bindR (ua2ioNodeId nodeId) (\<lambda>n.
    bindR (getValueHandling br n) (\<lambda>vh. Inr (if vh = VhNone then None else Some n)))"

subsection \<open>Reading\<close>

record read_value =
  rvGood :: bool
  rvValue :: ua_variant

fun prepareRead :: "io_bridge \<Rightarrow> ua_variable list \<Rightarrow> nat \<Rightarrow> (cpp_error, (io_node_id \<times> nat) list \<times> bool) res" where
  "prepareRead br [] i = Inr ([], False)"
| "prepareRead br (v # vs) i =
     bindR (attemptR (handledNode br (uvNodeId v))) (\<lambda>r.
     bindR (prepareRead br vs (Suc i)) (\<lambda>(entries, failed).
       Inr (case r of
              None \<Rightarrow> (entries, True)
            | Some None \<Rightarrow> (entries, failed)
            | Some (Some n) \<Rightarrow> ((n, i) # entries, failed))))"

definition readResult :: "converter_env \<Rightarrow> ua_node_id \<Rightarrow> io_node_data \<Rightarrow> (cpp_error, ua_variant option) res" where
  "readResult env ty r =
    (case ndException r of
       Some _ \<Rightarrow> Inr None
     | None \<Rightarrow> (case ndData r of None \<Rightarrow> Inr (Some UaNull) | Some x \<Rightarrow> attemptR (io2ua env x ty)))"

text \<open>
  The loop over the results. The index of a node that was not requested is \<open>-1\<close> in an unsigned variable:
  the check \<open>arrayIndex < 0\<close> never holds and the variable array is read out of range.
\<close>

fun storeRead ::
  "converter_env \<Rightarrow> ua_variable list \<Rightarrow> (io_node_id \<times> nat) list \<Rightarrow> io_node_data list \<Rightarrow> read_value list \<Rightarrow>
   (cpp_error, read_value list) res"
where
  "storeRead env vars entries [] vals = Inr vals"
| "storeRead env vars entries (r # rs) vals =
     (case find (\<lambda>e. nodeIdEquals (fst e) (ndNodeId r)) entries of
        None \<Rightarrow> Inl UndefinedBehaviour
      | Some (_, i) \<Rightarrow>
          bindR (readResult env (uvDataType (vars ! i)) r) (\<lambda>v.
            storeRead env vars entries rs
              (vals[i := (case v of
                            Some x \<Rightarrow> \<lparr>rvGood = True, rvValue = x\<rparr>
                          | None \<Rightarrow> (vals ! i)\<lparr>rvGood := False\<rparr>)])))"

text \<open>
  The map from node to index is ordered by the addresses of the node objects; \<open>order\<close> stands for that.
\<close>

definition readValues ::
  "io_bridge \<Rightarrow> ((io_node_id \<times> nat) list \<Rightarrow> (io_node_id \<times> nat) list) \<Rightarrow>
   (io_node_id list \<Rightarrow> (cpp_error, io_node_data list option) res) \<Rightarrow> ua_variable list \<Rightarrow>
   (cpp_error, bool \<times> read_value list) res"
where
  "readValues br order read vars =
    bindR (prepareRead br vars 0) (\<lambda>(entries, failed).
      let initial = map (\<lambda>_. \<lparr>rvGood = False, rvValue = UaNull\<rparr>) vars in
      if entries = [] then Inr (\<not> failed, initial)
      else
        bindR (attemptR (read (map fst entries))) (\<lambda>answer.
          case answer of
            None \<Rightarrow> Inr (False, initial)
          | Some results \<Rightarrow>
              let rs = (case results of None \<Rightarrow> [] | Some rs \<Rightarrow> rs) in
              mapR (\<lambda>vals. (\<not> failed \<and> length rs = length entries, vals))
                (storeRead (brEnv br) vars (order entries) rs initial)))"

subsection \<open>Writing\<close>

text \<open>The cache of the server: the value of each variable node. Setting a value may be refused.\<close>

type_synonym value_cache = "ua_node_id \<Rightarrow> ua_variant"

definition setVariable ::
  "(ua_node_id \<Rightarrow> ua_variant \<Rightarrow> bool) \<Rightarrow> ua_node_id \<Rightarrow> ua_variant \<Rightarrow> value_cache \<Rightarrow> (cpp_error, value_cache) res"
where
  "setVariable accepts nodeId value cache =
    (if accepts nodeId value then Inr (cache(nodeId := value)) else Inl HaNodeManagerException)"

fun prepareWrite :: "io_bridge \<Rightarrow> (ua_variable \<times> ua_variant) list \<Rightarrow> (cpp_error, io_node_data list \<times> bool) res" where
  "prepareWrite br [] = Inr ([], False)"
| "prepareWrite br ((v, x) # vs) =
     bindR (attemptR
         (bindR (handledNode br (uvNodeId v)) (\<lambda>n.
            case n of
              None \<Rightarrow> Inr None
            | Some n \<Rightarrow> mapR (\<lambda>y. Some (newNodeData n (Some y))) (ua2io (brEnv br) x (uvDataType v))))) (\<lambda>r.
     bindR (prepareWrite br vs) (\<lambda>(nodeData, failed).
       Inr (case r of
              None \<Rightarrow> (nodeData, True)
            | Some None \<Rightarrow> (nodeData, failed)
            | Some (Some nd) \<Rightarrow> (nd # nodeData, failed))))"

fun writeCache ::
  "(ua_node_id \<Rightarrow> ua_variant \<Rightarrow> bool) \<Rightarrow> (ua_variable \<times> ua_variant) list \<Rightarrow> value_cache \<Rightarrow>
   bool list \<times> bool \<times> value_cache"
where
  "writeCache accepts [] cache = ([], False, cache)"
| "writeCache accepts ((v, x) # vs) cache =
     (case setVariable accepts (uvNodeId v) x cache of
        Inl _ \<Rightarrow> (let (sts, failed, cache') = writeCache accepts vs cache in (False # sts, True, cache'))
      | Inr cache1 \<Rightarrow> (let (sts, failed, cache') = writeCache accepts vs cache1 in (True # sts, failed, cache')))"

definition writeValues ::
  "io_bridge \<Rightarrow> (io_node_data list \<Rightarrow> (cpp_error, unit) res) \<Rightarrow> (ua_node_id \<Rightarrow> ua_variant \<Rightarrow> bool) \<Rightarrow>
   (ua_variable \<times> ua_variant) list \<Rightarrow> value_cache \<Rightarrow> (cpp_error, bool \<times> bool list \<times> value_cache) res"
where
  "writeValues br write accepts vs cache =
    bindR (prepareWrite br vs) (\<lambda>(nodeData, failed).
      if nodeData = [] then Inr (\<not> failed, map (\<lambda>_. False) vs, cache)
      else
        bindR (attemptR (write nodeData)) (\<lambda>answer.
          case answer of
            None \<Rightarrow> Inr (False, map (\<lambda>_. False) vs, cache)
          | Some _ \<Rightarrow>
              (let (sts, failed', cache') = writeCache accepts vs cache
               in Inr (\<not> failed \<and> \<not> failed', sts, cache'))))"

text \<open>
  The hook before an attribute is set, on a variable (\<open>None\<close>: the node is no variable). The result says
  whether the value may be set and whether the reference to the variable was released. The conversion
  of the node id and the look up of the value handling are outside the \<open>try\<close>.
\<close>

definition beforeSetAttributeValue ::
  "io_bridge \<Rightarrow> (io_node_data list \<Rightarrow> (cpp_error, unit) res) \<Rightarrow> ua_variable option \<Rightarrow> ua_variant \<Rightarrow>
   (cpp_error, bool \<times> bool) res"
where
  "beforeSetAttributeValue br write var value =
    (case var of
       None \<Rightarrow> Inl UndefinedBehaviour
     | Some v \<Rightarrow>
         bindR (handledNode br (uvNodeId v)) (\<lambda>n.
           case n of
             None \<Rightarrow> Inr (True, True)
           | Some n \<Rightarrow>
               mapR (\<lambda>r. (r \<noteq> None, r \<noteq> None))
                 (attemptR (bindR (ua2io (brEnv br) value (uvDataType v)) (\<lambda>x. write [newNodeData n (Some x)])))))"

subsection \<open>Starting the value handling\<close>

text \<open>Object types must be handled asynchronously or not at all.\<close>

fun prepareObjectTypes :: "io_bridge \<Rightarrow> ua_node_id list \<Rightarrow> (cpp_error, io_node_id list \<times> bool) res" where
  "prepareObjectTypes br [] = Inr ([], False)"
| "prepareObjectTypes br (t # ts) =
     bindR (attemptR (bindR (ua2ioNodeId t) (\<lambda>n. mapR (\<lambda>vh. (n, vh)) (getValueHandling br n)))) (\<lambda>r.
     bindR (prepareObjectTypes br ts) (\<lambda>(nodes, failed).
       Inr (case r of
              None \<Rightarrow> (nodes, True)
            | Some (n, VhNone) \<Rightarrow> (nodes, failed)
            | Some (n, VhAsync) \<Rightarrow> (n # nodes, failed)
            | Some (n, VhSync) \<Rightarrow> (nodes, True))))"

definition updateObjectTypes ::
  "io_bridge \<Rightarrow> (io_node_id list \<Rightarrow> (cpp_error, io_node_data list option) res) \<Rightarrow> ua_node_id list \<Rightarrow>
   (cpp_error, unit) res"
where
  "updateObjectTypes br subscribe types =
    bindR (prepareObjectTypes br types) (\<lambda>(nodes, failed).
    bindR (if nodes = [] then Inr failed
           else bindR (attemptR (subscribe nodes)) (\<lambda>answer.
             case answer of
               None \<Rightarrow> Inr True
             | Some results \<Rightarrow>
                 let rs = (case results of None \<Rightarrow> [] | Some rs \<Rightarrow> rs) in
                 Inr (failed \<or> length rs \<noteq> length nodes \<or> list_ex (\<lambda>r. ndException r \<noteq> None) rs)))
      (\<lambda>failed. if failed then Inl HaNodeManagerIODataProviderBridgeException else Inr ()))"

text \<open>
  Variables: the value handling of the server is set per variable, the asynchronous ones are subscribed
  and get their initial values. The exception is built at the end, but its \<open>throw\<close> is a comment, so
  that no failure shows in the result.
\<close>

datatype server_handling = CacheIsSource | CacheIsUpdatedOnRequest

record server_values =
  svCache :: value_cache
  svHandling :: "ua_node_id \<Rightarrow> server_handling option"

fun prepareVariables ::
  "io_bridge \<Rightarrow> ua_variable list \<Rightarrow> server_values \<Rightarrow> (cpp_error, (io_node_id \<times> ua_variable) list \<times> server_values) res"
where
  "prepareVariables br [] s = Inr ([], s)"
| "prepareVariables br (v # vs) s =
     bindR (attemptR (bindR (ua2ioNodeId (uvNodeId v)) (\<lambda>n. mapR (\<lambda>vh. (n, vh)) (getValueHandling br n)))) (\<lambda>r.
     let set = (\<lambda>h. s\<lparr>svHandling := (svHandling s)(uvNodeId v \<mapsto> h)\<rparr>) in
       (case r of
          None \<Rightarrow> prepareVariables br vs s
        | Some (n, VhNone) \<Rightarrow> prepareVariables br vs (set CacheIsSource)
        | Some (n, VhSync) \<Rightarrow> prepareVariables br vs (set CacheIsUpdatedOnRequest)
        | Some (n, VhAsync) \<Rightarrow>
            bindR (prepareVariables br vs (set CacheIsSource)) (\<lambda>(entries, s'). Inr ((n, v) # entries, s'))))"

fun storeInitial ::
  "converter_env \<Rightarrow> (ua_node_id \<Rightarrow> ua_variant \<Rightarrow> bool) \<Rightarrow> (io_node_id \<times> ua_variable) list \<Rightarrow>
   io_node_data list \<Rightarrow> value_cache \<Rightarrow> (cpp_error, value_cache) res"
where
  "storeInitial env accepts entries [] cache = Inr cache"
| "storeInitial env accepts entries (r # rs) cache =
     (case find (\<lambda>e. nodeIdEquals (fst e) (ndNodeId r)) entries of
        None \<Rightarrow> storeInitial env accepts entries rs cache
      | Some (_, v) \<Rightarrow>
          if ndException r \<noteq> None then storeInitial env accepts entries rs cache
          else
            bindR (attemptR
                (bindR (case ndData r of None \<Rightarrow> Inr UaNull | Some x \<Rightarrow> io2ua env x (uvDataType v)) (\<lambda>y.
                   setVariable accepts (uvNodeId v) y cache)))
              (\<lambda>c. storeInitial env accepts entries rs (case c of None \<Rightarrow> cache | Some c \<Rightarrow> c)))"

definition updateVariables ::
  "io_bridge \<Rightarrow> ((io_node_id \<times> ua_variable) list \<Rightarrow> (io_node_id \<times> ua_variable) list) \<Rightarrow>
   (io_node_id list \<Rightarrow> (cpp_error, io_node_data list option) res) \<Rightarrow> (ua_node_id \<Rightarrow> ua_variant \<Rightarrow> bool) \<Rightarrow>
   ua_variable list \<Rightarrow> server_values \<Rightarrow> (cpp_error, server_values) res"
where
  "updateVariables br order subscribe accepts vars s =
    bindR (prepareVariables br vars s) (\<lambda>(entries, s').
      if entries = [] then Inr s'
      else
        bindR (attemptR (subscribe (map fst entries))) (\<lambda>answer.
          case answer of
            None \<Rightarrow> Inr s'
          | Some results \<Rightarrow>
              mapR (\<lambda>c. s'\<lparr>svCache := c\<rparr>)
                (storeInitial (brEnv br) accepts (order entries)
                  (case results of None \<Rightarrow> [] | Some rs \<Rightarrow> rs) (svCache s'))))"

subsection \<open>Calling methods\<close>

text \<open>
  A call: the object, the method, the data types of the arguments from the properties
  \<open>InputArguments\<close> and \<open>OutputArguments\<close> of the method (\<open>None\<close>: no such property), and the values.
  The result of the provider holds the output arguments, each possibly \<open>NULL\<close>, or an exception. The call
  is finished with the status of each input, the outputs and a status; an input value without a type
  raises \<open>std::out_of_range\<close>, which nothing here catches, and the call is never finished.
\<close>

record method_call =
  mcObject :: ua_node_id
  mcMethod :: ua_node_id
  mcInputTypes :: "ua_node_id list option"
  mcOutputTypes :: "ua_node_id list option"
  mcValues :: "ua_variant list"

record call_result =
  crArgs :: "io_variant option list"
  crException :: "c_exception option"

datatype call_outcome =
    CallFinished (coInputs: "bool list") (coOutputs: "ua_variant list") (coStatus: "32 word")
  | CallEscapes

datatype call_stop = StopException | StopEscape

definition OpcUa_Good :: "32 word" where "OpcUa_Good = 0"
definition OpcUa_Bad :: "32 word" where "OpcUa_Bad = 0x80000000"

definition statusIsGood :: "32 word \<Rightarrow> bool" where
  "statusIsGood code = (and code 0xC0000000 = 0)"

definition callStatus :: "c_ulong option \<Rightarrow> 32 word" where
  "callStatus code =
    (case code of None \<Rightarrow> OpcUa_Bad | Some c \<Rightarrow> if statusIsGood (ucast c) then OpcUa_Bad else ucast c)"

fun callInputs ::
  "converter_env \<Rightarrow> ua_node_id list \<Rightarrow> ua_variant list \<Rightarrow> (cpp_error, io_variant list \<times> call_stop option) res"
where
  "callInputs env ts [] = Inr ([], None)"
| "callInputs env [] (v # vs) = Inr ([], Some StopEscape)"
| "callInputs env (t # ts) (v # vs) =
     bindR (attemptR (ua2io env v t)) (\<lambda>r.
       case r of
         None \<Rightarrow> Inr ([], Some StopException)
       | Some x \<Rightarrow> mapR (\<lambda>(xs, stop). (x # xs, stop)) (callInputs env ts vs))"

text \<open>The outputs are written one by one into an array of null values; a failure keeps the ones before.\<close>

fun callOutputs ::
  "converter_env \<Rightarrow> ua_node_id list \<Rightarrow> io_variant option list \<Rightarrow> (cpp_error, ua_variant list \<times> bool) res"
where
  "callOutputs env (t # ts) (a # as) =
     bindR (case a of None \<Rightarrow> Inr (Some UaNull) | Some x \<Rightarrow> attemptR (io2ua env x t)) (\<lambda>r.
       case r of
         None \<Rightarrow> Inr (replicate (Suc (length ts)) UaNull, True)
       | Some y \<Rightarrow> mapR (\<lambda>(ys, failed). (y # ys, failed)) (callOutputs env ts as))"
| "callOutputs env ts as = Inr (map (\<lambda>_. UaNull) ts, False)"

text \<open>The end of a call: a failure, or the result of the provider.\<close>

definition outputTypes :: "method_call \<Rightarrow> ua_node_id list" where
  "outputTypes mc = (case mcOutputTypes mc of None \<Rightarrow> [] | Some ts \<Rightarrow> ts)"

definition inputTypes :: "method_call \<Rightarrow> ua_node_id list" where
  "inputTypes mc = (case mcInputTypes mc of None \<Rightarrow> [] | Some ts \<Rightarrow> ts)"

definition callFailure :: "method_call \<Rightarrow> bool list \<Rightarrow> c_ulong option \<Rightarrow> call_outcome" where
  "callFailure mc inputs code = CallFinished inputs (map (\<lambda>_. UaNull) (outputTypes mc)) (callStatus code)"

definition finishCall ::
  "converter_env \<Rightarrow> method_call \<Rightarrow> bool list \<Rightarrow> c_exception + call_result option list option \<Rightarrow>
   (cpp_error, call_outcome) res"
where
  "finishCall env mc inputs answer =
    (case answer of
       Inl ex \<Rightarrow> Inr (callFailure mc inputs (getErrorCode ex))
     | Inr None \<Rightarrow> Inr (callFailure mc inputs None)
     | Inr (Some results) \<Rightarrow>
         if length results \<noteq> 1 then Inr (callFailure mc inputs None)
         else
           (case hd results of
              None \<Rightarrow> Inl UndefinedBehaviour
            | Some r \<Rightarrow>
                (case crException r of
                   Some ex \<Rightarrow> Inr (callFailure mc inputs (getErrorCode ex))
                 | None \<Rightarrow>
                     if length (crArgs r) \<noteq> length (outputTypes mc) then Inr (callFailure mc inputs None)
                     else
                       mapR (\<lambda>(outs, failed). CallFinished inputs outs (if failed then OpcUa_Bad else OpcUa_Good))
                         (callOutputs env (outputTypes mc) (crArgs r)))))"

definition beginCall ::
  "converter_env \<Rightarrow> (io_method_data \<Rightarrow> c_exception + call_result option list option) \<Rightarrow> method_call \<Rightarrow>
   (cpp_error, call_outcome) res"
where
  "beginCall env call mc =
    (if mcValues mc \<noteq> [] \<and> mcInputTypes mc = None then Inl UndefinedBehaviour
     else
       bindR (callInputs env (inputTypes mc) (mcValues mc)) (\<lambda>(args, stop).
         let inputs = map (\<lambda>i. i < length args) [0..<length (mcValues mc)] in
         (case stop of
            Some StopEscape \<Rightarrow> Inr CallEscapes
          | Some StopException \<Rightarrow> Inr (callFailure mc inputs None)
          | None \<Rightarrow>
              bindR (attemptR (bindR (ua2ioNodeId (mcObject mc)) (\<lambda>obj.
                       mapR (\<lambda>meth. (obj, meth)) (ua2ioNodeId (mcMethod mc))))) (\<lambda>nodes.
                case nodes of
                  None \<Rightarrow> Inr (callFailure mc inputs None)
                | Some (obj, meth) \<Rightarrow> finishCall env mc inputs (call (newMethodData obj meth args))))))"

subsection \<open>What reading gives\<close>

lemma indexed_Cons:
  "{(n, i + j) | n j. j < length (v # vs) \<and> P ((v # vs) ! j) n} =
   {(n, i) | n. P v n} \<union> {(n, Suc i + j) | n j. j < length vs \<and> P (vs ! j) n}"
proof (intro equalityI subsetI)
  fix p assume "p \<in> {(n, i + j) | n j. j < length (v # vs) \<and> P ((v # vs) ! j) n}"
  then obtain n j where p: "p = (n, i + j)" "j < length (v # vs)" "P ((v # vs) ! j) n" by blast
  show "p \<in> {(n, i) | n. P v n} \<union> {(n, Suc i + j) | n j. j < length vs \<and> P (vs ! j) n}"
    using p by (cases j) auto
next
  fix p assume "p \<in> {(n, i) | n. P v n} \<union> {(n, Suc i + j) | n j. j < length vs \<and> P (vs ! j) n}"
  then show "p \<in> {(n, i + j) | n j. j < length (v # vs) \<and> P ((v # vs) ! j) n}"
  proof
    assume "p \<in> {(n, i) | n. P v n}"
    then show ?thesis by force
  next
    assume "p \<in> {(n, Suc i + j) | n j. j < length vs \<and> P (vs ! j) n}"
    then obtain n j where "p = (n, i + Suc j)" "Suc j < length (v # vs)" "P ((v # vs) ! Suc j) n" by auto
    then show ?thesis by blast
  qed
qed

lemma prepareRead_entries:
  "prepareRead br vars k = Inr (entries, failed) \<Longrightarrow>
   set entries = {(n, k + i) | n i. i < length vars \<and> handledNode br (uvNodeId (vars ! i)) = Inr (Some n)} \<and>
   distinct (map snd entries) \<and> list_all (\<lambda>e. k \<le> snd e) entries \<and>
   failed = list_ex (\<lambda>v. \<not> isOk (handledNode br (uvNodeId v))) vars"
proof (induction br vars k arbitrary: entries failed rule: prepareRead.induct)
  case (2 br v vs i)
  from 2(2) obtain r es f where r: "attemptR (handledNode br (uvNodeId v)) = Inr r"
    and rest: "prepareRead br vs (Suc i) = Inr (es, f)"
    and res: "(entries, failed) = (case r of None \<Rightarrow> (es, True) | Some None \<Rightarrow> (es, f) | Some (Some n) \<Rightarrow> ((n, i) # es, f))"
    by (auto simp: bindR_eq_Inr)
  note IH = 2(1) [OF r rest]
  have idx: "{(n, i + j) | n j. j < length (v # vs) \<and> handledNode br (uvNodeId ((v # vs) ! j)) = Inr (Some n)} =
    {(n, i) | n. handledNode br (uvNodeId v) = Inr (Some n)} \<union> set es"
    unfolding indexed_Cons [of i v vs "\<lambda>v n. handledNode br (uvNodeId v) = Inr (Some n)"] using IH by simp
  have "i \<notin> snd ` set es" using IH by (auto simp: list_all_iff)
  then show ?case
    unfolding idx using IH res r
    by (auto simp: attemptR_eq_None isOk_iff list_all_iff split: option.splits)
qed auto

lemma find_in_order:
  assumes "distinct (map fst xs)" and "mset ys = mset xs"
  shows "find (\<lambda>e. nodeIdEquals (fst e) n) ys = map_option (\<lambda>i. (n, i)) (map_of xs n)"
proof -
  have set: "set ys = set xs" and "distinct (map fst ys)"
    using assms by (metis mset_eq_setD, metis distinct_map mset_eq_imp_distinct_iff mset_map)
  have "find (\<lambda>e. nodeIdEquals (fst e) n) zs = map_option (\<lambda>i. (n, i)) (map_of zs n)" for zs :: "(io_node_id \<times> 'a) list"
    by (induction zs) auto
  moreover have "map_of ys = map_of xs"
    using assms(1) \<open>distinct (map fst ys)\<close> set map_of_inject_set by blast
  ultimately show ?thesis by simp
qed

text \<open>The result for one variable: the last word has the result of its node, if there is one.\<close>

definition afterResult :: "converter_env \<Rightarrow> ua_node_id \<Rightarrow> io_node_data option \<Rightarrow> read_value \<Rightarrow> read_value" where
  "afterResult env ty r old =
    (case r of
       None \<Rightarrow> old
     | Some r \<Rightarrow>
         (case readResult env ty r of
            Inr (Some x) \<Rightarrow> \<lparr>rvGood = True, rvValue = x\<rparr>
          | _ \<Rightarrow> old\<lparr>rvGood := False\<rparr>))"

definition readExpected :: "io_bridge \<Rightarrow> io_node_data list \<Rightarrow> ua_variable \<Rightarrow> read_value" where
  "readExpected br rs v =
    afterResult (brEnv br) (uvDataType v)
      (case handledNode br (uvNodeId v) of
         Inr (Some n) \<Rightarrow> find (\<lambda>r. ndNodeId r = n) rs
       | _ \<Rightarrow> None)
      \<lparr>rvGood = False, rvValue = UaNull\<rparr>"

lemma afterResult_None [simp]: "afterResult env ty None old = old"
  by (simp add: afterResult_def)

lemma storeRead_result:
  assumes look: "\<And>n. find (\<lambda>e. nodeIdEquals (fst e) n) entries = map_option (\<lambda>i. (n, i)) (idx n)"
    and inj: "\<And>n m i. idx n = Some i \<Longrightarrow> idx m = Some i \<Longrightarrow> n = m"
  shows "distinct (map ndNodeId rs) \<Longrightarrow>
    list_all (\<lambda>r. \<exists>i. idx (ndNodeId r) = Some i \<and> i < length vals \<and>
       readResult env (uvDataType (vars ! i)) r \<noteq> Inl UndefinedBehaviour) rs \<Longrightarrow>
    \<exists>vals'. storeRead env vars entries rs vals = Inr vals' \<and> length vals' = length vals \<and>
      (\<forall>i<length vals. vals' ! i =
        afterResult env (uvDataType (vars ! i)) (find (\<lambda>r. idx (ndNodeId r) = Some i) rs) (vals ! i))"
proof (induction rs arbitrary: vals)
  case (Cons r rs)
  from Cons.prems(2) obtain k where k: "idx (ndNodeId r) = Some k" "k < length vals"
    "readResult env (uvDataType (vars ! k)) r \<noteq> Inl UndefinedBehaviour" by auto
  have "readResult env (uvDataType (vars ! k)) r \<noteq> Inl e" for e
    using k(3) by (auto simp: readResult_def split: option.splits)
  then obtain v where v: "readResult env (uvDataType (vars ! k)) r = Inr v"
    by (cases "readResult env (uvDataType (vars ! k)) r") auto
  define vals1 where "vals1 = vals[k := (case v of Some x \<Rightarrow> \<lparr>rvGood = True, rvValue = x\<rparr>
    | None \<Rightarrow> (vals ! k)\<lparr>rvGood := False\<rparr>)]"
  have len: "length vals1 = length vals" by (simp add: vals1_def)
  have at_k: "vals1 ! k = afterResult env (uvDataType (vars ! k)) (Some r) (vals ! k)"
    using k(2) v by (simp add: vals1_def afterResult_def split: option.splits)
  have others: "find (\<lambda>r'. idx (ndNodeId r') = Some k) rs = None"
    using Cons.prems(1) inj k(1) by (auto simp: find_None_iff)
  obtain vals' where vals': "storeRead env vars entries rs vals1 = Inr vals'" "length vals' = length vals"
    "\<forall>i<length vals. vals' ! i =
        afterResult env (uvDataType (vars ! i)) (find (\<lambda>r. idx (ndNodeId r) = Some i) rs) (vals1 ! i)"
    using Cons.IH [of vals1] Cons.prems by (auto simp: len)
  have "storeRead env vars entries (r # rs) vals = Inr vals'"
    using look k(1) v vals'(1) by (simp add: vals1_def)
  moreover have "vals' ! i =
      afterResult env (uvDataType (vars ! i)) (find (\<lambda>r. idx (ndNodeId r) = Some i) (r # rs)) (vals ! i)"
    if "i < length vals" for i
  proof (cases "i = k")
    case True
    with vals'(3) that k(1) at_k others show ?thesis by simp
  next
    case False
    then have "vals1 ! i = vals ! i" by (simp add: vals1_def)
    with vals'(3) that k(1) False show ?thesis by simp
  qed
  ultimately show ?case using vals'(2) by blast
qed simp

lemma storeRead_unrequested:
  "list_ex (\<lambda>r. find (\<lambda>e. nodeIdEquals (fst e) (ndNodeId r)) entries = None) rs \<Longrightarrow>
   storeRead env vars entries rs vals = Inl UndefinedBehaviour"
proof (induction rs arbitrary: vals)
  case (Cons r rs)
  show ?case
  proof (cases "find (\<lambda>e. nodeIdEquals (fst e) (ndNodeId r)) entries")
    case (Some e)
    have ub: "readResult env ty r = Inl x \<Longrightarrow> x = UndefinedBehaviour" for ty x
      by (auto simp: readResult_def split: option.splits)
    from Some Cons show ?thesis
      by (cases e; cases "readResult env (uvDataType (vars ! snd e)) r") (auto dest: ub)
  qed simp
qed simp

lemma readValues_result:
  assumes prep: "prepareRead br vars 0 = Inr (entries, failed)" and "entries \<noteq> []"
    and d: "distinct (map fst entries)" and ord: "mset (order entries) = mset entries"
    and "read (map fst entries) = Inr (Some rs)"
    and rs: "distinct (map ndNodeId rs)" "ndNodeId ` set rs \<subseteq> fst ` set entries"
    and conv: "list_all (\<lambda>r. list_all (\<lambda>v. readResult (brEnv br) (uvDataType v) r \<noteq> Inl UndefinedBehaviour) vars) rs"
  shows "readValues br order read vars =
    Inr (\<not> failed \<and> length rs = length entries, map (readExpected br rs) vars)"
proof -
  note entries = prepareRead_entries [OF prep]
  let ?idx = "map_of entries" and ?init = "map (\<lambda>_. \<lparr>rvGood = False, rvValue = UaNull\<rparr>) vars"
  have idx: "?idx n = Some i \<longleftrightarrow> i < length vars \<and> handledNode br (uvNodeId (vars ! i)) = Inr (Some n)" for n i
    using entries d by (auto simp: map_of_eq_Some_iff)
  have inj: "n = m" if "?idx n = Some i" "?idx m = Some i" for n m i using that by (simp add: idx)
  have known: "list_all (\<lambda>r. \<exists>i. ?idx (ndNodeId r) = Some i \<and> i < length ?init \<and>
       readResult (brEnv br) (uvDataType (vars ! i)) r \<noteq> Inl UndefinedBehaviour) rs"
    unfolding list_all_iff
  proof
    fix r assume r: "r \<in> set rs"
    then obtain i where "?idx (ndNodeId r) = Some i"
      using rs(2) by (metis image_subset_iff map_of_eq_None_iff not_None_eq)
    with conv r idx show "\<exists>i. ?idx (ndNodeId r) = Some i \<and> i < length ?init \<and>
       readResult (brEnv br) (uvDataType (vars ! i)) r \<noteq> Inl UndefinedBehaviour"
      by (auto simp: list_all_iff)
  qed
  obtain vals where vals: "storeRead (brEnv br) vars (order entries) rs ?init = Inr vals" "length vals = length vars"
    "\<forall>i<length vars. vals ! i = afterResult (brEnv br) (uvDataType (vars ! i))
       (find (\<lambda>r. ?idx (ndNodeId r) = Some i) rs) (?init ! i)"
    using storeRead_result [where idx = ?idx, OF find_in_order [OF d ord] _ rs(1) known] inj by auto
  have "vals = map (readExpected br rs) vars"
  proof (rule nth_equalityI)
    fix i assume "i < length vals"
    then have i: "i < length vars" using vals by simp
    have "find (\<lambda>r. ?idx (ndNodeId r) = Some i) rs =
      (case handledNode br (uvNodeId (vars ! i)) of Inr (Some n) \<Rightarrow> find (\<lambda>r. ndNodeId r = n) rs | _ \<Rightarrow> None)"
    proof (cases "handledNode br (uvNodeId (vars ! i))")
      case (Inr m)
      with i have pred: "(\<lambda>r. ?idx (ndNodeId r) = Some i) = (\<lambda>r. m = Some (ndNodeId r))"
        by (simp add: idx)
      show ?thesis
        unfolding pred Inr by (cases m) (auto simp: find_None_iff intro: arg_cong [where f = "\<lambda>P. find P rs"])
    qed (use i in \<open>simp add: idx find_None_iff\<close>)
    with vals(3) i show "vals ! i = map (readExpected br rs) vars ! i" by (simp add: readExpected_def)
  qed (simp add: vals)
  with assms vals(1) show ?thesis by (simp add: readValues_def)
qed

subsection \<open>What writing and calling give\<close>

lemma writeCache_step:
  "writeCache accepts (p # vs) cache =
    (let ok = accepts (uvNodeId (fst p)) (snd p);
         (sts, failed, cache') = writeCache accepts vs (if ok then cache(uvNodeId (fst p) := snd p) else cache)
     in (ok # sts, \<not> ok \<or> failed, cache'))"
  by (cases p) (simp add: setVariable_def Let_def)

lemma writeCache_status:
  "fst (writeCache accepts vs cache) = map (\<lambda>p. accepts (uvNodeId (fst p)) (snd p)) vs"
  "fst (snd (writeCache accepts vs cache)) \<longleftrightarrow> \<not> list_all (\<lambda>p. accepts (uvNodeId (fst p)) (snd p)) vs"
  by (induction vs arbitrary: cache) (auto simp: writeCache_step Let_def case_prod_unfold simp del: writeCache.simps(2))

lemma writeCache_other:
  "n \<notin> (\<lambda>p. uvNodeId (fst p)) ` set vs \<Longrightarrow> snd (snd (writeCache accepts vs cache)) n = cache n"
  by (induction vs arbitrary: cache) (auto simp: writeCache_step Let_def case_prod_unfold simp del: writeCache.simps(2))

lemma writeCache_values:
  "distinct (map (\<lambda>p. uvNodeId (fst p)) vs) \<Longrightarrow> p \<in> set vs \<Longrightarrow>
   snd (snd (writeCache accepts vs cache)) (uvNodeId (fst p)) =
     (if accepts (uvNodeId (fst p)) (snd p) then snd p else cache (uvNodeId (fst p)))"
proof (induction vs arbitrary: cache)
  case (Cons q vs)
  have step: "snd (snd (writeCache accepts (q # vs) cache)) = snd (snd (writeCache accepts vs
      (if accepts (uvNodeId (fst q)) (snd q) then cache(uvNodeId (fst q) := snd q) else cache)))"
    by (simp add: writeCache_step Let_def case_prod_unfold del: writeCache.simps(2))
  show ?case
  proof (cases "p = q")
    case True
    with Cons.prems have "uvNodeId (fst p) \<notin> (\<lambda>p. uvNodeId (fst p)) ` set vs" by auto
    from writeCache_other [OF this] show ?thesis unfolding step by (simp add: True)
  next
    case False
    with Cons.prems have "p \<in> set vs" and "uvNodeId (fst p) \<noteq> uvNodeId (fst q)" by (auto simp: image_iff)
    with Cons.IH Cons.prems show ?thesis unfolding step by simp
  qed
qed simp

lemma callInputs_all:
  "callInputs env ts vs = Inr (args, None) \<Longrightarrow> length args = length vs \<and> length vs \<le> length ts \<and>
     list_all2 (\<lambda>(t, v) a. ua2io env v t = Inr a) (zip ts vs) args"
  by (induction env ts vs arbitrary: args rule: callInputs.induct)
    (auto simp: bindR_eq_Inr mapR_eq_Inr split: option.splits)

lemma callInputs_escape:
  "callInputs env ts vs = Inr (args, Some StopEscape) \<longleftrightarrow>
   length ts < length vs \<and> list_all2 (\<lambda>(t, v) a. ua2io env v t = Inr a) (zip ts vs) args"
  by (induction env ts vs arbitrary: args rule: callInputs.induct)
    (auto simp: bindR_eq_Inr mapR_eq_Inr list_all2_Cons1 split: option.splits)

lemma callOutputs_good:
  "callOutputs env ts as = Inr (outs, False) \<Longrightarrow> length as = length ts \<Longrightarrow>
   list_all2 (\<lambda>(t, a) y. (case a of None \<Rightarrow> Inr UaNull | Some x \<Rightarrow> io2ua env x t) = Inr y) (zip ts as) outs"
  by (induction env ts as arbitrary: outs rule: callOutputs.induct)
    (auto simp: bindR_eq_Inr mapR_eq_Inr split: option.splits)

lemma callStatus_bad: "\<not> statusIsGood (callStatus code)" "callStatus code \<noteq> OpcUa_Good"
  by (auto simp: callStatus_def statusIsGood_def OpcUa_Bad_def OpcUa_Good_def split: option.splits)

subsection \<open>An example bridge\<close>

text \<open>
  Three Boolean variables; the value handling of the second one is disabled. A method with one Boolean
  argument, and a provider that returns the arguments.
\<close>

definition exampleCall :: method_call where
  "exampleCall = \<lparr>mcObject = UaNumeric 2 1, mcMethod = UaNumeric 2 5, mcInputTypes = Some [UaNumeric 0 1],
     mcOutputTypes = Some [UaNumeric 0 1], mcValues = [UaBool True]\<rparr>"

definition echoProvider :: "io_method_data \<Rightarrow> c_exception + call_result option list option" where
  "echoProvider md = Inr (Some [Some \<lparr>crArgs = map Some (mdMethodArgs md), crException = None\<rparr>])" 

definition exampleBridge :: io_bridge where
  "exampleBridge = \<lparr>brEnv = exampleEnv, brDefault = Some VhSync,
     brProps = Some [newNodeData (NodeIdNumeric 2 7) (Some (IONodeProperties VhNone))]\<rparr>"

definition exampleVariables :: "ua_variable list" where
  "exampleVariables = map (\<lambda>n. \<lparr>uvNodeId = UaNumeric 2 n, uvDataType = UaNumeric 0 1\<rparr>) [1, 7, 3]"

definition exampleResults :: "io_node_data list" where
  "exampleResults = [newNodeData (NodeIdNumeric 2 3) (Some (IOScalar (IOBool True))),
     \<lparr>ndNodeId = NodeIdNumeric 2 1, ndData = None, ndException = Some (newException ''device'' ''x'' 1)\<rparr>]"

lemma example_prepare:
  "prepareRead exampleBridge exampleVariables 0 = Inr ([(NodeIdNumeric 2 1, 0), (NodeIdNumeric 2 3, 2)], False)"
  by (simp add: exampleVariables_def exampleBridge_def handledNode_def getValueHandling_def ua2ioNodeId_def newNodeData_def)

lemma example_conversion:
  "io2ua exampleEnv (IOScalar (IOBool b)) (UaNumeric 0 1) = Inr (UaBool b)"
  "ua2io exampleEnv (UaBool b) (UaNumeric 0 1) = Inr (IOScalar (IOBool b))"
  by (simp_all add: ioScalar2ua_def ioNarrow2ua_def getBuildInType_def uaScalar2io_def uaBuildInType2io_def
      uaNarrow2io_def)

subsection \<open>Properties\<close>



text \<open>
  A result for a node that was not requested is not skipped: the read runs into undefined behaviour,
  because the unsigned index is never below zero.
\<close>

theorem read_values_unrequested:
  assumes "prepareRead br vars 0 = Inr (entries, failed)" and "entries \<noteq> []"
    and "mset (order entries) = mset entries"
    and "read (map fst entries) = Inr (Some rs)" and "\<not> ndNodeId ` set rs \<subseteq> fst ` set entries"
  shows "readValues br order read vars = Inl UndefinedBehaviour"
proof -
  from assms(5) obtain r where r: "r \<in> set rs" "ndNodeId r \<notin> fst ` set entries" by auto
  then have "find (\<lambda>e. nodeIdEquals (fst e) (ndNodeId r)) (order entries) = None"
    using mset_eq_setD [OF assms(3)] by (force simp: find_None_iff)
  with r(1) have "list_ex (\<lambda>r. find (\<lambda>e. nodeIdEquals (fst e) (ndNodeId r)) (order entries) = None) rs"
    by (auto simp: list_ex_iff)
  from storeRead_unrequested [OF this] assms(1,2,4) show ?thesis by (simp add: readValues_def)
qed

theorem read_values_unrequested_witness:
  "readValues exampleBridge id (\<lambda>_. Inr (Some [newNodeData (NodeIdNumeric 2 99) None])) exampleVariables =
    Inl UndefinedBehaviour"
  using read_values_unrequested [OF example_prepare, where order = id and
      read = "\<lambda>_. Inr (Some [newNodeData (NodeIdNumeric 2 99) None])"]
  by (simp add: newNodeData_def)

text \<open>
  Writing is decided by the one call of the provider. When there is something to write and the
  provider accepts it, every variable of the request is stored in the server cache as far as the server
  lets it and gets a good status for that, also a variable whose value could not be converted and never
  reached the provider. Otherwise the cache is unchanged and every status is bad.
\<close>

theorem write_values_result:
  assumes "prepareWrite br vs = Inr (nodeData, failed)" and "write nodeData \<noteq> Inl UndefinedBehaviour"
    and "distinct (map (\<lambda>p. uvNodeId (fst p)) vs)"
  shows "\<exists>good sts cache'. writeValues br write accepts vs cache = Inr (good, sts, cache') \<and>
    (if nodeData \<noteq> [] \<and> isOk (write nodeData)
     then sts = map (\<lambda>p. accepts (uvNodeId (fst p)) (snd p)) vs \<and>
       (good \<longleftrightarrow> \<not> failed \<and> list_all id sts) \<and>
       list_all (\<lambda>p. cache' (uvNodeId (fst p)) =
         (if accepts (uvNodeId (fst p)) (snd p) then snd p else cache (uvNodeId (fst p)))) vs
     else sts = map (\<lambda>_. False) vs \<and> cache' = cache \<and> (good \<longleftrightarrow> nodeData = [] \<and> \<not> failed))"
proof (cases "nodeData \<noteq> [] \<and> isOk (write nodeData)")
  case True
  obtain sts failed' cache' where w: "writeCache accepts vs cache = (sts, failed', cache')"
    by (cases "writeCache accepts vs cache") auto
  with writeCache_status [of accepts vs cache] writeCache_values [OF assms(3), of _ accepts cache]
  have "sts = map (\<lambda>p. accepts (uvNodeId (fst p)) (snd p)) vs \<and> (failed' \<longleftrightarrow> \<not> list_all id sts) \<and>
     list_all (\<lambda>p. cache' (uvNodeId (fst p)) =
         (if accepts (uvNodeId (fst p)) (snd p) then snd p else cache (uvNodeId (fst p)))) vs"
    by (simp add: list_all_iff)
  with True w assms(1) show ?thesis by (auto simp: writeValues_def isOk_iff)
next
  case False
  with assms(1,2) show ?thesis
    by (cases "write nodeData") (auto simp: writeValues_def attemptR_def)
qed

theorem write_values_result_witness:
  "\<exists>good sts cache'. writeValues exampleBridge (\<lambda>_. Inr ()) (\<lambda>_ _. True)
      (map (\<lambda>v. (v, UaBool True)) exampleVariables) (\<lambda>_. UaNull) = Inr (good, sts, cache') \<and>
    sts = [True, True, True] \<and> cache' (UaNumeric 2 7) = UaBool True"
proof -
  have prep: "prepareWrite exampleBridge (map (\<lambda>v. (v, UaBool True)) exampleVariables) =
    Inr ([newNodeData (NodeIdNumeric 2 1) (Some (IOScalar (IOBool True))),
          newNodeData (NodeIdNumeric 2 3) (Some (IOScalar (IOBool True)))], False)"
    by (simp add: exampleVariables_def exampleBridge_def handledNode_def getValueHandling_def ua2ioNodeId_def
        newNodeData_def example_conversion del: ua2io.simps)
  from write_values_result [OF prep, of "\<lambda>_. Inr ()" "\<lambda>_ _. True" "\<lambda>_. UaNull"]
  show ?thesis by (auto simp: exampleVariables_def)
qed

text \<open>
  The attribute hook allows a value exactly when the value handling is disabled or the provider
  accepted the converted value, and releases its reference to the variable exactly then; a node id or
  value handling it cannot resolve leaves the hook as an exception, a node that is no variable is
  undefined behaviour.
\<close>

theorem set_attribute_hook:
  "beforeSetAttributeValue br write var value =
    (case var of
       None \<Rightarrow> Inl UndefinedBehaviour
     | Some v \<Rightarrow>
         (case handledNode br (uvNodeId v) of
            Inl e \<Rightarrow> Inl e
          | Inr None \<Rightarrow> Inr (True, True)
          | Inr (Some n) \<Rightarrow>
              (let r = bindR (ua2io (brEnv br) value (uvDataType v)) (\<lambda>x. write [newNodeData n (Some x)]) in
               if r = Inl UndefinedBehaviour then Inl UndefinedBehaviour else Inr (isOk r, isOk r))))"
  by (auto simp: beforeSetAttributeValue_def attemptR_def isOk_iff Let_def split: option.splits sum.splits)

lemma callFailure_bad [simp]: "callFailure mc inputs code \<noteq> CallFinished inputs' outs OpcUa_Good"
  using callStatus_bad(2) [of code] by (simp add: callFailure_def)

lemma finishCall_good:
  assumes "finishCall env mc inputs answer = Inr (CallFinished inputs' outs OpcUa_Good)"
  shows "\<exists>r. answer = Inr (Some [Some r]) \<and> crException r = None \<and> length (crArgs r) = length (outputTypes mc) \<and>
    callOutputs env (outputTypes mc) (crArgs r) = Inr (outs, False) \<and> inputs' = inputs"
proof -
  have bad: "OpcUa_Bad \<noteq> OpcUa_Good" by (simp add: OpcUa_Bad_def OpcUa_Good_def)
  from assms obtain results where answer: "answer = Inr (Some results)"
    by (auto simp: finishCall_def split: sum.splits option.splits)
  from assms answer have "length results = 1" by (auto simp: finishCall_def split: if_splits)
  then obtain x where results: "results = [x]" by (cases results) auto
  from assms answer results obtain r where "x = Some r" and "crException r = None"
    and "length (crArgs r) = length (outputTypes mc)"
    by (auto simp: finishCall_def split: option.splits if_splits)
  with assms answer results bad show ?thesis
    by (auto simp: finishCall_def mapR_eq_Inr split: if_splits prod.splits)
qed

text \<open>
  A call is finished with a good status only when it went through: all inputs have a good status and
  are the converted values of the request, the provider got them with the node ids of object and method
  and returned exactly one result without exception, and the outputs are its converted arguments.
\<close>

theorem call_good_status:
  assumes "beginCall env call mc = Inr (CallFinished inputs outs OpcUa_Good)"
  shows "\<exists>args obj meth r. inputs = map (\<lambda>_. True) (mcValues mc) \<and>
    list_all2 (\<lambda>(t, v) a. ua2io env v t = Inr a) (zip (inputTypes mc) (mcValues mc)) args \<and>
    length args = length (mcValues mc) \<and>
    ua2ioNodeId (mcObject mc) = Inr obj \<and> ua2ioNodeId (mcMethod mc) = Inr meth \<and>
    call (newMethodData obj meth args) = Inr (Some [Some r]) \<and> crException r = None \<and>
    length (crArgs r) = length (outputTypes mc) \<and>
    list_all2 (\<lambda>(t, a) y. (case a of None \<Rightarrow> Inr UaNull | Some x \<Rightarrow> io2ua env x t) = Inr y)
      (zip (outputTypes mc) (crArgs r)) outs"
proof -
  from assms obtain args stop where inp: "callInputs env (inputTypes mc) (mcValues mc) = Inr (args, stop)"
    by (auto simp: beginCall_def bindR_eq_Inr split: if_splits)
  let ?inputs = "map (\<lambda>i. i < length args) [0..<length (mcValues mc)]"
  have stop: "stop = None"
    using assms inp by (cases stop) (auto simp: beginCall_def split: if_splits call_stop.splits)
  from assms inp stop obtain obj meth where nodes:
    "ua2ioNodeId (mcObject mc) = Inr obj" "ua2ioNodeId (mcMethod mc) = Inr meth"
    and fin: "finishCall env mc ?inputs (call (newMethodData obj meth args)) = Inr (CallFinished inputs outs OpcUa_Good)"
    by (auto simp: beginCall_def Let_def bindR_eq_Inr mapR_eq_Inr split: if_splits option.splits)
  note args = callInputs_all [OF inp [unfolded stop]]
  then have "?inputs = map (\<lambda>_. True) (mcValues mc)" by (intro nth_equalityI) auto
  with args nodes finishCall_good [OF fin] callOutputs_good show ?thesis by fast
qed

theorem call_good_status_witness:
  "\<exists>obj meth r. ua2ioNodeId (mcObject exampleCall) = Inr obj \<and> ua2ioNodeId (mcMethod exampleCall) = Inr meth \<and>
    echoProvider (newMethodData obj meth [IOScalar (IOBool True)]) = Inr (Some [Some r]) \<and> crException r = None"
proof -
  have "beginCall exampleEnv echoProvider exampleCall = Inr (CallFinished [True] [UaBool True] OpcUa_Good)"
    by (simp add: beginCall_def exampleCall_def inputTypes_def outputTypes_def echoProvider_def finishCall_def
        ua2ioNodeId_def newMethodData_def example_conversion del: ua2io.simps io2ua.simps)
  from call_good_status [OF this] show ?thesis
    by (auto simp: exampleCall_def inputTypes_def example_conversion list_all2_Cons1 simp del: ua2io.simps)
qed

text \<open>
  A call is never finished, because \<open>std::out_of_range\<close> leaves the function, exactly when there are
  more input values than declared input arguments and the values of the declared ones convert.
\<close>

theorem call_escapes:
  "beginCall env call mc = Inr CallEscapes \<longleftrightarrow>
    mcInputTypes mc \<noteq> None \<and> length (inputTypes mc) < length (mcValues mc) \<and>
    (\<exists>args. list_all2 (\<lambda>(t, v) a. ua2io env v t = Inr a) (zip (inputTypes mc) (mcValues mc)) args)"
proof -
  have never: "callFailure mc inputs c \<noteq> CallEscapes" "finishCall env mc inputs r \<noteq> Inr CallEscapes" for inputs c r
    by (auto simp: finishCall_def callFailure_def mapR_eq_Inr split: sum.splits option.splits)
  have "beginCall env call mc = Inr CallEscapes \<longleftrightarrow>
    \<not> (mcValues mc \<noteq> [] \<and> mcInputTypes mc = None) \<and>
    (\<exists>args. callInputs env (inputTypes mc) (mcValues mc) = Inr (args, Some StopEscape))"
  proof (cases "callInputs env (inputTypes mc) (mcValues mc)")
    case (Inr x)
    obtain args stop where x: "x = (args, stop)" by (cases x)
    consider "stop = None" | "stop = Some StopException" | "stop = Some StopEscape"
      by (cases stop) (use call_stop.exhaust in blast)+
    then show ?thesis
      using never by cases (auto simp: beginCall_def Inr x Let_def bindR_eq_Inr split: option.splits)
  qed (simp add: beginCall_def)
  then show ?thesis by (auto simp: callInputs_escape)
qed

text \<open>The value handling of a node of the server.\<close>

definition handlingOf :: "io_bridge \<Rightarrow> ua_node_id \<Rightarrow> (cpp_error, value_handling) res" where
  "handlingOf br t = bindR (ua2ioNodeId t) (getValueHandling br)"

definition asyncNodes :: "io_bridge \<Rightarrow> ua_node_id list \<Rightarrow> io_node_id list" where
  "asyncNodes br types = List.map_filter
    (\<lambda>t. case ua2ioNodeId t of
       Inl _ \<Rightarrow> None
     | Inr n \<Rightarrow> if getValueHandling br n = Inr VhAsync then Some n else None) types"

lemma asyncNodes_Cons:
  "asyncNodes br (t # ts) =
    (case ua2ioNodeId t of
       Inl _ \<Rightarrow> asyncNodes br ts
     | Inr n \<Rightarrow> if getValueHandling br n = Inr VhAsync then n # asyncNodes br ts else asyncNodes br ts)"
  by (simp add: asyncNodes_def map_filter_simps split: sum.split)

lemma asyncNodes_Nil [simp]: "asyncNodes br [] = []"
  by (simp add: asyncNodes_def map_filter_simps)

lemma prepareObjectTypes_ok:
  "prepareObjectTypes br types = Inr (nodes, failed) \<Longrightarrow>
   nodes = asyncNodes br types \<and>
   (failed \<longleftrightarrow> \<not> list_all (\<lambda>t. handlingOf br t = Inr VhNone \<or> handlingOf br t = Inr VhAsync) types)"
proof (induction br types arbitrary: nodes failed rule: prepareObjectTypes.induct)
  case (2 br t ts)
  from 2(2) obtain r ns f where
    r: "attemptR (bindR (ua2ioNodeId t) (\<lambda>n. mapR (\<lambda>vh. (n, vh)) (getValueHandling br n))) = Inr r"
    and rest: "prepareObjectTypes br ts = Inr (ns, f)"
    and res: "(nodes, failed) = (case r of None \<Rightarrow> (ns, True) | Some (n, VhNone) \<Rightarrow> (ns, f)
      | Some (n, VhAsync) \<Rightarrow> (n # ns, f) | Some (n, VhSync) \<Rightarrow> (ns, True))"
    by (auto simp: bindR_eq_Inr)
  note IH = 2(1) [OF r rest]
  show ?case
  proof (cases r)
    case None
    with r IH res show ?thesis
      by (cases "ua2ioNodeId t")
        (auto simp: attemptR_eq_None handlingOf_def asyncNodes_Cons bindR_eq_Inl mapR_def)
  next
    case (Some x)
    obtain n vh where x: "x = (n, vh)" by (cases x)
    with Some r have "ua2ioNodeId t = Inr n" and "getValueHandling br n = Inr vh"
      by (auto simp: bindR_eq_Inr mapR_eq_Inr)
    with IH res Some x show ?thesis
      by (cases vh) (auto simp: handlingOf_def asyncNodes_Cons)
  qed
qed simp

lemma prepareObjectTypes_error: "prepareObjectTypes br types = Inl e \<Longrightarrow> e = UndefinedBehaviour"
  by (induction br types rule: prepareObjectTypes.induct) (auto simp: bindR_eq_Inl)

text \<open>
  Starting the value handling of object types succeeds exactly when nothing runs into undefined
  behaviour, the value handling of every type is known and not synchronous, and the provider, asked only
  if there are asynchronous types, subscribes all of them without an exception. A failure is thrown.
\<close>

theorem update_object_types:
  "updateObjectTypes br subscribe types = Inr () \<longleftrightarrow>
    isOk (prepareObjectTypes br types) \<and>
    list_all (\<lambda>t. handlingOf br t = Inr VhNone \<or> handlingOf br t = Inr VhAsync) types \<and>
    (asyncNodes br types = [] \<or>
     (\<exists>rs. subscribe (asyncNodes br types) = Inr (Some rs) \<and> length rs = length (asyncNodes br types) \<and>
        list_all (\<lambda>r. ndException r = None) rs))"
proof (cases "prepareObjectTypes br types")
  case (Inr x)
  obtain nodes failed where x: "x = (nodes, failed)" by (cases x)
  have all: "list_all (\<lambda>r. ndException r = None) rs \<longleftrightarrow> \<not> list_ex (\<lambda>r. ndException r \<noteq> None) rs" for rs
    by (auto simp: list_all_iff list_ex_iff)
  note ok = prepareObjectTypes_ok [OF Inr [unfolded x]]
  show ?thesis
  proof (cases "nodes = []")
    case True
    with ok Inr x show ?thesis by (simp add: updateObjectTypes_def)
  next
    case False
    with ok Inr x show ?thesis
      by (cases "subscribe nodes") (auto simp: updateObjectTypes_def attemptR_def all bindR_eq_Inr split: option.splits if_splits)
  qed
qed (simp add: updateObjectTypes_def)

definition expectedHandling ::
  "io_bridge \<Rightarrow> ua_node_id \<Rightarrow> server_handling option \<Rightarrow> server_handling option"
where
  "expectedHandling br n old =
    (case handlingOf br n of
       Inl _ \<Rightarrow> old
     | Inr VhSync \<Rightarrow> Some CacheIsUpdatedOnRequest
     | Inr _ \<Rightarrow> Some CacheIsSource)"

text \<open>One step of the loop: the handling of the variable, and whether it is subscribed.\<close>

lemma prepareVariables_step:
  assumes "prepareVariables br (v # vs) s = Inr (entries, s')"
  shows "\<exists>entries'. prepareVariables br vs (s\<lparr>svHandling := (svHandling s)(uvNodeId v :=
      expectedHandling br (uvNodeId v) (svHandling s (uvNodeId v)))\<rparr>) = Inr (entries', s')"
proof -
  from assms obtain r where
    r: "attemptR (bindR (ua2ioNodeId (uvNodeId v)) (\<lambda>n. mapR (\<lambda>vh. (n, vh)) (getValueHandling br n))) = Inr r"
    by (auto simp: bindR_eq_Inr)
  show ?thesis
  proof (cases r)
    case None
    with r have "expectedHandling br (uvNodeId v) old = old" for old
      by (cases "ua2ioNodeId (uvNodeId v)")
        (auto simp: attemptR_eq_None expectedHandling_def handlingOf_def bindR_eq_Inl mapR_def)
    with assms r None show ?thesis by simp
  next
    case (Some x)
    obtain n vh where x: "x = (n, vh)" by (cases x)
    with Some r have "ua2ioNodeId (uvNodeId v) = Inr n" and "getValueHandling br n = Inr vh"
      by (auto simp: bindR_eq_Inr mapR_eq_Inr)
    then have "handlingOf br (uvNodeId v) = Inr vh" by (simp add: handlingOf_def)
    with assms r Some x show ?thesis
      by (cases vh) (auto simp: expectedHandling_def bindR_eq_Inr)
  qed
qed

lemma prepareVariables_other:
  "prepareVariables br vars s = Inr (entries, s') \<Longrightarrow>
   svCache s' = svCache s \<and> (n \<notin> uvNodeId ` set vars \<longrightarrow> svHandling s' n = svHandling s n)"
proof (induction vars arbitrary: s entries)
  case (Cons v vs)
  from prepareVariables_step [OF Cons.prems] obtain entries' where
    "prepareVariables br vs (s\<lparr>svHandling := (svHandling s)(uvNodeId v :=
      expectedHandling br (uvNodeId v) (svHandling s (uvNodeId v)))\<rparr>) = Inr (entries', s')" by blast
  from Cons.IH [OF this] show ?case by auto
qed simp

lemma prepareVariables_handling:
  "prepareVariables br vars s = Inr (entries, s') \<Longrightarrow> distinct (map uvNodeId vars) \<Longrightarrow>
   list_all (\<lambda>v. svHandling s' (uvNodeId v) = expectedHandling br (uvNodeId v) (svHandling s (uvNodeId v))) vars"
proof (induction vars arbitrary: s entries)
  case (Cons v vs)
  let ?s1 = "s\<lparr>svHandling := (svHandling s)(uvNodeId v :=
      expectedHandling br (uvNodeId v) (svHandling s (uvNodeId v)))\<rparr>"
  from prepareVariables_step [OF Cons.prems(1)] obtain entries' where
    rest: "prepareVariables br vs ?s1 = Inr (entries', s')" by blast
  have fresh: "uvNodeId v \<notin> uvNodeId ` set vs" using Cons.prems(2) by auto
  have "list_all (\<lambda>v. svHandling s' (uvNodeId v) = expectedHandling br (uvNodeId v) (svHandling ?s1 (uvNodeId v))) vs"
    using Cons.IH [OF rest] Cons.prems(2) by simp
  then have "list_all (\<lambda>v. svHandling s' (uvNodeId v) = expectedHandling br (uvNodeId v) (svHandling s (uvNodeId v))) vs"
    using fresh by (auto simp: list_all_iff image_iff split: if_splits)
  with prepareVariables_other [OF rest, of "uvNodeId v"] fresh show ?case by simp
qed simp

lemma prepareVariables_error: "prepareVariables br vars s = Inl e \<Longrightarrow> e = UndefinedBehaviour"
proof (induction vars arbitrary: s)
  case (Cons v vs)
  show ?case
  proof (cases "attemptR (bindR (ua2ioNodeId (uvNodeId v)) (\<lambda>n. mapR (\<lambda>vh. (n, vh)) (getValueHandling br n)))")
    case (Inr r)
    with Cons show ?thesis
      by (cases r; cases "snd (the r)") (auto simp: bindR_eq_Inl)
  next
    case (Inl x)
    with Cons.prems show ?thesis by simp
  qed
qed simp

lemma storeInitial_error: "storeInitial env accepts entries rs cache = Inl e \<Longrightarrow> e = UndefinedBehaviour"
  by (induction env accepts entries rs cache rule: storeInitial.induct)
    (auto simp: bindR_eq_Inl split: option.splits prod.splits if_splits)

lemma updateVariables_handling:
  assumes "updateVariables br order subscribe accepts vars s = Inr s'"
  obtains entries s1 where "prepareVariables br vars s = Inr (entries, s1)" "svHandling s' = svHandling s1"
proof -
  from assms obtain entries s1 where prep: "prepareVariables br vars s = Inr (entries, s1)"
    by (auto simp: updateVariables_def bindR_eq_Inr)
  have "svHandling s' = svHandling s1"
  proof (cases "entries = []")
    case False
    with assms prep obtain answer where "attemptR (subscribe (map fst entries)) = Inr answer"
      by (auto simp: updateVariables_def bindR_eq_Inr)
    with assms prep False show ?thesis
      by (cases answer) (auto simp: updateVariables_def mapR_eq_Inr)
  qed (use assms prep in \<open>simp add: updateVariables_def\<close>)
  with prep show ?thesis by (rule that)
qed

text \<open>
  Starting the value handling of variables never throws, although it is declared to and builds the
  exception; the server takes the values of synchronous variables from the provider on request and the
  cache as the source of all others whose value handling is known, and leaves the rest as they are.
\<close>

theorem update_variables:
  assumes "distinct (map uvNodeId vars)"
  shows "case updateVariables br order subscribe accepts vars s of
      Inl e \<Rightarrow> e = UndefinedBehaviour
    | Inr s' \<Rightarrow> list_all (\<lambda>v. svHandling s' (uvNodeId v) =
        expectedHandling br (uvNodeId v) (svHandling s (uvNodeId v))) vars"
proof (cases "updateVariables br order subscribe accepts vars s")
  case (Inl e)
  then have "e = UndefinedBehaviour"
    by (auto simp: updateVariables_def bindR_eq_Inl mapR_def split: if_splits option.splits
        dest: prepareVariables_error storeInitial_error)
  with Inl show ?thesis by simp
next
  case (Inr s')
  then obtain entries s1 where "prepareVariables br vars s = Inr (entries, s1)" "svHandling s' = svHandling s1"
    by (rule updateVariables_handling)
  with prepareVariables_handling [OF _ assms] Inr show ?thesis by simp
qed

theorem update_variables_witness:
  "\<exists>s'. updateVariables exampleBridge id (\<lambda>_. Inr None) (\<lambda>_ _. True) exampleVariables
      \<lparr>svCache = (\<lambda>_. UaNull), svHandling = (\<lambda>_. None)\<rparr> = Inr s' \<and>
    svHandling s' (UaNumeric 2 7) = Some CacheIsSource \<and>
    svHandling s' (UaNumeric 2 3) = Some CacheIsUpdatedOnRequest"
proof -
  let ?s = "\<lparr>svCache = (\<lambda>_. UaNull), svHandling = (\<lambda>_. None)\<rparr>"
  have "isOk (updateVariables exampleBridge id (\<lambda>_. Inr None) (\<lambda>_ _. True) exampleVariables ?s)"
    by (simp add: updateVariables_def exampleVariables_def exampleBridge_def getValueHandling_def ua2ioNodeId_def newNodeData_def)
  moreover have "handlingOf exampleBridge (UaNumeric 2 7) = Inr VhNone" "handlingOf exampleBridge (UaNumeric 2 3) = Inr VhSync"
    by (simp_all add: handlingOf_def exampleBridge_def getValueHandling_def ua2ioNodeId_def newNodeData_def)
  moreover have "distinct (map uvNodeId exampleVariables)" by (simp add: exampleVariables_def)
  ultimately show ?thesis
    using update_variables [where vars = exampleVariables and br = exampleBridge and order = id
        and subscribe = "\<lambda>_. Inr None" and accepts = "\<lambda>_ _. True" and s = ?s]
    by (auto simp: isOk_iff exampleVariables_def expectedHandling_def)
qed

end
