(* ===== verification/Subscriber.thy ===== *)
theory Subscriber
  imports Event_Types Io_Bridge
begin

text \<open>
  The callback the data provider notifies
  (\<open>sasModelProvider/base/IODataProviderSubscriberCallback.cpp\<close>): new values go to the variables of the
  server, event data becomes an event of the server. The address space is a parameter: the variables,
  the browse names of the nodes, and which values the server accepts.
\<close>

record address_space =
  asEnv :: converter_env
  asVariable :: "ua_node_id \<Rightarrow> ua_variable option"
  asBrowseName :: "ua_node_id \<Rightarrow> string option"
  asAccepts :: "ua_node_id \<Rightarrow> ua_variant \<Rightarrow> bool"

record fired_event =
  feData :: event_type_data
  feSourceNode :: ua_node_id
  feSourceName :: string
  feMessage :: string
  feSeverity :: "16 word"
  feTicks :: "64 word"

record server_output =
  soCache :: value_cache
  soEvents :: "fired_event list"

subsection \<open>Events\<close>

text \<open>
  Milliseconds since 1970 as 100 ns ticks since 1601, in signed 64 bit arithmetic; an overflow of the
  product or of the sum is undefined behaviour. The severity is cut to 16 bits.
\<close>

definition inInt64 :: "int \<Rightarrow> bool" where
  "inInt64 i \<longleftrightarrow> - (2 ^ 63) \<le> i \<and> i < 2 ^ 63"

definition eventTicks :: "64 word \<Rightarrow> (cpp_error, 64 word) res" where
  "eventTicks time =
    (if \<not> inInt64 (sint time * 10000) \<or> \<not> inInt64 (sint time * 10000 + 116444736000000000)
     then Inl UndefinedBehaviour
     else Inr (time * 10000 + 116444736000000000))"

definition nodeValue :: "converter_env \<Rightarrow> io_variant option \<Rightarrow> ua_node_id \<Rightarrow> (cpp_error, ua_variant) res" where
  "nodeValue env data dataType = (case data of None \<Rightarrow> Inr UaNull | Some x \<Rightarrow> io2ua env x dataType)"

fun addFields ::
  "address_space \<Rightarrow> (io_node_id \<times> io_variant option \<times> c_exception option) list \<Rightarrow> event_type_data \<Rightarrow>
   (cpp_error, event_type_data) res"
where
  "addFields sp [] ev = Inr ev"
| "addFields sp ((n, data, ex) # fs) ev =
     (case asVariable sp (io2uaNodeId n) of
        None \<Rightarrow> Inl SubscriberCallbackException
      | Some v \<Rightarrow>
          bindR (nodeValue (asEnv sp) data (uvDataType v)) (\<lambda>x.
            addFields sp fs (addFieldData (io2uaNodeId n) x ev)))"

definition processOpcUaEvent ::
  "address_space \<Rightarrow> 64 word \<Rightarrow> ua_node_id \<Rightarrow> io_node_id \<Rightarrow> string \<Rightarrow> c_int \<Rightarrow>
   (io_node_id \<times> io_variant option \<times> c_exception option) list \<Rightarrow> (cpp_error, fired_event) res"
where
  "processOpcUaEvent sp time eventTypeId source message severity fieldData =
    bindR (newEventTypeData eventTypeId) (\<lambda>ev.
      case asBrowseName sp (io2uaNodeId source) of
        None \<Rightarrow> Inl SubscriberCallbackException
      | Some name \<Rightarrow>
          bindR (eventTicks time) (\<lambda>ticks.
          bindR (addFields sp fieldData ev) (\<lambda>ev'.
            Inr \<lparr>feData = ev', feSourceNode = io2uaNodeId source, feSourceName = name,
              feMessage = cstr message, feSeverity = ucast severity, feTicks = ticks\<rparr>)))"

subsection \<open>Notifications\<close>

text \<open>
  The loop over the node data of an event. An unknown variable ends the whole function; an exception is
  remembered, the loop goes on, and nothing is thrown at the end.
\<close>

fun valuesChanged ::
  "address_space \<Rightarrow> 64 word \<Rightarrow> io_node_data list \<Rightarrow> server_output \<Rightarrow> (cpp_error, server_output) res"
where
  "valuesChanged sp time [] st = Inr st"
| "valuesChanged sp time (nd # nds) st =
     (case ndData nd of
        Some (IOEventData source message severity fieldData) \<Rightarrow>
          bindR (attemptR (processOpcUaEvent sp time (io2uaNodeId (ndNodeId nd)) source message severity fieldData)) (\<lambda>r.
            valuesChanged sp time nds
              (case r of None \<Rightarrow> st | Some ev \<Rightarrow> st\<lparr>soEvents := soEvents st @ [ev]\<rparr>))
      | data \<Rightarrow>
          (case asVariable sp (io2uaNodeId (ndNodeId nd)) of
             None \<Rightarrow> Inr st
           | Some v \<Rightarrow>
               bindR (attemptR
                   (bindR (nodeValue (asEnv sp) data (uvDataType v)) (\<lambda>x.
                      setVariable (asAccepts sp) (uvNodeId v) x (soCache st)))) (\<lambda>r.
                 valuesChanged sp time nds (case r of None \<Rightarrow> st | Some c \<Rightarrow> st\<lparr>soCache := c\<rparr>))))"

subsection \<open>Properties\<close>

definition isEventData :: "io_node_data \<Rightarrow> bool" where
  "isEventData nd = (case ndData nd of Some (IOEventData _ _ _ _) \<Rightarrow> True | _ \<Rightarrow> False)"

definition known :: "address_space \<Rightarrow> io_node_data \<Rightarrow> bool" where
  "known sp nd \<longleftrightarrow> isEventData nd \<or> asVariable sp (io2uaNodeId (ndNodeId nd)) \<noteq> None"

text \<open>The value a data change gives its variable.\<close>

definition changedValue :: "address_space \<Rightarrow> io_node_data \<Rightarrow> (cpp_error, ua_variant) res" where
  "changedValue sp nd =
    (case asVariable sp (io2uaNodeId (ndNodeId nd)) of
       None \<Rightarrow> Inl SubscriberCallbackException
     | Some v \<Rightarrow> nodeValue (asEnv sp) (ndData nd) (uvDataType v))"

lemma valuesChanged_unknown:
  "\<not> known sp nd \<Longrightarrow> valuesChanged sp time (nd # nds) st = Inr st"
  by (auto simp: known_def isEventData_def split: option.splits io_variant.splits)

lemma valuesChanged_change:
  assumes "\<not> isEventData nd" and "asVariable sp (io2uaNodeId (ndNodeId nd)) = Some v"
  shows "valuesChanged sp time (nd # nds) st =
    bindR (attemptR (bindR (changedValue sp nd) (\<lambda>x. setVariable (asAccepts sp) (uvNodeId v) x (soCache st)))) (\<lambda>r.
      valuesChanged sp time nds (case r of None \<Rightarrow> st | Some c \<Rightarrow> st\<lparr>soCache := c\<rparr>))"
  using assms by (auto simp: isEventData_def changedValue_def split: option.splits io_variant.splits)

definition applyChange :: "address_space \<Rightarrow> value_cache \<Rightarrow> io_node_data \<Rightarrow> value_cache" where
  "applyChange sp c nd =
    (case (asVariable sp (io2uaNodeId (ndNodeId nd)), changedValue sp nd) of
       (Some v, Inr x) \<Rightarrow> if asAccepts sp (uvNodeId v) x then c(uvNodeId v := x) else c
     | _ \<Rightarrow> c)"

lemma valuesChanged_values:
  "list_all (\<lambda>nd. \<not> isEventData nd \<and> changedValue sp nd \<noteq> Inl UndefinedBehaviour) nds \<Longrightarrow>
   valuesChanged sp time nds st =
     Inr (st\<lparr>soCache := foldl (applyChange sp) (soCache st) (takeWhile (known sp) nds)\<rparr>)"
proof (induction nds arbitrary: st)
  case (Cons nd nds)
  show ?case
  proof (cases "asVariable sp (io2uaNodeId (ndNodeId nd))")
    case None
    with Cons.prems have "\<not> known sp nd" by (simp add: known_def)
    then show ?thesis by (simp add: valuesChanged_unknown del: valuesChanged.simps)
  next
    case (Some v)
    then have k: "known sp nd" by (simp add: known_def)
    have "valuesChanged sp time (nd # nds) st =
        valuesChanged sp time nds (st\<lparr>soCache := applyChange sp (soCache st) nd\<rparr>)"
    proof (cases "changedValue sp nd")
      case (Inl e)
      with Cons.prems have "e \<noteq> UndefinedBehaviour" by simp
      with Inl Some Cons.prems show ?thesis
        by (simp add: valuesChanged_change applyChange_def attemptR_def del: valuesChanged.simps)
    next
      case (Inr x)
      with Some Cons.prems show ?thesis
        by (simp add: valuesChanged_change applyChange_def attemptR_def setVariable_def del: valuesChanged.simps)
    qed
    with Cons.IH Cons.prems k show ?thesis by (simp del: valuesChanged.simps)
  qed
qed simp

text \<open>
  Data changes are applied to the server cache one after the other, each converted to the type of
  its variable; a value that cannot be converted or that the server refuses changes nothing. The first
  change of an unknown variable ends the notification: all changes behind it are dropped.
\<close>

theorem values_changed_applied:
  assumes "list_all (\<lambda>nd. \<not> isEventData nd \<and> changedValue sp nd \<noteq> Inl UndefinedBehaviour) nds"
  shows "valuesChanged sp time nds st =
     Inr (st\<lparr>soCache := foldl (applyChange sp) (soCache st) (takeWhile (known sp) nds)\<rparr>)"
  by (rule valuesChanged_values [OF assms])

definition exampleSpace :: address_space where
  "exampleSpace = \<lparr>asEnv = exampleEnv,
     asVariable = (\<lambda>n. if n = UaNumeric 2 1 \<or> n = UaNumeric 2 3 then Some \<lparr>uvNodeId = n, uvDataType = UaNumeric 0 1\<rparr> else None),
     asBrowseName = (\<lambda>n. if n = UaNumeric 2 1 then Some ''Pump'' else None),
     asAccepts = (\<lambda>_ _. True)\<rparr>"

definition exampleChange :: "c_long \<Rightarrow> io_node_data" where
  "exampleChange i = newNodeData (NodeIdNumeric 2 i) (Some (IOScalar (IOBool True)))"

lemma example_change:
  "\<not> isEventData (exampleChange i)"
  "changedValue exampleSpace (exampleChange 1) = Inr (UaBool True)"
  "changedValue exampleSpace (exampleChange 9) = Inl SubscriberCallbackException"
  "changedValue exampleSpace (exampleChange 3) = Inr (UaBool True)"
  "known exampleSpace (exampleChange 1)" "\<not> known exampleSpace (exampleChange 9)"
  by (simp_all add: isEventData_def exampleChange_def newNodeData_def changedValue_def exampleSpace_def io2uaNodeId_def
      nodeValue_def example_conversion known_def del: io2ua.simps)

theorem values_changed_applied_witness:
  "\<exists>st. valuesChanged exampleSpace 0 [exampleChange 1, exampleChange 9, exampleChange 3]
      \<lparr>soCache = (\<lambda>_. UaNull), soEvents = []\<rparr> = Inr st \<and>
    soCache st (UaNumeric 2 1) = UaBool True \<and> soCache st (UaNumeric 2 3) = UaNull"
proof -
  have "applyChange exampleSpace c (exampleChange 1) = c(UaNumeric 2 1 := UaBool True)" for c
    unfolding applyChange_def example_change
    by (simp add: exampleSpace_def exampleChange_def newNodeData_def io2uaNodeId_def)
  with values_changed_applied [of exampleSpace "[exampleChange 1, exampleChange 9, exampleChange 3]" 0
      "\<lparr>soCache = (\<lambda>_. UaNull), soEvents = []\<rparr>"]
  show ?thesis by (simp add: example_change del: valuesChanged.simps)
qed

lemma eventTicks_exact:
  assumes "eventTicks time = Inr ticks"
  shows "sint ticks = sint time * 10000 + 116444736000000000"
proof -
  from assms have b: "inInt64 (sint time * 10000 + 116444736000000000)"
    and t: "ticks = time * 10000 + 116444736000000000"
    by (auto simp: eventTicks_def split: if_splits)
  have "ticks = word_of_int (sint time * 10000 + 116444736000000000)"
    by (simp add: t)
  moreover have "sint (word_of_int k :: 64 word) = signed_take_bit 63 k" for k
    unfolding sint_sbintrunc' by simp
  ultimately have "sint ticks = signed_take_bit 63 (sint time * 10000 + 116444736000000000)"
    by (simp only:)
  also have "\<dots> = sint time * 10000 + 116444736000000000"
    using b by (intro signed_take_bit_int_eq_self) (auto simp: inInt64_def)
  finally show ?thesis .
qed

text \<open>The converted value of a field of the event data.\<close>

definition fieldValueIs :: "address_space \<Rightarrow> io_node_id \<times> io_variant option \<times> c_exception option \<Rightarrow> ua_variant \<Rightarrow> bool" where
  "fieldValueIs sp f y \<longleftrightarrow>
    (case asVariable sp (io2uaNodeId (fst f)) of
       None \<Rightarrow> False
     | Some v \<Rightarrow> nodeValue (asEnv sp) (fst (snd f)) (uvDataType v) = Inr y)"

lemma addFields_values:
  "addFields sp fs ev = Inr ev' \<longleftrightarrow>
   (\<exists>vals. list_all2 (fieldValueIs sp) fs vals \<and>
      ev' = foldl (\<lambda>d p. addFieldData (fst p) (snd p) d) ev (zip (map (\<lambda>f. io2uaNodeId (fst f)) fs) vals))"
proof (induction fs arbitrary: ev)
  case (Cons f fs)
  obtain n data ex where f: "f = (n, data, ex)" by (cases f)
  have split: "(\<exists>ws. list_all2 R (f # fs) ws \<and> Q ws) \<longleftrightarrow> (\<exists>x vals. R f x \<and> list_all2 R fs vals \<and> Q (x # vals))"
    for R :: "_ \<Rightarrow> ua_variant \<Rightarrow> bool" and Q
    by (auto simp: list_all2_Cons1)
  show ?case
  proof (cases "asVariable sp (io2uaNodeId n)")
    case (Some v)
    have "addFields sp (f # fs) ev = Inr ev' \<longleftrightarrow>
      (\<exists>x. fieldValueIs sp f x \<and> addFields sp fs (addFieldData (io2uaNodeId n) x ev) = Inr ev')"
      by (simp add: f Some fieldValueIs_def bindR_eq_Inr)
    then show ?thesis unfolding split Cons.IH by (simp add: f)
  qed (simp add: f list_all2_Cons1 fieldValueIs_def)
qed auto

text \<open>
  A fired event has the type, source node, name, message and severity of the event data, the time as
  exact 100 ns ticks since 1601, and as field values the converted values of the event data under the
  nodes of the fields.
\<close>

theorem event_processed:
  assumes "processOpcUaEvent sp time t source message severity fieldData = Inr ev"
  shows "(\<exists>vals. list_all2 (fieldValueIs sp) fieldData vals \<and>
      eventWithData t (zip (map (\<lambda>f. io2uaNodeId (fst f)) fieldData) vals) = Inr (feData ev)) \<and>
    asBrowseName sp (io2uaNodeId source) = Some (feSourceName ev) \<and>
    feSourceNode ev = io2uaNodeId source \<and> feMessage ev = cstr message \<and> feSeverity ev = ucast severity \<and>
    sint (feTicks ev) = sint time * 10000 + 116444736000000000"
proof -
  from assms obtain d name ticks ev' where d: "newEventTypeData t = Inr d"
    and name: "asBrowseName sp (io2uaNodeId source) = Some name"
    and ticks: "eventTicks time = Inr ticks" and fs: "addFields sp fieldData d = Inr ev'"
    and ev: "ev = \<lparr>feData = ev', feSourceNode = io2uaNodeId source, feSourceName = name,
      feMessage = cstr message, feSeverity = ucast severity, feTicks = ticks\<rparr>"
    by (auto simp: processOpcUaEvent_def bindR_eq_Inr split: option.splits)
  from fs d have "\<exists>vals. list_all2 (fieldValueIs sp) fieldData vals \<and>
      eventWithData t (zip (map (\<lambda>f. io2uaNodeId (fst f)) fieldData) vals) = Inr ev'"
    unfolding addFields_values eventWithData_def by auto
  with name ticks ev eventTicks_exact [OF ticks] show ?thesis by simp
qed

theorem event_processed_witness:
  "\<exists>ev. processOpcUaEvent exampleSpace 1000 (UaNumeric 2 50) (NodeIdNumeric 2 1) ''on'' 5
      [(NodeIdNumeric 2 3, Some (IOScalar (IOBool True)), None)] = Inr ev \<and>
    feSourceName ev = ''Pump'' \<and> sint (feTicks ev) = 116444736010000000"
proof -
  have "isOk (processOpcUaEvent exampleSpace 1000 (UaNumeric 2 50) (NodeIdNumeric 2 1) ''on'' 5
      [(NodeIdNumeric 2 3, Some (IOScalar (IOBool True)), None)])"
    by (simp add: processOpcUaEvent_def newEventTypeData_def exampleSpace_def io2uaNodeId_def eventTicks_def
        inInt64_def nodeValue_def example_conversion del: io2ua.simps)
  then obtain ev where ev: "processOpcUaEvent exampleSpace 1000 (UaNumeric 2 50) (NodeIdNumeric 2 1) ''on'' 5
      [(NodeIdNumeric 2 3, Some (IOScalar (IOBool True)), None)] = Inr ev"
    by (auto simp: isOk_iff)
  from event_processed [OF this] have "feSourceName ev = ''Pump''" "sint (feTicks ev) = 116444736010000000"
    by (simp_all add: exampleSpace_def io2uaNodeId_def)
  with ev show ?thesis by blast
qed

end
