(* ===== verification/Ha_Session.thy ===== *)
theory Ha_Session
  imports Ha_Subscription
begin

text \<open>
  The client's session with an OPC UA server (\<open>binaryServer/HaSession.cpp\<close>): opening with retries, closing,
  and the services read, write, call, subscribe and unsubscribe. What the server answers is a parameter.
  The text of a node id, by which the code finds the attributes of a node, stands for the node id.
\<close>

subsection \<open>State\<close>

text \<open>
  The pointer to the subscription: after a destructor that threw it points to a destroyed object. The
  SDK's session object exists or does not.
\<close>

datatype sub_pointer = SubNull | SubLive ha_subscription | SubDangling

record ha_session =
  hxSession :: bool
  hxSub :: sub_pointer

definition newHaSession :: ha_session where
  "newHaSession = \<lparr>hxSession = False, hxSub = SubNull\<rparr>"

record ha_configuration =
  hcConnectTimeout :: int
  hcMaxReconnectDelay :: int

text \<open>
  The outcome of the attempts to connect, and the seconds the clock shows: first when opening starts,
  then after each failed attempt.
\<close>

record connect_env =
  coGood :: "nat \<Rightarrow> bool"
  coTime :: "nat \<Rightarrow> int"

subsection \<open>Opening and closing\<close>

text \<open>After a failed attempt: the delay that is waited, and the time that remains after it.\<close>

definition waitAfter :: "connect_env \<Rightarrow> ha_configuration \<Rightarrow> nat \<Rightarrow> int \<Rightarrow> int \<times> int" where
  "waitAfter env conf i delay =
    (let delay1 = (if delay < hcMaxReconnectDelay conf then delay + 1 else delay);
         remaining = coTime env 0 + hcConnectTimeout conf - coTime env (Suc i);
         delay2 = (if delay1 > remaining then remaining else delay1)
     in (remaining - delay2, delay2))"

text \<open>
  One attempt after the other, with the remaining time as its time limit and a growing delay after it.
  The result tells whether the connection was made, and lists the time limits of the attempts (in ms).
\<close>

partial_function (option) connectLoop ::
  "connect_env \<Rightarrow> ha_configuration \<Rightarrow> nat \<Rightarrow> int \<Rightarrow> int \<Rightarrow> int list \<Rightarrow> (bool \<times> int list) option"
where
  "connectLoop env conf i remaining delay limits =
    (if remaining \<le> 0 then Some (False, limits)
     else if coGood env i then Some (True, limits @ [remaining * 1000])
     else
       connectLoop env conf (Suc i) (fst (waitAfter env conf i delay)) (snd (waitAfter env conf i delay))
         (limits @ [remaining * 1000]))"

definition sessionOpen ::
  "connect_env \<Rightarrow> ha_configuration \<Rightarrow> ha_session \<Rightarrow> ((cpp_error, unit) res \<times> ha_session) option"
where
  "sessionOpen env conf s =
    (if hxSession s then Some (Inr (), s)
     else
       (let s1 = s\<lparr>hxSession := True, hxSub := SubLive newHaSubscription\<rparr> in
        map_option (\<lambda>(good, _).
          if good then (Inr (), s1) else (Inl HaSessionException, s1\<lparr>hxSession := False\<rparr>))
          (connectLoop env conf 0 (hcConnectTimeout conf) 0 [])))"

text \<open>The destructor of the subscription removes all items; what it throws leaves the pointer as it is.\<close>

definition sessionClose :: "server_answers \<Rightarrow> bool \<Rightarrow> ha_session \<Rightarrow> (cpp_error, unit) res \<times> ha_session" where
  "sessionClose srv disconnectGood s =
    (if \<not> hxSession s then (Inr (), s)
     else
       (case (case hxSub s of
            SubNull \<Rightarrow> Inr ()
          | SubDangling \<Rightarrow> Inl UndefinedBehaviour
          | SubLive sub \<Rightarrow> fst (removeAllItems srv sub)) of
          Inl e \<Rightarrow> (Inl e, s\<lparr>hxSub := SubDangling\<rparr>)
        | Inr _ \<Rightarrow>
            if disconnectGood then (Inr (), s\<lparr>hxSession := False, hxSub := SubNull\<rparr>)
            else (Inl HaSessionException, s\<lparr>hxSub := SubNull\<rparr>)))"

subsection \<open>Reading\<close>

datatype attr_id = AttrNodeClass | AttrValue | AttrDataType

text \<open>
  The answers to the services: a bad status of the whole call is \<open>None\<close>. A reading has a status and a
  value for each attribute.
\<close>

record event_ref =
  erReferenceType :: ua_node_id
  erForward :: bool
  erNodeId :: ua_node_id
  erBrowseName :: "16 word \<times> string"

record session_answers =
  svRead :: "(ua_node_id \<times> attr_id) list \<Rightarrow> (bool \<times> ua_variant) list option"
  svWrite :: "(ua_node_id \<times> ua_variant) list \<Rightarrow> bool list option"
  svCall :: "ua_node_id \<Rightarrow> ua_node_id \<Rightarrow> ua_variant list \<Rightarrow> (32 word \<times> 32 word \<times> ua_variant list)"
  svMethodArguments :: "ua_node_id \<Rightarrow> ((string \<times> ua_node_id) list \<times> (string \<times> ua_node_id) list) option"
  svInverseTypes :: "ua_node_id \<Rightarrow> ua_node_id list option"
  svEventRefs :: "ua_node_id \<Rightarrow> event_ref list option"
  svStatusGood :: "32 word \<Rightarrow> bool"
  svSubscription :: server_answers

definition emptyAttr :: "ua_node_id \<Rightarrow> node_attr" where
  "emptyAttr n = \<lparr>naNodeId = n, naValue = None, naDataType = None, naNodeClass = None, naException = None\<rparr>"

text \<open>
  The class is read into memory that is not initialized, so anything but an \<open>Int32\<close> is undefined; a data
  type that is no node id leaves the null node id.
\<close>

definition nodeClassOf :: "ua_variant \<Rightarrow> (cpp_error, node_class) res" where
  "nodeClassOf v =
    (case v of
       UaInt32 i \<Rightarrow>
         Inr (if i = 1 then NcObject else if i = 2 then NcVariable else if i = 4 then NcMethod
              else if i = 8 then NcObjectType else if i = 16 then NcVariableType
              else if i = 32 then NcReferenceType else if i = 64 then NcDataType
              else if i = 128 then NcView else NcOther i)
     | _ \<Rightarrow> Inl UndefinedBehaviour)"

fun applyReading :: "attr_id \<Rightarrow> bool \<times> ua_variant \<Rightarrow> node_attr \<Rightarrow> (cpp_error, node_attr) res" where
  "applyReading a (False, v) attr = Inr (attr\<lparr>naException := Some HaSessionException\<rparr>)"
| "applyReading AttrNodeClass (True, v) attr = mapR (\<lambda>c. attr\<lparr>naNodeClass := Some c\<rparr>) (nodeClassOf v)"
| "applyReading AttrValue (True, v) attr = Inr (attr\<lparr>naValue := Some v\<rparr>)"
| "applyReading AttrDataType (True, v) attr =
     Inr (attr\<lparr>naDataType := Some (case v of UaNodeIdVal n \<Rightarrow> n | _ \<Rightarrow> UaNumeric 0 0)\<rparr>)"

text \<open>The readings come in the order of the nodes, and for a node in the order of the attributes.\<close>

fun applyReadings :: "attr_id list \<Rightarrow> (bool \<times> ua_variant) list \<Rightarrow> node_attr \<Rightarrow> (cpp_error, node_attr) res" where
  "applyReadings [] rs attr = Inr attr"
| "applyReadings (a # as') [] attr = Inl UndefinedBehaviour"
| "applyReadings (a # as') (r # rs) attr = bindR (applyReading a r attr) (applyReadings as' rs)"

fun nodeReadings ::
  "attr_id list \<Rightarrow> (bool \<times> ua_variant) list \<Rightarrow> ua_node_id list \<Rightarrow> (cpp_error, node_attr list) res"
where
  "nodeReadings attrs rs [] = Inr []"
| "nodeReadings attrs rs (n # ns) =
     bindR (applyReadings attrs rs (emptyAttr n)) (\<lambda>attr.
     bindR (nodeReadings attrs (drop (length attrs) rs) ns) (\<lambda>as'. Inr (attr # as')))"

definition readAttributes ::
  "session_answers \<Rightarrow> ua_node_id list \<Rightarrow> attr_id list \<Rightarrow> (cpp_error, node_attr list) res"
where
  "readAttributes sv nodeIds attrs =
    (if nodeIds = [] then Inr []
     else
       (case svRead sv (concat (map (\<lambda>n. map (\<lambda>a. (n, a)) attrs) nodeIds)) of
          None \<Rightarrow> Inl HaSessionException
        | Some rs \<Rightarrow> nodeReadings attrs rs nodeIds))"

text \<open>
  Reading values: first the classes, then value and data type of what is no event type. The second answer
  is stored through a map from the node, in which the last attribute of a node replaces the earlier ones.
\<close>

definition withClass :: "node_attr \<Rightarrow> node_attr" where
  "withClass attr =
    (if naException attr = None \<and> naNodeClass attr = Some NcObjectType
     then attr\<lparr>naValue := Some (UaByte 1), naDataType := Some (UaNumeric 0 3)\<rparr> else attr)"

definition readable :: "node_attr \<Rightarrow> bool" where
  "readable attr \<longleftrightarrow> naException attr = None \<and> naNodeClass attr \<noteq> Some NcObjectType"

definition mergeAttr :: "node_attr \<Rightarrow> node_attr \<Rightarrow> node_attr" where
  "mergeAttr read attr = attr\<lparr>
     naValue := (case naValue read of None \<Rightarrow> naValue attr | Some v \<Rightarrow> Some v),
     naDataType := (case naDataType read of None \<Rightarrow> naDataType attr | Some t \<Rightarrow> Some t),
     naException := (case naException read of None \<Rightarrow> naException attr | Some e \<Rightarrow> Some e)\<rparr>"

text \<open>The position of the last attribute of a node whose class could be read.\<close>

definition lastPosition :: "node_attr list \<Rightarrow> ua_node_id \<Rightarrow> nat option" where
  "lastPosition attrs n =
    (case filter (\<lambda>i. naNodeId (attrs ! i) = n \<and> naException (attrs ! i) = None) [0..<length attrs] of
       [] \<Rightarrow> None | is \<Rightarrow> Some (last is))"

definition storeReading :: "node_attr list \<Rightarrow> node_attr list \<Rightarrow> node_attr \<Rightarrow> node_attr list" where
  "storeReading classes attrs read =
    (case lastPosition classes (naNodeId read) of
       None \<Rightarrow> attrs
     | Some i \<Rightarrow> attrs[i := mergeAttr read (attrs ! i)])"

definition sessionRead :: "session_answers \<Rightarrow> ha_session \<Rightarrow> ua_node_id list \<Rightarrow> (cpp_error, node_attr list) res" where
  "sessionRead sv s nodeIds =
    (if nodeIds = [] then Inr []
     else if \<not> hxSession s then Inl HaSessionException
     else
       bindR (readAttributes sv nodeIds [AttrNodeClass]) (\<lambda>classes.
       bindR (readAttributes sv (map naNodeId (filter readable classes)) [AttrValue, AttrDataType]) (\<lambda>readings.
         Inr (foldl (storeReading classes) (map withClass classes) readings))))"

subsection \<open>Writing and calling\<close>

fun writeResults :: "bool list \<Rightarrow> (ua_node_id \<times> ua_variant) list \<Rightarrow> (cpp_error, unit) res" where
  "writeResults [] nodes = Inr ()"
| "writeResults (r # rs) [] = Inl UndefinedBehaviour"
| "writeResults (r # rs) (n # ns) = (if r then writeResults rs ns else Inl HaSessionException)"

definition sessionWrite ::
  "session_answers \<Rightarrow> ha_session \<Rightarrow> (ua_node_id \<times> ua_variant) list \<Rightarrow> (cpp_error, unit) res"
where
  "sessionWrite sv s nodes =
    (if nodes = [] then Inr ()
     else if \<not> hxSession s then Inl HaSessionException
     else
       (case svWrite sv nodes of
          None \<Rightarrow> Inl HaSessionException
        | Some rs \<Rightarrow> writeResults rs nodes))"

text \<open>A call fails with the status of the service, or else with the status of the method.\<close>

definition sessionCall ::
  "session_answers \<Rightarrow> ha_session \<Rightarrow> ua_node_id \<Rightarrow> ua_node_id \<Rightarrow> ua_variant list \<Rightarrow>
   (cpp_error \<times> 32 word option, ua_variant list) res"
where
  "sessionCall sv s methodId objectId inputArguments =
    (if \<not> hxSession s then Inl (HaSessionException, None)
     else
       (let (result, callResult, outputs) = svCall sv methodId objectId inputArguments in
        if \<not> svStatusGood sv result then Inl (HaSessionException, Some result)
        else if \<not> svStatusGood sv callResult then Inl (HaSessionException, Some callResult)
        else Inr outputs))"

definition sessionMethodArguments ::
  "session_answers \<Rightarrow> ha_session \<Rightarrow> ua_node_id \<Rightarrow>
   (cpp_error, (string \<times> ua_node_id) list \<times> (string \<times> ua_node_id) list) res"
where
  "sessionMethodArguments sv s methodId =
    (if \<not> hxSession s then Inl HaSessionException
     else (case svMethodArguments sv methodId of None \<Rightarrow> Inl HaSessionException | Some a \<Rightarrow> Inr a))"

text \<open>The super types up to name space 0; of several references each is taken, and the last is followed.\<close>

definition nullId :: ua_node_id where
  "nullId = UaNumeric 0 0"

partial_function (option) sessionTypesLoop ::
  "session_answers \<Rightarrow> ua_node_id \<Rightarrow> ua_node_id list \<Rightarrow> (cpp_error, ua_node_id list) res option"
where
  "sessionTypesLoop sv nodeId acc =
    (if nodeId = nullId \<or> uaNamespaceIndex nodeId = 0 then Some (Inr acc)
     else
       (case svInverseTypes sv nodeId of
          None \<Rightarrow> Some (Inl HaSessionException)
        | Some refs \<Rightarrow>
            if refs \<noteq> [] then sessionTypesLoop sv (last refs) (acc @ refs)
            else sessionTypesLoop sv nullId acc))"

definition sessionSuperTypes ::
  "session_answers \<Rightarrow> ha_session \<Rightarrow> ua_node_id \<Rightarrow> (cpp_error, ua_node_id list) res option"
where
  "sessionSuperTypes sv s typeId =
    (if \<not> hxSession s then Some (Inl HaSessionException) else sessionTypesLoop sv typeId [])"

subsection \<open>The fields of an event type\<close>

text \<open>
  A variable is skipped when a field of its name is known already, so that a type overrides its super
  types; a known field without a name (one that could not be read) is dereferenced all the same.
\<close>

fun nameKnown :: "16 word \<times> string \<Rightarrow> event_field list \<Rightarrow> (cpp_error, bool) res" where
  "nameKnown q [] = Inr False"
| "nameKnown q (f # fs) =
     (case efQualifiedName f of
        None \<Rightarrow> Inl UndefinedBehaviour
      | Some p \<Rightarrow> if p = q then Inr True else nameKnown q fs)"

definition failedField :: "ua_node_id \<Rightarrow> event_field" where
  "failedField n = \<lparr>efNodeId = n, efQualifiedName = None, efDataTypeId = None, efValue = None,
     efException = Some HaSessionException\<rparr>"

definition readEventField :: "session_answers \<Rightarrow> ha_session \<Rightarrow> event_ref \<Rightarrow> (cpp_error, event_field) res" where
  "readEventField sv s ref =
    (case sessionRead sv s [erNodeId ref] of
       Inl e \<Rightarrow> if e = UndefinedBehaviour then Inl e else Inr (failedField (erNodeId ref))
     | Inr [] \<Rightarrow> Inr (failedField (erNodeId ref))
     | Inr (attr # _) \<Rightarrow>
         if naException attr \<noteq> None then Inr (failedField (erNodeId ref))
         else
           (case naDataType attr of
              None \<Rightarrow> Inl UndefinedBehaviour
            | Some t \<Rightarrow> Inr \<lparr>efNodeId = erNodeId ref, efQualifiedName = Some (erBrowseName ref),
                efDataTypeId = Some t, efValue = None, efException = None\<rparr>))"

fun addEventVariables ::
  "session_answers \<Rightarrow> ha_session \<Rightarrow> event_ref list \<Rightarrow> event_field list \<Rightarrow> (cpp_error, event_field list) res"
where
  "addEventVariables sv s [] fs = Inr fs"
| "addEventVariables sv s (r # rs) fs =
     bindR (identifierNumeric (erReferenceType r)) (\<lambda>t.
       if t = 45 then addEventVariables sv s rs fs
       else
         bindR (nameKnown (erBrowseName r) fs) (\<lambda>found.
           if found then addEventVariables sv s rs fs
           else bindR (readEventField sv s r) (\<lambda>f. addEventVariables sv s rs (fs @ [f]))))"

definition superTypesOf :: "event_ref list \<Rightarrow> ua_node_id list" where
  "superTypesOf refs =
    map erNodeId (filter (\<lambda>r. identifierNumeric (erReferenceType r) = Inr 45 \<and> \<not> erForward r) refs)"

text \<open>
  The recursion into the super types as a stack of types. A super type that cannot be browsed is left
  out: the exception is caught and logged.
\<close>

partial_function (option) eventFieldsLoop ::
  "session_answers \<Rightarrow> ha_session \<Rightarrow> ua_node_id list \<Rightarrow> event_field list \<Rightarrow>
   (cpp_error, event_field list) res option"
where
  "eventFieldsLoop sv s pending fs =
    (case pending of
       [] \<Rightarrow> Some (Inr fs)
     | n # rest \<Rightarrow>
         (case svEventRefs sv n of
            None \<Rightarrow> eventFieldsLoop sv s rest fs
          | Some refs \<Rightarrow>
              (case addEventVariables sv s refs fs of
                 Inl e \<Rightarrow> Some (Inl e)
               | Inr fs' \<Rightarrow> eventFieldsLoop sv s (superTypesOf refs @ rest) fs')))"

definition sessionEventFields ::
  "session_answers \<Rightarrow> ha_session \<Rightarrow> ua_node_id \<Rightarrow> (cpp_error, event_field list) res option"
where
  "sessionEventFields sv s eventTypeId =
    (case svEventRefs sv eventTypeId of
       None \<Rightarrow> Some (Inl HaSessionException)
     | Some _ \<Rightarrow> eventFieldsLoop sv s [eventTypeId] [])"

subsection \<open>Subscribing\<close>

text \<open>
  The loop over the attributes: those that can be subscribed, the fields of the event types among them,
  and whether a node failed. The outer \<open>None\<close> is a browse that does not end.
\<close>

type_synonym event_fields = "ua_node_id \<Rightarrow> event_field list option"

fun prepareNodes ::
  "session_answers \<Rightarrow> ha_session \<Rightarrow> node_attr list \<Rightarrow> event_fields \<Rightarrow>
   (cpp_error, node_attr list \<times> event_fields \<times> bool) res option"
where
  "prepareNodes sv s [] evs = Some (Inr ([], evs, False))"
| "prepareNodes sv s (attr # attrs) evs =
     (let failed = map_option (mapR (\<lambda>(valid, evs', _). (valid, evs', True))) (prepareNodes sv s attrs evs);
          good = (\<lambda>evs'. map_option (mapR (\<lambda>(valid, evs'', f). (attr # valid, evs'', f))) (prepareNodes sv s attrs evs'))
      in
        if naException attr \<noteq> None then failed
        else
          (case naNodeClass attr of
             None \<Rightarrow> Some (Inl UndefinedBehaviour)
           | Some NcObjectType \<Rightarrow>
               (case sessionEventFields sv s (naNodeId attr) of
                  None \<Rightarrow> None
                | Some (Inl e) \<Rightarrow> if e = UndefinedBehaviour then Some (Inl e) else failed
                | Some (Inr fs) \<Rightarrow>
                    if list_ex (\<lambda>f. efException f \<noteq> None) fs then failed
                    else good (evs(naNodeId attr \<mapsto> fs)))
           | Some _ \<Rightarrow> good evs))"

text \<open>What could be added stays subscribed when another node failed; the caller gets an exception.\<close>

definition sessionSubscribe ::
  "session_answers \<Rightarrow> ua_node_id list \<Rightarrow> ha_session \<Rightarrow>
   ((cpp_error, node_attr list \<times> event_fields) res \<times> ha_session) option"
where
  "sessionSubscribe sv nodeIds s =
    (if \<not> hxSession s then Some (Inl HaSessionException, s)
     else
       (case sessionRead sv s nodeIds of
          Inl e \<Rightarrow> Some (Inl e, s)
        | Inr attrs \<Rightarrow>
            (case prepareNodes sv s attrs (\<lambda>_. None) of
               None \<Rightarrow> None
             | Some (Inl e) \<Rightarrow> Some (Inl e, s)
             | Some (Inr (valid, evs, failed)) \<Rightarrow>
                 if valid = [] then
                   Some (if failed then Inl HaSessionException else Inr (attrs, evs), s)
                 else
                   (case hxSub s of
                      SubLive sub \<Rightarrow>
                        (case addItems valid evs (svSubscription sv) sub of
                           (r, sub') \<Rightarrow>
                             Some
                               (if r = Inl UndefinedBehaviour then Inl UndefinedBehaviour
                                else if failed \<or> \<not> isOk r then Inl HaSessionException
                                else Inr (attrs, evs),
                                s\<lparr>hxSub := SubLive sub'\<rparr>))
                    | _ \<Rightarrow> Some (Inl UndefinedBehaviour, s)))))"

definition sessionUnsubscribe ::
  "session_answers \<Rightarrow> ua_node_id list option \<Rightarrow> ha_session \<Rightarrow> (cpp_error, unit) res \<times> ha_session"
where
  "sessionUnsubscribe sv nodeIds s =
    (case hxSub s of
       SubNull \<Rightarrow> (Inr (), s)
     | SubDangling \<Rightarrow> (Inl UndefinedBehaviour, s)
     | SubLive sub \<Rightarrow>
         (case (case nodeIds of
              None \<Rightarrow> removeAllItems (svSubscription sv) sub
            | Some ns \<Rightarrow> removeItems ns (svSubscription sv) sub) of
            (r, sub') \<Rightarrow> (r, s\<lparr>hxSub := SubLive sub'\<rparr>)))"

subsection \<open>Opening ends, and how\<close>

definition clockForward :: "connect_env \<Rightarrow> bool" where
  "clockForward env \<longleftrightarrow> (\<forall>i. coTime env 0 \<le> coTime env i)"

lemma waitAfter_bounds:
  assumes "0 \<le> delay"
  shows "fst (waitAfter env conf i delay) \<le> 0 \<or> 0 \<le> snd (waitAfter env conf i delay)"
    and "clockForward env \<Longrightarrow> fst (waitAfter env conf i delay) \<le> 0 \<or>
      fst (waitAfter env conf i delay) \<le> hcConnectTimeout conf"
    and "coTime env 0 + hcConnectTimeout conf \<le> coTime env (Suc i) \<Longrightarrow> fst (waitAfter env conf i delay) \<le> 0"
  using assms by (auto simp: waitAfter_def Let_def clockForward_def dest: spec [of _ "Suc i"])

lemma connectLoop_result:
  "connectLoop env conf i remaining delay limits = Some y \<Longrightarrow> clockForward env \<Longrightarrow>
   remaining \<le> 0 \<or> remaining \<le> hcConnectTimeout conf \<and> 0 \<le> delay \<Longrightarrow>
   \<exists>new. snd y = limits @ new \<and> (\<forall>l\<in>set new. 0 < l \<and> l \<le> hcConnectTimeout conf * 1000) \<and>
     (if fst y then new \<noteq> [] \<and> coGood env (i + length new - 1) \<and> (\<forall>j<length new - 1. \<not> coGood env (i + j))
      else \<forall>j<length new. \<not> coGood env (i + j))"
proof (induction rule: connectLoop.raw_induct [rotated, consumes 1, case_names step])
  case (step loop env conf i remaining delay limits y)
  show ?case
  proof (cases "remaining \<le> 0 \<or> coGood env i")
    case True
    show ?thesis
    proof (cases "remaining \<le> 0")
      case True
      then have "y = (False, limits)" using step.hyps by auto
      then show ?thesis by simp
    next
      case False
      then have "y = (True, limits @ [remaining * 1000])" "coGood env i" using step.hyps True by auto
      then show ?thesis using False step.prems(2) by simp
    qed
  next
    case False
    let ?w = "waitAfter env conf i delay"
    have r: "loop env conf (Suc i) (fst ?w) (snd ?w) (limits @ [remaining * 1000]) = Some y"
      using step.hyps False by simp
    have inv: "fst ?w \<le> 0 \<or> fst ?w \<le> hcConnectTimeout conf \<and> 0 \<le> snd ?w"
      using waitAfter_bounds(1,2) [of delay env conf i] step.prems False by auto
    obtain new where new: "snd y = (limits @ [remaining * 1000]) @ new"
      "\<forall>l\<in>set new. 0 < l \<and> l \<le> hcConnectTimeout conf * 1000"
      "if fst y then new \<noteq> [] \<and> coGood env (Suc i + length new - 1) \<and> (\<forall>j<length new - 1. \<not> coGood env (Suc i + j))
       else \<forall>j<length new. \<not> coGood env (Suc i + j)"
      using step.IH [OF r step.prems(1) inv] by blast
    have shift: "(\<forall>j<Suc n. \<not> coGood env (i + j)) \<longleftrightarrow> \<not> coGood env i \<and> (\<forall>j<n. \<not> coGood env (Suc i + j))" for n
      by (simp add: All_less_Suc2)
    show ?thesis
    proof (intro exI [of _ "remaining * 1000 # new"] conjI)
      show "if fst y then remaining * 1000 # new \<noteq> [] \<and> coGood env (i + length (remaining * 1000 # new) - 1) \<and>
            (\<forall>j<length (remaining * 1000 # new) - 1. \<not> coGood env (i + j))
          else \<forall>j<length (remaining * 1000 # new). \<not> coGood env (i + j)"
        using new(3) False shift [of "length new"] shift [of "length new - 1"]
        by (cases "fst y"; cases new) auto
    qed (use new False step.prems(2) in auto)
  qed
qed

lemma connectLoop_returns:
  "coGood env k \<or> coTime env 0 + hcConnectTimeout conf \<le> coTime env (Suc k) \<Longrightarrow> i \<le> k \<Longrightarrow>
   remaining \<le> 0 \<or> 0 \<le> delay \<Longrightarrow> \<exists>y. connectLoop env conf i remaining delay limits = Some y"
proof (induction "k - i" arbitrary: i remaining delay limits rule: less_induct)
  case less
  let ?w = "waitAfter env conf i delay"
  show ?case
  proof (cases "remaining \<le> 0 \<or> coGood env i")
    case True
    then show ?thesis using connectLoop.simps [of env conf i remaining delay limits] by auto
  next
    case False
    then have next': "connectLoop env conf i remaining delay limits =
        connectLoop env conf (Suc i) (fst ?w) (snd ?w) (limits @ [remaining * 1000])"
      using connectLoop.simps [of env conf i remaining delay limits] by simp
    have inv: "fst ?w \<le> 0 \<or> 0 \<le> snd ?w"
      using waitAfter_bounds(1) False less.prems(3) by blast
    show ?thesis
    proof (cases "i = k")
      case True
      then have "fst ?w \<le> 0" using waitAfter_bounds(3) less.prems(1,3) False by blast
      then show ?thesis using next' connectLoop.simps [of env conf "Suc i"] by auto
    next
      case i: False
      then have "k - Suc i < k - i" "Suc i \<le> k" using less.prems(2) by auto
      then show ?thesis
        using less.hyps [OF _ less.prems(1) _ inv] next' by auto
    qed
  qed
qed

text \<open>
  When the clock does not run backwards, every attempt to connect has a positive time limit within the
  configured time, and the session is opened exactly when one of the attempts is good, which is then the
  last one.
\<close>

theorem open_attempts:
  "clockForward env \<Longrightarrow> connectLoop env conf 0 (hcConnectTimeout conf) 0 [] = Some (good, limits) \<Longrightarrow>
   (\<forall>l\<in>set limits. 0 < l \<and> l \<le> hcConnectTimeout conf * 1000) \<and>
   (good \<longleftrightarrow> (\<exists>j<length limits. coGood env j)) \<and>
   (\<forall>j<length limits. coGood env j \<longrightarrow> Suc j = length limits)"
proof -
  assume "clockForward env" "connectLoop env conf 0 (hcConnectTimeout conf) 0 [] = Some (good, limits)"
  from connectLoop_result [OF this(2,1)]
  have r: "\<forall>l\<in>set limits. 0 < l \<and> l \<le> hcConnectTimeout conf * 1000"
    "if good then limits \<noteq> [] \<and> coGood env (length limits - 1) \<and> (\<forall>j<length limits - 1. \<not> coGood env j)
     else \<forall>j<length limits. \<not> coGood env j"
    by auto
  show ?thesis
  proof (cases good)
    case True
    have "Suc j = length limits" if "j < length limits" "coGood env j" for j
      using r(2) True that by (metis Suc_lessI diff_Suc_1 less_diff_conv Suc_eq_plus1)
    moreover have "length limits - 1 < length limits" "coGood env (length limits - 1)"
      using r(2) True by (simp_all split: if_splits)
    ultimately show ?thesis using r(1) True by blast
  next
    case False
    then show ?thesis using r by auto
  qed
qed

text \<open>
  C34. Opening ends when some attempt is good or the clock reaches the end of the configured time, and then
  the session exists exactly when no exception was thrown.
\<close>

theorem open_returns:
  "coGood env k \<or> coTime env 0 + hcConnectTimeout conf \<le> coTime env (Suc k) \<Longrightarrow>
   \<exists>r s'. sessionOpen env conf s = Some (r, s') \<and> (isOk r \<longleftrightarrow> hxSession s')"
proof -
  assume "coGood env k \<or> coTime env 0 + hcConnectTimeout conf \<le> coTime env (Suc k)"
  then obtain good limits where "connectLoop env conf 0 (hcConnectTimeout conf) 0 [] = Some (good, limits)"
    using connectLoop_returns [of env k conf 0 "hcConnectTimeout conf" 0 "[]"] by auto
  then show ?thesis by (cases "hxSession s"; cases good) (simp_all add: sessionOpen_def)
qed

definition exampleConnect :: connect_env where
  "exampleConnect = \<lparr>coGood = (\<lambda>i. i = 2), coTime = (\<lambda>i. int i)\<rparr>"

definition exampleConf :: ha_configuration where
  "exampleConf = \<lparr>hcConnectTimeout = 10, hcMaxReconnectDelay = 3\<rparr>"

lemma exampleConnect_run: "connectLoop exampleConnect exampleConf 0 10 0 [] = Some (True, [10000, 8000, 6000])"
  by (simp add: connectLoop.simps exampleConnect_def exampleConf_def waitAfter_def)

lemma open_attempts_witness:
  "connectLoop exampleConnect exampleConf 0 10 0 [] = Some (True, [10000, 8000, 6000]) \<and>
   list_all (\<lambda>l. 0 < l \<and> l \<le> 10000) [10000, 8000, 6000 :: int]"
proof -
  have "clockForward exampleConnect" by (simp add: clockForward_def exampleConnect_def)
  from open_attempts [OF this, of exampleConf] exampleConnect_run
  show ?thesis by (auto simp: exampleConf_def)
qed

lemma open_returns_witness:
  "\<exists>r s'. sessionOpen exampleConnect exampleConf newHaSession = Some (r, s') \<and> (isOk r \<longleftrightarrow> hxSession s')"
  by (rule open_returns [where k = 2]) (simp add: exampleConnect_def)

subsection \<open>A close that fails\<close>

text \<open>
  When the server does not confirm the end of the session, closing throws and keeps the session without a
  subscription: opening does nothing from then on, and subscribing any node that can be subscribed
  dereferences a null pointer.
\<close>

theorem session_close_failure:
  "hxSession s \<Longrightarrow> hxSub s = SubLive sub \<Longrightarrow> isOk (fst (removeAllItems srv sub)) \<Longrightarrow>
   \<exists>s'. sessionClose srv False s = (Inl HaSessionException, s') \<and>
     sessionOpen env conf s' = Some (Inr (), s') \<and>
     (\<forall>sv nodeIds attrs valid evs failed. sessionRead sv s' nodeIds = Inr attrs \<longrightarrow>
        prepareNodes sv s' attrs (\<lambda>_. None) = Some (Inr (valid, evs, failed)) \<longrightarrow> valid \<noteq> [] \<longrightarrow>
        sessionSubscribe sv nodeIds s' = Some (Inl UndefinedBehaviour, s'))"
  by (cases "fst (removeAllItems srv sub)")
    (auto simp: sessionClose_def sessionOpen_def sessionSubscribe_def)

subsection \<open>What a read returns\<close>

text \<open>A server that answers each attribute of each node by itself.\<close>

definition answersEach :: "session_answers \<Rightarrow> (ua_node_id \<Rightarrow> attr_id \<Rightarrow> bool \<times> ua_variant) \<Rightarrow> bool" where
  "answersEach sv val \<longleftrightarrow> (\<forall>reqs. svRead sv reqs = Some (map (\<lambda>r. val (fst r) (snd r)) reqs))"

text \<open>The attributes of a node: its class, and its value and data type unless it is an event type.\<close>

definition classAttr :: "(ua_node_id \<Rightarrow> attr_id \<Rightarrow> bool \<times> ua_variant) \<Rightarrow> ua_node_id \<Rightarrow> node_attr" where
  "classAttr val n = (case applyReading AttrNodeClass (val n AttrNodeClass) (emptyAttr n) of Inr a \<Rightarrow> a | Inl _ \<Rightarrow> emptyAttr n)"

definition valueAttr :: "(ua_node_id \<Rightarrow> attr_id \<Rightarrow> bool \<times> ua_variant) \<Rightarrow> ua_node_id \<Rightarrow> node_attr" where
  "valueAttr val n = \<lparr>naNodeId = n,
     naValue = (if fst (val n AttrValue) then Some (snd (val n AttrValue)) else None),
     naDataType = (if fst (val n AttrDataType)
       then Some (case snd (val n AttrDataType) of UaNodeIdVal t \<Rightarrow> t | _ \<Rightarrow> UaNumeric 0 0) else None),
     naNodeClass = None,
     naException = (if fst (val n AttrValue) \<and> fst (val n AttrDataType) then None else Some HaSessionException)\<rparr>"

definition expectedAttr :: "(ua_node_id \<Rightarrow> attr_id \<Rightarrow> bool \<times> ua_variant) \<Rightarrow> ua_node_id \<Rightarrow> node_attr" where
  "expectedAttr val n =
    (if readable (classAttr val n) then mergeAttr (valueAttr val n) (classAttr val n) else withClass (classAttr val n))"

lemma applyReadings_append:
  "length rs = length attrs \<Longrightarrow> applyReadings attrs (rs @ rs') attr = applyReadings attrs rs attr"
  by (induction attrs arbitrary: rs attr) (auto simp: length_Suc_conv intro!: bindR_cong)

lemma nodeReadings_each:
  "nodeReadings attrs (map (\<lambda>r. val (fst r) (snd r)) (concat (map (\<lambda>n. map (\<lambda>a. (n, a)) attrs) ns))) ns =
   traverseR (\<lambda>n. applyReadings attrs (map (val n) attrs) (emptyAttr n)) ns"
proof (induction ns)
  case (Cons n ns)
  have "map (\<lambda>r. val (fst r) (snd r)) (map (\<lambda>a. (n, a)) attrs) = map (val n) attrs" by simp
  then show ?case
    using Cons applyReadings_append [of "map (val n) attrs" attrs] by (simp add: o_def)
qed simp

lemma readAttributes_each:
  "answersEach sv val \<Longrightarrow>
   readAttributes sv ns attrs = traverseR (\<lambda>n. applyReadings attrs (map (val n) attrs) (emptyAttr n)) ns"
  using nodeReadings_each [of attrs val ns] by (simp add: readAttributes_def answersEach_def)

lemma readValues_each:
  assumes "answersEach sv val"
  shows "readAttributes sv ns [AttrValue, AttrDataType] = Inr (map (valueAttr val) ns)"
proof -
  have "applyReadings [AttrValue, AttrDataType] (map (val n) [AttrValue, AttrDataType]) (emptyAttr n) =
      Inr (valueAttr val n)" for n
    by (cases "val n AttrValue"; cases "val n AttrDataType"; cases "fst (val n AttrValue)"; cases "fst (val n AttrDataType)")
      (simp_all add: valueAttr_def emptyAttr_def)
  then show ?thesis
    using readAttributes_each [OF assms, of ns "[AttrValue, AttrDataType]"]
      traverseR_all [of ns "\<lambda>n. applyReadings [AttrValue, AttrDataType] (map (val n) [AttrValue, AttrDataType]) (emptyAttr n)"]
    by simp
qed

definition classesReadable :: "(ua_node_id \<Rightarrow> attr_id \<Rightarrow> bool \<times> ua_variant) \<Rightarrow> ua_node_id \<Rightarrow> bool" where
  "classesReadable val n \<longleftrightarrow> (fst (val n AttrNodeClass) \<longrightarrow> isOk (nodeClassOf (snd (val n AttrNodeClass))))"

lemma readClasses_each:
  assumes "answersEach sv val" "\<forall>n\<in>set ns. classesReadable val n"
  shows "readAttributes sv ns [AttrNodeClass] = Inr (map (classAttr val) ns)"
proof -
  have "applyReadings [AttrNodeClass] (map (val n) [AttrNodeClass]) (emptyAttr n) = Inr (classAttr val n)"
    if "classesReadable val n" for n
    using that
    by (cases "val n AttrNodeClass"; cases "fst (val n AttrNodeClass)"; cases "nodeClassOf (snd (val n AttrNodeClass))")
      (simp_all add: classAttr_def classesReadable_def)
  then show ?thesis
    using readAttributes_each [OF assms(1), of ns "[AttrNodeClass]"] assms(2)
      traverseR_all [of ns "\<lambda>n. applyReadings [AttrNodeClass] (map (val n) [AttrNodeClass]) (emptyAttr n)" "classAttr val"]
    by simp
qed

lemma attr_node_ids [simp]:
  "naNodeId (valueAttr val n) = n" "naNodeId (classAttr val n) = n" "naNodeId (emptyAttr n) = n"
proof -
  show "naNodeId (classAttr val n) = n"
    by (cases "val n AttrNodeClass"; cases "fst (val n AttrNodeClass)"; cases "nodeClassOf (snd (val n AttrNodeClass))")
      (simp_all add: classAttr_def emptyAttr_def)
qed (simp_all add: valueAttr_def emptyAttr_def)

lemma map_list_update:
  "distinct ns \<Longrightarrow> i < length ns \<Longrightarrow> (map f ns)[i := x] = map (f(ns ! i := x)) ns"
  by (auto intro!: nth_equalityI simp: nth_list_update nth_eq_iff_index_eq)

lemma lastPosition_distinct:
  assumes "distinct ns" "i < length ns" "naException (classAttr val (ns ! i)) = None"
  shows "lastPosition (map (classAttr val) ns) (ns ! i) = Some i"
proof -
  have "filter (\<lambda>j. naNodeId (map (classAttr val) ns ! j) = ns ! i \<and> naException (map (classAttr val) ns ! j) = None)
      [0..<length ns] = filter (\<lambda>j. j = i) [0..<length ns]"
    using assms by (intro filter_cong) (auto simp: nth_eq_iff_index_eq)
  also have "\<dots> = [i]"
  proof -
    have "filter (\<lambda>j. j = i) [0..<k] = (if i < k then [i] else [])" for k
      by (induction k) auto
    then show ?thesis using assms(2) by simp
  qed
  finally show ?thesis by (simp add: lastPosition_def)
qed

lemma storeReadings:
  assumes "distinct ns"
  shows "distinct ms \<Longrightarrow> \<forall>m\<in>set ms. m \<in> set ns \<and> naException (classAttr val m) = None \<Longrightarrow>
    foldl (storeReading (map (classAttr val) ns)) (map f ns) (map (valueAttr val) ms) =
    map (\<lambda>n. if n \<in> set ms then mergeAttr (valueAttr val n) (f n) else f n) ns"
proof (induction ms arbitrary: f)
  case (Cons m ms)
  then obtain i where i: "i < length ns" "ns ! i = m" by (metis in_set_conv_nth list.set_intros(1))
  have pos: "lastPosition (map (classAttr val) ns) m = Some i"
    using lastPosition_distinct [OF assms i(1), of val] Cons.prems(2) i(2) by simp
  obtain g where g: "g = f(m := mergeAttr (valueAttr val m) (f m))" by blast
  have step: "storeReading (map (classAttr val) ns) (map f ns) (valueAttr val m) = map g ns"
    using map_list_update [OF assms i(1), of f] pos i g by (simp add: storeReading_def)
  have "map (\<lambda>n. if n \<in> set ms then mergeAttr (valueAttr val n) (g n) else g n) ns =
      map (\<lambda>n. if n \<in> set (m # ms) then mergeAttr (valueAttr val n) (f n) else f n) ns"
    using Cons.prems(1) by (intro map_cong) (auto simp: g)
  then show ?case using Cons.IH [of g] Cons.prems step by simp
qed simp

lemma withClass_readable: "readable a \<Longrightarrow> withClass a = a"
  by (auto simp: readable_def withClass_def)

lemma sessionRead_each:
  assumes "hxSession s" "answersEach sv val" "distinct nodeIds" "\<forall>n\<in>set nodeIds. classesReadable val n"
  shows "sessionRead sv s nodeIds = Inr (map (expectedAttr val) nodeIds)"
proof -
  let ?readable = "filter (\<lambda>n. readable (classAttr val n)) nodeIds"
  have ids: "map (valueAttr val \<circ> naNodeId) (filter readable (map (classAttr val) nodeIds)) = map (valueAttr val) ?readable"
    by (simp add: filter_map o_def)
  have "foldl (storeReading (map (classAttr val) nodeIds)) (map (withClass \<circ> classAttr val) nodeIds)
      (map (valueAttr val) ?readable) = map (expectedAttr val) nodeIds"
  proof -
    have "foldl (storeReading (map (classAttr val) nodeIds)) (map (withClass \<circ> classAttr val) nodeIds)
        (map (valueAttr val) ?readable) =
      map (\<lambda>n. if n \<in> set ?readable then mergeAttr (valueAttr val n) ((withClass \<circ> classAttr val) n)
        else (withClass \<circ> classAttr val) n) nodeIds"
      using assms(3) by (intro storeReadings) (auto simp: readable_def)
    also have "\<dots> = map (expectedAttr val) nodeIds"
      by (rule map_cong) (simp_all add: expectedAttr_def withClass_readable)
    finally show ?thesis .
  qed
  then show ?thesis
    using readClasses_each [OF assms(2,4)] readValues_each [OF assms(2)] assms(1)
    by (simp add: sessionRead_def ids)
qed

text \<open>What a node should look like, from what the server has for it.\<close>

definition serverAttr :: "(ua_node_id \<Rightarrow> attr_id \<Rightarrow> bool \<times> ua_variant) \<Rightarrow> ua_node_id \<Rightarrow> node_attr" where
  "serverAttr val n =
    (let (classGood, classValue) = val n AttrNodeClass; (valueGood, v) = val n AttrValue;
         (typeGood, t) = val n AttrDataType
     in
       if \<not> classGood then
         \<lparr>naNodeId = n, naValue = None, naDataType = None, naNodeClass = None, naException = Some HaSessionException\<rparr>
       else if nodeClassOf classValue = Inr NcObjectType then
         \<lparr>naNodeId = n, naValue = Some (UaByte 1), naDataType = Some (UaNumeric 0 3),
          naNodeClass = Some NcObjectType, naException = None\<rparr>
       else
         \<lparr>naNodeId = n, naValue = (if valueGood then Some v else None),
          naDataType = (if typeGood then Some (case t of UaNodeIdVal d \<Rightarrow> d | _ \<Rightarrow> UaNumeric 0 0) else None),
          naNodeClass = (case nodeClassOf classValue of Inr c \<Rightarrow> Some c | Inl _ \<Rightarrow> None),
          naException = (if valueGood \<and> typeGood then None else Some HaSessionException)\<rparr>)"

lemma expectedAttr_server: "classesReadable val n \<Longrightarrow> expectedAttr val n = serverAttr val n"
  by (cases "val n AttrNodeClass"; cases "fst (val n AttrNodeClass)"; cases "nodeClassOf (snd (val n AttrNodeClass))";
      cases "val n AttrValue"; cases "val n AttrDataType")
    (auto simp: classesReadable_def expectedAttr_def serverAttr_def classAttr_def valueAttr_def emptyAttr_def
      readable_def withClass_def mergeAttr_def)

text \<open>
  C18. Reading different nodes from a server that answers each attribute by itself gives the attributes of each
  node, in order: an event type has the byte 1 as its value, another node the value and data type the
  server has, and an exception when its class, value or data type has a bad status.
\<close>

theorem session_read_values:
  "hxSession s \<Longrightarrow> answersEach sv val \<Longrightarrow> distinct nodeIds \<Longrightarrow> \<forall>n\<in>set nodeIds. classesReadable val n \<Longrightarrow>
   sessionRead sv s nodeIds = Inr (map (serverAttr val) nodeIds)"
  using sessionRead_each [of s sv val nodeIds] expectedAttr_server [of val] by simp

text \<open>The same node twice: what is read goes to the last of the two, the first stays without a value.\<close>

lemma session_read_duplicate:
  assumes "hxSession s" "answersEach sv val" "classesReadable val n" "readable (classAttr val n)"
  shows "sessionRead sv s [n, n] =
    Inr [classAttr val n, mergeAttr (valueAttr val n) (mergeAttr (valueAttr val n) (classAttr val n))]"
proof -
  have c: "naException (classAttr val n) = None" "withClass (classAttr val n) = classAttr val n"
    using assms(4) withClass_readable by (simp_all add: readable_def)
  have "lastPosition [classAttr val n, classAttr val n] n = Some 1"
    using c(1) by (simp add: lastPosition_def upt_rec less_Suc_eq)
  then show ?thesis
    using readClasses_each [OF assms(2), of "[n, n]"] readValues_each [OF assms(2), of "[n, n]"] assms c
    by (simp add: sessionRead_def storeReading_def)
qed

subsection \<open>Event fields\<close>

definition fieldNames :: "event_field list \<Rightarrow> (16 word \<times> string) option list" where
  "fieldNames fs = map efQualifiedName (filter (\<lambda>f. efException f = None) fs)"

lemma nameKnown_False: "nameKnown q fs = Inr False \<Longrightarrow> Some q \<notin> efQualifiedName ` set fs \<and> None \<notin> efQualifiedName ` set fs"
  by (induction fs) (auto split: option.splits if_splits)

lemma readEventField_name:
  "readEventField sv s r = Inr f \<Longrightarrow> (efException f = None \<longrightarrow> efQualifiedName f = Some (erBrowseName r)) \<and>
     efNodeId f = erNodeId r"
  by (auto simp: readEventField_def failedField_def split: sum.splits list.splits option.splits if_splits)

lemma addEventVariables_names:
  "addEventVariables sv s rs fs = Inr fs' \<Longrightarrow> distinct (fieldNames fs) \<Longrightarrow>
   distinct (fieldNames fs') \<and> (\<exists>new. fs' = fs @ new)"
proof (induction rs arbitrary: fs)
  case (Cons r rs)
  obtain t where t: "identifierNumeric (erReferenceType r) = Inr t"
    using Cons.prems(1) by (auto simp: bindR_eq_Inr)
  show ?case
  proof (cases "t = 45 \<or> nameKnown (erBrowseName r) fs = Inr True")
    case True
    then have "addEventVariables sv s rs fs = Inr fs'" using Cons.prems(1) t by (auto split: if_splits)
    then show ?thesis using Cons by simp
  next
    case False
    then have unknown: "nameKnown (erBrowseName r) fs = Inr False"
      using Cons.prems(1) t by (cases "nameKnown (erBrowseName r) fs") auto
    then obtain f where f: "readEventField sv s r = Inr f" "addEventVariables sv s rs (fs @ [f]) = Inr fs'"
      using Cons.prems(1) t False by (auto simp: bindR_eq_Inr)
    have "distinct (fieldNames (fs @ [f]))"
      using Cons.prems(2) nameKnown_False [OF unknown] readEventField_name [OF f(1)]
      by (auto simp: fieldNames_def)
    then show ?thesis using Cons.IH [OF f(2)] by auto
  qed
qed simp

lemma eventFieldsLoop_names:
  "eventFieldsLoop sv s pending fs = Some y \<Longrightarrow> distinct (fieldNames fs) \<Longrightarrow> y = Inr fs' \<Longrightarrow>
   distinct (fieldNames fs') \<and> (\<exists>new. fs' = fs @ new)"
proof (induction rule: eventFieldsLoop.raw_induct [rotated, consumes 1, case_names step])
  case (step loop sv s pending fs y)
  show ?case
  proof (cases pending)
    case Nil
    then show ?thesis using step.hyps step.prems by auto
  next
    case (Cons n rest)
    show ?thesis
    proof (cases "svEventRefs sv n")
      case None
      then have "loop sv s rest fs = Some y" using step.hyps Cons by simp
      then show ?thesis using step.IH step.prems by simp
    next
      case (Some refs)
      then obtain fs1 where fs1: "addEventVariables sv s refs fs = Inr fs1"
        using step.hyps step.prems Cons by (auto split: sum.splits)
      then have r: "loop sv s (superTypesOf refs @ rest) fs1 = Some y" using step.hyps Cons Some by simp
      have "distinct (fieldNames fs1)" using addEventVariables_names [OF fs1 step.prems(1)] by simp
      from step.IH [OF r this step.prems(2)] show ?thesis
        using addEventVariables_names [OF fs1 step.prems(1)] by auto
    qed
  qed
qed


subsection \<open>The life of a session\<close>

inductive sessionStep :: "ha_session \<Rightarrow> ha_session \<Rightarrow> bool" where
  step_open: "sessionOpen env conf s = Some (r, s') \<Longrightarrow> sessionStep s s'"
| step_close: "sessionClose srv good s = (r, s') \<Longrightarrow> r \<noteq> Inl UndefinedBehaviour \<Longrightarrow> sessionStep s s'"
| step_subscribe: "sessionSubscribe sv ids s = Some (r, s') \<Longrightarrow> r \<noteq> Inl UndefinedBehaviour \<Longrightarrow> sessionStep s s'"
| step_unsubscribe: "sessionUnsubscribe sv ids' s = (r, s') \<Longrightarrow> r \<noteq> Inl UndefinedBehaviour \<Longrightarrow> sessionStep s s'"
| step_status: "hxSession s \<Longrightarrow> hxSub s = SubLive sub \<Longrightarrow> subscriptionStatusChanged gone srv sub = (q, sub') \<Longrightarrow>
    q \<noteq> Inl UndefinedBehaviour \<Longrightarrow> sessionStep s (s\<lparr>hxSub := SubLive sub'\<rparr>)"

inductive sessionReachable :: "ha_session \<Rightarrow> bool" where
  start: "sessionReachable newHaSession"
| step: "sessionReachable s \<Longrightarrow> sessionStep s s' \<Longrightarrow> sessionReachable s'"

definition sessionInv :: "ha_session \<Rightarrow> bool" where
  "sessionInv s \<longleftrightarrow>
    (case hxSub s of
       SubNull \<Rightarrow> True
     | SubDangling \<Rightarrow> hxSession s
     | SubLive sub \<Rightarrow> haReachable sub \<and> (hxSession s \<or> hsItems sub = []))"

lemma haReachable_step: "haReachable s \<Longrightarrow> haStep s s' \<Longrightarrow> haReachable s'"
  by (rule haReachable.step)

lemma sessionOpen_inv: "sessionOpen env conf s = Some (r, s') \<Longrightarrow> sessionInv s \<Longrightarrow> sessionInv s'"
  by (auto simp: sessionOpen_def Let_def sessionInv_def newHaSubscription_def haReachable.start [unfolded newHaSubscription_def]
      split: if_splits prod.splits)

lemma sessionClose_inv:
  "sessionClose srv good s = (r, s') \<Longrightarrow> r \<noteq> Inl UndefinedBehaviour \<Longrightarrow> sessionInv s \<Longrightarrow> sessionInv s'"
  by (auto simp: sessionClose_def sessionInv_def split: if_splits sum.splits sub_pointer.splits)

lemma sessionSubscribe_inv:
  assumes "sessionSubscribe sv ids s = Some (r, s')" "r \<noteq> Inl UndefinedBehaviour" "sessionInv s"
  shows "sessionInv s'"
proof (cases "s' = s")
  case False
  then obtain valid evs sub q sub' where sub: "hxSession s" "hxSub s = SubLive sub"
    "addItems valid evs (svSubscription sv) sub = (q, sub')" "q \<noteq> Inl UndefinedBehaviour" "s' = s\<lparr>hxSub := SubLive sub'\<rparr>"
    using assms(1,2)
    by (auto simp: sessionSubscribe_def split: if_splits sum.splits option.splits prod.splits sub_pointer.splits)
  then show ?thesis
    using assms(3) haReachable_step [OF _ haStep.step_add [OF sub(3,4)]] by (simp add: sessionInv_def)
qed (use assms in simp)

lemma removeItems_none: "hsItems sub = [] \<Longrightarrow> removeItems ids srv sub = (Inr (), sub)"
proof -
  assume "hsItems sub = []"
  then have "matchItem sub = (\<lambda>_. None)" by (auto simp: matchItem_def)
  then show ?thesis by (simp add: removeItems_def map_filter_def)
qed

lemma sessionUnsubscribe_inv:
  assumes "sessionUnsubscribe sv ids s = (r, s')" "r \<noteq> Inl UndefinedBehaviour" "sessionInv s"
  shows "sessionInv s'"
proof (cases "hxSub s")
  case (SubLive sub)
  define op where "op = (case ids of None \<Rightarrow> removeAllItems (svSubscription sv) sub
    | Some ns \<Rightarrow> removeItems ns (svSubscription sv) sub)"
  obtain q sub' where q: "op = (q, sub')" by (cases op)
  have r: "r = q" "s' = s\<lparr>hxSub := SubLive sub'\<rparr>"
    using assms(1) SubLive q by (simp_all add: sessionUnsubscribe_def op_def [symmetric])
  have "haStep sub sub'"
    using q r(1) assms(2) by (cases ids) (auto simp: op_def intro: haStep.intros)
  moreover have "hsItems sub = [] \<Longrightarrow> hsItems sub' = []"
    using q by (cases ids) (auto simp: op_def removeItems_none removeAllItems_def)
  ultimately show ?thesis
    using assms(3) SubLive r(2) haReachable_step by (auto simp: sessionInv_def)
qed (use assms in \<open>auto simp: sessionUnsubscribe_def\<close>)

lemma sessionStep_inv: "sessionStep s s' \<Longrightarrow> sessionInv s \<Longrightarrow> sessionInv s'"
proof (induction rule: sessionStep.induct)
  case (step_status s sub gone srv q sub')
  then show ?case
    using haReachable_step [OF _ haStep.step_status [OF step_status(3,4)]] by (simp add: sessionInv_def)
qed (auto intro: sessionOpen_inv sessionClose_inv sessionSubscribe_inv sessionUnsubscribe_inv)

lemma sessionReachable_inv: "sessionReachable s \<Longrightarrow> sessionInv s"
proof (induction rule: sessionReachable.induct)
  case start
  show ?case by (simp add: sessionInv_def newHaSession_def)
qed (rule sessionStep_inv)

text \<open>
  C19. Whatever the calls of a session and the answers of the server are, a live subscription is one its own
  operations lead to, it holds items only while the session exists, and its pointer dangles at most
  while the session exists.
\<close>

theorem session_invariant:
  "sessionReachable s \<Longrightarrow>
   (\<forall>sub. hxSub s = SubLive sub \<longrightarrow> haReachable sub \<and> (hsItems sub \<noteq> [] \<longrightarrow> hxSession s)) \<and>
   (hxSub s = SubDangling \<longrightarrow> hxSession s)"
  using sessionReachable_inv [of s] by (auto simp: sessionInv_def)

lemma prepareNodes_all:
  "prepareNodes sv s attrs evs = Some (Inr (valid, evs', False)) \<Longrightarrow> valid = attrs"
proof (induction attrs arbitrary: evs valid)
  case (Cons attr attrs)
  then show ?case
    by (auto simp: Let_def mapR_eq_Inr split: if_splits option.splits node_class.splits sum.splits)
qed simp

text \<open>
  When a subscription of nodes ends without an exception, every node is monitored: the subscription has
  the items it had, followed by one for each node, in the order of the call.
\<close>

theorem session_subscribe_ok:
  "sessionReachable s \<Longrightarrow> sessionSubscribe sv nodeIds s = Some (Inr (attrs, evs), s') \<Longrightarrow> attrs \<noteq> [] \<Longrightarrow>
   \<exists>sub sub'. hxSub s = SubLive sub \<and> hxSub s' = SubLive sub' \<and> sessionRead sv s nodeIds = Inr attrs \<and>
     map snd (monitoredNodes sub') = map snd (monitoredNodes sub) @ map naNodeId attrs"
proof -
  assume a: "sessionReachable s" "sessionSubscribe sv nodeIds s = Some (Inr (attrs, evs), s')" "attrs \<noteq> []"
  then have read: "sessionRead sv s nodeIds = Inr attrs"
    by (auto simp: sessionSubscribe_def split: if_splits sum.splits option.splits prod.splits sub_pointer.splits)
  obtain valid evs' failed where prep: "prepareNodes sv s attrs (\<lambda>_. None) = Some (Inr (valid, evs', failed))"
    using a(2) read by (auto simp: sessionSubscribe_def split: if_splits option.splits sum.splits)
  have failed: "\<not> failed"
    using a(2) read prep
    by (auto simp: sessionSubscribe_def split: if_splits sum.splits option.splits prod.splits sub_pointer.splits)
  then have valid: "valid = attrs" using prepareNodes_all prep by simp
  obtain sub sub' where sub: "hxSub s = SubLive sub" "addItems attrs evs' (svSubscription sv) sub = (Inr (), sub')"
    "hxSub s' = SubLive sub'"
    using a(2,3) read prep valid
    by (auto simp: sessionSubscribe_def isOk_iff split: if_splits prod.splits sub_pointer.splits)
  have "haInv sub" using sessionReachable_inv [OF a(1)] sub(1) haReachable_inv by (simp add: sessionInv_def)
  from addItems_success [OF this sub(2)] show ?thesis using sub(1,3) read by blast
qed

subsection \<open>Example runs\<close>

text \<open>
  A server whose node 4 is a variable with the value 5 and whose node 6 is an event type. The type has a
  variable of its own with the name of one of its super type 7.
\<close>

definition exampleReading :: "ua_node_id \<Rightarrow> attr_id \<Rightarrow> bool \<times> ua_variant" where
  "exampleReading n a =
    (case a of
       AttrNodeClass \<Rightarrow> (True, UaInt32 (if n = UaNumeric 4 6 then 8 else 2))
     | AttrValue \<Rightarrow> (n \<noteq> UaNumeric 4 5, UaInt32 5)
     | AttrDataType \<Rightarrow> (True, UaNodeIdVal (UaNumeric 0 6)))"

definition exampleRefs :: "ua_node_id \<Rightarrow> event_ref list option" where
  "exampleRefs n =
    (if n = UaNumeric 4 6 then Some
       [\<lparr>erReferenceType = UaNumeric 0 45, erForward = False, erNodeId = UaNumeric 4 7, erBrowseName = (4, ''Base'')\<rparr>,
        \<lparr>erReferenceType = UaNumeric 0 46, erForward = True, erNodeId = UaNumeric 4 61, erBrowseName = (4, ''Level'')\<rparr>]
     else if n = UaNumeric 4 7 then Some
       [\<lparr>erReferenceType = UaNumeric 0 46, erForward = True, erNodeId = UaNumeric 4 71, erBrowseName = (4, ''Level'')\<rparr>,
        \<lparr>erReferenceType = UaNumeric 0 46, erForward = True, erNodeId = UaNumeric 4 72, erBrowseName = (4, ''Unit'')\<rparr>]
     else None)"

definition exampleSv :: session_answers where
  "exampleSv = \<lparr>svRead = (\<lambda>reqs. Some (map (\<lambda>r. exampleReading (fst r) (snd r)) reqs)),
     svWrite = (\<lambda>ns. Some (map (\<lambda>_. True) ns)),
     svCall = (\<lambda>m ob ins. (0, 0, ins)),
     svMethodArguments = (\<lambda>_. None),
     svInverseTypes = (\<lambda>_. Some []),
     svEventRefs = exampleRefs,
     svStatusGood = (\<lambda>w. w = 0),
     svSubscription = friendlyServer\<rparr>"

definition openHaSession :: ha_session where
  "openHaSession = \<lparr>hxSession = True, hxSub = SubLive newHaSubscription\<rparr>"

lemma exampleSv_each: "answersEach exampleSv exampleReading"
  by (simp add: answersEach_def exampleSv_def)

lemma classesReadable_example: "classesReadable exampleReading n"
  by (simp add: classesReadable_def exampleReading_def nodeClassOf_def)

lemma openHaSession_reachable: "sessionReachable openHaSession"
proof -
  have "sessionOpen exampleConnect exampleConf newHaSession = Some (Inr (), openHaSession)"
    using exampleConnect_run by (simp add: sessionOpen_def newHaSession_def openHaSession_def exampleConf_def)
  then show ?thesis by (rule sessionReachable.step [OF sessionReachable.start sessionStep.step_open])
qed

definition variableRead :: "ua_node_id \<Rightarrow> node_attr" where
  "variableRead n = \<lparr>naNodeId = n, naValue = Some (UaInt32 5), naDataType = Some (UaNumeric 0 6),
     naNodeClass = Some NcVariable, naException = None\<rparr>"

definition eventTypeRead :: "ua_node_id \<Rightarrow> node_attr" where
  "eventTypeRead n = \<lparr>naNodeId = n, naValue = Some (UaByte 1), naDataType = Some (UaNumeric 0 3),
     naNodeClass = Some NcObjectType, naException = None\<rparr>"

lemmas example_session_defs =
  expectedAttr_def classAttr_def valueAttr_def exampleReading_def emptyAttr_def nodeClassOf_def readable_def
  withClass_def mergeAttr_def variableRead_def eventTypeRead_def

lemma session_read_values_witness:
  "sessionRead exampleSv openHaSession [UaNumeric 4 6, UaNumeric 4 4] =
     Inr [eventTypeRead (UaNumeric 4 6), variableRead (UaNumeric 4 4)]"
proof -
  have "sessionRead exampleSv openHaSession [UaNumeric 4 6, UaNumeric 4 4] =
      Inr (map (serverAttr exampleReading) [UaNumeric 4 6, UaNumeric 4 4])"
    by (rule session_read_values)
      (simp_all add: openHaSession_def exampleSv_each classesReadable_example)
  then show ?thesis by (simp add: serverAttr_def example_session_defs)
qed

lemma exampleRead_single:
  "n \<noteq> UaNumeric 4 6 \<Longrightarrow> n \<noteq> UaNumeric 4 5 \<Longrightarrow> sessionRead exampleSv openHaSession [n] = Inr [variableRead n]"
  using sessionRead_each [OF _ exampleSv_each, of openHaSession "[n]"]
  by (simp add: openHaSession_def classesReadable_example example_session_defs)

definition exampleField :: "ua_node_id \<Rightarrow> string \<Rightarrow> event_field" where
  "exampleField n name = \<lparr>efNodeId = n, efQualifiedName = Some (4, name), efDataTypeId = Some (UaNumeric 0 6),
     efValue = None, efException = None\<rparr>"

lemma exampleFields_eval:
  "sessionEventFields exampleSv openHaSession (UaNumeric 4 6) =
     Some (Inr [exampleField (UaNumeric 4 61) ''Level'', exampleField (UaNumeric 4 72) ''Unit''])"
proof -
  have refs: "svEventRefs exampleSv = exampleRefs" by (simp add: exampleSv_def)
  show ?thesis
    by (simp add: sessionEventFields_def eventFieldsLoop.simps refs exampleRefs_def readEventField_def
        exampleRead_single superTypesOf_def exampleField_def variableRead_def)
qed


lemma session_invariant_witness:
  "haReachable newHaSubscription"
  using session_invariant [OF openHaSession_reachable] by (simp add: openHaSession_def)

lemma session_close_failure_witness:
  "\<exists>s'. sessionClose friendlyServer False openHaSession = (Inl HaSessionException, s') \<and>
     sessionOpen exampleConnect exampleConf s' = Some (Inr (), s')"
proof -
  have "isOk (fst (removeAllItems friendlyServer newHaSubscription))"
    by (simp add: removeAllItems_def newHaSubscription_def removeItems_none)
  then show ?thesis
    using session_close_failure [of openHaSession newHaSubscription friendlyServer exampleConnect exampleConf]
    by (auto simp: openHaSession_def)
qed

lemma exampleSubscribe_eval:
  "\<exists>s'. sessionSubscribe exampleSv [UaNumeric 4 4] openHaSession =
     Some (Inr ([variableRead (UaNumeric 4 4)], \<lambda>_. None), s')"
proof -
  have "sessionRead exampleSv openHaSession [UaNumeric 4 4] = Inr [variableRead (UaNumeric 4 4)]"
    by (simp add: exampleRead_single)
  moreover have "prepareNodes exampleSv openHaSession [variableRead (UaNumeric 4 4)] (\<lambda>_. None) =
      Some (Inr ([variableRead (UaNumeric 4 4)], (\<lambda>_. None), False))"
    by (simp add: variableRead_def)
  moreover have "fst (addItems [variableRead (UaNumeric 4 4)] (\<lambda>_. None) (svSubscription exampleSv) newHaSubscription) = Inr ()"
    by (simp add: exampleSv_def session_defs variableRead_def)
  ultimately show ?thesis
    by (auto simp: sessionSubscribe_def openHaSession_def split: prod.splits)
qed

lemma session_subscribe_ok_witness:
  "\<exists>s' sub'. sessionSubscribe exampleSv [UaNumeric 4 4] openHaSession =
     Some (Inr ([variableRead (UaNumeric 4 4)], \<lambda>_. None), s') \<and>
     hxSub s' = SubLive sub' \<and> map snd (monitoredNodes sub') = [UaNumeric 4 4]"
proof -
  obtain s' where s': "sessionSubscribe exampleSv [UaNumeric 4 4] openHaSession =
      Some (Inr ([variableRead (UaNumeric 4 4)], \<lambda>_. None), s')"
    using exampleSubscribe_eval by blast
  then show ?thesis
    using session_subscribe_ok [OF openHaSession_reachable s']
    by (auto simp: openHaSession_def newHaSubscription_def monitoredNodes_def variableRead_def)
qed

subsection \<open>Queries of the session and its callbacks\<close>

text \<open>What the session of the SDK answers is a parameter; a closed session throws, except for its id.\<close>

definition sessionId :: "'a \<Rightarrow> ha_session \<Rightarrow> (cpp_error, 'a) res" where
  "sessionId sdkId s = (if hxSession s then Inr sdkId else Inl UndefinedBehaviour)"

definition sessionNamespaceTable :: "'a \<Rightarrow> ha_session \<Rightarrow> (cpp_error, 'a) res" where
  "sessionNamespaceTable table s = (if hxSession s then Inr table else Inl HaSessionException)"

definition sessionStructureDefinition :: "(ua_node_id \<Rightarrow> 'a) \<Rightarrow> ua_node_id \<Rightarrow> ha_session \<Rightarrow> (cpp_error, 'a) res" where
  "sessionStructureDefinition definitionOf dataTypeId s =
    (if hxSession s then Inr (definitionOf dataTypeId) else Inl HaSessionException)"

text \<open>The callbacks of the subscription turn every exception of the client into one of the session.\<close>

definition sessionDataChanged :: "('x \<Rightarrow> (cpp_error, unit) res) \<Rightarrow> 'x \<Rightarrow> (cpp_error, unit) res" where
  "sessionDataChanged callback attrs =
    (case callback attrs of
       Inr u \<Rightarrow> Inr u
     | Inl e \<Rightarrow> Inl (if e = UndefinedBehaviour then e else HaSessionException))"

definition sessionNewEvents :: "('x \<Rightarrow> (cpp_error, unit) res) \<Rightarrow> 'x \<Rightarrow> (cpp_error, unit) res" where
  "sessionNewEvents callback events =
    (case callback events of
       Inr u \<Rightarrow> Inr u
     | Inl e \<Rightarrow> Inl (if e = UndefinedBehaviour then e else HaSessionException))"

lemma closed_session_queries:
  "sessionClose srv good s = (Inr (), s') \<Longrightarrow> sessionNamespaceTable table s' = Inl HaSessionException \<and>
     sessionStructureDefinition defs t s' = Inl HaSessionException \<and> sessionId i s' = Inl UndefinedBehaviour"
  by (auto simp: sessionClose_def sessionNamespaceTable_def sessionStructureDefinition_def sessionId_def
      split: if_splits sum.splits)

end
