(* ===== verification/Java_Values.thy ===== *)
theory Java_Values
  imports Bin_Values Ua_Model
begin

text \<open>
  The values of the binary protocol as Java objects and back (\<open>common/native2J/Native2J.cpp\<close>). A Java
  object is a datatype with the classes the code tells apart; a Java string is the list of its UTF-16
  units. The conversions of the Java virtual machine between C and Java strings and the hardware's
  rounding of a double to a float are parameters. Calling a method of an object with a JNI function for
  another return type, or on an object of another class, is undefined by the JNI and so it is here; the
  variadic arguments of \<open>NewObject\<close> are passed in registers, of which the JNI reads the low part.
\<close>

subsection \<open>Java objects\<close>

type_synonym java_string = "16 word list"

datatype java_object =
    JNull
  | JBoolean bool
  | JCharacter "16 word"
  | JByte "8 word"
  | JShort "16 word"
  | JInteger "32 word"
  | JLong "64 word"
  | JFloat c_float
  | JDouble c_double
  | JString java_string
  | JObjectArray "java_object list"
  | JArrayList "java_object list"
  | JHashMap "(java_string \<times> java_object) list"
  | JPrimitiveArray
  | JOther

record java_vm =
  jvNewStringUTF :: "string \<Rightarrow> java_string"
  jvGetStringUTFChars :: "java_string \<Rightarrow> string"
  jvFloat :: "c_double \<Rightarrow> c_float"

subsection \<open>The model of the data types\<close>

record model_type =
  mtIsRef :: bool
  mtRef :: string
  mtType :: c_int

definition newModelType :: model_type where
  "newModelType = \<lparr>mtIsRef = False, mtRef = [], mtType = - 99\<rparr>"

type_synonym type_model = "string \<Rightarrow> (string \<Rightarrow> model_type option) option"

definition getDataTypeFromModel :: "type_model \<Rightarrow> string \<Rightarrow> model_type \<Rightarrow> model_type" where
  "getDataTypeFromModel model key t =
    (if mtIsRef t then
       (case model (mtRef t) of
          None \<Rightarrow> t
        | Some m \<Rightarrow>
            (case (if key \<noteq> [] then m key else None) of
               Some t2 \<Rightarrow> t2
             | None \<Rightarrow> (case m (mtRef t) of Some t2 \<Rightarrow> t2 | None \<Rightarrow> t)))
     else t)"

text \<open>
  The type of a scalar: a number of the OPC UA name space, or \<open>Some None\<close> when it has to be guessed. A
  reference is followed until the model knows no further one; the outer \<open>None\<close> is a cycle of references.
\<close>

partial_function (option) scalarModel :: "type_model \<Rightarrow> model_type \<Rightarrow> c_int option option" where
  "scalarModel model t =
    (if \<not> mtIsRef t then Some (if mtType t = - 99 then None else Some (mtType t))
     else
       (let t2 = getDataTypeFromModel model (mtRef t) t in
        if mtRef t = mtRef t2 then Some None else scalarModel model t2))"

subsection \<open>Java to binary\<close>

definition lowByte :: "16 word \<Rightarrow> char" where
  "lowByte c = char_of (unat (ucast c :: 8 word))"

fun guessScalar :: "java_object \<Rightarrow> (cpp_error, bin_scalar) res" where
  "guessScalar (JBoolean b) = Inr (BBoolean b)"
| "guessScalar (JCharacter c) = Inr (BChar (lowByte c))"
| "guessScalar (JByte _) = Inl UndefinedBehaviour"
| "guessScalar (JShort _) = Inl UndefinedBehaviour"
| "guessScalar (JInteger i) = Inr (BInt (scast i))"
| "guessScalar (JLong _) = Inl UndefinedBehaviour"
| "guessScalar (JFloat _) = Inl UndefinedBehaviour"
| "guessScalar (JDouble x) = Inr (BDouble x)"
| "guessScalar _ = Inr (BInt 0)"

definition javaInt :: "java_object \<Rightarrow> (cpp_error, 32 word) res" where
  "javaInt data = (case data of JInteger i \<Rightarrow> Inr i | _ \<Rightarrow> Inl UndefinedBehaviour)"

definition javaDouble :: "java_object \<Rightarrow> (cpp_error, c_double) res" where
  "javaDouble data = (case data of JDouble x \<Rightarrow> Inr x | _ \<Rightarrow> Inl UndefinedBehaviour)"

definition getScalarVariant :: "java_vm \<Rightarrow> type_model \<Rightarrow> java_object \<Rightarrow> model_type \<Rightarrow> (cpp_error, bin_scalar) res" where
  "getScalarVariant vm model data t =
    (case scalarModel model t of
       None \<Rightarrow> Inl UndefinedBehaviour
     | Some None \<Rightarrow> guessScalar data
     | Some (Some n) \<Rightarrow>
         if n = 6 \<or> n = 29 then mapR (\<lambda>i. BInt (scast i)) (javaInt data)
         else if n = 11 then mapR BDouble (javaDouble data)
         else if n = 10 then mapR (\<lambda>x. BFloat (jvFloat vm x)) (javaDouble data)
         else if n = 15 then mapR (\<lambda>i. BByte (ucast i)) (javaInt data)
         else guessScalar data)"

text \<open>
  The id of a structure. A reference is parsed into an object that dangles when it is a string id; the
  conversion that follows every call of \<open>getVariant\<close> reads it.
\<close>

definition structureId :: "model_type \<Rightarrow> (cpp_error, param_id) res" where
  "structureId t =
    (if mtIsRef t then paramIdValue (newParamIdParsed (mtRef t)) else Inr (ParamNumeric 0 (scast (mtType t))))"

definition elementType :: "bin_variant \<Rightarrow> int" where
  "elementType v = (case v of BScalar s \<Rightarrow> binScalarType s | BArray _ _ \<Rightarrow> binARRAY | BStruct _ _ \<Rightarrow> binSTRUCT)"

definition javaArray ::
  "(java_object \<Rightarrow> (cpp_error, bin_variant) res) \<Rightarrow> java_object list \<Rightarrow> model_type \<Rightarrow> (cpp_error, bin_variant) res"
where
  "javaArray convert xs t =
    bindR (traverseR convert xs) (\<lambda>elements.
      Inr (BArray
        (if elements = [] then (if mtIsRef t \<or> mtType t = - 99 then binSTRUCT else sint (mtType t))
         else elementType (last elements)) elements))"

lemma javaArray_cong [fundef_cong]:
  assumes "xs = ys" and "t = u" and "\<And>x. x \<in> set ys \<Longrightarrow> f x = g x"
  shows "javaArray f xs t = javaArray g ys u"
  unfolding javaArray_def assms(1,2) using traverseR_cong [of ys ys f g] assms(3) by simp

text \<open>The loop over the keys of a map, which puts the converted values into a \<open>std::map\<close>.\<close>

fun javaFields ::
  "java_vm \<Rightarrow> (java_object \<Rightarrow> string \<Rightarrow> (cpp_error, bin_variant) res) \<Rightarrow> (java_string \<times> java_object) list \<Rightarrow>
   (string \<times> bin_variant) list \<Rightarrow> (cpp_error, (string \<times> bin_variant) list) res"
where
  "javaFields vm convert [] fieldData = Inr fieldData"
| "javaFields vm convert (e # es) fieldData =
     bindR (convert (snd e) (jvGetStringUTFChars vm (fst e))) (\<lambda>v.
       javaFields vm convert es (smInsert (jvGetStringUTFChars vm (fst e)) v fieldData))"

lemma javaFields_cong [fundef_cong]:
  assumes "es = es'" "fs = fs'" and "\<And>x k. x \<in> snd ` set es' \<Longrightarrow> f x k = g x k"
  shows "javaFields vm f es fs = javaFields vm g es' fs'"
proof -
  have "\<forall>x\<in>snd ` set es'. \<forall>k. f x k = g x k" using assms(3) by blast
  then have "javaFields vm f es' fs = javaFields vm g es' fs"
    by (induction es' arbitrary: fs) (auto intro!: bindR_cong)
  then show ?thesis by (simp add: assms)
qed

fun javaToBin :: "java_vm \<Rightarrow> type_model \<Rightarrow> java_object \<Rightarrow> string \<Rightarrow> model_type \<Rightarrow> (cpp_error, bin_variant) res" where
  "javaToBin vm model JNull key t = Inl UndefinedBehaviour"
| "javaToBin vm model (JHashMap es) key t =
     (let t' = getDataTypeFromModel model key t in
      bindR (structureId t') (\<lambda>structId.
      bindR (javaFields vm (\<lambda>x k. javaToBin vm model x k (if mtIsRef t' then t' else newModelType)) es []) (\<lambda>fieldData.
        Inr (BStruct structId fieldData))))"
| "javaToBin vm model (JString s) key t =
     Inr (BArray binCHAR (map (\<lambda>c. BScalar (BChar (lowByte c))) s))"
| "javaToBin vm model (JObjectArray xs) key t =
     (let t' = getDataTypeFromModel model key t in javaArray (\<lambda>x. javaToBin vm model x [] t') xs t')"
| "javaToBin vm model (JArrayList xs) key t =
     (let t' = getDataTypeFromModel model key t in javaArray (\<lambda>x. javaToBin vm model x [] t') xs t')"
| "javaToBin vm model JPrimitiveArray key t = Inl UndefinedBehaviour"
| "javaToBin vm model data key t =
     mapR BScalar (getScalarVariant vm model data (getDataTypeFromModel model key t))"

text \<open>A parameter list has a name for some of its elements.\<close>

definition javaParamList ::
  "java_vm \<Rightarrow> type_model \<Rightarrow> java_object list option \<Rightarrow> string list \<Rightarrow> model_type \<Rightarrow> (cpp_error, bin_variant list) res"
where
  "javaParamList vm model data names t =
    traverseR (\<lambda>(x, name). javaToBin vm model x name t)
      (case data of None \<Rightarrow> [] | Some xs \<Rightarrow> zip xs (names @ replicate (length xs) []))"

definition createParamId :: "java_vm \<Rightarrow> c_int \<Rightarrow> java_object \<Rightarrow> (cpp_error, param_id) res" where
  "createParamId vm ns paramId =
    (case paramId of
       JNull \<Rightarrow> Inl UndefinedBehaviour
     | JString s \<Rightarrow> Inr (ParamString ns (jvGetStringUTFChars vm s))
     | _ \<Rightarrow> mapR (\<lambda>i. ParamNumeric ns (scast i)) (javaInt paramId))"

subsection \<open>Binary to Java\<close>

definition javaChar :: "char \<Rightarrow> 16 word" where
  "javaChar c = scast (word_of_nat (of_char c) :: 8 word)"

fun binToJavaScalar :: "bin_scalar \<Rightarrow> java_object" where
  "binToJavaScalar (BBoolean b) = JBoolean b"
| "binToJavaScalar (BChar c) = JCharacter (javaChar c)"
| "binToJavaScalar (BByte b) = JByte b"
| "binToJavaScalar (BShort i) = JShort (ucast i)"
| "binToJavaScalar (BInt i) = JInteger (ucast i)"
| "binToJavaScalar (BLong i) = JLong i"
| "binToJavaScalar (BFloat f) = JFloat f"
| "binToJavaScalar (BDouble x) = JDouble x"

text \<open>\<open>HashMap.put\<close>: a key that is there already keeps its place and gets the new value.\<close>

fun hashPut :: "'k \<Rightarrow> 'v \<Rightarrow> ('k \<times> 'v) list \<Rightarrow> ('k \<times> 'v) list" where
  "hashPut k v [] = [(k, v)]"
| "hashPut k v (p # ps) = (if fst p = k then (k, v) # ps else p # hashPut k v ps)"

definition javaMap :: "java_vm \<Rightarrow> (string \<times> java_object) list \<Rightarrow> java_object" where
  "javaMap vm fs = JHashMap (foldl (\<lambda>m p. hashPut (jvNewStringUTF vm (cstr (fst p))) (snd p) m) [] fs)"

fun binToJava :: "java_vm \<Rightarrow> bin_variant \<Rightarrow> (cpp_error, java_object) res" where
  "binToJava vm (BScalar s) = Inr (binToJavaScalar s)"
| "binToJava vm (BArray t elements) =
     (if t = binCHAR then
        mapR (\<lambda>s. JString (jvNewStringUTF vm (cstr s))) (traverseR binGetChar elements)
      else mapR JArrayList (traverseR (binToJava vm) elements))"
| "binToJava vm (BStruct structId fieldData) = mapR (javaMap vm) (traverseFieldsR (binToJava vm) fieldData)"

subsection \<open>Values that come back from Java unchanged\<close>

lemma ucast_scast_byte [simp]: "ucast (scast b :: 16 word) = (b :: 8 word)"
  by (rule bit_word_eqI) (simp add: bit_simps)

lemma lowByte_javaChar [simp]: "lowByte (javaChar c) = c"
  by (simp add: lowByte_def javaChar_def unsigned_of_nat take_bit_eq_mod)

definition fitsInt :: "c_long \<Rightarrow> bool" where
  "fitsInt i \<longleftrightarrow> - (2 ^ 31) \<le> sint i \<and> sint i < 2 ^ 31"

fun guessStable :: "bin_scalar \<Rightarrow> bool" where
  "guessStable (BBoolean _) = True"
| "guessStable (BChar _) = True"
| "guessStable (BInt i) = fitsInt i"
| "guessStable (BDouble _) = True"
| "guessStable _ = False"

definition scalarStable :: "type_model \<Rightarrow> model_type \<Rightarrow> bin_scalar \<Rightarrow> bool" where
  "scalarStable model t s =
    (case scalarModel model t of
       None \<Rightarrow> False
     | Some None \<Rightarrow> guessStable s
     | Some (Some n) \<Rightarrow>
         if n = 6 \<or> n = 29 then (case s of BInt i \<Rightarrow> fitsInt i | _ \<Rightarrow> False)
         else if n = 11 then (case s of BDouble _ \<Rightarrow> True | _ \<Rightarrow> False)
         else n \<noteq> 10 \<and> n \<noteq> 15 \<and> guessStable s)"

lemma fitsInt_iff: "scast (ucast i :: 32 word) = i \<longleftrightarrow> fitsInt i"
  by (simp add: fitsInt_def narrow_exact_iff)

lemma scalarStable:
  "getScalarVariant vm model (binToJavaScalar s) t = Inr s \<longleftrightarrow> scalarStable model t s"
proof -
  have guess: "guessScalar (binToJavaScalar s) = Inr s \<longleftrightarrow> guessStable s"
    by (cases s) (simp_all add: fitsInt_iff)
  then show ?thesis
    by (cases s)
      (auto simp: getScalarVariant_def scalarStable_def javaInt_def javaDouble_def fitsInt_iff
        split: option.splits)
qed

text \<open>
  The values that survive the way through Java, when they are read back with the same model, key and type:
  scalars whose class the model or the guess maps back, character arrays the virtual machine keeps,
  arrays whose type is the one the loop over the elements ends with, and structures with the id of the
  type under which they are read.
\<close>

fun javaStable :: "java_vm \<Rightarrow> type_model \<Rightarrow> bin_variant \<Rightarrow> string \<Rightarrow> model_type \<Rightarrow> bool" where
  "javaStable vm model (BScalar s) key t = scalarStable model (getDataTypeFromModel model key t) s"
| "javaStable vm model (BArray n elements) key t =
     (let t' = getDataTypeFromModel model key t in
      if n = binCHAR then
        (case traverseR binGetChar elements of
           Inl _ \<Rightarrow> False
         | Inr s \<Rightarrow> elements = map (\<lambda>c. BScalar (BChar c)) s \<and>
             map lowByte (jvNewStringUTF vm (cstr s)) = s)
      else list_all (\<lambda>x. javaStable vm model x [] t') elements \<and>
        n = (if elements = [] then (if mtIsRef t' \<or> mtType t' = - 99 then binSTRUCT else sint (mtType t'))
             else elementType (last elements)))"
| "javaStable vm model (BStruct structId fieldData) key t =
     (let t' = getDataTypeFromModel model key t in
      structureId t' = Inr structId \<and> smInv fieldData \<and>
      list_all (\<lambda>p. jvGetStringUTFChars vm (jvNewStringUTF vm (cstr (fst p))) = fst p) fieldData \<and>
      list_all (\<lambda>p. javaStable vm model (snd p) (fst p) (if mtIsRef t' then t' else newModelType)) fieldData)"

lemma hashPut_new: "k \<notin> fst ` set m \<Longrightarrow> hashPut k v m = m @ [(k, v)]"
  by (induction m) auto

lemma hashPut_fold:
  "distinct (map fst m @ map (\<lambda>p. g (fst p)) ps) \<Longrightarrow>
   foldl (\<lambda>m p. hashPut (g (fst p)) (snd p) m) m ps = m @ map (\<lambda>p. (g (fst p), snd p)) ps"
  by (induction ps arbitrary: m) (simp_all add: hashPut_new)

lemma distinct_keys_back:
  assumes "distinct (map fst ps)" and "\<And>p. p \<in> set ps \<Longrightarrow> back (there (fst p)) = fst p"
  shows "distinct (map (\<lambda>p. there (fst p)) ps)"
proof -
  have "map back (map (\<lambda>p. there (fst p)) ps) = map fst ps" using assms(2) by simp
  then show ?thesis using assms(1) distinct_map by metis
qed

lemma javaFields_back:
  "list_all2 (\<lambda>e p. jvGetStringUTFChars vm (fst e) = fst p \<and> convert (snd e) (fst p) = Inr (snd p)) es ps \<Longrightarrow>
   smInv (acc @ ps) \<Longrightarrow> javaFields vm convert es acc = Inr (acc @ ps)"
proof (induction arbitrary: acc rule: list_all2_induct)
  case (Cons e es p ps)
  have "\<forall>q\<in>set acc. fst q < fst p"
    using Cons.prems by (simp add: smInv_def sorted_wrt_append)
  then show ?case using Cons by (simp add: smInsert_in_order)
qed simp

lemma java_struct_back:
  assumes "smInv ps"
    and keys: "list_all (\<lambda>p. jvGetStringUTFChars vm (jvNewStringUTF vm (cstr (fst p))) = fst p) ps"
    and each: "\<And>p. p \<in> set ps \<Longrightarrow> \<exists>d. binToJava vm (snd p) = Inr d \<and> convert d (fst p) = Inr (snd p)"
  shows "\<exists>es. mapR (javaMap vm) (traverseFieldsR (binToJava vm) ps) = Inr (JHashMap es) \<and>
    javaFields vm convert es [] = Inr ps"
proof -
  obtain j where d: "\<forall>p\<in>set ps. binToJava vm (snd p) = Inr (j p) \<and> convert (j p) (fst p) = Inr (snd p)"
    using bchoice [of "set ps"] each by (metis (no_types, lifting))
  define ds where "ds = map (\<lambda>p. (fst p, j p)) ps"
  have trav: "traverseFieldsR (binToJava vm) ps = Inr ds"
    unfolding traverseFieldsR_def ds_def by (rule traverseR_all) (simp add: d)
  have "distinct (map (\<lambda>p. jvNewStringUTF vm (cstr (fst p))) ds)"
    using distinct_keys_back [OF smInv_distinct [OF assms(1)],
        of "jvGetStringUTFChars vm" "\<lambda>k. jvNewStringUTF vm (cstr k)"] keys
    by (simp add: ds_def o_def list_all_iff)
  then have map: "javaMap vm ds = JHashMap (map (\<lambda>p. (jvNewStringUTF vm (cstr (fst p)), snd p)) ds)"
    using hashPut_fold [of "[]" "\<lambda>k. jvNewStringUTF vm (cstr k)" ds] by (simp add: javaMap_def)
  have "javaFields vm convert (map (\<lambda>p. (jvNewStringUTF vm (cstr (fst p)), snd p)) ds) [] = Inr ([] @ ps)"
    using keys d assms(1)
    by (intro javaFields_back) (simp_all add: ds_def list_all2_map1 list_all_iff list.rel_refl_strong)
  then show ?thesis using trav map by simp
qed

lemma java_chars_back:
  "traverseR binGetChar (map (\<lambda>c. BScalar (BChar c)) s) = Inr s"
  by (induction s) simp_all

lemma javaStable_back:
  "javaStable vm model v key t \<Longrightarrow> \<exists>d. binToJava vm v = Inr d \<and> javaToBin vm model d key t = Inr v"
proof (induction vm model v key t rule: javaStable.induct)
  case (1 vm model s key t)
  then have "getScalarVariant vm model (binToJavaScalar s) (getDataTypeFromModel model key t) = Inr s"
    by (simp add: scalarStable)
  then show ?case by (cases s) simp_all
next
  case (2 vm model n elements key t)
  define t' where "t' = getDataTypeFromModel model key t"
  show ?case
  proof (cases "n = binCHAR")
    case True
    then obtain s where s: "elements = map (\<lambda>c. BScalar (BChar c)) s" "map lowByte (jvNewStringUTF vm (cstr s)) = s"
      using "2.prems" by (auto simp: Let_def split: sum.splits)
    have "map (\<lambda>c. BScalar (BChar (lowByte c))) (jvNewStringUTF vm (cstr s)) = map (\<lambda>c. BScalar (BChar c)) s"
      by (subst (2) s(2) [symmetric]) (simp add: comp_def)
    then show ?thesis using True s by (simp add: java_chars_back)
  next
    case False
    have stable: "list_all (\<lambda>x. javaStable vm model x [] t') elements"
      using "2.prems" False by (simp add: t'_def Let_def)
    have "\<exists>ds. traverseR (binToJava vm) elements = Inr ds \<and>
        traverseR (\<lambda>x. javaToBin vm model x [] t') ds = Inr elements"
    proof -
      have "\<forall>x\<in>set elements. \<exists>d. binToJava vm x = Inr d \<and> javaToBin vm model d [] t' = Inr x"
        using "2.IH" [OF t'_def False] stable by (simp add: list_all_iff)
      then show ?thesis
      proof (induction elements)
        case (Cons x xs)
        then obtain d ds where "binToJava vm x = Inr d" "javaToBin vm model d [] t' = Inr x"
          "traverseR (binToJava vm) xs = Inr ds" "traverseR (\<lambda>x. javaToBin vm model x [] t') ds = Inr xs"
          by auto
        then show ?case by (intro exI [of _ "d # ds"]) simp
      qed simp
    qed
    then obtain ds where "traverseR (binToJava vm) elements = Inr ds"
        "traverseR (\<lambda>x. javaToBin vm model x [] t') ds = Inr elements" by blast
    then show ?thesis using "2.prems" False by (simp add: Let_def javaArray_def t'_def [symmetric])
  qed
next
  case (3 vm model structId fieldData key t)
  define t' where "t' = getDataTypeFromModel model key t"
  define conv where "conv = (\<lambda>x k. javaToBin vm model x k (if mtIsRef t' then t' else newModelType))"
  have prems: "structureId t' = Inr structId" "smInv fieldData"
    "list_all (\<lambda>p. jvGetStringUTFChars vm (jvNewStringUTF vm (cstr (fst p))) = fst p) fieldData"
    "list_all (\<lambda>p. javaStable vm model (snd p) (fst p) (if mtIsRef t' then t' else newModelType)) fieldData"
    using "3.prems" unfolding javaStable.simps Let_def t'_def by blast+
  have "\<exists>d. binToJava vm (snd p) = Inr d \<and> conv d (fst p) = Inr (snd p)" if "p \<in> set fieldData" for p
    using "3.IH" [OF t'_def that] prems(4) that by (simp add: conv_def list_all_iff)
  then obtain es where "mapR (javaMap vm) (traverseFieldsR (binToJava vm) fieldData) = Inr (JHashMap es)"
    "javaFields vm conv es [] = Inr fieldData"
    using java_struct_back [OF prems(2,3)] by blast
  then show ?case using prems(1) by (simp add: Let_def t'_def [symmetric] conv_def)
qed

text \<open>
  A value of the binary protocol that is handed to Java and read back with the same model, key and
  type is the same value, when it is stable: its scalars have a class that the model (or the guess of an
  untyped value) maps back, its text survives the virtual machine, its arrays carry the type of their
  last element, and its structures the id of the type under which they are read.
\<close>

theorem java_roundtrip:
  "javaStable vm model v key t \<Longrightarrow> bindR (binToJava vm v) (\<lambda>d. javaToBin vm model d key t) = Inr v"
  using javaStable_back by fastforce

definition exampleVm :: java_vm where
  "exampleVm = \<lparr>jvNewStringUTF = map javaChar, jvGetStringUTFChars = map lowByte, jvFloat = (\<lambda>_. 0)\<rparr>"

definition exampleModel :: type_model where
  "exampleModel = [''NS1|Numeric|7'' \<mapsto> [''name'' \<mapsto> newModelType, ''values'' \<mapsto> newModelType\<lparr>mtType := 6\<rparr>]]"

definition exampleStruct :: bin_variant where
  "exampleStruct = BStruct (ParamNumeric 1 7)
     [(''name'', BArray binCHAR [BScalar (BChar (CHR ''a''))]),
      (''values'', BArray binINT [BScalar (BInt 4), BScalar (BInt 5)])]"

definition exampleRef :: model_type where
  "exampleRef = newModelType\<lparr>mtIsRef := True, mtRef := ''NS1|Numeric|7''\<rparr>"

lemma scalarModel_type [simp]:
  "\<not> mtIsRef t \<Longrightarrow> scalarModel model t = Some (if mtType t = - 99 then None else Some (mtType t))"
  by (subst scalarModel.simps) simp

lemma lowByte_map [simp]: "map (lowByte \<circ> javaChar) s = s"
  by (simp add: o_def)

lemma example_struct_id: "structureId exampleRef = Inr (ParamNumeric 1 7)"
proof -
  have "paramIdToString (ParamNumeric 1 7) = ''NS1|Numeric|7''"
    by code_simp
  then show ?thesis
    using paramIdParse_numeric [of 1 7]
    by (simp add: structureId_def exampleRef_def newModelType_def newParamIdParsed_def)
qed

lemma example_stable: "javaStable exampleVm exampleModel exampleStruct ''NS1|Numeric|7'' exampleRef"
  using example_struct_id
  by (simp add: exampleStruct_def exampleVm_def exampleModel_def exampleRef_def getDataTypeFromModel_def
      newModelType_def cstr_def binCHAR_def binINT_def elementType_def scalarStable_def fitsInt_def Let_def)

lemma java_roundtrip_witness:
  "bindR (binToJava exampleVm exampleStruct)
     (\<lambda>d. javaToBin exampleVm exampleModel d ''NS1|Numeric|7'' exampleRef) = Inr exampleStruct"
  by (rule java_roundtrip [OF example_stable])

text \<open>The objects that can be read without a type.\<close>

fun javaGuessable :: "java_object \<Rightarrow> bool" where
  "javaGuessable JNull = False"
| "javaGuessable (JByte _) = False"
| "javaGuessable (JShort _) = False"
| "javaGuessable (JLong _) = False"
| "javaGuessable (JFloat _) = False"
| "javaGuessable JPrimitiveArray = False"
| "javaGuessable (JObjectArray xs) = list_all javaGuessable xs"
| "javaGuessable (JArrayList xs) = list_all javaGuessable xs"
| "javaGuessable (JHashMap es) = list_all (\<lambda>e. javaGuessable (snd e)) es"
| "javaGuessable _ = True"

lemma untyped [simp]:
  "getDataTypeFromModel model key newModelType = newModelType"
  "structureId newModelType = Inr (ParamNumeric 0 (scast (- 99 :: c_int)))"
  "mtIsRef newModelType = False" "mtType newModelType = - 99"
  by (simp_all add: getDataTypeFromModel_def structureId_def newModelType_def)

lemma untypedScalar [simp]: "getScalarVariant vm model data newModelType = guessScalar data"
  by (simp add: getScalarVariant_def)

lemma isOk_javaArray [simp]: "isOk (javaArray f xs t) \<longleftrightarrow> (\<forall>x\<in>set xs. isOk (f x))"
  unfolding javaArray_def isOk_bindR isOk_traverseR [symmetric] by (auto simp: isOk_iff)

lemma isOk_javaFields:
  "(\<And>e k. e \<in> set es \<Longrightarrow> isOk (f (snd e) k) \<longleftrightarrow> ok (snd e)) \<Longrightarrow>
   isOk (javaFields vm f es fs) \<longleftrightarrow> (\<forall>e\<in>set es. ok (snd e))"
proof (induction es arbitrary: fs)
  case (Cons e es)
  have "isOk (f (snd e) (jvGetStringUTFChars vm (fst e))) \<longleftrightarrow> ok (snd e)" using Cons.prems by simp
  moreover have "isOk (javaFields vm f es gs) \<longleftrightarrow> (\<forall>e\<in>set es. ok (snd e))" for gs
    using Cons by simp
  ultimately show ?case
    by (cases "f (snd e) (jvGetStringUTFChars vm (fst e))") simp_all
qed simp

lemma javaToBin_untyped:
  "isOk (javaToBin vm model data key newModelType) \<longleftrightarrow> javaGuessable data"
proof (induction data arbitrary: key rule: javaGuessable.induct)
  case (9 es)
  have "isOk (javaFields vm (\<lambda>x k. javaToBin vm model x k newModelType) es []) \<longleftrightarrow>
      (\<forall>e\<in>set es. javaGuessable (snd e))"
    using 9 by (intro isOk_javaFields) blast
  then show ?case
    by (cases "javaFields vm (\<lambda>x k. javaToBin vm model x k newModelType) es []") (simp_all add: list_all_iff)
qed (auto simp: list_all_iff)

text \<open>
  An object can be read without a type exactly when it and everything inside it has a class the guess
  supports: no null, no primitive array, no byte, short, long or float. The last four are classes the
  guess tests for, but it reads them with the method for another return type.
\<close>

theorem java_untyped_defined:
  "(\<exists>v. javaToBin vm model data key newModelType = Inr v) \<longleftrightarrow> javaGuessable data"
  using javaToBin_untyped [of vm model data key] by (simp add: isOk_iff)

subsection \<open>Messages for the Java side\<close>

text \<open>
  A response either throws a Java exception with a text or gives an object; a message of the server
  becomes calls of the handler object. The parameters of a message come in the order of its map, which
  has pointers as keys.
\<close>

datatype java_result = JavaThrows string | JavaReturns java_object

definition readResponseToJava :: "java_vm \<Rightarrow> nat \<Rightarrow> bin_variant \<Rightarrow> (cpp_error, java_result) res" where
  "readResponseToJava vm status paramValue =
    (if status \<noteq> 0 then Inr (JavaThrows (''Read Operation failed, status= '' @ showNat status))
     else mapR JavaReturns (binToJava vm paramValue))"

definition paramListToJava :: "java_vm \<Rightarrow> bin_variant list \<Rightarrow> (cpp_error, java_object) res" where
  "paramListToJava vm params = mapR JObjectArray (traverseR (binToJava vm) params)"

definition callResponseToJava :: "java_vm \<Rightarrow> nat \<Rightarrow> bin_variant list \<Rightarrow> (cpp_error, java_result) res" where
  "callResponseToJava vm status params =
    (if status \<noteq> 0 then Inr (JavaThrows (''Call failed, status= '' @ showNat status))
     else mapR JavaReturns (paramListToJava vm params))"

record bin_event =
  evId :: param_id
  evMessage :: string
  evTimeStamp :: "64 word"
  evSeverity :: c_long
  evParams :: "(param_id \<times> bin_variant) list"

definition javaText :: "java_vm \<Rightarrow> string \<Rightarrow> java_string" where
  "javaText vm s = jvNewStringUTF vm (cstr s)"

definition eventToJava :: "java_vm \<Rightarrow> bin_event \<Rightarrow> (cpp_error, java_object) res" where
  "eventToJava vm event =
    bindR (traverseR (\<lambda>p. mapR (\<lambda>d. (javaText vm (paramIdToString (fst p)), d)) (binToJava vm (snd p)))
      (evParams event)) (\<lambda>params.
      Inr (JHashMap [(javaText vm (paramIdToString (evId event)),
        JHashMap (foldl (\<lambda>m e. hashPut (fst e) (snd e) m) []
          ([(javaText vm ''message'', JString (javaText vm (evMessage event))),
            (javaText vm ''timestamp'', JLong (evTimeStamp event)),
            (javaText vm ''severity'', JInteger (ucast (evSeverity event)))] @ params)))]))"

datatype handler_call =
    MessageReceived java_object
  | ValueChanged java_object java_object
  | UsabilityChanged java_string bool

definition eventReceived :: "java_vm \<Rightarrow> bin_event \<Rightarrow> (cpp_error, handler_call list) res" where
  "eventReceived vm event = mapR (\<lambda>d. [MessageReceived d]) (eventToJava vm event)"

text \<open>Only the first parameter of a notification is reported; without one the objects are not initialized.\<close>

definition notificationReceived ::
  "java_vm \<Rightarrow> (param_id \<times> bin_variant) list \<Rightarrow> (cpp_error, handler_call list) res"
where
  "notificationReceived vm params =
    (case params of
       [] \<Rightarrow> Inl UndefinedBehaviour
     | p # _ \<Rightarrow> mapR (\<lambda>d. [ValueChanged (JString (javaText vm (paramIdToString (fst p)))) d])
         (binToJava vm (snd p)))"

definition connectionStateChanged :: "java_vm \<Rightarrow> string \<Rightarrow> c_int \<Rightarrow> handler_call list" where
  "connectionStateChanged vm serverId state =
    (if serverId = [] then []
     else if state = 0 then [UsabilityChanged (javaText vm serverId) False]
     else if state = 1 then [UsabilityChanged (javaText vm serverId) True]
     else if state = 2 \<or> state = 3 \<or> state = 4 then [UsabilityChanged (javaText vm serverId) False]
     else [])"

text \<open>
  A pending Java exception as an \<open>Exception\<close>. The error code is read from the cause of the cause with a
  method that only the project's own exception class has.
\<close>

datatype java_throwable =
  JThrowable (thMessage: "java_string option") (thCause: "java_throwable option") (thStatusCode: "32 word option")

definition nativeFile :: string where
  "nativeFile = ''src/common/native2J/Native2J.cpp''"

definition getException :: "java_vm \<Rightarrow> java_throwable option \<Rightarrow> (cpp_error, c_exception option) res" where
  "getException vm pending =
    (case pending of
       None \<Rightarrow> Inr None
     | Some ex \<Rightarrow>
         (case thMessage ex of
            None \<Rightarrow> Inl UndefinedBehaviour
          | Some message \<Rightarrow>
              (let exception = newException (jvGetStringUTFChars vm message) nativeFile 738 in
               case (case thCause ex of None \<Rightarrow> None | Some cause \<Rightarrow> thCause cause) of
                 None \<Rightarrow> Inr (Some exception)
               | Some cause \<Rightarrow>
                   (case thStatusCode cause of
                      None \<Rightarrow> Inl UndefinedBehaviour
                    | Some code \<Rightarrow> Inr (Some (setErrorCode (Some (scast code)) exception))))))"

text \<open>The header of an event comes first, each parameter that has an id of its own follows.\<close>

lemma eventToJava_entries:
  assumes "traverseR (\<lambda>p. binToJava vm (snd p)) (evParams event) = Inr ds"
    and "distinct (map (javaText vm) ([''message'', ''timestamp'', ''severity''] @
      map (\<lambda>p. paramIdToString (fst p)) (evParams event)))"
  shows "eventToJava vm event = Inr (JHashMap [(javaText vm (paramIdToString (evId event)),
    JHashMap ([(javaText vm ''message'', JString (javaText vm (evMessage event))),
       (javaText vm ''timestamp'', JLong (evTimeStamp event)),
       (javaText vm ''severity'', JInteger (ucast (evSeverity event)))] @
      zip (map (\<lambda>p. javaText vm (paramIdToString (fst p))) (evParams event)) ds))])"
proof -
  have "traverseR (\<lambda>p. mapR (\<lambda>d. (g p, d)) (binToJava vm (snd p))) ps = Inr (zip (map g ps) ds)"
    if "traverseR (\<lambda>p. binToJava vm (snd p)) ps = Inr ds" for ps and g :: "param_id \<times> bin_variant \<Rightarrow> java_string"
    using that by (induction ps arbitrary: ds) (auto simp: bindR_eq_Inr mapR_def)
  note params = this [OF assms(1), of "\<lambda>p. javaText vm (paramIdToString (fst p))"]
  define es where "es = zip (map (\<lambda>p. javaText vm (paramIdToString (fst p))) (evParams event)) ds"
  define header where "header = [(javaText vm ''message'', JString (javaText vm (evMessage event))),
    (javaText vm ''timestamp'', JLong (evTimeStamp event)),
    (javaText vm ''severity'', JInteger (ucast (evSeverity event)))]"
  have "map fst (header @ es) = map (javaText vm) ([''message'', ''timestamp'', ''severity''] @
      map (\<lambda>p. paramIdToString (fst p)) (evParams event))"
    using traverseR_length [OF assms(1)] by (simp add: es_def header_def)
  then have "distinct (map fst (header @ es))" using assms(2) by simp
  then have "foldl (\<lambda>m e. hashPut (fst e) (snd e) m) [] (header @ es) = header @ es"
    using hashPut_fold [of "[]" "\<lambda>k. k" "header @ es"] by simp
  then show ?thesis
    unfolding eventToJava_def params es_def [symmetric] header_def [symmetric] by simp
qed

end
