(* ===== verification/Example_Text.thy ===== *)
theory Example_Text
  imports Bin_Values Ua_Model
begin

text \<open>
  A notation of node ids that tells them apart, for the concrete inputs of other theories. For numeric ids
  it is the text of a parameter id, as the conversions expect it.
\<close>

definition exampleText :: "ua_node_id \<Rightarrow> string" where
  "exampleText n =
    (case n of
       UaNumeric ns i \<Rightarrow> paramIdToString (ParamNumeric (ucast ns) (ucast i))
     | UaString ns s \<Rightarrow> CHR ''s'' # replicate (unat ns) (CHR ''a'') @ CHR ''|'' # s
     | UaGuid ns bs \<Rightarrow> CHR ''g'' # replicate (unat ns) (CHR ''a'') @ CHR ''|'' # map (\<lambda>b. char_of (unat b)) bs
     | UaOpaque ns bs \<Rightarrow> CHR ''b'' # replicate (unat ns) (CHR ''a'') @ CHR ''|'' # map (\<lambda>b. char_of (unat b)) bs)"

lemma exampleText_inj: "inj exampleText"
proof -
  have number: "replicate k a @ b # xs = replicate l a @ b # ys \<longleftrightarrow> k = l \<and> xs = ys" if "a \<noteq> b"
    for k l and a b :: char and xs ys
  proof (induction k arbitrary: l)
    case 0
    then show ?case using that by (cases l) auto
  next
    case (Suc k)
    then show ?case using that by (cases l) auto
  qed
  have ns: "replicate (unat v) a @ b # xs = replicate (unat w) a @ b # ys \<longleftrightarrow> v = w \<and> xs = ys" if "a \<noteq> b"
    for v w :: "16 word" and a b :: char and xs ys
    unfolding number [OF that] by (simp only: word_unat_eq_iff [of v w])
  have bytes: "map (\<lambda>b. char_of (unat b)) bs = (map (\<lambda>b. char_of (unat b)) cs :: string) \<longleftrightarrow> bs = cs"
    for bs cs :: "8 word list"
  proof -
    have "inj (\<lambda>b :: 8 word. char_of (unat b) :: char)"
    proof (rule injI)
      fix b c :: "8 word" assume "char_of (unat b) = (char_of (unat c) :: char)"
      then have "unat b mod 256 = unat c mod 256" by (simp add: char_of_eq_iff take_bit_eq_mod)
      moreover have "unat b < 256" "unat c < 256"
        using unsigned_less [of b, where 'a = nat] unsigned_less [of c, where 'a = nat] by simp_all
      ultimately have "unat b = unat c" by simp
      then show "b = c" by (simp only: word_unat_eq_iff)
    qed
    then show ?thesis by (rule inj_map_eq_map)
  qed
  have numeric: "ns = ms \<and> i = j"
    if "paramIdToString (ParamNumeric (ucast ns) (ucast i)) = paramIdToString (ParamNumeric (ucast ms) (ucast j))"
    for ns ms :: "16 word" and i j :: "32 word"
  proof -
    have "ParamNumeric (ucast ns) (ucast i) = ParamNumeric (ucast ms) (ucast j)"
      using that paramIdParse_numeric by metis
    then have "uint (ucast ns :: 32 word) = uint (ucast ms :: 32 word)" "uint (ucast i :: 64 word) = uint (ucast j :: 64 word)"
      by simp_all
    then show ?thesis by (simp add: bintr_uint unsigned_ucast_eq word_uint_eq_iff)
  qed
  show ?thesis
  proof (rule injI)
    fix n k assume "exampleText n = exampleText k"
    then show "n = k"
      using numeric by (cases n; cases k) (simp_all add: exampleText_def ns bytes)
  qed
qed

end
