(* ===== verification/Field_Model.thy ===== *)
theory Field_Model
  imports Java_Values Example_Text
begin

text \<open>
  The model of the data types that \<open>JDataProvider::findFieldModel\<close> collects for the Java conversions
  (\<open>provider/binary/jDataProvider/JDataProvider.cpp\<close>). The node browser and the full text of a node id
  are the server's SDK; of the address space the code reads the data type of a variable, the definition
  and the super types of a type, the output arguments of a method and the references of an object type.
\<close>

subsection \<open>The node browser\<close>

record node_browser =
  nbVariable :: "ua_node_id \<Rightarrow> ua_node_id option"
  nbStructureDefinition :: "ua_node_id \<Rightarrow> ua_structure_def"
  nbSuperTypes :: "ua_node_id \<Rightarrow> (cpp_error, ua_node_id list) res"
  nbOutputTypes :: "ua_node_id \<Rightarrow> ua_node_id list option option"
  nbObjectTypeReferences :: "ua_node_id \<Rightarrow> ua_node_id list option"
  nbFullString :: "ua_node_id \<Rightarrow> string"

subsection \<open>Types as entries of the model\<close>

text \<open>A type of another name space is referred to by the text of its id, others by their number.\<close>

definition refModelType :: "string \<Rightarrow> model_type" where
  "refModelType r = newModelType\<lparr>mtIsRef := True, mtRef := r\<rparr>"

definition typeText :: "ua_node_id \<Rightarrow> (cpp_error, string) res" where
  "typeText n =
    (case n of
       UaNumeric ns i \<Rightarrow> Inr (paramIdToString (ParamNumeric (ucast ns) (ucast i)))
     | UaString ns s \<Rightarrow> Inr (paramIdToString (ParamString (ucast ns) s))
     | _ \<Rightarrow> Inl UndefinedBehaviour)"

definition modelTypeOf :: "ua_node_id \<Rightarrow> (cpp_error, model_type) res" where
  "modelTypeOf n =
    (if uaNamespaceIndex n \<noteq> 0 then mapR refModelType (typeText n)
     else mapR (\<lambda>i. newModelType\<lparr>mtType := i\<rparr>) (identifierNumeric n))"

text \<open>
  The recursion as an explicit stack: a type to find, or the fields of a type that are still to be
  added to the values collected so far. The values are stored when the last field is done, so a type is
  recorded after the types of its fields.
\<close>

type_synonym type_values = "string \<Rightarrow> model_type option"

datatype model_task =
    FindType ua_node_id
  | AddFields ua_node_id "(string \<times> ua_node_id) list" type_values

definition superTypeField :: "node_browser \<Rightarrow> ua_node_id \<Rightarrow> (cpp_error, model_task) res" where
  "superTypeField nb start =
    bindR (nbSuperTypes nb start) (\<lambda>superTypes.
      if superTypes \<noteq> [] then Inr (AddFields start [(nbFullString nb start, last superTypes)] Map.empty)
      else Inr (AddFields start []
        [nbFullString nb start \<mapsto>
          (case start of UaNumeric _ i \<Rightarrow> newModelType\<lparr>mtType := i\<rparr> | _ \<Rightarrow> newModelType)]))"

definition openType :: "node_browser \<Rightarrow> ua_node_id \<Rightarrow> (cpp_error, model_task) res" where
  "openType nb start =
    (let children = sdChildren (nbStructureDefinition nb start) in
     if children \<noteq> [] then Inr (AddFields start (map (\<lambda>sf. (fldName sf, fldTypeId sf)) children) Map.empty)
     else superTypeField nb start)"

partial_function (option) runModel ::
  "node_browser \<Rightarrow> model_task list \<Rightarrow> type_model \<Rightarrow> ((cpp_error, unit) res \<times> type_model) option"
where
  "runModel nb tasks m =
    (case tasks of
       [] \<Rightarrow> Some (Inr (), m)
     | FindType start # rest \<Rightarrow>
         (if m (nbFullString nb start) \<noteq> None then runModel nb rest m
          else
            (case openType nb start of
               Inl e \<Rightarrow> Some (Inl e, m)
             | Inr task \<Rightarrow> runModel nb (task # rest) m))
     | AddFields start [] vals # rest \<Rightarrow> runModel nb rest (m(nbFullString nb start \<mapsto> vals))
     | AddFields start (f # fs) vals # rest \<Rightarrow>
         (case modelTypeOf (snd f) of
            Inl e \<Rightarrow> Some (Inl e, m)
          | Inr t \<Rightarrow>
              runModel nb
                ((if uaNamespaceIndex (snd f) \<noteq> 0 then [FindType (snd f)] else []) @
                 AddFields start fs (vals(fst f \<mapsto> t)) # rest) m))"

text \<open>The result tells whether the type was added; without a node browser nothing happens.\<close>

definition findFieldModel ::
  "node_browser option \<Rightarrow> ua_node_id \<Rightarrow> type_model \<Rightarrow> ((cpp_error, bool) res \<times> type_model) option"
where
  "findFieldModel browser start m =
    (case browser of
       None \<Rightarrow> Some (Inr False, m)
     | Some nb \<Rightarrow>
         if m (nbFullString nb start) \<noteq> None then Some (Inr False, m)
         else map_option (\<lambda>(r, m'). (mapR (\<lambda>_. True) r, m')) (runModel nb [FindType start] m))"

lemma runModel_simps:
  "runModel nb [] m = Some (Inr (), m)"
  "runModel nb (FindType start # rest) m =
     (if m (nbFullString nb start) \<noteq> None then runModel nb rest m
      else (case openType nb start of Inl e \<Rightarrow> Some (Inl e, m) | Inr task \<Rightarrow> runModel nb (task # rest) m))"
  "runModel nb (AddFields start [] vals # rest) m = runModel nb rest (m(nbFullString nb start \<mapsto> vals))"
  "runModel nb (AddFields start (f # fs) vals # rest) m =
     (case modelTypeOf (snd f) of Inl e \<Rightarrow> Some (Inl e, m)
      | Inr t \<Rightarrow> runModel nb
          ((if uaNamespaceIndex (snd f) \<noteq> 0 then [FindType (snd f)] else []) @
           AddFields start fs (vals(fst f \<mapsto> t)) # rest) m)"
  by (subst runModel.simps; simp)+

subsection \<open>What the model holds\<close>

fun addAll :: "(string \<times> ua_node_id) list \<Rightarrow> type_values \<Rightarrow> (cpp_error, type_values) res" where
  "addAll [] vals = Inr vals"
| "addAll (f # fs) vals = bindR (modelTypeOf (snd f)) (\<lambda>t. addAll fs (vals(fst f \<mapsto> t)))"

definition typeRefs :: "(string \<times> ua_node_id) list \<Rightarrow> ua_node_id set" where
  "typeRefs fs = {u \<in> snd ` set fs. uaNamespaceIndex u \<noteq> 0}"

text \<open>
  A model is closed when every type it has is recorded with the entries of its fields, or of its super
  type, and every type these entries refer to is recorded too.
\<close>

definition recorded :: "node_browser \<Rightarrow> type_model \<Rightarrow> ua_node_id \<Rightarrow> bool" where
  "recorded nb m n \<longleftrightarrow> m (nbFullString nb n) \<noteq> None"

definition modelClosed :: "node_browser \<Rightarrow> type_model \<Rightarrow> bool" where
  "modelClosed nb m \<longleftrightarrow>
    (\<forall>n vals. m (nbFullString nb n) = Some vals \<longrightarrow>
      (\<exists>fs vs. openType nb n = Inr (AddFields n fs vs) \<and> addAll fs vs = Inr vals \<and>
        (\<forall>u\<in>typeRefs fs. recorded nb m u)))"

text \<open>A stack is fit when each collection of fields has its finished references recorded or above it.\<close>

fun stackFit :: "node_browser \<Rightarrow> type_model \<Rightarrow> ua_node_id set \<Rightarrow> model_task list \<Rightarrow> bool" where
  "stackFit nb m pend [] = True"
| "stackFit nb m pend (FindType u # ts) = stackFit nb m (insert u pend) ts"
| "stackFit nb m pend (AddFields n fs vals # ts) =
     ((\<exists>fs0 vs. openType nb n = Inr (AddFields n (fs0 @ fs) vs) \<and> addAll fs0 vs = Inr vals \<and>
        (\<forall>u\<in>typeRefs fs0. recorded nb m u \<or> u \<in> pend)) \<and>
      stackFit nb m (insert n pend) ts)"

lemma addAll_append [simp]: "addAll (fs @ gs) vs = bindR (addAll fs vs) (addAll gs)"
  by (induction fs arbitrary: vs) (simp_all add: bindR_assoc)

lemma typeRefs_simps [simp]:
  "typeRefs [] = {}"
  "typeRefs (f # fs) = (if uaNamespaceIndex (snd f) \<noteq> 0 then {snd f} else {}) \<union> typeRefs fs"
  "typeRefs (fs @ gs) = typeRefs fs \<union> typeRefs gs"
  by (auto simp: typeRefs_def)

lemma openType_fields: "openType nb n = Inr task \<Longrightarrow> \<exists>fs vs. task = AddFields n fs vs"
  by (auto simp: openType_def superTypeField_def Let_def bindR_eq_Inr split: if_splits)

lemma stackFit_mono:
  "stackFit nb m a ts \<Longrightarrow> \<forall>u. recorded nb m u \<or> u \<in> a \<longrightarrow> recorded nb m' u \<or> u \<in> b \<Longrightarrow> stackFit nb m' b ts"
proof (induction nb m a ts arbitrary: b rule: stackFit.induct)
  case (2 nb m pend u ts)
  have "stackFit nb m' (insert u b) ts"
    by (rule "2.IH") (use 2(2,3) in simp, use 2(3) in blast)
  then show ?case by simp
next
  case (3 nb m pend n fs vals ts)
  have "stackFit nb m' (insert n b) ts"
    by (rule "3.IH") (use 3(2,3) in simp, use 3(3) in blast)
  then show ?case using 3(2,3) by simp blast
qed simp

lemma modelClosed_record:
  assumes "inj (nbFullString nb)" "modelClosed nb m"
    and n: "openType nb n = Inr (AddFields n fs vs)" "addAll fs vs = Inr vals" "\<forall>u\<in>typeRefs fs. recorded nb m u"
  shows "modelClosed nb (m(nbFullString nb n \<mapsto> vals)) \<and> m \<subseteq>\<^sub>m m(nbFullString nb n \<mapsto> vals)"
proof
  let ?m = "m(nbFullString nb n \<mapsto> vals)"
  have more: "recorded nb ?m u" if "recorded nb m u" for u
    using that by (simp add: recorded_def)
  show "modelClosed nb ?m"
    unfolding modelClosed_def
  proof (intro allI impI)
    fix k w assume w: "?m (nbFullString nb k) = Some w"
    show "\<exists>fs vs. openType nb k = Inr (AddFields k fs vs) \<and> addAll fs vs = Inr w \<and>
        (\<forall>u\<in>typeRefs fs. recorded nb ?m u)"
    proof (cases "k = n")
      case True
      then show ?thesis using n w more by auto
    next
      case False
      then have "nbFullString nb k \<noteq> nbFullString nb n" using assms(1) by (simp add: inj_eq)
      then have "m (nbFullString nb k) = Some w" using w by simp
      then show ?thesis using assms(2) more unfolding modelClosed_def by blast
    qed
  qed
  have "m (nbFullString nb n) = Some w \<Longrightarrow> w = vals" for w
    using assms(2) n unfolding modelClosed_def by fastforce
  then show "m \<subseteq>\<^sub>m ?m" by (auto simp: map_le_def)
qed

fun taskType :: "model_task \<Rightarrow> ua_node_id" where
  "taskType (FindType u) = u"
| "taskType (AddFields n _ _) = n"

lemma runModel_closed:
  "runModel nb tasks m = Some y \<Longrightarrow> inj (nbFullString nb) \<Longrightarrow> modelClosed nb m \<Longrightarrow> stackFit nb m {} tasks \<Longrightarrow>
    modelClosed nb (snd y) \<and> m \<subseteq>\<^sub>m snd y \<and>
    (isOk (fst y) \<longrightarrow> (\<forall>t\<in>set tasks. recorded nb (snd y) (taskType t)))"
proof (induction rule: runModel.raw_induct [rotated, consumes 1, case_names step])
  case (step run nb tasks m y)
  have more: "recorded nb m' u" if "m \<subseteq>\<^sub>m m'" "recorded nb m u" for m m' u
    using that by (auto simp: recorded_def map_le_def dom_def)
  show ?case
  proof (cases tasks)
    case Nil
    then show ?thesis using step.hyps step.prems by (auto simp: map_le_def)
  next
    case (Cons task rest)
    show ?thesis
    proof (cases task)
      case (FindType u)
      show ?thesis
      proof (cases "recorded nb m u")
        case True
        then have r: "run nb rest m = Some y"
          using step.hyps Cons FindType by (simp add: recorded_def)
        have "stackFit nb m {} rest"
          using step.prems(3) Cons FindType True by (auto elim!: stackFit_mono)
        note IH = step.IH [OF r step.prems(1,2) this]
        then show ?thesis using more [of m "snd y" u] True Cons FindType by simp
      next
        case False
        show ?thesis
        proof (cases "openType nb u")
          case (Inl e)
          then show ?thesis
            using step.hyps step.prems Cons FindType False by (auto simp: recorded_def)
        next
          case (Inr new)
          then obtain fs vs where new: "new = AddFields u fs vs" using openType_fields by blast
          have r: "run nb (new # rest) m = Some y"
            using step.hyps Cons FindType False Inr by (simp add: recorded_def)
          have "stackFit nb m {} (new # rest)"
            using step.prems(3) Cons FindType Inr new by simp
          then show ?thesis
            using step.IH [OF r step.prems(1,2)] Cons FindType new by simp
        qed
      qed
    next
      case (AddFields n fs vals)
      obtain fs0 vs where fit: "openType nb n = Inr (AddFields n (fs0 @ fs) vs)" "addAll fs0 vs = Inr vals"
        "\<forall>u\<in>typeRefs fs0. recorded nb m u" "stackFit nb m {n} rest"
        using step.prems(3) Cons AddFields by auto
      show ?thesis
      proof (cases fs)
        case Nil
        obtain m2 where m2: "m2 = m(nbFullString nb n \<mapsto> vals)" by blast
        have r: "run nb rest m2 = Some y" using step.hyps Cons AddFields Nil m2 by simp
        have closed: "modelClosed nb m2" "m \<subseteq>\<^sub>m m2"
          using modelClosed_record [OF step.prems(1,2)] fit(1-3) Nil m2 by auto
        have n: "recorded nb m2 n" by (simp add: recorded_def m2)
        have "stackFit nb m2 {} rest"
          using fit(4) more [OF closed(2)] n by (auto elim!: stackFit_mono)
        note IH = step.IH [OF r step.prems(1) closed(1) this]
        then show ?thesis
          using map_le_trans [OF closed(2)] more [of m2 "snd y" n] n Cons AddFields by simp
      next
        case (Cons f gs)
        show ?thesis
        proof (cases "modelTypeOf (snd f)")
          case (Inl e)
          then show ?thesis
            using step.hyps step.prems \<open>tasks = task # rest\<close> AddFields Cons by auto
        next
          case (Inr t)
          let ?ts = "(if uaNamespaceIndex (snd f) \<noteq> 0 then [FindType (snd f)] else []) @
            AddFields n gs (vals(fst f \<mapsto> t)) # rest"
          have r: "run nb ?ts m = Some y"
            using step.hyps \<open>tasks = task # rest\<close> AddFields Cons Inr by simp
          have "openType nb n = Inr (AddFields n ((fs0 @ [f]) @ gs) vs)"
            "addAll (fs0 @ [f]) vs = Inr (vals(fst f \<mapsto> t))"
            "\<forall>u\<in>typeRefs (fs0 @ [f]). recorded nb m u \<or> u \<in> (if uaNamespaceIndex (snd f) \<noteq> 0 then {snd f} else {})"
            using fit Cons Inr by auto
          moreover have "stackFit nb m (insert n (if uaNamespaceIndex (snd f) \<noteq> 0 then {snd f} else {})) rest"
            using fit(4) by (auto elim!: stackFit_mono)
          ultimately have "stackFit nb m {} ?ts" by (auto intro!: exI [of _ "fs0 @ [f]"])
          then show ?thesis
            using step.IH [OF r step.prems(1,2)] \<open>tasks = task # rest\<close> AddFields by auto
        qed
      qed
    qed
  qed
qed

lemma findFieldModel_closed:
  assumes "inj (nbFullString nb)" "modelClosed nb m" "findFieldModel (Some nb) n m = Some (r, m')"
  shows "modelClosed nb m' \<and> m \<subseteq>\<^sub>m m' \<and> (isOk r \<longrightarrow> recorded nb m' n)"
proof (cases "m (nbFullString nb n) = None")
  case True
  then obtain r' where run: "runModel nb [FindType n] m = Some (r', m')" "r = mapR (\<lambda>_. True) r'"
    using assms(3) by (auto simp: findFieldModel_def)
  then show ?thesis
    using runModel_closed [OF run(1) assms(1,2)] by simp
next
  case False
  then show ?thesis
    using assms by (auto simp: findFieldModel_def recorded_def)
qed

text \<open>
  C14. Looking for a type keeps the model closed, also when it ends with an exception of the node browser:
  every recorded type has the entries of its fields (or of its super type), the types these refer to are
  recorded as well, what was recorded before stays as it is, and after a normal end the type is there.
\<close>

theorem field_model_closed:
  "inj (nbFullString nb) \<Longrightarrow> modelClosed nb m \<Longrightarrow> findFieldModel (Some nb) n m = Some (r, m') \<Longrightarrow>
   modelClosed nb m' \<and> m \<subseteq>\<^sub>m m' \<and> (isOk r \<longrightarrow> recorded nb m' n)"
  by (rule findFieldModel_closed)

subsection \<open>Ending\<close>

text \<open>The types whose fields can be followed to the end.\<close>

inductive modelable :: "node_browser \<Rightarrow> ua_node_id \<Rightarrow> bool" for nb where
  openable: "openType nb n = Inr (AddFields n fs vs) \<Longrightarrow>
    \<forall>f\<in>set fs. isOk (modelTypeOf (snd f)) \<and> (uaNamespaceIndex (snd f) = 0 \<or> modelable nb (snd f)) \<Longrightarrow>
    modelable nb n"

inductive_cases modelableE: "modelable nb n"

lemma modelable_run:
  "modelable nb n \<Longrightarrow> \<exists>m'. runModel nb (FindType n # rest) m = runModel nb rest m'"
proof (induction n arbitrary: m rest rule: modelable.induct)
  case (openable n fs vs)
  have fields: "\<exists>m'. runModel nb (AddFields n gs vals # rest) m = runModel nb rest m'"
    if "set gs \<subseteq> set fs" for gs vals m
    using that
  proof (induction gs arbitrary: vals m)
    case Nil
    then show ?case by (auto simp: runModel_simps)
  next
    case (Cons f gs)
    have f: "isOk (modelTypeOf (snd f))"
      "uaNamespaceIndex (snd f) \<noteq> 0 \<Longrightarrow> \<exists>m'. runModel nb (FindType (snd f) # rest') m = runModel nb rest' m'" for rest' m
      using openable.IH Cons.prems by auto
    then obtain t where t: "modelTypeOf (snd f) = Inr t" by (auto simp: isOk_iff)
    have gs: "\<exists>m'. runModel nb (AddFields n gs v # rest) m2 = runModel nb rest m'" for v m2
      using Cons by simp
    show ?case
    proof (cases "uaNamespaceIndex (snd f) = 0")
      case True
      then show ?thesis using gs t by (simp add: runModel_simps)
    next
      case False
      then obtain m2 where "runModel nb (FindType (snd f) # AddFields n gs (vals(fst f \<mapsto> t)) # rest) m =
          runModel nb (AddFields n gs (vals(fst f \<mapsto> t)) # rest) m2"
        using f(2) by blast
      then show ?thesis using gs t False by (simp add: runModel_simps(4))
    qed
  qed
  show ?case
    using fields [of fs] openable.hyps by (auto simp: runModel_simps(2))
qed

text \<open>
  Looking for a type ends without an exception when the types of its fields can be followed to the
  end, that is when no type refers to itself.
\<close>

theorem field_model_returns:
  "modelable nb n \<Longrightarrow> \<exists>b m'. findFieldModel (Some nb) n m = Some (Inr b, m')"
  using modelable_run [of nb n "[]" m] by (auto simp: findFieldModel_def runModel_simps(1))

text \<open>
  A set of types each of which has a field of a type of the set is never recorded: the recursion looks
  a type up before it records it.
\<close>

fun stackStuck :: "ua_node_id set \<Rightarrow> bool \<Rightarrow> model_task list \<Rightarrow> bool" where
  "stackStuck S b [] = True"
| "stackStuck S b (FindType u # ts) = stackStuck S (b \<or> u \<in> S) ts"
| "stackStuck S b (AddFields n fs vals # ts) =
     ((n \<in> S \<longrightarrow> b \<or> (\<exists>u\<in>typeRefs fs. u \<in> S)) \<and> stackStuck S (b \<or> n \<in> S) ts)"

lemma stackStuck_mono: "stackStuck S b ts \<Longrightarrow> b \<longrightarrow> c \<Longrightarrow> stackStuck S c ts"
  by (induction S b ts arbitrary: c rule: stackStuck.induct) auto

lemma runModel_stuck:
  "runModel nb tasks m = Some y \<Longrightarrow>
   \<forall>n\<in>S. \<forall>fs vs. openType nb n = Inr (AddFields n fs vs) \<longrightarrow> (\<exists>u\<in>typeRefs fs. u \<in> S) \<Longrightarrow>
   inj (nbFullString nb) \<Longrightarrow> \<forall>n\<in>S. \<not> recorded nb m n \<Longrightarrow> stackStuck S False tasks \<Longrightarrow>
   list_ex (\<lambda>t. taskType t \<in> S) tasks \<Longrightarrow> \<not> isOk (fst y)"
proof (induction rule: runModel.raw_induct [rotated, consumes 1, case_names step])
  case (step run nb tasks m y)
  show ?case
  proof (cases "(S, False, tasks)" rule: stackStuck.cases)
    case (2 S' b u ts)
    show ?thesis
    proof (cases "recorded nb m u")
      case True
      then have "u \<notin> S" "run nb ts m = Some y"
        using step.prems(3) step.hyps 2 by (auto simp: recorded_def)
      then show ?thesis using step.IH [OF _ step.prems(1-3)] step.prems(4,5) 2 by simp
    next
      case False
      show ?thesis
      proof (cases "openType nb u")
        case (Inl e)
        then show ?thesis using step.hyps 2 False by (auto simp: recorded_def)
      next
        case (Inr new)
        then obtain fs vs where new: "new = AddFields u fs vs" using openType_fields by blast
        have r: "run nb (new # ts) m = Some y"
          using step.hyps 2 False Inr by (simp add: recorded_def)
        show ?thesis
          using step.IH [OF r step.prems(1-3)] step.prems(1,4,5) 2 new Inr by auto
      qed
    qed
  next
    case (3 S' b n fs vals ts)
    show ?thesis
    proof (cases fs)
      case Nil
      have n: "n \<notin> S" using step.prems(4) 3 Nil by simp
      obtain m2 where m2: "m2 = m(nbFullString nb n \<mapsto> vals)" by blast
      have r: "run nb ts m2 = Some y" using step.hyps 3 Nil m2 by simp
      have "\<forall>k\<in>S. \<not> recorded nb m2 k"
        using step.prems(2,3) n m2 by (auto simp: recorded_def inj_eq)
      then show ?thesis using step.IH [OF r step.prems(1,2)] step.prems(4,5) 3 n by simp
    next
      case (Cons f gs)
      show ?thesis
      proof (cases "modelTypeOf (snd f)")
        case (Inl e)
        then show ?thesis using step.hyps 3 Cons by auto
      next
        case (Inr t)
        let ?ts = "(if uaNamespaceIndex (snd f) \<noteq> 0 then [FindType (snd f)] else []) @
            AddFields n gs (vals(fst f \<mapsto> t)) # ts"
        have r: "run nb ?ts m = Some y"
          using step.hyps 3 Cons Inr by simp
        have rest: "stackStuck S (c \<or> n \<in> S) ts" for c
          using stackStuck_mono [of S "n \<in> S" ts] step.prems(4) 3 by simp
        have "n \<in> S \<longrightarrow> (uaNamespaceIndex (snd f) \<noteq> 0 \<and> snd f \<in> S) \<or> (\<exists>u\<in>typeRefs gs. u \<in> S)"
          using step.prems(4) 3 Cons by (auto split: if_splits)
        then have "stackStuck S False ?ts"
          using rest [of False] rest [of "snd f \<in> S"] by auto
        moreover have "list_ex (\<lambda>t. taskType t \<in> S) ?ts"
          using step.prems(5) 3 Cons by auto
        ultimately show ?thesis using step.IH [OF r step.prems(1-3)] by simp
      qed
    qed
  qed (use step in simp_all)
qed

lemma findFieldModel_recursive:
  assumes "inj (nbFullString nb)" "n \<in> S" "\<forall>k\<in>S. \<not> recorded nb m k"
    and "\<forall>k\<in>S. \<forall>fs vs. openType nb k = Inr (AddFields k fs vs) \<longrightarrow> (\<exists>u\<in>typeRefs fs. u \<in> S)"
  shows "\<not> (\<exists>b m'. findFieldModel (Some nb) n m = Some (Inr b, m'))"
proof
  assume "\<exists>b m'. findFieldModel (Some nb) n m = Some (Inr b, m')"
  then obtain m' where run: "runModel nb [FindType n] m = Some (Inr (), m')"
    using assms(2,3) by (auto simp: findFieldModel_def recorded_def mapR_eq_Inr)
  have "\<not> isOk (fst (Inr (), m'))"
    using runModel_stuck [OF run assms(4,1,3)] assms(2) by simp
  then show False by simp
qed

text \<open>
  Concrete types: a structure with a number and a nested structure, and one that refers to itself. The
  full text is \<open>exampleText\<close>.
\<close>

definition exampleDefinition :: "ua_node_id \<Rightarrow> ua_structure_def" where
  "exampleDefinition n = \<lparr>sdIsUnion = False, sdChildren =
     (if n = UaNumeric 1 7 then
        [\<lparr>fldName = ''name'', fldTypeId = UaNumeric 0 12, fldOptional = False, fldArray = False\<rparr>,
         \<lparr>fldName = ''part'', fldTypeId = UaNumeric 1 8, fldOptional = False, fldArray = False\<rparr>]
      else if n = UaNumeric 1 8 then [\<lparr>fldName = ''count'', fldTypeId = UaNumeric 0 6, fldOptional = False, fldArray = False\<rparr>]
      else if n = UaNumeric 1 9 then [\<lparr>fldName = ''next'', fldTypeId = UaNumeric 1 9, fldOptional = False, fldArray = False\<rparr>]
      else [])\<rparr>"

definition exampleBrowser :: node_browser where
  "exampleBrowser = \<lparr>nbVariable = [UaNumeric 1 1 \<mapsto> UaNumeric 1 7, UaNumeric 1 2 \<mapsto> UaNumeric 1 9],
     nbStructureDefinition = exampleDefinition, nbSuperTypes = (\<lambda>_. Inr []), nbOutputTypes = (\<lambda>_. None),
     nbObjectTypeReferences = (\<lambda>_. None), nbFullString = exampleText\<rparr>"

lemma exampleBrowser_open:
  "openType exampleBrowser (UaNumeric 1 7) =
     Inr (AddFields (UaNumeric 1 7) [(''name'', UaNumeric 0 12), (''part'', UaNumeric 1 8)] Map.empty)"
  "openType exampleBrowser (UaNumeric 1 8) = Inr (AddFields (UaNumeric 1 8) [(''count'', UaNumeric 0 6)] Map.empty)"
  "openType exampleBrowser (UaNumeric 1 9) = Inr (AddFields (UaNumeric 1 9) [(''next'', UaNumeric 1 9)] Map.empty)"
  by (simp_all add: exampleBrowser_def openType_def exampleDefinition_def)

lemma exampleBrowser_modelable: "modelable exampleBrowser (UaNumeric 1 7)"
proof -
  have "modelable exampleBrowser (UaNumeric 1 8)"
    by (rule modelable.openable [OF exampleBrowser_open(2)]) (simp add: modelTypeOf_def)
  then show ?thesis
    by (intro modelable.openable [OF exampleBrowser_open(1)]) (simp add: modelTypeOf_def typeText_def)
qed

lemma field_model_returns_witness:
  "\<exists>b m'. findFieldModel (Some exampleBrowser) (UaNumeric 1 7) Map.empty = Some (Inr b, m')"
  by (rule field_model_returns [OF exampleBrowser_modelable])

lemma exampleBrowser_inj: "inj (nbFullString exampleBrowser)"
  using exampleText_inj by (simp add: exampleBrowser_def)

lemma modelClosed_empty [simp]: "modelClosed nb Map.empty"
  by (simp add: modelClosed_def)

lemma field_model_closed_witness:
  "\<exists>r m'. findFieldModel (Some exampleBrowser) (UaNumeric 1 7) Map.empty = Some (r, m') \<and>
     modelClosed exampleBrowser m' \<and> recorded exampleBrowser m' (UaNumeric 1 7)"
proof -
  obtain m' where m': "findFieldModel (Some exampleBrowser) (UaNumeric 1 7) Map.empty = Some (Inr True, m')"
    using modelable_run [OF exampleBrowser_modelable, of "[]" Map.empty]
    by (auto simp: findFieldModel_def runModel_simps(1))
  show ?thesis
    using field_model_closed [OF exampleBrowser_inj modelClosed_empty m'] m' by auto
qed

text \<open>
  A lookup that reaches a type which refers to itself, directly or through its fields, does not
  return: the types of a cycle are looked up before any of them is recorded. (A type of the cycle that
  cannot be opened, or a field before the reference, may end it with an exception.)
\<close>

theorem field_model_recursive:
  "inj (nbFullString nb) \<Longrightarrow> n \<in> S \<Longrightarrow> \<forall>k\<in>S. \<not> recorded nb m k \<Longrightarrow>
   \<forall>k\<in>S. \<forall>fs vs. openType nb k = Inr (AddFields k fs vs) \<longrightarrow> (\<exists>u\<in>typeRefs fs. u \<in> S) \<Longrightarrow>
   \<not> (\<exists>b m'. findFieldModel (Some nb) n m = Some (Inr b, m'))"
  by (rule findFieldModel_recursive)

lemma field_model_recursive_witness:
  "\<not> (\<exists>b m'. findFieldModel (Some exampleBrowser) (UaNumeric 1 9) Map.empty = Some (Inr b, m'))"
  by (rule field_model_recursive [OF exampleBrowser_inj, where S = "{UaNumeric 1 9}"])
    (simp_all add: exampleBrowser_open recorded_def)

text \<open>Independent of what is recorded, a lookup only adds types, and adds its own when it is new.\<close>

lemma runModel_dom:
  "runModel nb tasks m = Some y \<Longrightarrow>
   dom m \<subseteq> dom (snd y) \<and> (isOk (fst y) \<longrightarrow> (\<forall>t\<in>set tasks. recorded nb (snd y) (taskType t)))"
proof (induction rule: runModel.raw_induct [rotated, consumes 1, case_names step])
  case (step run nb tasks m y)
  have more: "recorded nb m2 u" if "dom m1 \<subseteq> dom m2" "recorded nb m1 u" for m1 m2 u
    using that by (auto simp: recorded_def)
  show ?case
  proof (cases "({} :: ua_node_id set, False, tasks)" rule: stackStuck.cases)
    case (2 S' b u ts)
    show ?thesis
    proof (cases "recorded nb m u")
      case True
      then have "run nb ts m = Some y"
        using step.hyps 2 by (auto simp: recorded_def)
      then show ?thesis using step.IH [of nb ts m y] 2 more [OF _ True] by auto
    next
      case False
      show ?thesis
      proof (cases "openType nb u")
        case (Inl e)
        then show ?thesis using step.hyps 2 False by (auto simp: recorded_def)
      next
        case (Inr new)
        then obtain fs vs where new: "new = AddFields u fs vs" using openType_fields by blast
        have "run nb (new # ts) m = Some y"
          using step.hyps 2 False Inr by (simp add: recorded_def)
        then show ?thesis using step.IH [of nb "new # ts" m y] 2 new by simp
      qed
    qed
  next
    case (3 S' b n fs vals ts)
    show ?thesis
    proof (cases fs)
      case Nil
      obtain m2 where m2: "m2 = m(nbFullString nb n \<mapsto> vals)" by blast
      have "run nb ts m2 = Some y" using step.hyps 3 Nil m2 by simp
      moreover have "recorded nb m2 n" "dom m \<subseteq> dom m2" using m2 by (auto simp: recorded_def)
      ultimately show ?thesis using step.IH [of nb ts m2 y] 3 more [of m2 "snd y" n] by auto
    next
      case (Cons f gs)
      show ?thesis
      proof (cases "modelTypeOf (snd f)")
        case (Inl e)
        then show ?thesis using step.hyps 3 Cons by auto
      next
        case (Inr t)
        have "run nb ((if uaNamespaceIndex (snd f) \<noteq> 0 then [FindType (snd f)] else []) @
            AddFields n gs (vals(fst f \<mapsto> t)) # ts) m = Some y"
          using step.hyps 3 Cons Inr by simp
        from step.IH [OF this] show ?thesis using 3 by auto
      qed
    qed
  qed (use step.hyps in auto)
qed

lemma findFieldModel_dom:
  assumes "findFieldModel browser n m = Some (Inr changed, m')"
  shows "if changed then dom m \<subset> dom m' else m' = m"
proof (cases browser)
  case None
  then show ?thesis using assms by (simp add: findFieldModel_def)
next
  case (Some nb)
  show ?thesis
  proof (cases "recorded nb m n")
    case True
    then show ?thesis using assms Some by (simp add: findFieldModel_def recorded_def)
  next
    case False
    then obtain r where r: "runModel nb [FindType n] m = Some (Inr r, m')" "changed"
      using assms Some by (auto simp: findFieldModel_def recorded_def mapR_eq_Inr)
    have "dom m \<subseteq> dom m'" "recorded nb m' n" using runModel_dom [OF r(1)] by simp_all
    then show ?thesis using False r(2) by (auto simp: recorded_def)
  qed
qed

end
