(* ===== verification/Op_Monad.thy ===== *)
theory Op_Monad
  imports Prelude
begin

text \<open>
  Operations on the state of an object that may throw and may not return: the result is an error or a
  value together with the state left behind, or \<open>None\<close>. Shared by the Java data provider and the client.
\<close>

type_synonym ('s, 'a) op = "'s \<Rightarrow> ((cpp_error, 'a) res \<times> 's) option"

definition liftP :: "(cpp_error, 'a) res \<Rightarrow> ('s, 'a) op" where
  "liftP r = (\<lambda>s. Some (r, s))"

definition bindP :: "('s, 'a) op \<Rightarrow> ('a \<Rightarrow> ('s, 'b) op) \<Rightarrow> ('s, 'b) op" where
  "bindP m f = (\<lambda>s.
    case m s of
      None \<Rightarrow> None
    | Some (Inl e, s') \<Rightarrow> Some (Inl e, s')
    | Some (Inr x, s') \<Rightarrow> f x s')"

definition modifyP :: "('s \<Rightarrow> 's) \<Rightarrow> ('s, unit) op" where
  "modifyP f = (\<lambda>s. Some (Inr (), f s))"

definition getP :: "('s \<Rightarrow> 'a) \<Rightarrow> ('s, 'a) op" where
  "getP f = (\<lambda>s. Some (Inr (f s), s))"

text \<open>\<open>catch (Exception& e)\<close>; undefined behaviour is not caught.\<close>

definition catchP :: "('s, 'a) op \<Rightarrow> (cpp_error \<Rightarrow> ('s, 'a) op) \<Rightarrow> ('s, 'a) op" where
  "catchP m h = (\<lambda>s.
    case m s of
      Some (Inl e, s') \<Rightarrow> if e = UndefinedBehaviour then Some (Inl e, s') else h e s'
    | r \<Rightarrow> r)"

lemma opP_simps [simp]:
  "liftP r s = Some (r, s)"
  "modifyP f s = Some (Inr (), f s)"
  "getP g s = Some (Inr (g s), s)"
  "bindP (liftP (Inr x)) k = k x"
  "bindP (liftP (Inl e)) k = liftP (Inl e)"
  by (auto simp: liftP_def modifyP_def getP_def bindP_def)

lemma bindP_eq_Some:
  "bindP m f s = Some (Inr y, s') \<longleftrightarrow> (\<exists>x s1. m s = Some (Inr x, s1) \<and> f x s1 = Some (Inr y, s'))"
  by (auto simp: bindP_def split: option.splits sum.splits prod.splits)

lemma bindP_Inr [simp]: "m s = Some (Inr x, s1) \<Longrightarrow> bindP m f s = f x s1"
  by (simp add: bindP_def)

lemma bindP_modifyP [simp]: "bindP (modifyP g) f s = f () (g s)"
  by (simp add: bindP_def)

lemma bindP_getP [simp]: "bindP (getP g) f s = f (g s) s"
  by (simp add: bindP_def)

lemma bindP_liftP: "bindP (liftP r) f s = (case r of Inl e \<Rightarrow> Some (Inl e, s) | Inr x \<Rightarrow> f x s)"
  by (cases r) simp_all

lemma catchP_Inr [simp]: "m s = Some (Inr x, s1) \<Longrightarrow> catchP m h s = Some (Inr x, s1)"
  by (simp add: catchP_def)

text \<open>
  Partial correctness with an invariant of the object: an operation started in a state with the
  invariant and the precondition keeps the invariant, also when it throws, and its result has the
  postcondition. Nothing is said after undefined behaviour.
\<close>

definition hoareP :: "('s \<Rightarrow> bool) \<Rightarrow> ('s \<Rightarrow> bool) \<Rightarrow> ('s, 'a) op \<Rightarrow> ('a \<Rightarrow> 's \<Rightarrow> bool) \<Rightarrow> bool" where
  "hoareP J P m Q =
    (\<forall>s r s'. J s \<longrightarrow> P s \<longrightarrow> m s = Some (r, s') \<longrightarrow>
       r = Inl UndefinedBehaviour \<or> (J s' \<and> (\<forall>x. r = Inr x \<longrightarrow> Q x s')))"

lemma hoareP_lift: "(\<And>x s. r = Inr x \<Longrightarrow> J s \<Longrightarrow> P s \<Longrightarrow> Q x s) \<Longrightarrow> hoareP J P (liftP r) Q"
  by (auto simp: hoareP_def)

lemma hoareP_modify: "(\<And>s. J s \<Longrightarrow> P s \<Longrightarrow> J (f s) \<and> Q () (f s)) \<Longrightarrow> hoareP J P (modifyP f) Q"
  by (auto simp: hoareP_def)

lemma hoareP_get: "(\<And>s. J s \<Longrightarrow> P s \<Longrightarrow> Q (f s) s) \<Longrightarrow> hoareP J P (getP f) Q"
  by (auto simp: hoareP_def)

lemma hoareP_bind:
  assumes "hoareP J P m R" "\<And>x. hoareP J (R x) (f x) Q"
  shows "hoareP J P (bindP m f) Q"
  unfolding hoareP_def
proof (intro allI impI)
  fix s r s'
  assume J: "J s" and P: "P s" and run: "bindP m f s = Some (r, s')"
  then obtain q s1 where q: "m s = Some (q, s1)"
    by (auto simp: bindP_def split: option.splits)
  have one: "q = Inl UndefinedBehaviour \<or> (J s1 \<and> (\<forall>x. q = Inr x \<longrightarrow> R x s1))"
    using assms(1) J P q unfolding hoareP_def by blast
  show "r = Inl UndefinedBehaviour \<or> (J s' \<and> (\<forall>x. r = Inr x \<longrightarrow> Q x s'))"
  proof (cases q)
    case (Inl e)
    then show ?thesis using run q one by (auto simp: bindP_def)
  next
    case (Inr x)
    then have "f x s1 = Some (r, s')" using run q by (simp add: bindP_def)
    then show ?thesis using assms(2) [of x] one Inr unfolding hoareP_def by blast
  qed
qed

lemma hoareP_weaken:
  "hoareP J P' m Q' \<Longrightarrow> (\<And>s. J s \<Longrightarrow> P s \<Longrightarrow> P' s) \<Longrightarrow> (\<And>x s. J s \<Longrightarrow> Q' x s \<Longrightarrow> Q x s) \<Longrightarrow> hoareP J P m Q"
  unfolding hoareP_def by blast

lemma hoareP_catch:
  assumes "hoareP J P m Q" "\<And>e. hoareP J (\<lambda>_. True) (h e) Q"
  shows "hoareP J P (catchP m h) Q"
  unfolding hoareP_def
proof (intro allI impI)
  fix s r s'
  assume J: "J s" and P: "P s" and run: "catchP m h s = Some (r, s')"
  then obtain q s1 where q: "m s = Some (q, s1)"
    by (auto simp: catchP_def split: option.splits)
  have one: "q = Inl UndefinedBehaviour \<or> (J s1 \<and> (\<forall>x. q = Inr x \<longrightarrow> Q x s1))"
    using assms(1) J P q unfolding hoareP_def by blast
  show "r = Inl UndefinedBehaviour \<or> (J s' \<and> (\<forall>x. r = Inr x \<longrightarrow> Q x s'))"
  proof (cases "\<exists>e. q = Inl e \<and> e \<noteq> UndefinedBehaviour")
    case True
    then obtain e where e: "q = Inl e" "e \<noteq> UndefinedBehaviour" by blast
    then have "h e s1 = Some (r, s')" using run q by (simp add: catchP_def)
    then show ?thesis using assms(2) [of e] one e unfolding hoareP_def by blast
  next
    case False
    then have "r = q" "s' = s1" using run q by (cases q; auto simp: catchP_def)+
    then show ?thesis using one by simp
  qed
qed

lemma hoareP_if:
  "(b \<Longrightarrow> hoareP J P m Q) \<Longrightarrow> (\<not> b \<Longrightarrow> hoareP J P n Q) \<Longrightarrow> hoareP J P (if b then m else n) Q"
  by simp

text \<open>The invariant alone.\<close>

definition keepsP :: "('s \<Rightarrow> bool) \<Rightarrow> ('s, 'a) op \<Rightarrow> bool" where
  "keepsP J m = hoareP J (\<lambda>_. True) m (\<lambda>_ _. True)"

lemma keepsP_lift [simp]: "keepsP J (liftP r)" "keepsP J (\<lambda>s. Some (q, s))" "keepsP J (getP g)"
  by (auto simp: keepsP_def hoareP_def)

lemma keepsP_bind: "keepsP J m \<Longrightarrow> (\<And>x. keepsP J (f x)) \<Longrightarrow> keepsP J (bindP m f)"
  unfolding keepsP_def by (rule hoareP_bind)

lemma keepsP_catch: "keepsP J m \<Longrightarrow> (\<And>e. keepsP J (h e)) \<Longrightarrow> keepsP J (catchP m h)"
  unfolding keepsP_def by (rule hoareP_catch)

lemma keepsP_if: "keepsP J m \<Longrightarrow> keepsP J n \<Longrightarrow> keepsP J (if b then m else n)"
  by simp

lemma keepsP_run:
  "keepsP J m \<Longrightarrow> J s \<Longrightarrow> m s = Some (r, s') \<Longrightarrow> r \<noteq> Inl UndefinedBehaviour \<Longrightarrow> J s'"
  unfolding keepsP_def hoareP_def by blast

text \<open>What holds of a value that is returned, and that an operation returns at all.\<close>

definition yieldsP :: "('s, 'a) op \<Rightarrow> ('a \<Rightarrow> bool) \<Rightarrow> bool" where
  "yieldsP m Q = (\<forall>s x s'. m s = Some (Inr x, s') \<longrightarrow> Q x)"

lemma yieldsP_lift: "(\<And>x. r = Inr x \<Longrightarrow> Q x) \<Longrightarrow> yieldsP (liftP r) Q"
  by (simp add: yieldsP_def)

lemma yieldsP_bind_lift: "(\<And>x. r = Inr x \<Longrightarrow> yieldsP (f x) Q) \<Longrightarrow> yieldsP (bindP (liftP r) f) Q"
  by (cases r) (simp_all add: yieldsP_def)

lemma yieldsP_lift_simps [simp]:
  "yieldsP (liftP (Inr x) :: ('s, 'a) op) Q \<longleftrightarrow> Q x" "yieldsP (liftP (Inl e)) Q"
  "yieldsP (\<lambda>s :: 's. Some (Inr x, s)) Q \<longleftrightarrow> Q x"
  by (simp_all add: yieldsP_def)

lemma yieldsP_bind: "yieldsP m R \<Longrightarrow> (\<And>x. R x \<Longrightarrow> yieldsP (f x) Q) \<Longrightarrow> yieldsP (bindP m f) Q"
  unfolding yieldsP_def bindP_eq_Some by blast

lemma yieldsP_catch: "yieldsP m Q \<Longrightarrow> (\<And>e. yieldsP (h e) Q) \<Longrightarrow> yieldsP (catchP m h) Q"
  unfolding yieldsP_def catchP_def by (auto split: option.splits sum.splits prod.splits if_splits)

lemma yieldsP_if: "(b \<Longrightarrow> yieldsP m Q) \<Longrightarrow> (\<not> b \<Longrightarrow> yieldsP n Q) \<Longrightarrow> yieldsP (if b then m else n) Q"
  by simp

lemma yieldsP_weaken: "yieldsP m R \<Longrightarrow> (\<And>x. R x \<Longrightarrow> Q x) \<Longrightarrow> yieldsP m Q"
  unfolding yieldsP_def by blast

lemma yieldsP_True: "yieldsP m (\<lambda>_. True)"
  by (simp add: yieldsP_def)

definition returnsP :: "('s, 'a) op \<Rightarrow> bool" where
  "returnsP m = (\<forall>s. m s \<noteq> None)"

lemma returnsP_simps [simp]:
  "returnsP (liftP r)" "returnsP (modifyP f)" "returnsP (getP g)" "returnsP (\<lambda>s. Some (r, s))"
  by (simp_all add: returnsP_def)

lemma returnsP_bind: "returnsP m \<Longrightarrow> (\<And>x. returnsP (f x)) \<Longrightarrow> returnsP (bindP m f)"
  unfolding returnsP_def bindP_def by (auto split: option.splits sum.splits prod.splits)

lemma returnsP_catch: "returnsP m \<Longrightarrow> (\<And>e. returnsP (h e)) \<Longrightarrow> returnsP (catchP m h)"
  unfolding returnsP_def catchP_def by (auto split: option.splits sum.splits prod.splits)

lemma bindP_None: "m s = None \<Longrightarrow> bindP m f s = None"
  by (simp add: bindP_def)

lemma catchP_None: "m s = None \<Longrightarrow> catchP m h s = None"
  by (simp add: catchP_def)

text \<open>Monotonicity, for recursive operations that may not return.\<close>

lemma mono_option_const: "mono_option (\<lambda>f. c)"
  by (simp add: monotone_def flat_ord_def)

lemma mono_bindP:
  assumes "\<And>s. mono_option (\<lambda>f. m f s)" "\<And>x s. mono_option (\<lambda>f. k f x s)"
  shows "mono_option (\<lambda>f. bindP (m f) (k f) s)"
proof -
  have "mono_option (\<lambda>f. case p of (Inl e, s') \<Rightarrow> Some (Inl e, s') | (Inr x, s') \<Rightarrow> k f x s')" for p
    using assms(2) by (cases p; cases "fst p") (auto intro: mono_option_const)
  then have "mono_option (\<lambda>f. Option.bind (m f s)
      (\<lambda>p. case p of (Inl e, s') \<Rightarrow> Some (Inl e, s') | (Inr x, s') \<Rightarrow> k f x s'))"
    by (rule bind_mono [OF assms(1)])
  moreover have "bindP (m f) (k f) s = Option.bind (m f s)
      (\<lambda>p. case p of (Inl e, s') \<Rightarrow> Some (Inl e, s') | (Inr x, s') \<Rightarrow> k f x s')" for f
    by (auto simp: bindP_def split: option.split prod.split sum.split)
  ultimately show ?thesis by simp
qed

lemma mono_catchP:
  assumes "\<And>s. mono_option (\<lambda>f. m f s)" "\<And>e s. mono_option (\<lambda>f. h f e s)"
  shows "mono_option (\<lambda>f. catchP (m f) (h f) s)"
proof -
  let ?k = "\<lambda>f p. case p of (Inl e, s') \<Rightarrow> if e = UndefinedBehaviour then Some (Inl e, s') else h f e s'
    | (Inr x, s') \<Rightarrow> Some (Inr x, s')"
  have "mono_option (\<lambda>f. ?k f p)" for p
  proof (cases p)
    case (Pair r s')
    then show ?thesis
      using assms(2) by (cases r; cases "r = Inl UndefinedBehaviour") (simp_all add: mono_option_const)
  qed
  then have "mono_option (\<lambda>f. Option.bind (m f s) (?k f))" by (rule bind_mono [OF assms(1)])
  moreover have "catchP (m f) (h f) s = Option.bind (m f s) (?k f)" for f
    by (auto simp: catchP_def split: option.split prod.split sum.split)
  ultimately show ?thesis by simp
qed

lemma mono_ifP:
  "mono_option (\<lambda>f. m f s) \<Longrightarrow> mono_option (\<lambda>f. n f s) \<Longrightarrow> mono_option (\<lambda>f. (if b then m f else n f) s)"
  by (cases b) simp_all

lemmas mono_op = mono_bindP mono_catchP mono_ifP mono_option_const

end
