(* ===== verification/Client.thy ===== *)
theory Client
  imports Ha_Session Field_Model Type_Sources Converter_Bin2IO Converter_Io2Ua Op_Monad Subscriber
    "HOL-Library.Signed_Division"
begin

text \<open>
  The client behind the binary interface (\<open>binaryServer/Client.cpp\<close>): it serves the requests of the
  binary protocol with the services of one session, forwards data changes and events to a message
  handler, records the types of the variables and browses the server. The session is the one of
  \<open>Ha_Session\<close>, the conversions are compositions of the two converters.
\<close>

subsection \<open>State and services\<close>

text \<open>
  A message to the handler. The parameters of a notification and the fields of an event are maps ordered
  by the addresses of their keys; here they have the order in which they are added.
\<close>

datatype client_message =
    NotificationMessage c_ulong "(param_id \<times> bin_variant) list"
  | EventMessage c_ulong param_id bin_event
  | ModelMessage type_model
  | StateMessage c_int

text \<open>
  The server and the SDK: the services of the session, the definition of a structure (a null definition
  is \<open>None\<close>), the full text of a node id, the data type of a value, the variables found by browsing
  from a node, the number of name spaces, and what the message handler throws.
\<close>

record client_env =
  ceSession :: session_answers
  ceDefinition :: "ua_node_id \<Rightarrow> ua_structure_def option"
  ceFullString :: "ua_node_id \<Rightarrow> string"
  ceDataType :: "ua_variant \<Rightarrow> ua_node_id"
  ceVariables :: "ua_node_id \<Rightarrow> ua_node_id list"
  ceNamespaces :: nat
  ceHandler :: "client_message \<Rightarrow> cpp_error option"

record client =
  clSession :: "ha_session option"
  clNamespace :: c_int
  clMessageId :: c_ulong
  clListening :: bool
  clCache :: type_cache
  clFields :: type_model
  clSent :: "client_message list"

definition newClient :: client where
  "newClient = \<lparr>clSession = None, clNamespace = 0, clMessageId = 1, clListening = False,
     clCache = emptyCache, clFields = Map.empty, clSent = []\<rparr>"

text \<open>The session and the converter exist together; using them before is undefined.\<close>

definition sessionOf :: "client \<Rightarrow> (cpp_error, ha_session) res" where
  "sessionOf cl = (case clSession cl of None \<Rightarrow> Inl UndefinedBehaviour | Some hs \<Rightarrow> Inr hs)"

definition getSession :: "(client, ha_session) op" where
  "getSession = (\<lambda>cl. Some (sessionOf cl, cl))"

definition putSession :: "ha_session \<Rightarrow> (client, unit) op" where
  "putSession hs = modifyP (\<lambda>cl. cl\<lparr>clSession := Some hs\<rparr>)"

definition sendMessage :: "client_env \<Rightarrow> client_message \<Rightarrow> (client, unit) op" where
  "sendMessage env msg =
    bindP (modifyP (\<lambda>cl. cl\<lparr>clSent := clSent cl @ [msg]\<rparr>)) (\<lambda>_.
      liftP (case ceHandler env msg of None \<Rightarrow> Inr () | Some e \<Rightarrow> Inl e))"

subsection \<open>Conversions\<close>

text \<open>
  The callback of the converter asks the session. A walk up the type hierarchy that does not end counts
  as undefined. The converter asks through the cache, which answers what this callback answers
  (\<open>Type_Sources\<close>).
\<close>

definition sessionTypes :: "client_env \<Rightarrow> ha_session \<Rightarrow> ua_node_id \<Rightarrow> (cpp_error, ua_node_id list) res" where
  "sessionTypes env hs t =
    (case sessionSuperTypes (ceSession env) hs t of None \<Rightarrow> Inl UndefinedBehaviour | Some r \<Rightarrow> r)"

definition clientCallback :: "client_env \<Rightarrow> ha_session \<Rightarrow> type_callback" where
  "clientCallback env hs =
    \<lparr>tcSuperTypes = (\<lambda>t. mapR Some (sessionTypes env hs t)),
     tcDefinition = (\<lambda>t. if hxSession hs then Inr (ceDefinition env t) else Inl HaSessionException)\<rparr>"

definition clientTypes :: "client_env \<Rightarrow> ha_session \<Rightarrow> converter_env" where
  "clientTypes env hs =
    \<lparr>cbGetSuperTypes = (\<lambda>t. mapR Some (directSuperTypes (clientCallback env hs) t)),
     cbGetStructureDefinition = directDefinition (clientCallback env hs),
     sdkDataType = ceDataType env\<rparr>"

definition bin2uaNodeId :: "c_int \<Rightarrow> param_id \<Rightarrow> ua_node_id" where
  "bin2uaNodeId ns paramId = io2uaNodeId (bin2ioNodeId paramId ns)"

definition ua2binNodeId :: "ua_node_id \<Rightarrow> (cpp_error, param_id) res" where
  "ua2binNodeId nodeId = mapR io2binNodeId (ua2ioNodeId nodeId)"

definition bin2ua :: "converter_env \<Rightarrow> c_int \<Rightarrow> bin_variant \<Rightarrow> ua_node_id \<Rightarrow> (cpp_error, ua_variant) res" where
  "bin2ua types ns v destDataTypeId = bindR (bin2io ns v) (\<lambda>x. io2ua types x destDataTypeId)"

definition ua2bin :: "converter_env \<Rightarrow> ua_variant \<Rightarrow> ua_node_id \<Rightarrow> (cpp_error, bin_variant) res" where
  "ua2bin types v srcDataTypeId = bindR (ua2io types v srcDataTypeId) io2bin"

subsection \<open>Opening and closing\<close>

record client_options =
  coConnectTimeout :: "int option"

definition sessionConf :: "client_options \<Rightarrow> ha_configuration" where
  "sessionConf options =
    \<lparr>hcConnectTimeout = (case coConnectTimeout options of None \<Rightarrow> 5 | Some t \<Rightarrow> t), hcMaxReconnectDelay = 10\<rparr>"

text \<open>An earlier session is lost; the one of a failed open is deleted again.\<close>

definition clientOpen :: "client_env \<Rightarrow> bool \<Rightarrow> connect_env \<Rightarrow> client_options \<Rightarrow> (client, unit) op" where
  "clientOpen env platformGood conn options = (\<lambda>cl.
    if \<not> platformGood then Some (Inl ServerException, cl)
    else
      (case sessionOpen conn (sessionConf options) newHaSession of
         None \<Rightarrow> None
       | Some (Inl e, _) \<Rightarrow> Some (Inl e, cl)
       | Some (Inr _, hs) \<Rightarrow>
           Some (Inr (), cl\<lparr>clNamespace := of_nat (ceNamespaces env) - 1, clCache := emptyCache,
             clSession := Some hs, clListening := True\<rparr>)))"

text \<open>
  The thread that is joined was never created: its start is commented out. Deleting the session closes it
  once more, which does nothing after a successful close.
\<close>

definition clientClose :: "client_env \<Rightarrow> bool \<Rightarrow> (client, unit) op" where
  "clientClose env disconnectGood = (\<lambda>cl.
    let cl1 = cl\<lparr>clListening := False\<rparr>;
        (r, cl2) =
          (case clSession cl of
             None \<Rightarrow> (Inr (), cl1)
           | Some hs \<Rightarrow>
               (case sessionClose (svSubscription (ceSession env)) disconnectGood hs of
                  (r, hs') \<Rightarrow> (r, cl1\<lparr>clSession := Some hs'\<rparr>)))
    in
      case r of
        Inl e \<Rightarrow> Some (Inl e, cl2)
      | Inr _ \<Rightarrow>
          if clListening cl then Some (Inl UndefinedBehaviour, cl2)
          else Some (Inr (), cl2\<lparr>clSession := None, clCache := emptyCache\<rparr>))"

subsection \<open>Reading and writing\<close>

text \<open>The first attribute of the answer, or its exception.\<close>

definition readAttr :: "client_env \<Rightarrow> ha_session \<Rightarrow> ua_node_id \<Rightarrow> (cpp_error, node_attr) res" where
  "readAttr env hs nodeId =
    bindR (sessionRead (ceSession env) hs [nodeId]) (\<lambda>attrs.
      case attrs of
        [] \<Rightarrow> Inl UndefinedBehaviour
      | attr # _ \<Rightarrow> (case naException attr of Some e \<Rightarrow> Inl e | None \<Rightarrow> Inr attr))"

definition derefR :: "'a option \<Rightarrow> (cpp_error, 'a) res" where
  "derefR x = (case x of None \<Rightarrow> Inl UndefinedBehaviour | Some y \<Rightarrow> Inr y)"

text \<open>The response to a read: message id, status, parameter and value.\<close>

record read_response =
  rrMessageId :: c_ulong
  rrStatus :: nat
  rrParamId :: param_id
  rrValue :: bin_variant

definition clientRead :: "client_env \<Rightarrow> c_ulong \<Rightarrow> param_id \<Rightarrow> client \<Rightarrow> (cpp_error, read_response) res" where
  "clientRead env messageId paramId cl =
    bindR (sessionOf cl) (\<lambda>hs.
    bindR (readAttr env hs (bin2uaNodeId (clNamespace cl) paramId)) (\<lambda>attr.
    bindR (derefR (naValue attr)) (\<lambda>value.
    bindR (derefR (naDataType attr)) (\<lambda>dataType.
    bindR (ua2bin (clientTypes env hs) value dataType) (\<lambda>paramValue.
      Inr \<lparr>rrMessageId = messageId, rrStatus = 0, rrParamId = paramId, rrValue = paramValue\<rparr>)))))"

definition clientWrite :: "client_env \<Rightarrow> param_id \<Rightarrow> bin_variant \<Rightarrow> client \<Rightarrow> (cpp_error, unit) res" where
  "clientWrite env paramId paramValue cl =
    bindR (sessionOf cl) (\<lambda>hs.
    let nodeId = bin2uaNodeId (clNamespace cl) paramId in
    bindR (readAttr env hs nodeId) (\<lambda>attr.
    bindR (derefR (naDataType attr)) (\<lambda>dataType.
    bindR (bin2ua (clientTypes env hs) (clNamespace cl) paramValue dataType) (\<lambda>value.
      sessionWrite (ceSession env) hs [(nodeId, value)]))))"

subsection \<open>Calling\<close>

definition noCode :: "(cpp_error, 'a) res \<Rightarrow> (cpp_error \<times> 32 word option, 'a) res" where
  "noCode r = (case r of Inl e \<Rightarrow> Inl (e, None) | Inr x \<Rightarrow> Inr x)"

text \<open>More outputs than the method declares are read past the end of the declarations.\<close>

fun convertOutputs :: "converter_env \<Rightarrow> ua_variant list \<Rightarrow> ua_node_id list \<Rightarrow> (cpp_error, bin_variant list) res" where
  "convertOutputs types [] ts = Inr []"
| "convertOutputs types (v # vs) [] = Inl UndefinedBehaviour"
| "convertOutputs types (v # vs) (t # ts) =
     bindR (ua2bin types v t) (\<lambda>b. bindR (convertOutputs types vs ts) (\<lambda>bs. Inr (b # bs)))"

definition callMethod ::
  "client_env \<Rightarrow> ha_session \<Rightarrow> c_int \<Rightarrow> param_id \<Rightarrow> param_id \<Rightarrow> bin_variant list \<Rightarrow>
   (cpp_error \<times> 32 word option, bin_variant list) res"
where
  "callMethod env hs ns methodParam objectParam inputParams =
    (let methodId = bin2uaNodeId ns methodParam; objectId = bin2uaNodeId ns objectParam;
         types = clientTypes env hs in
     bindR (noCode (sessionMethodArguments (ceSession env) hs methodId)) (\<lambda>(inputArgs, outputArgs).
       if length inputParams \<noteq> length inputArgs then Inl (ServerException, None)
       else
         bindR (noCode (traverseR (\<lambda>(v, t). bin2ua types ns v t) (zip inputParams (map snd inputArgs)))) (\<lambda>inputValues.
         bindR (sessionCall (ceSession env) hs methodId objectId inputValues) (\<lambda>outputValues.
           noCode (convertOutputs types outputValues (map snd outputArgs))))))"

record call_response =
  crMessageId :: c_ulong
  crStatus :: nat
  crMethodId :: "param_id option"
  crParamId :: "param_id option"
  crParams :: "bin_variant list option"

text \<open>An exception with an error code is thrown on, any other is answered with an invalid parameter.\<close>

definition clientCall ::
  "client_env \<Rightarrow> c_ulong \<Rightarrow> param_id \<Rightarrow> param_id \<Rightarrow> bin_variant list \<Rightarrow> client \<Rightarrow>
   (cpp_error \<times> 32 word option, call_response) res"
where
  "clientCall env messageId methodParam objectParam inputParams cl =
    (case bindR (noCode (sessionOf cl)) (\<lambda>hs.
        callMethod env hs (clNamespace cl) methodParam objectParam inputParams) of
       Inl (e, code) \<Rightarrow>
         if e = UndefinedBehaviour \<or> code \<noteq> None then Inl (e, code)
         else Inr \<lparr>crMessageId = messageId, crStatus = 300, crMethodId = None, crParamId = None, crParams = None\<rparr>
     | Inr outputParams \<Rightarrow>
         Inr \<lparr>crMessageId = messageId, crStatus = 0, crMethodId = Some methodParam, crParamId = Some objectParam,
           crParams = Some outputParams\<rparr>)"

subsection \<open>Subscribing\<close>

text \<open>
  After the subscription the types of the attributes, of the event types and of their fields are loaded
  into the cache; an exception there leaves the nodes subscribed.
\<close>

definition sessionOp :: "(ha_session \<Rightarrow> ((cpp_error, 'a) res \<times> ha_session) option) \<Rightarrow> (client, 'a) op" where
  "sessionOp f =
    bindP getSession (\<lambda>hs cl. map_option (\<lambda>(r, hs'). (r, cl\<lparr>clSession := Some hs'\<rparr>)) (f hs))"

fun preloadAll :: "type_callback \<Rightarrow> ua_node_id option list \<Rightarrow> (client, unit) op" where
  "preloadAll cb [] = liftP (Inr ())"
| "preloadAll cb (t # ts) =
     bindP (liftP (derefR t)) (\<lambda>typeId.
     bindP (\<lambda>cl. map_option (\<lambda>(r, c). (r, cl\<lparr>clCache := c\<rparr>)) (preload cb typeId (clCache cl))) (\<lambda>_.
       preloadAll cb ts))"

definition subscribedTypes :: "ua_node_id \<Rightarrow> node_attr list \<Rightarrow> event_fields \<Rightarrow> ua_node_id option list" where
  "subscribedTypes nodeId attrs evs =
    map naDataType attrs @
    (case evs nodeId of None \<Rightarrow> [] | Some fs \<Rightarrow> Some nodeId # map efDataTypeId fs)"

definition clientSubscribe :: "client_env \<Rightarrow> param_id \<Rightarrow> (client, unit) op" where
  "clientSubscribe env paramId =
    bindP getSession (\<lambda>hs.
    bindP (getP (\<lambda>cl. bin2uaNodeId (clNamespace cl) paramId)) (\<lambda>nodeId.
    bindP (sessionOp (sessionSubscribe (ceSession env) [nodeId])) (\<lambda>(attrs, evs).
      preloadAll (clientCallback env hs) (subscribedTypes nodeId attrs evs))))"

definition clientUnsubscribe :: "client_env \<Rightarrow> param_id \<Rightarrow> (client, unit) op" where
  "clientUnsubscribe env paramId =
    bindP (getP (\<lambda>cl. bin2uaNodeId (clNamespace cl) paramId)) (\<lambda>nodeId.
      sessionOp (\<lambda>hs. Some (sessionUnsubscribe (ceSession env) (Some [nodeId]) hs)))"

subsection \<open>Data changes\<close>

definition changedElement :: "converter_env \<Rightarrow> node_attr \<Rightarrow> (cpp_error, param_id \<times> bin_variant) res" where
  "changedElement types attr =
    (case naException attr of
       Some e \<Rightarrow> Inl e
     | None \<Rightarrow>
         bindR (ua2binNodeId (naNodeId attr)) (\<lambda>paramId.
         bindR (derefR (naValue attr)) (\<lambda>value.
         bindR (derefR (naDataType attr)) (\<lambda>dataType.
           mapR (\<lambda>b. (paramId, b)) (ua2bin types value dataType)))))"

text \<open>One notification with what could be converted; an exception tells whether anything failed.\<close>

definition clientDataChanged :: "client_env \<Rightarrow> node_attr list \<Rightarrow> (client, unit) op" where
  "clientDataChanged env attrs =
    bindP getSession (\<lambda>hs.
    bindP (liftP (traverseR (\<lambda>attr. attemptR (changedElement (clientTypes env hs) attr)) attrs)) (\<lambda>results.
    bindP (getP clMessageId) (\<lambda>messageId.
    bindP (modifyP (\<lambda>cl. cl\<lparr>clMessageId := clMessageId cl + 1\<rparr>)) (\<lambda>_.
    let elements = List.map_filter id results; failed = (None \<in> set results) in
    bindP
      (if elements \<noteq> [] then
         catchP (bindP (sendMessage env (NotificationMessage messageId elements)) (\<lambda>_. liftP (Inr True)))
           (\<lambda>_. liftP (Inr False))
       else liftP (Inr True)) (\<lambda>sent.
      liftP (if failed \<or> \<not> sent then Inl ServerException else Inr ()))))))"

definition clientStateChanged :: "client_env \<Rightarrow> c_int \<Rightarrow> (client, unit) op" where
  "clientStateChanged env state = sendMessage env (StateMessage state)"

subsection \<open>Events\<close>

definition OpcUaId_BaseEventType_SourceNode :: "32 word" where "OpcUaId_BaseEventType_SourceNode = 2044"
definition OpcUaId_BaseEventType_Time :: "32 word" where "OpcUaId_BaseEventType_Time = 2046"
definition OpcUaId_BaseEventType_Message :: "32 word" where "OpcUaId_BaseEventType_Message = 2050"
definition OpcUaId_BaseEventType_Severity :: "32 word" where "OpcUaId_BaseEventType_Severity = 2051"

text \<open>100 ns since 1601 to milliseconds since 1970, with the division of C++.\<close>

definition eventMillis :: "64 word \<Rightarrow> 64 word" where
  "eventMillis ticks = word_of_int ((sint ticks sdiv 10) sdiv 1000 - 11644473600000)"

record event_parts =
  epParamId :: "param_id option"
  epTimeStamp :: "64 word option"
  epSeverity :: "16 word option"
  epMessage :: "string option"
  epElements :: "(param_id \<times> bin_variant) list"

definition noParts :: event_parts where
  "noParts = \<lparr>epParamId = None, epTimeStamp = None, epSeverity = None, epMessage = None, epElements = []\<rparr>"

fun elemUInt :: "io_variant \<Rightarrow> (cpp_error, c_uint) res" where
  "elemUInt (IOScalar (IOUInt v)) = Inr v"
| "elemUInt _ = Inl UndefinedBehaviour"

text \<open>A localized text keeps its text where a string keeps its value.\<close>

fun elemText :: "io_variant \<Rightarrow> (cpp_error, string) res" where
  "elemText (IOScalar (IOString (Some s))) = Inr s"
| "elemText (IOScalar (IOLocalizedText l (Some s))) = Inr s"
| "elemText _ = Inl UndefinedBehaviour"

definition baseField :: "converter_env \<Rightarrow> 32 word \<Rightarrow> event_field \<Rightarrow> event_parts \<Rightarrow> (cpp_error, event_parts) res" where
  "baseField types i f parts =
    (if i = OpcUaId_BaseEventType_SourceNode then
       bindR (derefR (efValue f)) (\<lambda>value.
       bindR (ua2binNodeId (case value of UaNodeIdVal n \<Rightarrow> n | _ \<Rightarrow> nullId)) (\<lambda>p.
         Inr (parts\<lparr>epParamId := Some p\<rparr>)))
     else if i \<in> {OpcUaId_BaseEventType_Time, OpcUaId_BaseEventType_Severity, OpcUaId_BaseEventType_Message} then
       bindR (derefR (efValue f)) (\<lambda>value.
       bindR (derefR (efDataTypeId f)) (\<lambda>dataType.
       bindR (ua2io types value dataType) (\<lambda>v.
         if i = OpcUaId_BaseEventType_Time then mapR (\<lambda>t. parts\<lparr>epTimeStamp := Some (eventMillis t)\<rparr>) (elemLLong v)
         else if i = OpcUaId_BaseEventType_Severity then mapR (\<lambda>s. parts\<lparr>epSeverity := Some (ucast s)\<rparr>) (elemUInt v)
         else mapR (\<lambda>m. parts\<lparr>epMessage := Some m\<rparr>) (elemText v))))
     else Inr parts)"

definition addEventField :: "converter_env \<Rightarrow> event_field \<Rightarrow> event_parts \<Rightarrow> (cpp_error, event_parts) res" where
  "addEventField types f parts =
    (case efException f of
       Some e \<Rightarrow> Inl e
     | None \<Rightarrow>
         if uaNamespaceIndex (efNodeId f) = 0 then
           bindR (identifierNumeric (efNodeId f)) (\<lambda>i. baseField types i f parts)
         else
           bindR (ua2binNodeId (efNodeId f)) (\<lambda>p.
           bindR (derefR (efValue f)) (\<lambda>value.
           bindR (derefR (efDataTypeId f)) (\<lambda>dataType.
           bindR (ua2bin types value dataType) (\<lambda>b.
             Inr (parts\<lparr>epElements := epElements parts @ [(p, b)]\<rparr>))))))"

fun addEventFields :: "converter_env \<Rightarrow> event_field list \<Rightarrow> event_parts \<Rightarrow> (cpp_error, event_parts) res" where
  "addEventFields types [] parts = Inr parts"
| "addEventFields types (f # fs) parts = bindR (addEventField types f parts) (addEventFields types fs)"

definition prepareEvent ::
  "converter_env \<Rightarrow> ua_node_id \<times> event_field list \<Rightarrow> (cpp_error, param_id \<times> event_parts) res"
where
  "prepareEvent types event =
    bindR (ua2binNodeId (fst event)) (\<lambda>eventTypeId.
      mapR (\<lambda>parts. (eventTypeId, parts)) (addEventFields types (snd event) noParts))"

text \<open>An event without one of the four base fields reads what was never set.\<close>

definition binEvent :: "c_ulong \<Rightarrow> param_id \<times> event_parts \<Rightarrow> (cpp_error, client_message) res" where
  "binEvent messageId prepared =
    (case prepared of (eventTypeId, parts) \<Rightarrow>
      bindR (derefR (epParamId parts)) (\<lambda>paramId.
      bindR (derefR (epTimeStamp parts)) (\<lambda>timeStamp.
      bindR (derefR (epSeverity parts)) (\<lambda>severity.
      bindR (derefR (epMessage parts)) (\<lambda>message.
        Inr (EventMessage messageId paramId \<lparr>evId = eventTypeId, evMessage = message, evTimeStamp = timeStamp,
          evSeverity = ucast severity, evParams = epElements parts\<rparr>))))))"

text \<open>An event that fails does not keep the later ones from being sent.\<close>

definition sendEvent :: "client_env \<Rightarrow> converter_env \<Rightarrow> ua_node_id \<times> event_field list \<Rightarrow> (client, bool) op" where
  "sendEvent env types event =
    bindP (liftP (attemptR (prepareEvent types event))) (\<lambda>prepared.
      case prepared of
        None \<Rightarrow> liftP (Inr False)
      | Some p \<Rightarrow>
          bindP (getP clMessageId) (\<lambda>messageId.
          bindP (modifyP (\<lambda>cl. cl\<lparr>clMessageId := clMessageId cl + 1\<rparr>)) (\<lambda>_.
          bindP (liftP (binEvent messageId p)) (\<lambda>msg.
            catchP (bindP (sendMessage env msg) (\<lambda>_. liftP (Inr True))) (\<lambda>_. liftP (Inr False))))))"

fun sendEvents ::
  "client_env \<Rightarrow> converter_env \<Rightarrow> (ua_node_id \<times> event_field list) list \<Rightarrow> bool \<Rightarrow> (client, bool) op"
where
  "sendEvents env types [] good = liftP (Inr good)"
| "sendEvents env types (e # es) good =
     bindP (sendEvent env types e) (\<lambda>sent. sendEvents env types es (good \<and> sent))"

definition clientNewEvents :: "client_env \<Rightarrow> (ua_node_id \<times> event_field list) list \<Rightarrow> (client, unit) op" where
  "clientNewEvents env events =
    bindP getSession (\<lambda>hs.
    bindP (sendEvents env (clientTypes env hs) events True) (\<lambda>good.
      liftP (if good then Inr () else Inl ServerException)))"

subsection \<open>The model of the types\<close>

text \<open>
  \<open>findFieldModel\<close> is the one of the Java data provider over the session; a null definition has no
  children.
\<close>

definition sessionBrowser :: "client_env \<Rightarrow> ha_session \<Rightarrow> node_browser" where
  "sessionBrowser env hs =
    \<lparr>nbVariable = (\<lambda>_. None),
     nbStructureDefinition = (\<lambda>t. case ceDefinition env t of
       None \<Rightarrow> \<lparr>sdIsUnion = False, sdChildren = []\<rparr> | Some sd \<Rightarrow> sd),
     nbSuperTypes = sessionTypes env hs,
     nbOutputTypes = (\<lambda>_. None),
     nbObjectTypeReferences = (\<lambda>_. None),
     nbFullString = ceFullString env\<rparr>"

definition clientFindModel :: "client_env \<Rightarrow> ua_node_id \<Rightarrow> (client, bool) op" where
  "clientFindModel env start =
    bindP getSession (\<lambda>hs cl.
      if clFields cl (ceFullString env start) = None \<and> \<not> hxSession hs then Some (Inl HaSessionException, cl)
      else
        map_option (\<lambda>(r, m). (r, cl\<lparr>clFields := m\<rparr>))
          (findFieldModel (Some (sessionBrowser env hs)) start (clFields cl)))"

definition modelPut :: "string \<Rightarrow> string \<Rightarrow> model_type \<Rightarrow> type_model \<Rightarrow> type_model" where
  "modelPut key name t m = m(key \<mapsto> (case m key of None \<Rightarrow> Map.empty | Some vals \<Rightarrow> vals)(name \<mapsto> t))"

text \<open>One entry: the reference is recorded, its type is looked up.\<close>

definition recordModel :: "client_env \<Rightarrow> param_id \<Rightarrow> string \<Rightarrow> ua_node_id \<Rightarrow> (client, unit) op" where
  "recordModel env paramId name dataType =
    bindP (modifyP (\<lambda>cl. cl\<lparr>clFields :=
      modelPut (paramIdToString paramId) name (refModelType (ceFullString env dataType)) (clFields cl)\<rparr>)) (\<lambda>_.
    bindP (clientFindModel env dataType) (\<lambda>_.
    bindP (getP clFields) (\<lambda>m. sendMessage env (ModelMessage m))))"

fun checkArguments :: "client_env \<Rightarrow> param_id \<Rightarrow> (string \<times> ua_node_id) list \<Rightarrow> (client, string list) op" where
  "checkArguments env paramId [] = liftP (Inr [])"
| "checkArguments env paramId ((name, dataType) # args) =
     bindP (recordModel env paramId name dataType) (\<lambda>_.
     bindP (checkArguments env paramId args) (\<lambda>names. liftP (Inr (name # names))))"

text \<open>The one variable found by browsing from a node, as a value.\<close>

definition getVariable :: "client_env \<Rightarrow> ha_session \<Rightarrow> ua_node_id \<Rightarrow> (cpp_error, ua_variant) res" where
  "getVariable env hs nodeId =
    (if \<not> hxSession hs then Inl UndefinedBehaviour
     else Inr (case ceVariables env nodeId of [v] \<Rightarrow> UaNodeIdVal v | _ \<Rightarrow> UaBool False))"

text \<open>For a variable the data type is that of the value above, which is a node id or a boolean.\<close>

definition checkModel :: "client_env \<Rightarrow> param_id \<Rightarrow> int \<Rightarrow> (client, string list) op" where
  "checkModel env paramId type =
    bindP getSession (\<lambda>hs.
    bindP (getP (\<lambda>cl. bin2uaNodeId (clNamespace cl) paramId)) (\<lambda>nodeId.
      if type = 0 then
        bindP (liftP (sessionMethodArguments (ceSession env) hs nodeId)) (\<lambda>(inputArgs, _).
          checkArguments env paramId inputArgs)
      else
        bindP (liftP (getVariable env hs nodeId)) (\<lambda>v.
        let dataType = ceDataType env v in
        bindP (recordModel env paramId (ceFullString env dataType) dataType) (\<lambda>_.
          liftP (Inr [ceFullString env dataType])))))"

subsection \<open>Browsing\<close>

text \<open>
  A reference has the bits of its node class, its node and the text of its browse name. The attributes
  of the references of the first answer start empty; those of the later answers keep the last ones.
\<close>

record client_reference =
  cfNodeClass :: "32 word"
  cfNodeId :: ua_node_id
  cfBrowseName :: string

type_synonym browse_values = "string \<Rightarrow> string option"
type_synonym browse_fields = "string \<Rightarrow> browse_values option"

definition nodeClassNames :: "(nat \<times> string) list" where
  "nodeClassNames = [(0, ''Object''), (1, ''Variable''), (2, ''Method''), (3, ''ObjectType''), (4, ''VariableType''),
     (5, ''ReferenceType''), (6, ''DataType''), (7, ''View'')]"

definition classValues :: "32 word \<Rightarrow> browse_values \<Rightarrow> browse_values" where
  "classValues cls vals =
    foldl (\<lambda>m p. if bit cls (fst p) then m(''NodeClass'' \<mapsto> snd p) else m) vals nodeClassNames"

definition identifierValues :: "ua_node_id \<Rightarrow> browse_values \<Rightarrow> browse_values option" where
  "identifierValues n vals =
    (case n of
       UaNumeric _ i \<Rightarrow> Some (vals(''Identifier'' \<mapsto> showNat (unat i), ''IdentifierType'' \<mapsto> ''Numeric''))
     | UaString _ s \<Rightarrow> Some (vals(''Identifier'' \<mapsto> cstr s, ''IdentifierType'' \<mapsto> ''String''))
     | _ \<Rightarrow> None)"

text \<open>The attributes after a reference, and the fields with its entry when its identifier is known.\<close>

definition browseReference ::
  "(ua_node_id \<Rightarrow> string) \<Rightarrow> string \<Rightarrow> client_reference \<Rightarrow> browse_values \<times> browse_fields \<Rightarrow> browse_values \<times> browse_fields"
where
  "browseReference full prefix r = (\<lambda>(vals, fieldData).
    let n = cfNodeId r;
        v1 = (classValues (cfNodeClass r) vals)(''IdentifierFull'' \<mapsto> full n)
    in
      case identifierValues n v1 of
        None \<Rightarrow> (v1, fieldData)
      | Some v2 \<Rightarrow>
          (let v3 = v2(''BrowseName'' \<mapsto> cfBrowseName r, ''TreeName'' \<mapsto> prefix @ ''.'' @ cfBrowseName r,
                 ''NamespaceIndex'' \<mapsto> showNat (unat (uaNamespaceIndex n)))
           in (v3, fieldData(full n \<mapsto> v3))))"

definition browseFirst ::
  "(ua_node_id \<Rightarrow> string) \<Rightarrow> string \<Rightarrow> client_reference list \<Rightarrow> browse_values \<times> browse_fields \<Rightarrow> browse_values \<times> browse_fields"
where
  "browseFirst full prefix rs st =
    foldl (\<lambda>st r. browseReference full prefix r (Map.empty, snd st)) st rs"

definition browseMore ::
  "(ua_node_id \<Rightarrow> string) \<Rightarrow> string \<Rightarrow> client_reference list \<Rightarrow> browse_values \<times> browse_fields \<Rightarrow> browse_values \<times> browse_fields"
where
  "browseMore full prefix rs st = foldl (\<lambda>st r. browseReference full prefix r st) st rs"

text \<open>
  The answers: the first one, and one for each further request, each with its references (or a bad
  status) and whether a continuation point is left. A bad status does not end the loop.
\<close>

record browse_answers =
  baFirst :: "client_reference list option \<times> bool"
  baNext :: "nat \<Rightarrow> client_reference list option \<times> bool"

partial_function (option) browseLoop ::
  "(ua_node_id \<Rightarrow> string) \<Rightarrow> string \<Rightarrow> browse_answers \<Rightarrow> nat \<Rightarrow> bool \<Rightarrow> browse_values \<times> browse_fields \<Rightarrow>
   browse_fields option"
where
  "browseLoop full prefix ba k continue st =
    (if \<not> continue then Some (snd st)
     else
       browseLoop full prefix ba (Suc k) (snd (baNext ba k))
         (case fst (baNext ba k) of None \<Rightarrow> st | Some rs \<Rightarrow> browseMore full prefix rs st))"

definition clientBrowse :: "(ua_node_id \<Rightarrow> string) \<Rightarrow> string \<Rightarrow> browse_answers \<Rightarrow> browse_fields option" where
  "clientBrowse full prefix ba =
    (case fst (baFirst ba) of
       None \<Rightarrow> Some Map.empty
     | Some rs \<Rightarrow>
         browseLoop full prefix ba 0 (snd (baFirst ba)) (browseFirst full prefix rs (Map.empty, Map.empty)))"

subsection \<open>Values on their way to the server and back\<close>

text \<open>
  The integers of the binary protocol are signed, so the unsigned types of OPC UA up to 32 bits are
  reached by the next wider signed one.
\<close>

definition binUaExact :: "32 word \<Rightarrow> bin_scalar \<Rightarrow> bool" where
  "binUaExact i s \<longleftrightarrow>
    (case s of
       BInt v \<Rightarrow> ioUaExact i (IOLong v) \<or> i = OpcUaType_UInt16 \<and> uint v < 2 ^ 16
     | BLong v \<Rightarrow> ioUaExact i (IOLLong v) \<or> i = OpcUaType_UInt32 \<and> uint v < 2 ^ 32
     | _ \<Rightarrow> ioUaExact i (bin2ioScalar s))"

lemma bin2ua_scalar: "bin2ua types ns (BScalar s) ty = io2ua types (IOScalar (bin2ioScalar s)) ty"
  by (simp add: bin2ua_def)

lemma small_uint_sint: "uint (w :: 64 word) < 2 ^ 63 \<Longrightarrow> 0 \<le> sint w"
proof -
  assume u: "uint w < 2 ^ 63"
  have "- (2 ^ 63) \<le> uint w" by (rule order_trans [of _ 0]) simp_all
  with u have "sint w = uint w"
    unfolding sint_uint by (intro signed_take_bit_int_eq_self) simp_all
  then show ?thesis by simp
qed

lemma narrow16_exact_iff: "ucast (ucast (ucast (w :: 64 word) :: 16 word) :: 32 word) = w \<longleftrightarrow> uint w < 2 ^ 16"
proof -
  have "uint (ucast (ucast (ucast w :: 16 word) :: 32 word) :: 64 word) = take_bit 16 (uint w)"
    by transfer (simp add: min_def)
  then show ?thesis
    by (simp only: word_uint_eq_iff take_bit_int_eq_self_iff) simp
qed

lemma client_scalar_exact:
  "bindR (bin2ua types ns (BScalar s) (UaNumeric 0 i)) (\<lambda>u. ua2bin types u (UaNumeric 0 i)) = Inr (BScalar s)
     \<longleftrightarrow> binUaExact i s"
proof (cases s)
  case (BInt v)
  show ?thesis
    using small_uint_sint [of v]
    by (auto simp: BInt bin2ua_scalar ua2bin_def scalar_trip_defs ioUaExact_def binUaExact_def narrow_exact_iff
        narrow16_exact_iff checkUInt16_def)
next
  case (BLong v)
  show ?thesis
    using small_uint_sint [of v]
    by (auto simp: BLong bin2ua_scalar ua2bin_def scalar_trip_defs ioUaExact_def binUaExact_def narrow_exact_iff
        checkUInt32_def)
qed (auto simp: bin2ua_scalar ua2bin_def scalar_trip_defs ioUaExact_def binUaExact_def narrow_exact_iff split: option.splits)

text \<open>A node whose class is not that of an event type, with a readable value of a built-in type.\<close>

definition variableAnswer :: "(ua_node_id \<Rightarrow> attr_id \<Rightarrow> bool \<times> ua_variant) \<Rightarrow> ua_node_id \<Rightarrow> 32 word \<Rightarrow> bool" where
  "variableAnswer val n i \<longleftrightarrow>
    classesReadable val n \<and> readable (classAttr val n) \<and> fst (val n AttrValue) \<and>
    val n AttrDataType = (True, UaNodeIdVal (UaNumeric 0 i))"

lemma readAttr_variable:
  assumes "hxSession hs" "answersEach (ceSession env) val" "variableAnswer val n i"
  shows "\<exists>attr. readAttr env hs n = Inr attr \<and> naValue attr = Some (snd (val n AttrValue)) \<and>
    naDataType attr = Some (UaNumeric 0 i)"
proof -
  have "sessionRead (ceSession env) hs [n] = Inr [expectedAttr val n]"
    using sessionRead_each [OF assms(1,2), of "[n]"] assms(3) by (simp add: variableAnswer_def)
  then show ?thesis
    using assms(3)
    by (simp add: readAttr_def variableAnswer_def expectedAttr_def mergeAttr_def valueAttr_def readable_def)
qed

text \<open>
  C4. A scalar written to a variable is handed to the server as one write of one value, and once the server
  answers with that value, a read returns the scalar, provided it is in the range of the type of the
  variable.
\<close>

theorem client_write_read:
  assumes "clSession cl = Some hs" "hxSession hs"
    and "answersEach (ceSession env) val" "variableAnswer val (bin2uaNodeId (clNamespace cl) p) i"
    and "binUaExact i s"
  shows "\<exists>u. bin2ua (clientTypes env hs) (clNamespace cl) (BScalar s) (UaNumeric 0 i) = Inr u \<and>
    clientWrite env p (BScalar s) cl =
      sessionWrite (ceSession env) hs [(bin2uaNodeId (clNamespace cl) p, u)] \<and>
    (\<forall>env' val' messageId. answersEach (ceSession env') val' \<longrightarrow>
       variableAnswer val' (bin2uaNodeId (clNamespace cl) p) i \<longrightarrow>
       snd (val' (bin2uaNodeId (clNamespace cl) p) AttrValue) = u \<longrightarrow>
       clientRead env' messageId p cl =
         Inr \<lparr>rrMessageId = messageId, rrStatus = 0, rrParamId = p, rrValue = BScalar s\<rparr>)"
proof -
  let ?ty = "UaNumeric 0 i"
  obtain u where u: "bin2ua (clientTypes env hs) (clNamespace cl) (BScalar s) ?ty = Inr u"
    using client_scalar_exact [of "clientTypes env hs" "clNamespace cl" s i] assms(5) by (auto simp: bindR_eq_Inr)
  have home: "ua2bin types u ?ty = Inr (BScalar s)" for types
    using client_scalar_exact [of types "clNamespace cl" s i] assms(5) u by (simp add: bin2ua_scalar getBuildInType_def)
  show ?thesis
  proof (intro exI [of _ u] conjI allI impI)
    show "bin2ua (clientTypes env hs) (clNamespace cl) (BScalar s) ?ty = Inr u" by (rule u)
  next
    show "clientWrite env p (BScalar s) cl = sessionWrite (ceSession env) hs [(bin2uaNodeId (clNamespace cl) p, u)]"
      using readAttr_variable [OF assms(2-4)] assms(1) u
      by (auto simp: clientWrite_def sessionOf_def derefR_def)
  next
    fix env' :: client_env and val' messageId
    assume "answersEach (ceSession env') val'" "variableAnswer val' (bin2uaNodeId (clNamespace cl) p) i"
      "snd (val' (bin2uaNodeId (clNamespace cl) p) AttrValue) = u"
    from readAttr_variable [OF assms(2) this(1,2)] this(3)
    show "clientRead env' messageId p cl =
        Inr \<lparr>rrMessageId = messageId, rrStatus = 0, rrParamId = p, rrValue = BScalar s\<rparr>"
      using assms(1) home by (auto simp: clientRead_def sessionOf_def derefR_def)
  qed
qed

definition exampleClientEnv :: client_env where
  "exampleClientEnv = \<lparr>ceSession = exampleSv, ceDefinition = (\<lambda>_. None), ceFullString = exampleText,
     ceDataType = (\<lambda>v. case v of UaNodeIdVal _ \<Rightarrow> UaNumeric 0 17 | _ \<Rightarrow> UaNumeric 0 1),
     ceVariables = (\<lambda>n. [n]), ceNamespaces = 5, ceHandler = (\<lambda>_. None)\<rparr>"

definition exampleClient :: client where
  "exampleClient = newClient\<lparr>clSession := Some openHaSession, clNamespace := 4, clListening := True\<rparr>"

text \<open>A parameter without a name space of its own.\<close>

definition exampleParam :: param_id where
  "exampleParam = ParamNumeric (- 1) 4"

lemma exampleParam_node: "bin2uaNodeId (clNamespace exampleClient) exampleParam = UaNumeric 4 4"
  by (simp add: bin2uaNodeId_def exampleParam_def exampleClient_def bin2ioNodeId_def io2uaNodeId_def)

lemma exampleVariable: "variableAnswer exampleReading (UaNumeric 4 4) 6"
  by (simp add: variableAnswer_def classesReadable_example) (simp add: example_session_defs)

lemma client_write_read_witness:
  "clientRead exampleClientEnv 9 exampleParam exampleClient =
     Inr \<lparr>rrMessageId = 9, rrStatus = 0, rrParamId = exampleParam, rrValue = BScalar (BInt 5)\<rparr>"
proof -
  have "clSession exampleClient = Some openHaSession" "hxSession openHaSession"
    "answersEach (ceSession exampleClientEnv) exampleReading"
    by (simp_all add: exampleClient_def openHaSession_def exampleClientEnv_def exampleSv_each)
  then have "\<exists>u. bin2ua (clientTypes exampleClientEnv openHaSession) 4 (BScalar (BInt 5)) (UaNumeric 0 6) = Inr u \<and>
      (snd (exampleReading (UaNumeric 4 4) AttrValue) = u \<longrightarrow> ?thesis)"
    using client_write_read [of exampleClient openHaSession exampleClientEnv exampleReading exampleParam 6 "BInt 5"]
      exampleVariable exampleParam_node by (auto simp: binUaExact_def ioUaExact_def exampleClient_def)
  then show ?thesis by (simp add: bin2ua_scalar scalar_trip_defs exampleReading_def)
qed

subsection \<open>Calls\<close>

lemma noCode_simps [simp]: "noCode (Inl e) = Inl (e, None)" "noCode (Inr x) = Inr x"
  by (simp_all add: noCode_def)

lemma noCode_eq_Inr [simp]: "noCode m = Inr x \<longleftrightarrow> m = Inr x"
  by (cases m) simp_all

lemma noCode_eq_Inl [simp]: "noCode m = Inl (e, c) \<longleftrightarrow> m = Inl e \<and> c = None"
  by (cases m) auto

lemma convertOutputs_eq_Inr:
  "convertOutputs types vs ts = Inr bs \<longleftrightarrow>
   length vs \<le> length ts \<and> list_all2 (\<lambda>(v, t) b. ua2bin types v t = Inr b) (zip vs ts) bs"
  by (induction types vs ts arbitrary: bs rule: convertOutputs.induct)
    (auto simp: bindR_eq_Inr list_all2_Cons1)

text \<open>
  What a successful call takes: the declared arguments, converted inputs, one call of the server with good
  statuses, and converted outputs, at most as many as declared.
\<close>

definition callSucceeds ::
  "client_env \<Rightarrow> ha_session \<Rightarrow> c_int \<Rightarrow> param_id \<Rightarrow> param_id \<Rightarrow> bin_variant list \<Rightarrow> bin_variant list \<Rightarrow> bool"
where
  "callSucceeds env hs ns methodParam objectParam ps bs \<longleftrightarrow>
    hxSession hs \<and>
    (\<exists>ins outs vals q r os.
       svMethodArguments (ceSession env) (bin2uaNodeId ns methodParam) = Some (ins, outs) \<and>
       length ps = length ins \<and>
       list_all2 (\<lambda>(v, t) u. bin2ua (clientTypes env hs) ns v t = Inr u) (zip ps (map snd ins)) vals \<and>
       svCall (ceSession env) (bin2uaNodeId ns methodParam) (bin2uaNodeId ns objectParam) vals = (q, r, os) \<and>
       svStatusGood (ceSession env) q \<and> svStatusGood (ceSession env) r \<and>
       length os \<le> length outs \<and>
       list_all2 (\<lambda>(v, t) b. ua2bin (clientTypes env hs) v t = Inr b) (zip os (map snd outs)) bs)"

lemma callMethod_eq_Inr:
  "callMethod env hs ns m ob ps = Inr bs \<longleftrightarrow> callSucceeds env hs ns m ob ps bs"
proof (cases "hxSession hs")
  case True
  then show ?thesis
    by (cases "svMethodArguments (ceSession env) (bin2uaNodeId ns m)")
      (auto simp: callMethod_def callSucceeds_def Let_def bindR_eq_Inr sessionMethodArguments_def sessionCall_def
        traverseR_eq_Inr convertOutputs_eq_Inr case_prod_unfold prod_eq_iff split: if_splits)
qed (simp add: callMethod_def callSucceeds_def sessionMethodArguments_def)

lemma callMethod_code:
  assumes "callMethod env hs ns m ob ps = Inl (e, Some c)"
  shows "e = HaSessionException \<and> \<not> svStatusGood (ceSession env) c"
proof -
  have "sessionCall (ceSession env) hs x y vals = Inl (e, Some c) \<Longrightarrow>
      e = HaSessionException \<and> \<not> svStatusGood (ceSession env) c" for x y vals
    by (auto simp: sessionCall_def split: if_splits prod.splits)
  then show ?thesis
    using assms by (auto simp: callMethod_def Let_def bindR_eq_Inl split: if_splits)
qed


text \<open>The method of the example server returns what it is given.\<close>

definition exampleCallEnv :: client_env where
  "exampleCallEnv = exampleClientEnv\<lparr>ceSession := exampleSv\<lparr>svMethodArguments :=
     (\<lambda>_. Some ([(''in'', UaNumeric 0 6)], [(''out'', UaNumeric 0 6)]))\<rparr>\<rparr>"


subsection \<open>Closing\<close>

text \<open>
  After a client was opened, closing it never comes to a good end: either the session throws, or a
  thread is joined that was never created. Only a second attempt, after the session threw, can succeed.
\<close>

theorem client_close_after_open:
  "clientOpen env platformGood conn options cl = Some (Inr (), cl1) \<Longrightarrow>
   clientClose env disconnectGood cl1 = Some (r, cl2) \<Longrightarrow>
   \<not> isOk r \<and> (r \<noteq> Inl UndefinedBehaviour \<longrightarrow> r = Inl HaSessionException \<and> clListening cl2 = False)"
  by (auto simp: clientOpen_def clientClose_def sessionClose_def sessionOpen_def newHaSession_def Let_def
      removeAllItems_def newHaSubscription_def removeItems_none
      split: if_splits option.splits sum.splits prod.splits sub_pointer.splits)

subsection \<open>Data changes\<close>

lemma attempts_filter:
  "traverseR (\<lambda>x. attemptR (f x)) xs = Inr ys \<Longrightarrow>
   List.map_filter id ys = List.map_filter (\<lambda>x. case f x of Inr y \<Rightarrow> Some y | Inl _ \<Rightarrow> None) xs \<and>
   (None \<in> set ys \<longleftrightarrow> \<not> (\<forall>x\<in>set xs. isOk (f x)))"
proof (induction xs arbitrary: ys)
  case (Cons x xs)
  then obtain y zs where y: "attemptR (f x) = Inr y" "traverseR (\<lambda>x. attemptR (f x)) xs = Inr zs" "ys = y # zs"
    by (auto simp: bindR_eq_Inr)
  then show ?case
    using Cons.IH [OF y(2)] by (cases "f x") (auto simp: map_filter_simps attemptR_def split: if_splits)
qed (simp add: map_filter_simps)

text \<open>What can be converted, in order.\<close>

definition changedElements :: "converter_env \<Rightarrow> node_attr list \<Rightarrow> (param_id \<times> bin_variant) list" where
  "changedElements types attrs =
    List.map_filter (\<lambda>attr. case changedElement types attr of Inr e \<Rightarrow> Some e | Inl _ \<Rightarrow> None) attrs"

lemma sendMessage_eq:
  "sendMessage env msg cl = Some (case ceHandler env msg of None \<Rightarrow> Inr () | Some e \<Rightarrow> Inl e,
     cl\<lparr>clSent := clSent cl @ [msg]\<rparr>)"
  by (simp add: sendMessage_def)

text \<open>Sending, with what the handler throws caught.\<close>

lemma trySend:
  "catchP (bindP (sendMessage env msg) (\<lambda>_. liftP (Inr True))) (\<lambda>_. liftP (Inr False)) cl = Some (r, cl') \<Longrightarrow>
   r \<noteq> Inl UndefinedBehaviour \<Longrightarrow>
   r = Inr (ceHandler env msg = None) \<and> cl' = cl\<lparr>clSent := clSent cl @ [msg]\<rparr>"
  by (auto simp: catchP_def bindP_def sendMessage_eq split: option.splits if_splits)

text \<open>
  A data change sends at most one message, with the next message id and all the values that convert, in
  order; the message id is used up even when nothing is sent. It throws exactly when a value has an
  exception or does not convert, or the handler throws.
\<close>

theorem client_data_changed:
  "clSession cl = Some hs \<Longrightarrow> clientDataChanged env attrs cl = Some (r, cl') \<Longrightarrow> r \<noteq> Inl UndefinedBehaviour \<Longrightarrow>
   clSent cl' = clSent cl @
     (if changedElements (clientTypes env hs) attrs = [] then []
      else [NotificationMessage (clMessageId cl) (changedElements (clientTypes env hs) attrs)]) \<and>
   clMessageId cl' = clMessageId cl + 1 \<and>
   (isOk r \<longleftrightarrow> (\<forall>a\<in>set attrs. isOk (changedElement (clientTypes env hs) a)) \<and>
      (changedElements (clientTypes env hs) attrs \<noteq> [] \<longrightarrow>
        ceHandler env (NotificationMessage (clMessageId cl) (changedElements (clientTypes env hs) attrs)) = None)) \<and>
   (\<not> isOk r \<longrightarrow> r = Inl ServerException)"
proof -
  let ?f = "changedElement (clientTypes env hs)"
  let ?els = "changedElements (clientTypes env hs) attrs"
  let ?msg = "NotificationMessage (clMessageId cl) ?els"
  let ?cl1 = "cl\<lparr>clMessageId := clMessageId cl + 1\<rparr>"
  assume a: "clSession cl = Some hs" "clientDataChanged env attrs cl = Some (r, cl')" "r \<noteq> Inl UndefinedBehaviour"
  have session: "getSession cl = Some (Inr hs, cl)" using a(1) by (simp add: getSession_def sessionOf_def)
  have step: "\<exists>ys. traverseR (\<lambda>x. attemptR (?f x)) attrs = Inr ys"
  proof (cases "traverseR (\<lambda>x. attemptR (?f x)) attrs")
    case (Inl e)
    then have "e = UndefinedBehaviour"
      using traverseR_error_from [OF Inl] by auto
    then show ?thesis using a(2,3) session Inl by (simp add: clientDataChanged_def session)
  qed blast
  then obtain ys where ys: "traverseR (\<lambda>x. attemptR (?f x)) attrs = Inr ys" by blast
  note els = attempts_filter [OF ys, folded changedElements_def]
  show ?thesis
  proof (cases "?els = []")
    case True
    then show ?thesis
      using a(2) ys els by (auto simp: clientDataChanged_def session Let_def split: if_splits)
  next
    case False
    define op where "op = catchP (bindP (sendMessage env ?msg) (\<lambda>_. liftP (Inr True))) (\<lambda>_. liftP (Inr False) :: (client, bool) op)"
    have "op ?cl1 \<noteq> None" by (simp add: op_def catchP_def bindP_def sendMessage_eq split: option.splits)
    then obtain q cl2 where q: "op ?cl1 = Some (q, cl2)" by auto
    have run: "clientDataChanged env attrs cl =
        bindP op (\<lambda>sent. liftP (if None \<in> set ys \<or> \<not> sent then Inl ServerException else Inr ())) ?cl1"
      using ys els False by (simp add: clientDataChanged_def session Let_def op_def)
    then have "q \<noteq> Inl UndefinedBehaviour" using a(2,3) q by (auto simp: bindP_def split: sum.splits)
    from trySend [OF q [unfolded op_def] this] show ?thesis
      using a(2) run q els False by (auto split: if_splits)
  qed
qed

definition exampleChanges :: "node_attr list" where
  "exampleChanges = [variableRead (UaNumeric 4 4), (variableRead (UaNumeric 4 5))\<lparr>naException := Some HaSubscriptionException\<rparr>]"

lemma exampleChanges_elements:
  "changedElements types exampleChanges = [(ParamNumeric 4 4, BScalar (BInt 5))]"
  by (simp add: changedElements_def exampleChanges_def changedElement_def variableRead_def map_filter_simps
      ua2binNodeId_def ua2ioNodeId_def derefR_def ua2bin_def scalar_trip_defs)

lemma client_data_changed_witness:
  "\<exists>cl'. clientDataChanged exampleClientEnv exampleChanges exampleClient = Some (Inl ServerException, cl') \<and>
     clSent cl' = [NotificationMessage 1 [(ParamNumeric 4 4, BScalar (BInt 5))]]"
proof -
  have "\<exists>r cl'. clientDataChanged exampleClientEnv exampleChanges exampleClient = Some (r, cl') \<and> r = Inl ServerException"
    by (simp add: clientDataChanged_def getSession_def sessionOf_def exampleClient_def exampleChanges_def bindP_def
        changedElement_def variableRead_def ua2binNodeId_def ua2ioNodeId_def derefR_def ua2bin_def scalar_trip_defs
        attemptR_def map_filter_simps catchP_def sendMessage_eq exampleClientEnv_def)
  then obtain cl' where "clientDataChanged exampleClientEnv exampleChanges exampleClient = Some (Inl ServerException, cl')"
    by blast
  with client_data_changed [OF _ this] show ?thesis
    by (simp add: exampleChanges_elements exampleClient_def newClient_def)
qed

subsection \<open>Events\<close>

lemma sdiv_mult_self: "0 < m \<Longrightarrow> (k * m) sdiv m = (k :: int)"
  by (simp add: signed_divide_int_def abs_mult sgn_mult sgn_mult_abs)

lemma eventMillis_ticks:
  assumes "sint ticks = sint (time :: 64 word) * 10000 + 116444736000000000"
  shows "eventMillis ticks = time"
proof -
  have "sint ticks = ((sint time + 11644473600000) * 1000) * 10" using assms by simp
  then have "(sint ticks sdiv 10) sdiv 1000 = sint time + 11644473600000"
    by (simp only: sdiv_mult_self [of 10, simplified] sdiv_mult_self [of 1000, simplified])
  then show ?thesis by (simp add: eventMillis_def)
qed

text \<open>
  C25. The time of an event survives the way from the data provider through the server to the client: the
  milliseconds since 1970 the server turns into 100 ns ticks since 1601 come out of the client unchanged,
  also for times before 1970 and before 1601.
\<close>

theorem event_time_roundtrip:
  "eventTicks time = Inr ticks \<Longrightarrow>
   baseField types OpcUaId_BaseEventType_Time
     \<lparr>efNodeId = UaNumeric 0 OpcUaId_BaseEventType_Time, efQualifiedName = q,
      efDataTypeId = Some (UaNumeric 0 OpcUaId_UtcTime), efValue = Some (UaDateTime ticks), efException = None\<rparr> parts =
   Inr (parts\<lparr>epTimeStamp := Some time\<rparr>)"
  using eventMillis_ticks [OF eventTicks_exact]
  by (simp add: baseField_def OpcUaId_BaseEventType_Time_def OpcUaId_BaseEventType_SourceNode_def derefR_def
      scalar_trip_defs)

lemma event_time_roundtrip_witness:
  "baseField (clientTypes exampleClientEnv openHaSession) OpcUaId_BaseEventType_Time
     \<lparr>efNodeId = UaNumeric 0 OpcUaId_BaseEventType_Time, efQualifiedName = None,
      efDataTypeId = Some (UaNumeric 0 OpcUaId_UtcTime), efValue = Some (UaDateTime 116444736010000000),
      efException = None\<rparr> noParts = Inr (noParts\<lparr>epTimeStamp := Some 1000\<rparr>)"
proof -
  have "eventTicks 1000 = Inr 116444736010000000" by (simp add: eventTicks_def inInt64_def)
  from event_time_roundtrip [OF this] show ?thesis .
qed

text \<open>The messages of a list of prepared events, numbered from a message id on.\<close>

fun numberEvents :: "c_ulong \<Rightarrow> (param_id \<times> event_parts) list \<Rightarrow> (cpp_error, client_message list) res" where
  "numberEvents k [] = Inr []"
| "numberEvents k (p # ps) = bindR (binEvent k p) (\<lambda>m. mapR ((#) m) (numberEvents (k + 1) ps))"

definition preparedEvents ::
  "converter_env \<Rightarrow> (ua_node_id \<times> event_field list) list \<Rightarrow> (param_id \<times> event_parts) list"
where
  "preparedEvents types evs =
    List.map_filter (\<lambda>e. case prepareEvent types e of Inr p \<Rightarrow> Some p | Inl _ \<Rightarrow> None) evs"

lemma preparedEvents_Cons:
  "preparedEvents types (e # evs) =
    (case prepareEvent types e of Inr p \<Rightarrow> p # preparedEvents types evs | Inl _ \<Rightarrow> preparedEvents types evs)"
  by (simp add: preparedEvents_def map_filter_simps split: sum.split)

lemma sendEvent_result:
  assumes "sendEvent env types e cl = Some (r, cl')" "r \<noteq> Inl UndefinedBehaviour"
  shows "(\<exists>x. prepareEvent types e = Inl x \<and> r = Inr False \<and> cl' = cl) \<or>
    (\<exists>p msg. prepareEvent types e = Inr p \<and> binEvent (clMessageId cl) p = Inr msg \<and>
       r = Inr (ceHandler env msg = None) \<and>
       cl' = cl\<lparr>clMessageId := clMessageId cl + 1, clSent := clSent cl @ [msg]\<rparr>)"
proof (cases "prepareEvent types e")
  case (Inl x)
  then show ?thesis using assms by (auto simp: sendEvent_def attemptR_def split: if_splits)
next
  case (Inr p)
  show ?thesis
  proof (cases "binEvent (clMessageId cl) p")
    case (Inl x)
    then have "x = UndefinedBehaviour" by (auto simp: binEvent_def derefR_def bindR_eq_Inl split: prod.splits option.splits)
    then show ?thesis using assms Inr Inl by (simp add: sendEvent_def)
  next
    case msg: (Inr msg)
    have run: "catchP (bindP (sendMessage env msg) (\<lambda>_. liftP (Inr True))) (\<lambda>_. liftP (Inr False))
        (cl\<lparr>clMessageId := clMessageId cl + 1\<rparr>) = Some (r, cl')"
      using assms(1) Inr msg by (simp add: sendEvent_def)
    from trySend [OF this assms(2)] show ?thesis using Inr msg by simp
  qed
qed

lemma sendEvents_result:
  "sendEvents env types evs good cl = Some (r, cl') \<Longrightarrow> r \<noteq> Inl UndefinedBehaviour \<Longrightarrow>
   \<exists>msgs. numberEvents (clMessageId cl) (preparedEvents types evs) = Inr msgs \<and>
     clSent cl' = clSent cl @ msgs \<and> clMessageId cl' = clMessageId cl + of_nat (length msgs) \<and>
     r = Inr (good \<and> (\<forall>e\<in>set evs. isOk (prepareEvent types e)) \<and> (\<forall>m\<in>set msgs. ceHandler env m = None))"
proof (induction evs arbitrary: good cl)
  case Nil
  then show ?case by (simp add: preparedEvents_def map_filter_simps)
next
  case (Cons e evs)
  obtain q cl1 where q: "sendEvent env types e cl = Some (q, cl1)"
    using Cons.prems(1) by (cases "sendEvent env types e cl") (auto simp: bindP_def)
  have "q \<noteq> Inl UndefinedBehaviour" using Cons.prems q by (auto simp: bindP_def split: sum.splits)
  note result = sendEvent_result [OF q this]
  then obtain sent where sent: "q = Inr sent" by auto
  have rest: "sendEvents env types evs (good \<and> sent) cl1 = Some (r, cl')"
    using Cons.prems(1) q sent by simp
  obtain msgs where msgs: "numberEvents (clMessageId cl1) (preparedEvents types evs) = Inr msgs"
    "clSent cl' = clSent cl1 @ msgs" "clMessageId cl' = clMessageId cl1 + of_nat (length msgs)"
    "r = Inr ((good \<and> sent) \<and> (\<forall>e\<in>set evs. isOk (prepareEvent types e)) \<and> (\<forall>m\<in>set msgs. ceHandler env m = None))"
    using Cons.IH [OF rest Cons.prems(2)] by blast
  show ?case
  proof (cases "prepareEvent types e")
    case (Inl x)
    then show ?thesis using result sent msgs by (auto simp: preparedEvents_Cons)
  next
    case (Inr p)
    then obtain msg where msg: "binEvent (clMessageId cl) p = Inr msg" "sent \<longleftrightarrow> ceHandler env msg = None"
      "cl1 = cl\<lparr>clMessageId := clMessageId cl + 1, clSent := clSent cl @ [msg]\<rparr>"
      using result sent by auto
    then have "numberEvents (clMessageId cl) (preparedEvents types (e # evs)) = Inr (msg # msgs)"
      using Inr msgs(1) by (simp add: preparedEvents_Cons)
    then show ?thesis using msg msgs(2-4) Inr by (intro exI [of _ "msg # msgs"]) auto
  qed
qed

text \<open>
  C22. A list of events becomes one message for each event that can be prepared, in order and with
  consecutive message ids, whatever happens to the events before it; an exception at the end tells
  whether an event could not be prepared or the handler threw.
\<close>

theorem client_new_events:
  "clSession cl = Some hs \<Longrightarrow> clientNewEvents env evs cl = Some (r, cl') \<Longrightarrow> r \<noteq> Inl UndefinedBehaviour \<Longrightarrow>
   \<exists>msgs. numberEvents (clMessageId cl) (preparedEvents (clientTypes env hs) evs) = Inr msgs \<and>
     clSent cl' = clSent cl @ msgs \<and> clMessageId cl' = clMessageId cl + of_nat (length msgs) \<and>
     r = (if (\<forall>e\<in>set evs. isOk (prepareEvent (clientTypes env hs) e)) \<and> (\<forall>m\<in>set msgs. ceHandler env m = None)
          then Inr () else Inl ServerException)"
proof -
  assume a: "clSession cl = Some hs" "clientNewEvents env evs cl = Some (r, cl')" "r \<noteq> Inl UndefinedBehaviour"
  have run: "bindP (sendEvents env (clientTypes env hs) evs True) (\<lambda>good. liftP (if good then Inr () else Inl ServerException)) cl =
      Some (r, cl')"
    using a(1,2) by (simp add: clientNewEvents_def getSession_def sessionOf_def bindP_def)
  then obtain q cl1 where q: "sendEvents env (clientTypes env hs) evs True cl = Some (q, cl1)"
    by (cases "sendEvents env (clientTypes env hs) evs True cl") (auto simp: bindP_def)
  have "q \<noteq> Inl UndefinedBehaviour" using run q a(3) by (auto simp: bindP_def split: sum.splits)
  from sendEvents_result [OF q this] obtain msgs where
    msgs: "numberEvents (clMessageId cl) (preparedEvents (clientTypes env hs) evs) = Inr msgs"
    "clSent cl1 = clSent cl @ msgs" "clMessageId cl1 = clMessageId cl + of_nat (length msgs)"
    "q = Inr ((\<forall>e\<in>set evs. isOk (prepareEvent (clientTypes env hs) e)) \<and> (\<forall>m\<in>set msgs. ceHandler env m = None))"
    by auto
  then show ?thesis using run q by (intro exI [of _ msgs]) simp
qed

definition baseEventField :: "32 word \<Rightarrow> 32 word \<Rightarrow> ua_variant \<Rightarrow> event_field" where
  "baseEventField i t v = \<lparr>efNodeId = UaNumeric 0 i, efQualifiedName = None, efDataTypeId = Some (UaNumeric 0 t),
     efValue = Some v, efException = None\<rparr>"

definition exampleEvents :: "(ua_node_id \<times> event_field list) list" where
  "exampleEvents =
    [(UaGuid 4 [1], []),
     (UaNumeric 4 6,
      [baseEventField 2044 17 (UaNodeIdVal (UaNumeric 4 4)),
       baseEventField 2046 294 (UaDateTime 116444736010000000),
       baseEventField 2050 21 (UaLocText (Some ''en'') (Some ''on'')),
       baseEventField 2051 5 (UaUInt16 500),
       \<lparr>efNodeId = UaNumeric 4 61, efQualifiedName = None, efDataTypeId = Some (UaNumeric 0 6),
        efValue = Some (UaInt32 5), efException = None\<rparr>])]"

definition exampleEventMessage :: client_message where
  "exampleEventMessage = EventMessage 1 (ParamNumeric 4 4)
     \<lparr>evId = ParamNumeric 4 6, evMessage = ''on'', evTimeStamp = 1000, evSeverity = 500,
      evParams = [(ParamNumeric 4 61, BScalar (BInt 5))]\<rparr>"

lemmas example_event_defs =
  prepareEvent_def addEventField_def baseField_def baseEventField_def ua2binNodeId_def ua2ioNodeId_def
  derefR_def ua2bin_def scalar_trip_defs noParts_def OpcUaId_BaseEventType_SourceNode_def
  OpcUaId_BaseEventType_Time_def OpcUaId_BaseEventType_Message_def OpcUaId_BaseEventType_Severity_def

lemma exampleMillis: "eventMillis 116444736010000000 = 1000"
  by (rule eventMillis_ticks) simp

lemma exampleEvents_prepared:
  "\<exists>p. preparedEvents types exampleEvents = [p] \<and> binEvent 1 p = Inr exampleEventMessage"
  by (simp add: preparedEvents_Cons exampleEvents_def example_event_defs exampleMillis binEvent_def
      exampleEventMessage_def) (simp add: preparedEvents_def map_filter_simps)

lemma client_new_events_witness:
  "\<exists>cl'. clientNewEvents exampleClientEnv exampleEvents exampleClient = Some (Inl ServerException, cl') \<and>
     clSent cl' = [exampleEventMessage]"
proof -
  have "\<exists>q cl'. clientNewEvents exampleClientEnv exampleEvents exampleClient = Some (q, cl') \<and> q = Inl ServerException"
    by (simp add: clientNewEvents_def getSession_def sessionOf_def exampleClient_def exampleEvents_def bindP_def
        sendEvent_def example_event_defs exampleMillis binEvent_def attemptR_def catchP_def sendMessage_eq
        exampleClientEnv_def newClient_def)
  then obtain cl' where run: "clientNewEvents exampleClientEnv exampleEvents exampleClient = Some (Inl ServerException, cl')"
    by blast
  obtain p where p: "preparedEvents (clientTypes exampleClientEnv openHaSession) exampleEvents = [p]"
    "binEvent 1 p = Inr exampleEventMessage"
    using exampleEvents_prepared by blast
  from client_new_events [OF _ run] run p show ?thesis
    by (auto simp: exampleClient_def newClient_def)
qed

subsection \<open>The data type of a variable\<close>

text \<open>
  For a variable the recorded data type does not depend on the variable: with the data types of the SDK it
  is that of a node id when exactly one variable is found by browsing from it, and boolean otherwise.
\<close>

theorem check_model_ignores_type:
  "\<forall>n. ceDataType env (UaNodeIdVal n) = UaNumeric 0 17 \<Longrightarrow> ceDataType env (UaBool False) = UaNumeric 0 1 \<Longrightarrow>
   type \<noteq> 0 \<Longrightarrow> checkModel env paramId type cl = Some (Inr names, cl') \<Longrightarrow>
   names = [ceFullString env (UaNumeric 0
     (if length (ceVariables env (bin2uaNodeId (clNamespace cl) paramId)) = 1 then 17 else 1))]"
  by (auto simp: checkModel_def getVariable_def bindP_eq_Some getSession_def sessionOf_def Let_def
      split: option.splits if_splits list.splits)

subsection \<open>Browsing\<close>

definition knownIdentifier :: "client_reference \<Rightarrow> bool" where
  "knownIdentifier r \<longleftrightarrow> (case cfNodeId r of UaNumeric _ _ \<Rightarrow> True | UaString _ _ \<Rightarrow> True | _ \<Rightarrow> False)"

text \<open>The entry of a reference that does not depend on the earlier ones.\<close>

definition entryOf :: "(ua_node_id \<Rightarrow> string) \<Rightarrow> string \<Rightarrow> client_reference \<Rightarrow> browse_values \<Rightarrow> bool" where
  "entryOf full prefix r vals \<longleftrightarrow>
    vals ''IdentifierFull'' = Some (full (cfNodeId r)) \<and>
    vals ''BrowseName'' = Some (cfBrowseName r) \<and>
    vals ''TreeName'' = Some (prefix @ ''.'' @ cfBrowseName r) \<and>
    vals ''NamespaceIndex'' = Some (showNat (unat (uaNamespaceIndex (cfNodeId r)))) \<and>
    (case cfNodeId r of
       UaNumeric _ i \<Rightarrow> vals ''IdentifierType'' = Some ''Numeric'' \<and> vals ''Identifier'' = Some (showNat (unat i))
     | UaString _ s \<Rightarrow> vals ''IdentifierType'' = Some ''String'' \<and> vals ''Identifier'' = Some (cstr s)
     | _ \<Rightarrow> False)"

lemma browseReference_entry:
  "snd (browseReference full prefix r st) =
    (if knownIdentifier r then (snd st)(full (cfNodeId r) \<mapsto> fst (browseReference full prefix r st)) else snd st)"
  "knownIdentifier r \<Longrightarrow> entryOf full prefix r (fst (browseReference full prefix r st))"
  by (cases "cfNodeId r"; cases st;
      simp add: browseReference_def identifierValues_def Let_def knownIdentifier_def entryOf_def)+

definition entriesFit :: "(ua_node_id \<Rightarrow> string) \<Rightarrow> string \<Rightarrow> client_reference list \<Rightarrow> browse_fields \<Rightarrow> bool" where
  "entriesFit full prefix rs f \<longleftrightarrow>
    (\<forall>key. case find (\<lambda>r. knownIdentifier r \<and> full (cfNodeId r) = key) (rev rs) of
       None \<Rightarrow> f key = None
     | Some r \<Rightarrow> \<exists>vals. f key = Some vals \<and> entryOf full prefix r vals)"

lemma entriesFit_step:
  assumes "entriesFit full prefix rs (snd st)"
  shows "entriesFit full prefix (rs @ [r]) (snd (browseReference full prefix r st))"
  unfolding entriesFit_def
proof
  fix key
  show "case find (\<lambda>r. knownIdentifier r \<and> full (cfNodeId r) = key) (rev (rs @ [r])) of
      None \<Rightarrow> snd (browseReference full prefix r st) key = None
    | Some q \<Rightarrow> \<exists>vals. snd (browseReference full prefix r st) key = Some vals \<and> entryOf full prefix q vals"
  proof (cases "knownIdentifier r \<and> full (cfNodeId r) = key")
    case True
    then show ?thesis using browseReference_entry(1) [of full prefix r st] browseReference_entry(2) [of r full prefix st] by simp
  next
    case False
    then have same: "snd (browseReference full prefix r st) key = snd st key"
      using browseReference_entry(1) [of full prefix r st] by auto
    have skip: "find (\<lambda>r. knownIdentifier r \<and> full (cfNodeId r) = key) (rev (rs @ [r])) =
        find (\<lambda>r. knownIdentifier r \<and> full (cfNodeId r) = key) (rev rs)"
      using False by auto
    show ?thesis
      unfolding skip same by (rule spec [OF assms [unfolded entriesFit_def]])
  qed
qed

lemma entriesFit_more:
  "entriesFit full prefix rs (snd st) \<Longrightarrow> entriesFit full prefix (rs @ qs) (snd (browseMore full prefix qs st))"
proof (induction qs arbitrary: rs st)
  case (Cons q qs)
  from Cons.IH [OF entriesFit_step [OF Cons.prems, of q]] show ?case by (simp add: browseMore_def)
qed (simp add: browseMore_def)

lemma entriesFit_first:
  "entriesFit full prefix rs (snd st) \<Longrightarrow> entriesFit full prefix (rs @ qs) (snd (browseFirst full prefix qs st))"
proof (induction qs arbitrary: rs st)
  case (Cons q qs)
  have "entriesFit full prefix (rs @ [q]) (snd (browseReference full prefix q (Map.empty, snd st)))"
    using entriesFit_step [of full prefix rs "(Map.empty, snd st)" q] Cons.prems by simp
  from Cons.IH [OF this] show ?case by (simp add: browseFirst_def)
qed (simp add: browseFirst_def)

text \<open>The references of the first requests for more, and whether the server has more before a request.\<close>

definition moreReferences :: "browse_answers \<Rightarrow> nat \<Rightarrow> client_reference list" where
  "moreReferences ba k = concat (map (\<lambda>i. case fst (baNext ba i) of None \<Rightarrow> [] | Some rs \<Rightarrow> rs) [0..<k])"

fun hasMore :: "browse_answers \<Rightarrow> nat \<Rightarrow> bool" where
  "hasMore ba 0 = snd (baFirst ba)"
| "hasMore ba (Suc k) = snd (baNext ba k)"

lemma browseLoop_entries:
  "browseLoop full prefix ba k c st = Some f \<Longrightarrow> c = hasMore ba k \<Longrightarrow>
   entriesFit full prefix (rs @ moreReferences ba k) (snd st) \<Longrightarrow>
   \<exists>n\<ge>k. \<not> hasMore ba n \<and> (\<forall>i. k \<le> i \<and> i < n \<longrightarrow> hasMore ba i) \<and>
     entriesFit full prefix (rs @ moreReferences ba n) f"
proof (induction rule: browseLoop.raw_induct [rotated, consumes 1, case_names step])
  case (step loop full prefix ba k c st f)
  show ?case
  proof (cases c)
    case False
    then have "f = snd st" using step.hyps by simp
    then show ?thesis using False step.prems by (intro exI [of _ k]) auto
  next
    case True
    define st' where "st' = (case fst (baNext ba k) of None \<Rightarrow> st | Some rs \<Rightarrow> browseMore full prefix rs st)"
    have r: "loop full prefix ba (Suc k) (snd (baNext ba k)) st' = Some f"
      using step.hyps True by (simp add: st'_def)
    have "entriesFit full prefix (rs @ moreReferences ba (Suc k)) (snd st')"
      using entriesFit_more [OF step.prems(2)] step.prems(2)
      by (cases "fst (baNext ba k)") (simp_all add: st'_def moreReferences_def)
    from step.IH [OF r _ this] obtain n where n: "n \<ge> Suc k" "\<not> hasMore ba n"
      "\<forall>i. Suc k \<le> i \<and> i < n \<longrightarrow> hasMore ba i" "entriesFit full prefix (rs @ moreReferences ba n) f"
      by auto
    have "hasMore ba i" if "k \<le> i" "i < n" for i
      using that n(3) True step.prems(1) by (cases "i = k") auto
    then show ?thesis using n by (intro exI [of _ n]) auto
  qed
qed

lemma browseLoop_returns:
  "\<not> hasMore ba n \<Longrightarrow> k \<le> n \<Longrightarrow> c = hasMore ba k \<Longrightarrow> \<exists>f. browseLoop full prefix ba k c st = Some f"
proof (induction "n - k" arbitrary: k c st)
  case (Suc d)
  then show ?case
    using Suc.hyps(1) [of "Suc k" "snd (baNext ba k)"] by (subst browseLoop.simps) auto
qed (simp add: browseLoop.simps)

lemma entriesFit_start: "entriesFit full prefix rs (snd (browseFirst full prefix rs (Map.empty, Map.empty)))"
  using entriesFit_first [of full prefix "[]" "(Map.empty, Map.empty)" rs] by (simp add: entriesFit_def)

lemma clientBrowse_result:
  assumes "clientBrowse full prefix ba = Some f" "fst (baFirst ba) = Some rs"
  shows "\<exists>n. \<not> hasMore ba n \<and> (\<forall>i<n. hasMore ba i) \<and> entriesFit full prefix (rs @ moreReferences ba n) f"
proof -
  have loop: "browseLoop full prefix ba 0 (hasMore ba 0) (browseFirst full prefix rs (Map.empty, Map.empty)) = Some f"
    using assms by (simp add: clientBrowse_def)
  have fit: "entriesFit full prefix (rs @ moreReferences ba 0) (snd (browseFirst full prefix rs (Map.empty, Map.empty)))"
    using entriesFit_start [of full prefix rs] by (simp add: moreReferences_def)
  from browseLoop_entries [OF loop refl fit] show ?thesis by blast
qed

text \<open>
  C35. Browsing returns exactly when the first request fails or the server runs out of continuation points.
\<close>

theorem client_browse_returns:
  "(\<exists>f. clientBrowse full prefix ba = Some f) \<longleftrightarrow> fst (baFirst ba) = None \<or> (\<exists>n. \<not> hasMore ba n)"
proof (cases "fst (baFirst ba)")
  case (Some rs)
  have "\<exists>f. clientBrowse full prefix ba = Some f" if "\<not> hasMore ba n" for n
    using browseLoop_returns [OF that, of 0 "snd (baFirst ba)"] Some by (simp add: clientBrowse_def)
  then show ?thesis using clientBrowse_result [of full prefix ba _ rs] Some by auto
qed (simp add: clientBrowse_def)

text \<open>
  The result of browsing has one entry for each node with a numeric or string id among the references of
  all answers, made from the last reference to it.
\<close>

theorem client_browse_entries:
  "clientBrowse full prefix ba = Some f \<Longrightarrow> fst (baFirst ba) = Some rs \<Longrightarrow>
   \<exists>n. \<not> hasMore ba n \<and> (\<forall>i<n. hasMore ba i) \<and> entriesFit full prefix (rs @ moreReferences ba n) f"
  by (rule clientBrowse_result)

definition exampleReference :: "32 word \<Rightarrow> ua_node_id \<Rightarrow> string \<Rightarrow> client_reference" where
  "exampleReference c n name = \<lparr>cfNodeClass = c, cfNodeId = n, cfBrowseName = name\<rparr>"

definition exampleBrowse :: browse_answers where
  "exampleBrowse = \<lparr>baFirst = (Some [exampleReference 1 (UaNumeric 4 4) ''Pump''], True),
     baNext = (\<lambda>k. (Some [exampleReference 0 (UaNumeric 4 5) ''Valve'', exampleReference 1 (UaGuid 4 [1]) ''Motor''], False))\<rparr>"

definition numberText :: "ua_node_id \<Rightarrow> string" where
  "numberText n = (case n of UaNumeric _ i \<Rightarrow> showNat (unat i) | _ \<Rightarrow> ''?'')"

lemma client_browse_entries_witness:
  "\<exists>f vals. clientBrowse numberText ''root'' exampleBrowse = Some f \<and> f ''5'' = Some vals \<and>
     vals ''TreeName'' = Some ''root.Valve''"
proof -
  obtain f where f: "clientBrowse numberText ''root'' exampleBrowse = Some f"
    by (simp add: clientBrowse_def browseLoop.simps exampleBrowse_def)
  have more: "hasMore exampleBrowse n \<longleftrightarrow> n = 0" for n
    by (cases n) (simp_all add: exampleBrowse_def)
  have "entriesFit numberText ''root'' ([exampleReference 1 (UaNumeric 4 4) ''Pump''] @ moreReferences exampleBrowse 1) f"
  proof -
    obtain n where n: "\<not> hasMore exampleBrowse n" "\<forall>i<n. hasMore exampleBrowse i"
      "entriesFit numberText ''root'' ([exampleReference 1 (UaNumeric 4 4) ''Pump''] @ moreReferences exampleBrowse n) f"
      using client_browse_entries [OF f, of "[exampleReference 1 (UaNumeric 4 4) ''Pump'']"]
      by (auto simp: exampleBrowse_def)
    have "n = 1"
    proof (rule ccontr)
      assume "n \<noteq> 1"
      then have "1 < n" using n(1) more [of n] by simp
      then show False using n(2) more [of 1] by auto
    qed
    then show ?thesis using n(3) by simp
  qed
  then have fit: "case find (\<lambda>r. knownIdentifier r \<and> numberText (cfNodeId r) = ''5'')
        (rev ([exampleReference 1 (UaNumeric 4 4) ''Pump''] @ moreReferences exampleBrowse 1)) of
      None \<Rightarrow> f ''5'' = None
    | Some r \<Rightarrow> \<exists>vals. f ''5'' = Some vals \<and> entryOf numberText ''root'' r vals"
    unfolding entriesFit_def by (rule spec)
  have five: "showNat 5 = ''5''" by code_simp
  have "\<exists>vals. f ''5'' = Some vals \<and> entryOf numberText ''root'' (exampleReference 0 (UaNumeric 4 5) ''Valve'') vals"
    using fit by (simp add: moreReferences_def exampleBrowse_def knownIdentifier_def exampleReference_def
        numberText_def five del: showNat.simps)
  then show ?thesis using f by (auto simp: entryOf_def exampleReference_def)
qed

end
