(* ===== verification/Java_Provider.thy ===== *)
theory Java_Provider
  imports Field_Model Converter_Bin2IO Op_Monad "HOL-Library.Multiset"
begin

text \<open>
  The data provider that a Java program implements
  (\<open>provider/binary/jDataProvider/JDataProvider.cpp\<close>): the model of data types it keeps, the calls of
  the Java object, and the callbacks of the subscriptions. The state of the Java object is part of the
  state; what its methods do to it is a parameter. An operation gives its result and the next state, or
  \<open>None\<close> when it does not return.
\<close>

subsection \<open>State and services\<close>

record 'j java_object_methods =
  joRead :: "'j \<Rightarrow> c_int \<Rightarrow> java_string \<Rightarrow> java_object option \<times> 'j"
  joWrite :: "'j \<Rightarrow> c_int \<Rightarrow> java_string \<Rightarrow> java_object \<Rightarrow> 'j"
  joExec :: "'j \<Rightarrow> c_int \<Rightarrow> java_string \<Rightarrow> c_int \<Rightarrow> java_string \<Rightarrow> java_object list \<Rightarrow>
    java_object option \<times> java_throwable option \<times> 'j"
  joSubscribe :: "'j \<Rightarrow> c_int \<Rightarrow> java_string \<Rightarrow> 'j"
  joUnsubscribe :: "'j \<Rightarrow> c_int \<Rightarrow> java_string \<Rightarrow> 'j"

type_synonym callback_id = nat

type_synonym io_event = "64 word \<times> io_node_data list"

text \<open>
  The class of the Java object may not be found by a native thread. The texts of the exceptions the
  conversions throw are left out of their models, so the exception of an error is a parameter; so are
  the address that a message prints in the place of an error code, and what a callback throws.
\<close>

record 'j java_env =
  jeBrowser :: "node_browser option"
  jeVm :: java_vm
  jeClassFound :: bool
  jeObject :: "'j java_object_methods"
  jeException :: "cpp_error \<Rightarrow> c_exception"
  jeAddress :: string
  jeCallback :: "callback_id \<Rightarrow> io_event \<Rightarrow> cpp_error option"

record 'j java_provider =
  jpJava :: 'j
  jpMessageId :: c_ulong
  jpNamespace :: c_int
  jpFields :: type_model
  jpModel :: type_model
  jpCallbacks :: "(io_node_id \<times> callback_id) list"
  jpDelivered :: "(callback_id \<times> io_event) list"

type_synonym ('j, 'a) jp_op = "('j java_provider, 'a) op"

definition nextMessageId :: "'j java_provider \<Rightarrow> 'j java_provider" where
  "nextMessageId s = s\<lparr>jpMessageId := jpMessageId s + 1\<rparr>"

definition providerFile :: string where
  "providerFile = ''src/provider/binary/jDataProvider/JDataProvider.cpp''"

subsection \<open>Node ids\<close>

definition getUaNode :: "param_id \<Rightarrow> ua_node_id" where
  "getUaNode p =
    (case p of
       ParamString n s \<Rightarrow> UaString (ucast n) (cstr s)
     | ParamNumeric n i \<Rightarrow> UaNumeric (ucast n) (ucast i))"

text \<open>
  The id of the data type of a variable. The branch for string ids tests the id of the variable instead
  of the id of the type.
\<close>

definition getParamId :: "'j java_env \<Rightarrow> ua_node_id \<Rightarrow> (cpp_error, string) res" where
  "getParamId env nId =
    (case jeBrowser env of
       None \<Rightarrow> Inl UndefinedBehaviour
     | Some nb \<Rightarrow>
         (case nbVariable nb nId of
            None \<Rightarrow> Inr []
          | Some dataTypeId \<Rightarrow>
              (case dataTypeId of
                 UaNumeric _ _ \<Rightarrow> typeText dataTypeId
               | _ \<Rightarrow> (case nId of UaString _ _ \<Rightarrow> typeText dataTypeId | _ \<Rightarrow> Inr []))))"

text \<open>The text under which the Java object knows a node.\<close>

definition nodeText :: "java_vm \<Rightarrow> param_id \<Rightarrow> java_string" where
  "nodeText vm p = javaText vm (case p of ParamString _ s \<Rightarrow> s | ParamNumeric _ _ \<Rightarrow> paramIdToString p)"

definition subscriptionText :: "java_vm \<Rightarrow> param_id \<Rightarrow> java_string" where
  "subscriptionText vm p = javaText vm (case p of ParamString _ s \<Rightarrow> s | ParamNumeric _ i \<Rightarrow> showNat (unat i))"

subsection \<open>The model\<close>

definition findTypeModel :: "'j java_env \<Rightarrow> ua_node_id \<Rightarrow> ('j, bool) jp_op" where
  "findTypeModel env start = (\<lambda>s.
    map_option (\<lambda>(r, m). (r, s\<lparr>jpFields := m\<rparr>)) (findFieldModel (jeBrowser env) start (jpFields s)))"

definition updateModel :: "'j java_env \<Rightarrow> ua_node_id \<Rightarrow> ('j, unit) jp_op" where
  "updateModel env nId =
    (case jeBrowser env of
       None \<Rightarrow> liftP (Inl UndefinedBehaviour)
     | Some nb \<Rightarrow>
         (case nbVariable nb nId of
            None \<Rightarrow> liftP (Inr ())
          | Some dataTypeId \<Rightarrow>
              bindP (findTypeModel env dataTypeId) (\<lambda>changed.
                if changed then modifyP (\<lambda>s. s\<lparr>jpModel := jpFields s\<rparr>) else liftP (Inr ()))))"

subsection \<open>Reading\<close>

definition attachClass :: "'j java_env \<Rightarrow> (cpp_error, unit) res" where
  "attachClass env = guardR (jeClassFound env) UndefinedBehaviour"

definition readNode :: "'j java_env \<Rightarrow> c_int \<Rightarrow> io_node_id \<Rightarrow> ('j, io_variant option) jp_op" where
  "readNode env ns nodeId =
    (let paramId = io2binNodeId nodeId; uaNode = getUaNode paramId in
     bindP (updateModel env uaNode) (\<lambda>_.
     bindP (liftP (attachClass env)) (\<lambda>_ s.
       let (result, j) = joRead (jeObject env) (jpJava s) ns (nodeText (jeVm env) paramId)
       in liftP
         (case result of
            None \<Rightarrow> Inr None
          | Some data \<Rightarrow>
              bindR (getParamId env uaNode) (\<lambda>ref.
                if ref = [] then Inr None
                else bindR (javaToBin (jeVm env) (jpModel s) data ref (refModelType ref)) (\<lambda>res.
                  mapR Some (bin2io ns res))))
         (s\<lparr>jpJava := j\<rparr>))))"

definition readData :: "'j java_env \<Rightarrow> c_int \<Rightarrow> io_node_id \<Rightarrow> ('j, io_node_data) jp_op" where
  "readData env ns nodeId =
    catchP (bindP (readNode env ns nodeId) (\<lambda>v. liftP (Inr (newNodeData nodeId v))))
      (\<lambda>e. liftP (Inr ((newNodeData nodeId None)\<lparr>ndException := Some (setCause (jeException env e)
        (newException (''Cannot read data for '' @ ioNodeIdToString nodeId) providerFile 340))\<rparr>)))"

fun readAll :: "'j java_env \<Rightarrow> c_int \<Rightarrow> io_node_id list \<Rightarrow> ('j, io_node_data list) jp_op" where
  "readAll env ns [] = liftP (Inr [])"
| "readAll env ns (n # nodeIds) =
     bindP (readData env ns n) (\<lambda>d.
     bindP (modifyP nextMessageId) (\<lambda>_.
     bindP (readAll env ns nodeIds) (\<lambda>ds. liftP (Inr (d # ds)))))"

definition jRead :: "'j java_env \<Rightarrow> io_node_id list \<Rightarrow> ('j, io_node_data list) jp_op" where
  "jRead env nodeIds =
    bindP (modifyP nextMessageId) (\<lambda>_ s. readAll env (jpNamespace s) nodeIds s)"

subsection \<open>Writing\<close>

text \<open>
  The first exception is kept. A missing value is only an exception as long as there is none before it;
  after one the value is dereferenced. When the class is not found the function returns at once, without
  an exception (\<open>None\<close>).
\<close>

definition writeNode :: "'j java_env \<Rightarrow> io_node_data \<Rightarrow> ('j, unit) jp_op" where
  "writeNode env d =
    (let paramId = io2binNodeId (ndNodeId d) in
     bindP (liftP
       (case ndData d of
          None \<Rightarrow> Inl UndefinedBehaviour
        | Some v \<Rightarrow> bindR (io2bin v) (binToJava (jeVm env)))) (\<lambda>data.
     modifyP (\<lambda>s. nextMessageId (s\<lparr>jpJava :=
       joWrite (jeObject env) (jpJava s) (paramNamespaceIndex paramId) (nodeText (jeVm env) paramId) data\<rparr>))))"

definition writeException :: "'j java_env \<Rightarrow> io_node_data \<Rightarrow> cpp_error \<Rightarrow> c_exception" where
  "writeException env d e = setCause (jeException env e)
    (newException (''Cannot write data for nodeId '' @ ioNodeIdToString (ndNodeId d)) providerFile 442)"

definition nullException :: "io_node_data \<Rightarrow> c_exception" where
  "nullException d =
    newException (''Cannot write a NULL value for '' @ ioNodeIdToString (ndNodeId d)) providerFile 378"

fun writeAll :: "'j java_env \<Rightarrow> io_node_data list \<Rightarrow> c_exception option \<Rightarrow> ('j, c_exception option option) jp_op" where
  "writeAll env [] ex = liftP (Inr (Some ex))"
| "writeAll env (d # ds) ex =
     (if ndData d = None \<and> ex = None then writeAll env ds (Some (nullException d))
      else if \<not> jeClassFound env then liftP (Inr None)
      else
        bindP
          (catchP (bindP (writeNode env d) (\<lambda>_. liftP (Inr ex)))
            (\<lambda>e. liftP (Inr (case ex of None \<Rightarrow> Some (writeException env d e) | Some x \<Rightarrow> Some x))))
          (\<lambda>ex'. writeAll env ds ex'))"

text \<open>The result is the exception that is thrown.\<close>

definition jWrite :: "'j java_env \<Rightarrow> io_node_data list \<Rightarrow> ('j, c_exception option) jp_op" where
  "jWrite env ds =
    bindP (modifyP nextMessageId) (\<lambda>_.
    bindP (writeAll env ds None) (\<lambda>r.
      liftP (Inr (case r of
          Some (Some ex) \<Rightarrow> Some (setCause ex (newException ''Cannot write data'' providerFile 449))
        | _ \<Rightarrow> None))))"

subsection \<open>Calling\<close>

text \<open>
  The types of the output arguments are added to the model of the provider, but the model handed to the
  conversions is a local variable of the same name, which is empty. The ids of the object and of the
  method are read as strings.
\<close>

fun outputModels :: "'j java_env \<Rightarrow> ua_node_id list \<Rightarrow> ('j, unit) jp_op" where
  "outputModels env [] = liftP (Inr ())"
| "outputModels env (t # ts) =
     bindP (findTypeModel env t) (\<lambda>changed.
     bindP (if changed then modifyP (\<lambda>s. s\<lparr>jpModel := Map.empty\<rparr>) else liftP (Inr ())) (\<lambda>_.
       outputModels env ts))"

definition paramIdString :: "param_id \<Rightarrow> (cpp_error, string) res" where
  "paramIdString p = (case p of ParamString _ s \<Rightarrow> Inr s | ParamNumeric _ _ \<Rightarrow> Inl UndefinedBehaviour)"

definition prepareMethod :: "'j java_env \<Rightarrow> param_id \<Rightarrow> ('j, unit) jp_op" where
  "prepareMethod env methodId =
    bindP (liftP (paramIdString methodId)) (\<lambda>name.
      case jeBrowser env of
        None \<Rightarrow> liftP (Inl UndefinedBehaviour)
      | Some nb \<Rightarrow>
          (case nbOutputTypes nb (UaString (ucast (paramNamespaceIndex methodId)) (cstr name)) of
             None \<Rightarrow> liftP (Inl UndefinedBehaviour)
           | Some None \<Rightarrow> liftP (Inr ())
           | Some (Some types) \<Rightarrow> outputModels env types))"

text \<open>The outputs converted before an exception stay in the result.\<close>

fun javaOutputs :: "c_int \<Rightarrow> bin_variant list \<Rightarrow> io_variant list \<times> cpp_error option" where
  "javaOutputs ns [] = ([], None)"
| "javaOutputs ns (e # es) =
     (case bin2io ns e of
        Inl err \<Rightarrow> ([], Some err)
      | Inr v \<Rightarrow> (v # fst (javaOutputs ns es), snd (javaOutputs ns es)))"

definition callException :: "'j java_env \<Rightarrow> io_method_data \<Rightarrow> cpp_error \<Rightarrow> c_exception" where
  "callException env md e = setCause (jeException env e)
    (newException (''Cannot call method '' @ ioNodeIdToString (mdMethodNodeId md) @ '' on object '' @
       ioNodeIdToString (mdObjectNodeId md)) providerFile 583)"

definition applicationError :: "'j java_env \<Rightarrow> c_exception \<Rightarrow> (cpp_error, c_exception) res" where
  "applicationError env cEx =
    (case getErrorCode cEx of
       None \<Rightarrow> Inl UndefinedBehaviour
     | Some code \<Rightarrow>
         Inr (setErrorCode (Some code) (newException
           (''Received a call response with application error '' @ jeAddress env @ '':'' @ exMessage cEx)
           providerFile 565)))"

definition callResult ::
  "'j java_env \<Rightarrow> c_int \<Rightarrow> io_method_data \<Rightarrow> type_model \<Rightarrow> java_object option \<Rightarrow> java_throwable option \<Rightarrow>
   (cpp_error, io_variant list \<times> c_exception option) res"
where
  "callResult env ns md model result pending =
    bindR (getException (jeVm env) pending) (\<lambda>cEx.
      case cEx of
        Some ex \<Rightarrow> mapR (\<lambda>x. ([], Some x)) (applicationError env ex)
      | None \<Rightarrow>
          (case result of
             None \<Rightarrow> Inr ([], None)
           | Some data \<Rightarrow>
               bindR (javaToBin (jeVm env) model data [] newModelType) (\<lambda>v.
                 case v of
                   BArray _ elements \<Rightarrow>
                     (case javaOutputs ns elements of
                        (outs, None) \<Rightarrow> Inr (outs, None)
                      | (outs, Some e) \<Rightarrow>
                          if e = UndefinedBehaviour then Inl e else Inr (outs, Some (callException env md e)))
                 | _ \<Rightarrow> Inl UndefinedBehaviour)))"

definition callNode ::
  "'j java_env \<Rightarrow> c_int \<Rightarrow> io_method_data \<Rightarrow> ('j, io_variant list \<times> c_exception option) jp_op"
where
  "callNode env ns md =
    (let methodId = io2binNodeId (mdMethodNodeId md); objectId = io2binNodeId (mdObjectNodeId md) in
     bindP (prepareMethod env methodId) (\<lambda>_.
     bindP (liftP (attachClass env)) (\<lambda>_.
     bindP (liftP (paramIdString objectId)) (\<lambda>node.
     bindP (liftP (paramIdString methodId)) (\<lambda>method.
     bindP (liftP (traverseR (\<lambda>v. bindR (io2bin v) (binToJava (jeVm env))) (mdMethodArgs md))) (\<lambda>params s.
       let (result, pending, j) = joExec (jeObject env) (jpJava s) ns (javaText (jeVm env) method)
             ns (javaText (jeVm env) node) params
       in liftP (callResult env ns md (jpModel s) result pending) (s\<lparr>jpJava := j\<rparr>)))))))"

definition callOne :: "'j java_env \<Rightarrow> c_int \<Rightarrow> io_method_data \<Rightarrow> ('j, io_method_data) jp_op" where
  "callOne env ns md =
    catchP
      (bindP (callNode env ns md) (\<lambda>r. liftP (Inr
        ((newMethodData (mdObjectNodeId md) (mdMethodNodeId md) (fst r))\<lparr>mdException := snd r\<rparr>))))
      (\<lambda>e. liftP (Inr ((newMethodData (mdObjectNodeId md) (mdMethodNodeId md) [])
        \<lparr>mdException := Some (callException env md e)\<rparr>)))"

fun callAll :: "'j java_env \<Rightarrow> c_int \<Rightarrow> io_method_data list \<Rightarrow> ('j, io_method_data list) jp_op" where
  "callAll env ns [] = liftP (Inr [])"
| "callAll env ns (m # ms) =
     bindP (callOne env ns m) (\<lambda>r.
     bindP (modifyP nextMessageId) (\<lambda>_.
     bindP (callAll env ns ms) (\<lambda>rs. liftP (Inr (r # rs)))))"

definition jCall :: "'j java_env \<Rightarrow> io_method_data list \<Rightarrow> ('j, io_method_data list) jp_op" where
  "jCall env ms = bindP (modifyP nextMessageId) (\<lambda>_ s. callAll env (jpNamespace s) ms s)"

subsection \<open>Subscriptions\<close>

text \<open>
  The conversion of a node id has no exception and the response is always a success, so the branches
  for a failed subscription are never taken.
\<close>

fun subscribeAll :: "'j java_env \<Rightarrow> callback_id \<Rightarrow> io_node_id list \<Rightarrow> ('j, unit) jp_op" where
  "subscribeAll env cb [] = liftP (Inr ())"
| "subscribeAll env cb (n # ns) =
     bindP (liftP (attachClass env)) (\<lambda>_.
     bindP (modifyP (\<lambda>s. nextMessageId (s\<lparr>
       jpJava := joSubscribe (jeObject env) (jpJava s) (paramNamespaceIndex (io2binNodeId n))
         (subscriptionText (jeVm env) (io2binNodeId n)),
       jpCallbacks := jpCallbacks s @ [(n, cb)]\<rparr>))) (\<lambda>_.
       subscribeAll env cb ns))"

definition jSubscribe :: "'j java_env \<Rightarrow> io_node_id list \<Rightarrow> callback_id \<Rightarrow> ('j, io_node_data list) jp_op" where
  "jSubscribe env nodeIds cb =
    bindP (modifyP nextMessageId) (\<lambda>_.
    bindP (subscribeAll env cb nodeIds) (\<lambda>_.
      jRead env nodeIds))"

fun removeCallback :: "io_node_id \<Rightarrow> (io_node_id \<times> callback_id) list \<Rightarrow> (io_node_id \<times> callback_id) list" where
  "removeCallback n [] = []"
| "removeCallback n (p # ps) = (if nodeIdEquals n (fst p) then ps else p # removeCallback n ps)"

fun unsubscribeAll :: "'j java_env \<Rightarrow> io_node_id list \<Rightarrow> ('j, unit) jp_op" where
  "unsubscribeAll env [] = liftP (Inr ())"
| "unsubscribeAll env (n # ns) =
     bindP (liftP (attachClass env)) (\<lambda>_.
     bindP (modifyP (\<lambda>s. nextMessageId (s\<lparr>
       jpJava := joUnsubscribe (jeObject env) (jpJava s) (paramNamespaceIndex (io2binNodeId n))
         (subscriptionText (jeVm env) (io2binNodeId n)),
       jpCallbacks := removeCallback n (jpCallbacks s)\<rparr>))) (\<lambda>_.
       unsubscribeAll env ns))"

definition jUnsubscribe :: "'j java_env \<Rightarrow> io_node_id list \<Rightarrow> ('j, unit) jp_op" where
  "jUnsubscribe env nodeIds = bindP (modifyP nextMessageId) (\<lambda>_. unsubscribeAll env (rev nodeIds))"

subsection \<open>Notifications and events\<close>

text \<open>The callbacks of a node are called in the order of their subscriptions until one throws.\<close>

fun deliver :: "'j java_env \<Rightarrow> io_node_id \<Rightarrow> io_event \<Rightarrow> (io_node_id \<times> callback_id) list \<Rightarrow> ('j, unit) jp_op" where
  "deliver env n event [] = liftP (Inr ())"
| "deliver env n event (c # cs) =
     (if nodeIdEquals (fst c) n then
        bindP (modifyP (\<lambda>s. s\<lparr>jpDelivered := jpDelivered s @ [(snd c, event)]\<rparr>)) (\<lambda>_.
          case jeCallback env (snd c) event of
            Some e \<Rightarrow> liftP (Inl e)
          | None \<Rightarrow> deliver env n event cs)
      else deliver env n event cs)"

definition jNotification ::
  "'j java_env \<Rightarrow> 64 word \<Rightarrow> c_int \<Rightarrow> java_object \<Rightarrow> java_object \<Rightarrow> ('j, unit) jp_op"
where
  "jNotification env now ns nodeId data =
    bindP (liftP (createParamId (jeVm env) ns nodeId)) (\<lambda>paramId.
    let ioNodeId = bin2ioNodeId paramId ns; uaNode = getUaNode paramId in
    bindP (updateModel env uaNode) (\<lambda>_.
    bindP (liftP (getParamId env uaNode)) (\<lambda>ref s.
    (bindP (liftP (bindR (javaToBin (jeVm env) (jpModel s) data ref (refModelType ref)) (bin2io ns))) (\<lambda>v.
       deliver env ioNodeId (now * 1000, [newNodeData ioNodeId (Some v)]) (jpCallbacks s))) s)))"

text \<open>
  The model gets the data types of the variables of an event type. The entry of the event type itself is
  only made for the first field the event has, and it is not used: the type of the value is looked up
  through the variable with the id of the event type, and there is none.
\<close>

definition mapContains :: "java_vm \<Rightarrow> java_object \<Rightarrow> string \<Rightarrow> (cpp_error, bool) res" where
  "mapContains vm data key =
    (case data of
       JHashMap es \<Rightarrow> Inr (javaText vm key \<in> fst ` set es)
     | _ \<Rightarrow> Inl UndefinedBehaviour)"

fun eventModels ::
  "'j java_env \<Rightarrow> node_browser \<Rightarrow> string \<Rightarrow> java_object \<Rightarrow> ua_node_id list \<Rightarrow> ('j, unit) jp_op"
where
  "eventModels env nb eventText data [] = liftP (Inr ())"
| "eventModels env nb eventText data (r # rs) =
     (case nbVariable nb r of
        None \<Rightarrow> liftP (Inl UndefinedBehaviour)
      | Some dataTypeId \<Rightarrow>
          bindP (findTypeModel env dataTypeId) (\<lambda>changed.
          bindP (liftP (mapContains (jeVm env) data (nbFullString nb r))) (\<lambda>has.
          bindP (getP jpFields) (\<lambda>m.
          bindP
            (if has \<and> m eventText = None then
               bindP (liftP (getParamId env r)) (\<lambda>ref.
               bindP (modifyP (\<lambda>s. s\<lparr>jpFields := m(eventText \<mapsto> [nbFullString nb r \<mapsto> refModelType ref])\<rparr>)) (\<lambda>_.
                 liftP (Inr True)))
             else liftP (Inr changed)) (\<lambda>changed'.
          bindP (if changed' then modifyP (\<lambda>s. s\<lparr>jpModel := jpFields s\<rparr>) else liftP (Inr ())) (\<lambda>_.
            eventModels env nb eventText data rs))))))"

text \<open>The id of a field is parsed into an object that dangles for a string id.\<close>

definition eventFields ::
  "c_int \<Rightarrow> (string \<times> bin_variant) list \<Rightarrow> (cpp_error, (io_node_id \<times> io_variant option \<times> c_exception option) list) res"
where
  "eventFields ns fieldData =
    traverseR (\<lambda>f.
      bindR (paramIdValue (newParamIdParsed (fst f))) (\<lambda>pId.
      bindR (bin2io ns (snd f)) (\<lambda>v. Inr (bin2ioNodeId pId ns, Some v, None)))) fieldData"

definition jEvent ::
  "'j java_env \<Rightarrow> c_int \<Rightarrow> java_object \<Rightarrow> c_int \<Rightarrow> java_object \<Rightarrow> 64 word \<Rightarrow> c_int \<Rightarrow> java_string option \<Rightarrow>
   java_object \<Rightarrow> ('j, unit) jp_op"
where
  "jEvent env eNs event pNs param timestamp severity message data =
    bindP (liftP (createParamId (jeVm env) eNs event)) (\<lambda>eventId.
    bindP (liftP (createParamId (jeVm env) pNs param)) (\<lambda>paramId.
    let evt = getUaNode eventId in
    case jeBrowser env of
      None \<Rightarrow> liftP (Inl UndefinedBehaviour)
    | Some nb \<Rightarrow>
        (case nbObjectTypeReferences nb evt of
           None \<Rightarrow> liftP (Inl UndefinedBehaviour)
         | Some rs \<Rightarrow>
             bindP (eventModels env nb (paramIdToString eventId) data rs) (\<lambda>_.
             bindP (liftP (getParamId env evt)) (\<lambda>ref s.
             (bindP (liftP (javaToBin (jeVm env) (jpModel s) data [] (refModelType ref))) (\<lambda>v.
                case v of
                  BStruct _ fieldData \<Rightarrow>
                    bindP (liftP (eventFields pNs fieldData)) (\<lambda>ioFieldData.
                      case message of
                        None \<Rightarrow> liftP (Inl UndefinedBehaviour)
                      | Some msg \<Rightarrow>
                          (let ioEventTypeId = bin2ioNodeId eventId eNs in
                           deliver env ioEventTypeId
                             (timestamp, [newNodeData ioEventTypeId (Some (IOEventData (bin2ioNodeId paramId eNs)
                               (jvGetStringUTFChars (jeVm env) msg) severity ioFieldData))])
                             (jpCallbacks s)))
                | _ \<Rightarrow> liftP (Inr ()))) s)))))"

subsection \<open>Reading and writing\<close>

lemma nextMessageId_simps [simp]:
  "jpJava (nextMessageId s) = jpJava s" "jpNamespace (nextMessageId s) = jpNamespace s"
  "jpFields (nextMessageId s) = jpFields s" "jpModel (nextMessageId s) = jpModel s"
  "jpCallbacks (nextMessageId s) = jpCallbacks s" "jpDelivered (nextMessageId s) = jpDelivered s"
  "jpMessageId (nextMessageId s) = jpMessageId s + 1"
  by (simp_all add: nextMessageId_def)

text \<open>What an operation leaves alone: the name space, the subscriptions and what was delivered.\<close>

definition keepsRest :: "'j java_provider \<Rightarrow> 'j java_provider \<Rightarrow> bool" where
  "keepsRest s s' \<longleftrightarrow> jpNamespace s' = jpNamespace s \<and> jpCallbacks s' = jpCallbacks s \<and>
    jpDelivered s' = jpDelivered s"

lemma keepsRest_refl [simp]: "keepsRest s s"
  by (simp add: keepsRest_def)

lemma keepsRest_trans [trans]: "keepsRest s t \<Longrightarrow> keepsRest t u \<Longrightarrow> keepsRest s u"
  by (simp add: keepsRest_def)

lemma updateModel_rest:
  "updateModel env n s = Some (r, s') \<Longrightarrow> keepsRest s s' \<and> jpMessageId s' = jpMessageId s \<and> jpJava s' = jpJava s"
  by (auto simp: updateModel_def findTypeModel_def bindP_def keepsRest_def split: option.splits sum.splits if_splits)

lemma readNode_rest:
  "readNode env ns n s = Some (r, s') \<Longrightarrow> keepsRest s s' \<and> jpMessageId s' = jpMessageId s"
  unfolding readNode_def Let_def
  by (auto simp: bindP_def liftP_def keepsRest_def split: option.splits sum.splits prod.splits dest!: updateModel_rest)

lemma readData_result:
  assumes "readData env ns n s = Some (Inr d, s')"
  shows "keepsRest s s' \<and> jpMessageId s' = jpMessageId s \<and> ndNodeId d = n \<and>
    (\<exists>r. readNode env ns n s = Some (r, s') \<and>
      (case r of
         Inr v \<Rightarrow> ndData d = v \<and> ndException d = None
       | Inl e \<Rightarrow> e \<noteq> UndefinedBehaviour \<and> ndData d = None \<and>
           (\<exists>x. ndException d = Some x \<and> exCause x = Some (jeException env e))))"
proof -
  obtain r s1 where r: "readNode env ns n s = Some (r, s1)"
    using assms by (cases "readNode env ns n s") (auto simp: readData_def catchP_def bindP_def)
  then have "s1 = s'" "ndNodeId d = n" "case r of
         Inr v \<Rightarrow> ndData d = v \<and> ndException d = None
       | Inl e \<Rightarrow> e \<noteq> UndefinedBehaviour \<and> ndData d = None \<and>
           (\<exists>x. ndException d = Some x \<and> exCause x = Some (jeException env e))"
    using assms by (auto simp: readData_def catchP_def bindP_def newNodeData_def setCause_def
        split: sum.splits if_splits)
  then show ?thesis using readNode_rest [OF r] r by auto
qed

lemma readAll_result:
  "readAll env ns nodeIds s = Some (Inr ds, s') \<Longrightarrow>
   map ndNodeId ds = nodeIds \<and> keepsRest s s' \<and>
   jpMessageId s' = jpMessageId s + of_nat (length nodeIds) \<and>
   (\<forall>d\<in>set ds. ndException d = None \<or>
      ndData d = None \<and> (\<exists>x e. ndException d = Some x \<and> exCause x = Some (jeException env e)))"
proof (induction nodeIds arbitrary: s ds)
  case (Cons n ns')
  then obtain d s1 ds1 where d: "readData env ns n s = Some (Inr d, s1)"
    and rest: "readAll env ns ns' (nextMessageId s1) = Some (Inr ds1, s')" "ds = d # ds1"
    by (auto simp: bindP_eq_Some)
  note first = readData_result [OF d] and others = Cons.IH [OF rest(1)]
  have "ndException d = None \<or>
      ndData d = None \<and> (\<exists>x e. ndException d = Some x \<and> exCause x = Some (jeException env e))"
  proof -
    obtain r where "case r of Inr v \<Rightarrow> ndData d = v \<and> ndException d = None
       | Inl e \<Rightarrow> e \<noteq> UndefinedBehaviour \<and> ndData d = None \<and>
           (\<exists>x. ndException d = Some x \<and> exCause x = Some (jeException env e))"
      using first by blast
    then show ?thesis by (cases r) auto
  qed
  moreover have "keepsRest s s'"
    using first others by (auto simp: keepsRest_def)
  ultimately show ?case
    using first others rest(2) by (auto simp: algebra_simps)
qed simp

text \<open>
  A read that returns has one result for every node, in the order of the nodes: the value, or no
  value and an exception with the cause. It takes one message id for itself and one for each node, and
  leaves the name space, the subscriptions and what was delivered as they are.
\<close>

theorem java_read_results:
  "jRead env nodeIds s = Some (Inr ds, s') \<Longrightarrow>
   map ndNodeId ds = nodeIds \<and> keepsRest s s' \<and>
   jpMessageId s' = jpMessageId s + 1 + of_nat (length nodeIds) \<and>
   (\<forall>d\<in>set ds. ndException d = None \<or>
      ndData d = None \<and> (\<exists>x e. ndException d = Some x \<and> exCause x = Some (jeException env e)))"
  using readAll_result [of env "jpNamespace s" nodeIds "nextMessageId s" ds s']
  by (auto simp: jRead_def keepsRest_def)

text \<open>What is handed to Java for a value.\<close>

definition writtenObject :: "'j java_env \<Rightarrow> io_node_data \<Rightarrow> (cpp_error, java_object) res" where
  "writtenObject env d =
    (case ndData d of
       None \<Rightarrow> Inl UndefinedBehaviour
     | Some v \<Rightarrow> bindR (io2bin v) (binToJava (jeVm env)))"

definition storeObject :: "'j java_env \<Rightarrow> 'j \<Rightarrow> io_node_data \<Rightarrow> 'j" where
  "storeObject env j d =
    (case writtenObject env d of
       Inl _ \<Rightarrow> j
     | Inr x \<Rightarrow> joWrite (jeObject env) j (ioNamespaceIndex (ndNodeId d))
         (nodeText (jeVm env) (io2binNodeId (ndNodeId d))) x)"

lemma io2binNodeId_ns [simp]: "paramNamespaceIndex (io2binNodeId n) = ioNamespaceIndex n"
  by (cases n) simp_all

definition failedWrite :: "'j java_env \<Rightarrow> io_node_data \<Rightarrow> bool" where
  "failedWrite env d \<longleftrightarrow> \<not> isOk (writtenObject env d)"

lemma writeAll_result:
  assumes "jeClassFound env"
  shows "\<forall>d\<in>set ds. writtenObject env d \<noteq> Inl UndefinedBehaviour \<Longrightarrow>
    writeAll env ds ex s = Some (Inr (Some (case ex of Some x \<Rightarrow> Some x | None \<Rightarrow>
        map_option (\<lambda>d. writeException env d (projl (writtenObject env d))) (find (failedWrite env) ds))),
      s\<lparr>jpJava := foldl (storeObject env) (jpJava s) ds,
        jpMessageId := jpMessageId s + of_nat (length (filter (\<lambda>d. \<not> failedWrite env d) ds))\<rparr>)"
proof (induction ds arbitrary: ex s)
  case (Cons d ds)
  have data: "ndData d \<noteq> None" using Cons.prems by (cases "ndData d") (auto simp: writtenObject_def)
  have wn: "writeNode env d s = (case writtenObject env d of Inl e \<Rightarrow> Some (Inl e, s)
      | Inr x \<Rightarrow> Some (Inr (), nextMessageId (s\<lparr>jpJava := storeObject env (jpJava s) d\<rparr>)))" for s
    by (cases "writtenObject env d")
      (simp_all add: writeNode_def writtenObject_def storeObject_def Let_def split: option.splits)
  show ?case
  proof (cases "writtenObject env d")
    case (Inl e)
    then have e: "e \<noteq> UndefinedBehaviour" using Cons.prems by auto
    let ?ex = "case ex of None \<Rightarrow> Some (writeException env d e) | Some x \<Rightarrow> Some x"
    have "catchP (bindP (writeNode env d) (\<lambda>_. liftP (Inr ex)))
        (\<lambda>e. liftP (Inr (case ex of None \<Rightarrow> Some (writeException env d e) | Some x \<Rightarrow> Some x))) s = Some (Inr ?ex, s)"
      using e by (simp add: catchP_def bindP_def wn Inl)
    then show ?thesis
      using Cons data assms Inl
      by (cases ex) (auto simp: storeObject_def failedWrite_def)
  next
    case (Inr x)
    have "catchP (bindP (writeNode env d) (\<lambda>_. liftP (Inr ex)))
        (\<lambda>e. liftP (Inr (case ex of None \<Rightarrow> Some (writeException env d e) | Some x \<Rightarrow> Some x))) s =
        Some (Inr ex, nextMessageId (s\<lparr>jpJava := storeObject env (jpJava s) d\<rparr>))"
      by (simp add: catchP_def bindP_def wn Inr)
    then show ?thesis
      using Cons data assms Inr
      by (cases ex) (auto simp: failedWrite_def nextMessageId_def algebra_simps)
  qed
qed (simp split: option.split)

text \<open>
  When every value is present and the class is found, a write hands the values that can be converted
  to the Java object, in the order of the nodes and each for its own node, whatever becomes of the
  others; it throws when some value cannot be converted, and the cause is the exception of the first one.
\<close>

theorem java_write_result:
  "jeClassFound env \<Longrightarrow> \<forall>d\<in>set ds. writtenObject env d \<noteq> Inl UndefinedBehaviour \<Longrightarrow>
   \<exists>r s'. jWrite env ds s = Some (Inr r, s') \<and> jpJava s' = foldl (storeObject env) (jpJava s) ds \<and>
     keepsRest s s' \<and>
     (case find (failedWrite env) ds of
        None \<Rightarrow> r = None
      | Some d \<Rightarrow> \<exists>x e. r = Some x \<and> writtenObject env d = Inl e \<and> exCause x = Some (writeException env d e))"
proof -
  assume a: "jeClassFound env" "\<forall>d\<in>set ds. writtenObject env d \<noteq> Inl UndefinedBehaviour"
  have "isOk (writtenObject env d) \<or> (\<exists>e. writtenObject env d = Inl e)" for d
    by (cases "writtenObject env d") simp_all
  then have "failedWrite env d \<Longrightarrow> \<exists>e. writtenObject env d = Inl e" for d
    by (auto simp: failedWrite_def)
  then have "\<exists>e. writtenObject env d = Inl e" if "find (failedWrite env) ds = Some d" for d
    using that by (auto simp: find_Some_iff)
  then show ?thesis
    using writeAll_result [OF a, of None "nextMessageId s"]
    by (fastforce simp: jWrite_def keepsRest_def setCause_def split: option.split)
qed

lemma typeText_ne: "typeText n = Inr r \<Longrightarrow> r \<noteq> []"
  by (auto simp: typeText_def split: ua_node_id.splits)

lemma getParamId_text:
  assumes "jeBrowser env = Some nb" "nbVariable nb n = Some dt" "typeText dt = Inr ref"
    and "isNumericId dt \<or> (\<exists>k t. n = UaString k t)"
  shows "getParamId env n = Inr ref"
  using assms by (auto simp: getParamId_def typeText_def split: ua_node_id.splits)

lemma updateModel_known:
  assumes "jeBrowser env = Some nb" "nbVariable nb n = Some dt" "recorded nb (jpFields s) dt"
  shows "updateModel env n s = Some (Inr (), s)"
  using assms by (auto simp: updateModel_def findTypeModel_def findFieldModel_def recorded_def bindP_def)

lemma readNode_known:
  assumes env: "jeClassFound env" "jeBrowser env = Some nb"
    and dt: "nbVariable nb (getUaNode (io2binNodeId n)) = Some dt" "typeText dt = Inr ref"
      "isNumericId dt \<or> (\<exists>k t. getUaNode (io2binNodeId n) = UaString k t)" "recorded nb (jpFields s) dt"
    and j: "joRead (jeObject env) (jpJava s) ns (nodeText (jeVm env) (io2binNodeId n)) = (Some data, j)"
  shows "readNode env ns n s = Some
    (bindR (javaToBin (jeVm env) (jpModel s) data ref (refModelType ref)) (\<lambda>b. mapR Some (bin2io ns b)),
     s\<lparr>jpJava := j\<rparr>)"
proof -
  have "updateModel env (getUaNode (io2binNodeId n)) s = Some (Inr (), s)"
    using updateModel_known env(2) dt(1,4) .
  then show ?thesis
    using env dt j getParamId_text [OF env(2) dt(1-3)] typeText_ne [OF dt(2)]
    by (simp add: readNode_def Let_def attachClass_def guardR_def)
qed


text \<open>A Java object that keeps the last value of each node.\<close>

type_synonym java_store = "(c_int \<times> java_string) \<Rightarrow> java_object option"

definition exampleStore :: "java_store java_object_methods" where
  "exampleStore = \<lparr>joRead = (\<lambda>j ns k. (j (ns, k), j)), joWrite = (\<lambda>j ns k d. j((ns, k) \<mapsto> d)),
     joExec = (\<lambda>j ns method ns' node params. (Some (JObjectArray params), None, j)),
     joSubscribe = (\<lambda>j ns k. j), joUnsubscribe = (\<lambda>j ns k. j)\<rparr>"

definition exampleJavaEnv :: "java_store java_env" where
  "exampleJavaEnv = \<lparr>jeBrowser = Some exampleBrowser, jeVm = exampleVm, jeClassFound = True,
     jeObject = exampleStore, jeException = (\<lambda>e. newException ''conversion'' ''x'' 1), jeAddress = ''0x1'',
     jeCallback = (\<lambda>_ _. None)\<rparr>"

definition exampleProvider :: "java_store java_provider" where
  "exampleProvider = \<lparr>jpJava = Map.empty, jpMessageId = 0, jpNamespace = 1, jpFields = exampleModel,
     jpModel = exampleModel, jpCallbacks = [(NodeIdNumeric 1 1, 5), (NodeIdNumeric 1 2, 6), (NodeIdNumeric 1 1, 7)],
     jpDelivered = []\<rparr>"

definition exampleValue :: io_variant where
  "exampleValue = IOStructure (NodeIdNumeric 1 7)
     [(''name'', IOScalar (IOString (Some ''a''))), (''values'', IOArray ioLONG (Some [IOScalar (IOLong 4), IOScalar (IOLong 5)]))]"

lemma exampleText_structure: "exampleText (UaNumeric 1 7) = ''NS1|Numeric|7''"
  by (simp add: exampleText_def) code_simp


lemma java_read_results_witness:
  "\<exists>ds s'. jRead exampleJavaEnv [NodeIdNumeric 1 3] exampleProvider = Some (Inr ds, s') \<and>
     map ndNodeId ds = [NodeIdNumeric 1 3] \<and> jpMessageId s' = 2"
proof -
  obtain ds s' where r: "jRead exampleJavaEnv [NodeIdNumeric 1 3] exampleProvider = Some (Inr ds, s')"
    by (simp add: jRead_def readData_def readNode_def updateModel_def exampleJavaEnv_def exampleBrowser_def
        getUaNode_def exampleStore_def exampleProvider_def attachClass_def guardR_def Let_def catchP_def bindP_def
        nextMessageId_def split_beta)
  then show ?thesis
    using java_read_results [OF r] by (simp add: exampleProvider_def)
qed

definition exampleWrites :: "io_node_data list" where
  "exampleWrites = [newNodeData (NodeIdNumeric 1 1) (Some (IOScalar (IOLong 4))),
     newNodeData (NodeIdNumeric 1 2) (Some (IONodeProperties VhSync))]"

lemma java_write_result_witness:
  "\<exists>x s'. jWrite exampleJavaEnv exampleWrites exampleProvider = Some (Inr (Some x), s') \<and>
     jpJava s' = foldl (storeObject exampleJavaEnv) Map.empty exampleWrites"
proof -
  have written: "writtenObject exampleJavaEnv (exampleWrites ! 0) = Inr (JInteger 4)"
    "writtenObject exampleJavaEnv (exampleWrites ! 1) = Inl ConversionException"
    by (simp_all add: writtenObject_def exampleWrites_def newNodeData_def)
  then have ok: "\<forall>d\<in>set exampleWrites. writtenObject exampleJavaEnv d \<noteq> Inl UndefinedBehaviour"
    by (simp add: exampleWrites_def)
  have "find (failedWrite exampleJavaEnv) exampleWrites = Some (exampleWrites ! 1)"
    using written by (simp add: exampleWrites_def failedWrite_def)
  moreover have "jeClassFound exampleJavaEnv" "jpJava exampleProvider = Map.empty"
    by (simp_all add: exampleJavaEnv_def exampleProvider_def)
  ultimately show ?thesis
    using java_write_result [of exampleJavaEnv exampleWrites exampleProvider] ok by auto
qed

subsection \<open>The model after a call\<close>

lemma findTypeModel_Some:
  "findTypeModel env n s = Some (r, s') \<longleftrightarrow>
   (\<exists>m. findFieldModel (jeBrowser env) n (jpFields s) = Some (r, m) \<and> s' = s\<lparr>jpFields := m\<rparr>)"
  by (auto simp: findTypeModel_def)

lemma outputModels_model:
  "outputModels env ts s = Some (Inr (), s') \<Longrightarrow>
   dom (jpFields s) \<subseteq> dom (jpFields s') \<and>
   jpModel s' = (if dom (jpFields s') = dom (jpFields s) then jpModel s else Map.empty)"
proof (induction ts arbitrary: s)
  case (Cons t ts)
  obtain changed m where m: "findFieldModel (jeBrowser env) t (jpFields s) = Some (Inr changed, m)"
    and rest: "outputModels env ts (if changed then s\<lparr>jpFields := m, jpModel := Map.empty\<rparr> else s\<lparr>jpFields := m\<rparr>) =
      Some (Inr (), s')"
    using Cons.prems by (auto simp: bindP_eq_Some findTypeModel_Some split: if_splits)
  note grow = findFieldModel_dom [OF m]
  show ?case
  proof (cases changed)
    case True
    then have "dom (jpFields s) \<subset> dom m" "dom m \<subseteq> dom (jpFields s')" "jpModel s' = Map.empty"
      using Cons.IH [OF rest] grow by (auto split: if_splits)
    then have "dom (jpFields s) \<subset> dom (jpFields s')" "jpModel s' = Map.empty" by blast+
    then show ?thesis by (metis psubset_eq)
  next
    case False
    then show ?thesis using Cons.IH [OF rest] grow by auto
  qed
qed simp

text \<open>
  Calling a method whose output types are new to the provider empties the model the conversions use:
  the function hands over a local variable that hides the provider's model. Nothing restores it for the
  types the provider has recorded, since it hands its model over only when a type is new.
\<close>

theorem java_call_model:
  "prepareMethod env p s = Some (Inr (), s') \<Longrightarrow>
   dom (jpFields s) \<subseteq> dom (jpFields s') \<and>
   jpModel s' = (if dom (jpFields s') = dom (jpFields s) then jpModel s else Map.empty)"
  using outputModels_model [of env _ s s']
  by (auto simp: prepareMethod_def bindP_liftP split: sum.splits option.splits if_splits)

text \<open>
  A Java exception of a call whose cause has a cause with a status code becomes an exception with that
  error code; every other Java exception is undefined behaviour, because the code reads the status code
  through a null pointer.
\<close>

theorem java_call_exception:
  "(case Option.bind (thCause ex) thCause of
      None \<Rightarrow> callResult env ns md model result (Some ex) = Inl UndefinedBehaviour
    | Some cause \<Rightarrow>
        (case (thMessage ex, thStatusCode cause) of
           (Some _, Some code) \<Rightarrow>
             (\<exists>x. callResult env ns md model result (Some ex) = Inr ([], Some x) \<and>
               getErrorCode x = Some (scast code))
         | _ \<Rightarrow> callResult env ns md model result (Some ex) = Inl UndefinedBehaviour))"
  by (auto simp: callResult_def getException_def applicationError_def newException_def setErrorCode_def Let_def
      split: option.splits)

subsection \<open>Subscribing and unsubscribing\<close>

lemma readData_rest: "readData env ns n s = Some (r, s') \<Longrightarrow> keepsRest s s'"
  by (auto simp: readData_def catchP_def bindP_def split: option.splits sum.splits if_splits prod.splits dest: readNode_rest)

lemma readAll_rest: "readAll env ns nodeIds s = Some (r, s') \<Longrightarrow> keepsRest s s'"
proof (induction nodeIds arbitrary: s r s')
  case (Cons n nodeIds)
  then show ?case
    by (auto simp: bindP_def split: option.splits sum.splits prod.splits dest!: readData_rest Cons.IH)
      (simp_all add: keepsRest_def)
qed simp

lemma jRead_rest: "jRead env nodeIds s = Some (r, s') \<Longrightarrow> keepsRest s s'"
  using readAll_rest [of env "jpNamespace s" nodeIds "nextMessageId s"] by (auto simp: jRead_def keepsRest_def)

lemma subscribeAll_callbacks:
  "jeClassFound env \<Longrightarrow> \<exists>s'. subscribeAll env cb nodeIds s = Some (Inr (), s') \<and>
     jpCallbacks s' = jpCallbacks s @ map (\<lambda>n. (n, cb)) nodeIds"
proof (induction nodeIds arbitrary: s)
  case (Cons n nodeIds)
  let ?s = "nextMessageId (s\<lparr>jpJava := joSubscribe (jeObject env) (jpJava s) (ioNamespaceIndex n)
    (subscriptionText (jeVm env) (io2binNodeId n)), jpCallbacks := jpCallbacks s @ [(n, cb)]\<rparr>)"
  show ?case
    using Cons.IH [OF Cons.prems, of ?s] Cons.prems by (auto simp: attachClass_def guardR_def)
qed simp

lemma unsubscribeAll_callbacks:
  "jeClassFound env \<Longrightarrow> \<exists>s'. unsubscribeAll env nodeIds s = Some (Inr (), s') \<and>
     jpCallbacks s' = foldl (\<lambda>cs n. removeCallback n cs) (jpCallbacks s) nodeIds"
proof (induction nodeIds arbitrary: s)
  case (Cons n nodeIds)
  let ?s = "nextMessageId (s\<lparr>jpJava := joUnsubscribe (jeObject env) (jpJava s) (ioNamespaceIndex n)
    (subscriptionText (jeVm env) (io2binNodeId n)), jpCallbacks := removeCallback n (jpCallbacks s)\<rparr>)"
  show ?case
    using Cons.IH [OF Cons.prems, of ?s] Cons.prems by (auto simp: attachClass_def guardR_def)
qed simp

lemma removeCallback_first:
  "n \<notin> fst ` set us \<Longrightarrow> removeCallback n (us @ (n, c) # vs) = us @ vs"
  by (induction us) auto

lemma removeCallback_append:
  "n \<notin> fst ` set us \<Longrightarrow> removeCallback n (us @ vs) = us @ removeCallback n vs"
  by (induction us) auto

lemma removeCallback_map: "removeCallback n (map (\<lambda>k. (k, cb)) ks) = map (\<lambda>k. (k, cb)) (remove1 n ks)"
  by (induction ks) auto

lemma removeCallbacks_own:
  "\<forall>n\<in>set ks. n \<notin> fst ` set us \<Longrightarrow>
   foldl (\<lambda>cs n. removeCallback n cs) (us @ map (\<lambda>k. (k, cb)) js) ks =
     us @ map (\<lambda>k. (k, cb)) (foldl (\<lambda>ls n. remove1 n ls) js ks)"
  by (induction ks arbitrary: js) (simp_all add: removeCallback_append removeCallback_map)

lemma foldl_remove1_all: "mset ks = mset js \<Longrightarrow> foldl (\<lambda>ls n. remove1 n ls) js ks = []"
proof (induction ks arbitrary: js)
  case (Cons k ks)
  then have "mset ks = mset (remove1 k js)" by (metis add_mset_remove_trivial mset.simps(2) mset_remove1)
  then show ?case using Cons.IH by simp
qed simp

text \<open>
  A subscription appends one callback for each node, in order, whatever the read that follows gives;
  unsubscribing the same nodes removes exactly these again, when there was no subscription of them
  before. (Otherwise the oldest subscription of a node goes, whoever made it.)
\<close>

theorem java_subscribe_unsubscribe:
  "jeClassFound env \<Longrightarrow> \<forall>n\<in>set nodeIds. n \<notin> fst ` set (jpCallbacks s) \<Longrightarrow>
   jSubscribe env nodeIds cb s = Some (r, s1) \<Longrightarrow>
   jpCallbacks s1 = jpCallbacks s @ map (\<lambda>n. (n, cb)) nodeIds \<and>
   (\<exists>s2. jUnsubscribe env nodeIds s1 = Some (Inr (), s2) \<and> jpCallbacks s2 = jpCallbacks s)"
proof -
  assume a: "jeClassFound env" "\<forall>n\<in>set nodeIds. n \<notin> fst ` set (jpCallbacks s)"
    "jSubscribe env nodeIds cb s = Some (r, s1)"
  obtain t where t: "subscribeAll env cb nodeIds (nextMessageId s) = Some (Inr (), t)"
    "jpCallbacks t = jpCallbacks s @ map (\<lambda>n. (n, cb)) nodeIds"
    using subscribeAll_callbacks [OF a(1), of cb nodeIds "nextMessageId s"] by auto
  then have "jRead env nodeIds t = Some (r, s1)" using a(3) by (simp add: jSubscribe_def)
  then have cbs: "jpCallbacks s1 = jpCallbacks s @ map (\<lambda>n. (n, cb)) nodeIds"
    using jRead_rest t(2) by (fastforce simp: keepsRest_def)
  have "foldl (\<lambda>cs n. removeCallback n cs) (jpCallbacks s1) (rev nodeIds) = jpCallbacks s"
    using removeCallbacks_own [of "rev nodeIds" "jpCallbacks s" cb nodeIds] a(2)
    by (simp add: cbs foldl_remove1_all)
  then show ?thesis
    using cbs unsubscribeAll_callbacks [OF a(1), of "rev nodeIds" "nextMessageId s1"]
    by (auto simp: jUnsubscribe_def)
qed

lemma java_unsubscribe_oldest:
  assumes "jeClassFound env" "jpCallbacks s = us @ (n, c) # vs" "n \<notin> fst ` set us"
  shows "\<exists>s'. jUnsubscribe env [n] s = Some (Inr (), s') \<and> jpCallbacks s' = us @ vs"
  using unsubscribeAll_callbacks [OF assms(1), of "[n]" "nextMessageId s"] removeCallback_first [OF assms(3), of c vs]
  by (auto simp: jUnsubscribe_def assms(2))

subsection \<open>Delivering\<close>

lemma deliver_all:
  "deliver env n event cs s = Some (Inr (), s') \<Longrightarrow>
   s' = s\<lparr>jpDelivered := jpDelivered s @ map (\<lambda>c. (snd c, event)) (filter (\<lambda>c. fst c = n) cs)\<rparr>"
proof (induction cs arbitrary: s)
  case (Cons c cs)
  then show ?case
    using Cons.IH [of "s\<lparr>jpDelivered := jpDelivered s @ [(snd c, event)]\<rparr>"] Cons.IH [of s]
    by (auto split: if_splits option.splits)
qed simp

lemma deliver_returns:
  "\<forall>c\<in>set cs. fst c = n \<longrightarrow> jeCallback env (snd c) event = None \<Longrightarrow>
   \<exists>s'. deliver env n event cs s = Some (Inr (), s')"
  by (induction cs arbitrary: s) auto

text \<open>
  A notification of the Java program that returns was delivered once to every callback of the node, in
  the order of the subscriptions and to no other callback, with one value: the binary value the object
  stands for under the model, as the internal interface has it. Subscriptions stay as they are.
\<close>

theorem java_notification_delivery:
  "jNotification env now ns nodeId data s = Some (Inr (), s') \<Longrightarrow>
   \<exists>p ref m b v. createParamId (jeVm env) ns nodeId = Inr p \<and> getParamId env (getUaNode p) = Inr ref \<and>
     javaToBin (jeVm env) m data ref (refModelType ref) = Inr b \<and> bin2io ns b = Inr v \<and>
     jpModel s' = m \<and> jpCallbacks s' = jpCallbacks s \<and>
     jpDelivered s' = jpDelivered s @
       map (\<lambda>c. (snd c, (now * 1000, [newNodeData (bin2ioNodeId p ns) (Some v)])))
         (filter (\<lambda>c. fst c = bin2ioNodeId p ns) (jpCallbacks s))"
proof -
  assume a: "jNotification env now ns nodeId data s = Some (Inr (), s')"
  then obtain p where p: "createParamId (jeVm env) ns nodeId = Inr p"
    by (cases "createParamId (jeVm env) ns nodeId") (auto simp: jNotification_def)
  obtain s1 where s1: "updateModel env (getUaNode p) s = Some (Inr (), s1)"
    using a p by (auto simp: jNotification_def Let_def bindP_eq_Some)
  obtain ref where ref: "getParamId env (getUaNode p) = Inr ref"
    using a p s1 by (cases "getParamId env (getUaNode p)") (auto simp: jNotification_def Let_def)
  obtain b v where v: "javaToBin (jeVm env) (jpModel s1) data ref (refModelType ref) = Inr b" "bin2io ns b = Inr v"
    using a p s1 ref
    by (auto simp: jNotification_def Let_def bindP_liftP bindR_eq_Inr split: sum.splits)
  have "deliver env (bin2ioNodeId p ns) (now * 1000, [newNodeData (bin2ioNodeId p ns) (Some v)]) (jpCallbacks s1) s1 =
      Some (Inr (), s')"
    using a p s1 ref v by (simp add: jNotification_def Let_def)
  note d = deliver_all [OF this] and rest = updateModel_rest [OF s1]
  have "jpModel s' = jpModel s1" using d by simp
  then show ?thesis
    using p ref v d rest by (intro exI [of _ p] exI [of _ ref] exI [of _ "jpModel s1"] exI [of _ b] exI [of _ v])
      (simp add: keepsRest_def)
qed

lemma example_recorded:
  "nbVariable exampleBrowser (UaNumeric 1 1) = Some (UaNumeric 1 7)"
  "recorded exampleBrowser exampleModel (UaNumeric 1 7)"
  "typeText (UaNumeric 1 7) = Inr ''NS1|Numeric|7''"
  using exampleText_structure
  by (simp_all add: recorded_def exampleBrowser_def exampleModel_def exampleText_def typeText_def)

lemma java_notification_delivery_witness:
  "\<exists>data s'. jNotification exampleJavaEnv 3 1 (JInteger 1) data exampleProvider = Some (Inr (), s') \<and>
     map fst (jpDelivered s') = [5, 7]"
proof -
  obtain d where d: "javaToBin exampleVm exampleModel d ''NS1|Numeric|7'' exampleRef = Inr exampleStruct"
    using javaStable_back [OF example_stable] by blast
  have v: "bin2io 1 exampleStruct = Inr exampleValue"
    by (simp add: exampleValue_def exampleStruct_def io_type_nums bin_type_nums
        cstr_def bin2ioArrayType_def bin2ioNodeId_def arrayTypeAfter_def)
  have id: "createParamId exampleVm 1 (JInteger 1) = Inr (ParamNumeric 1 1)" "getUaNode (ParamNumeric 1 1) = UaNumeric 1 1"
    "bin2ioNodeId (ParamNumeric 1 1) 1 = NodeIdNumeric 1 1"
    by (simp_all add: createParamId_def javaInt_def getUaNode_def bin2ioNodeId_def)
  have env: "jeBrowser exampleJavaEnv = Some exampleBrowser" "jeVm exampleJavaEnv = exampleVm"
    "jpFields exampleProvider = exampleModel" "jpModel exampleProvider = exampleModel"
    by (simp_all add: exampleJavaEnv_def exampleProvider_def)
  have model: "updateModel exampleJavaEnv (UaNumeric 1 1) exampleProvider = Some (Inr (), exampleProvider)"
    using updateModel_known [OF env(1) example_recorded(1)] example_recorded(2) env(3) by simp
  have ref: "getParamId exampleJavaEnv (UaNumeric 1 1) = Inr ''NS1|Numeric|7''"
    using getParamId_text [OF env(1) example_recorded(1,3)] by simp
  have "refModelType ''NS1|Numeric|7'' = exampleRef"
    by (simp add: refModelType_def exampleRef_def newModelType_def)
  moreover obtain s' where "deliver exampleJavaEnv (NodeIdNumeric 1 1)
      (3 * 1000, [newNodeData (NodeIdNumeric 1 1) (Some exampleValue)]) (jpCallbacks exampleProvider) exampleProvider =
      Some (Inr (), s')"
    using deliver_returns [of "jpCallbacks exampleProvider" "NodeIdNumeric 1 1" exampleJavaEnv]
    by (metis exampleJavaEnv_def java_env.select_convs(7))
  ultimately have s': "jNotification exampleJavaEnv 3 1 (JInteger 1) d exampleProvider = Some (Inr (), s')"
    using d v id env model ref by (simp add: jNotification_def Let_def)
  have "map fst (jpDelivered s') = [5, 7]"
    using java_notification_delivery [OF s'] id env(2) by (auto simp: exampleProvider_def)
  with s' show ?thesis by (intro exI conjI)
qed

lemma java_subscribe_unsubscribe_witness:
  "\<exists>r s1 s2. jSubscribe exampleJavaEnv [NodeIdNumeric 1 3] 9 exampleProvider = Some (r, s1) \<and>
     jpCallbacks s1 = jpCallbacks exampleProvider @ [(NodeIdNumeric 1 3, 9)] \<and>
     jUnsubscribe exampleJavaEnv [NodeIdNumeric 1 3] s1 = Some (Inr (), s2) \<and>
     jpCallbacks s2 = jpCallbacks exampleProvider"
proof -
  have env: "jeClassFound exampleJavaEnv" by (simp add: exampleJavaEnv_def)
  obtain r s1 where r: "jSubscribe exampleJavaEnv [NodeIdNumeric 1 3] 9 exampleProvider = Some (r, s1)"
    by (simp add: jSubscribe_def jRead_def readData_def readNode_def updateModel_def exampleJavaEnv_def exampleBrowser_def
        getUaNode_def exampleStore_def exampleProvider_def attachClass_def guardR_def Let_def catchP_def bindP_def
        nextMessageId_def split_beta)
  show ?thesis
    using java_subscribe_unsubscribe [OF env _ r] r by (auto simp: exampleProvider_def)
qed

definition exampleJavaCallEnv :: "java_store java_env" where
  "exampleJavaCallEnv = exampleJavaEnv\<lparr>jeBrowser := Some (exampleBrowser\<lparr>nbOutputTypes :=
     [UaString 1 ''go'' \<mapsto> Some [UaNumeric 1 8]]\<rparr>)\<rparr>"

lemma java_call_model_witness:
  "\<exists>s'. prepareMethod exampleJavaCallEnv (ParamString 1 ''go'') exampleProvider = Some (Inr (), s') \<and>
     jpModel s' = Map.empty"
proof -
  have part: "exampleText (UaNumeric 1 8) = ''NS1|Numeric|8''"
    by (simp add: exampleText_def) code_simp
  obtain s' where s': "prepareMethod exampleJavaCallEnv (ParamString 1 ''go'') exampleProvider = Some (Inr (), s')"
    and new: "jpFields s' ''NS1|Numeric|8'' \<noteq> None"
    using part
    by (auto simp: prepareMethod_def paramIdString_def exampleJavaCallEnv_def exampleJavaEnv_def cstr_def
        exampleBrowser_def findTypeModel_def findFieldModel_def runModel_simps openType_def exampleDefinition_def
        modelTypeOf_def exampleProvider_def exampleModel_def bindP_def)
  have "jpFields exampleProvider ''NS1|Numeric|8'' = None"
    by (simp add: exampleProvider_def exampleModel_def)
  then have "dom (jpFields s') \<noteq> dom (jpFields exampleProvider)" using new by blast
  then show ?thesis using java_call_model [OF s'] s' by auto
qed

text \<open>An event of the Java program is only defined when all its fields have numeric ids.\<close>

lemma eventFields_numeric:
  assumes "eventFields ns fs = Inr ys" "f \<in> set fs"
  shows "\<exists>n i. paramIdParse (fst f) = ParamNumeric n i"
proof (cases "paramIdParse (fst f)")
  case (ParamString n t)
  have "isOk (eventFields ns fs)" using assms(1) by simp
  then have "isOk (paramIdValue (newParamIdParsed (fst f)))"
    using assms(2) unfolding eventFields_def isOk_traverseR by (auto simp: isOk_iff bindR_eq_Inr)
  then show ?thesis by (simp add: newParamIdParsed_def ParamString)
qed simp

end
