(* ===== verification/Work_Loop.thy ===== *)
theory Work_Loop
  imports Op_Monad "HOL-Library.Multiset"
begin

text \<open>
  A depth first walk as a loop over a list of pending items. A recursion of the source that only appends
  to shared state and lets every exception pass is this loop: the items a visit finds are put in front
  of those still waiting. The locales state what is needed to reason about it: an invariant, and the two
  measures that make it end.
\<close>

type_synonym ('e, 's, 'x) visitor = "'x \<Rightarrow> 's \<Rightarrow> ('e, 'x list) res \<times> 's"

partial_function (option) workLoop ::
  "('e, 's, 'x) visitor \<Rightarrow> 'x list \<Rightarrow> 's \<Rightarrow> (('e, unit) res \<times> 's) option"
where
  "workLoop visit pending s =
    (case pending of
       [] \<Rightarrow> Some (Inr (), s)
     | x # rest \<Rightarrow>
         (case visit x s of
            (Inl e, s') \<Rightarrow> Some (Inl e, s')
          | (Inr found, s') \<Rightarrow> workLoop visit (found @ rest) s'))"

declare workLoop.simps [code]

lemma workLoop_Nil [simp]: "workLoop visit [] s = Some (Inr (), s)"
  by (subst workLoop.simps) simp

lemma workLoop_Cons:
  "workLoop visit (x # rest) s =
    (case visit x s of
       (Inl e, s') \<Rightarrow> Some (Inl e, s')
     | (Inr found, s') \<Rightarrow> workLoop visit (found @ rest) s')"
  by (subst workLoop.simps) simp

lemma workLoop_append:
  "workLoop visit xs s = Some y \<Longrightarrow>
   workLoop visit (xs @ ys) s =
     (case fst y of Inl e \<Rightarrow> Some y | Inr _ \<Rightarrow> workLoop visit ys (snd y))"
proof (induction rule: workLoop.raw_induct [rotated, consumes 1, case_names step])
  case (step rec visit pending s y)
  show ?case
  proof (cases pending)
    case Nil
    then show ?thesis using step.hyps by auto
  next
    case (Cons x rest)
    obtain r s' where v: "visit x s = (r, s')" by fastforce
    show ?thesis
    proof (cases r)
      case (Inl e)
      then have "y = (Inl e, s')" using step.hyps v Cons by simp
      then show ?thesis using v Inl Cons by (simp add: workLoop_Cons)
    next
      case (Inr found)
      then have "rec visit (found @ rest) s' = Some y" using step.hyps v Cons by simp
      from step.IH [OF this] show ?thesis using v Inr Cons by (simp add: workLoop_Cons)
    qed
  qed
qed

text \<open>An invariant of the state and the pending items, and what holds when a visit fails.\<close>

locale work_invariant =
  fixes visit :: "('e, 's, 'x) visitor"
    and I :: "'s \<Rightarrow> 'x list \<Rightarrow> bool"
    and E :: "'e \<Rightarrow> 's \<Rightarrow> bool"
  assumes keep: "I s (x # rest) \<Longrightarrow> visit x s = (Inr found, s') \<Longrightarrow> I s' (found @ rest)"
    and fail: "I s (x # rest) \<Longrightarrow> visit x s = (Inl e, s') \<Longrightarrow> E e s'"
begin

lemma loop_result:
  assumes "workLoop visit pending s = Some (r, s')" "I s pending"
  shows "case r of Inl e \<Rightarrow> E e s' | Inr _ \<Rightarrow> I s' []"
proof -
  have "case fst y of Inl e \<Rightarrow> E e (snd y) | Inr _ \<Rightarrow> I (snd y) []"
    if "workLoop v pending s = Some y" "v = visit" "I s pending" for v y
    using that
  proof (induction rule: workLoop.raw_induct [rotated, consumes 1, case_names step])
    case (step rec v pending s y)
    show ?case
    proof (cases pending)
      case Nil
      then show ?thesis using step.hyps step.prems by auto
    next
      case (Cons x rest)
      obtain r s1 where v: "visit x s = (r, s1)" by fastforce
      show ?thesis
      proof (cases r)
        case (Inl e)
        then have "E e s1" using fail step.prems v Cons by blast
        then show ?thesis using step.hyps step.prems v Cons Inl by auto
      next
        case (Inr found)
        then have "I s1 (found @ rest)" using keep step.prems v Cons by blast
        moreover have "rec visit (found @ rest) s1 = Some y"
          using step.hyps step.prems v Cons Inr by simp
        ultimately show ?thesis using step.IH by blast
      qed
    qed
  qed
  from this [OF assms(1) refl assms(2)] show ?thesis by (cases r) simp_all
qed

end

text \<open>
  The measure that makes a walk end: a visit records a key that was not recorded before, or it records
  nothing and finds only children of its item.
\<close>

locale work_measure =
  fixes visit :: "('e, 's, 'x) visitor"
    and recorded :: "'s \<Rightarrow> 'k set"
    and keys :: "'k set"
    and child :: "'x \<Rightarrow> 'x \<Rightarrow> bool"
  assumes progress: "visit x s = (Inr found, s') \<Longrightarrow>
      recorded s' = recorded s \<and> list_all (\<lambda>y. child y x) found \<or>
      (\<exists>k \<in> keys. k \<notin> recorded s \<and> recorded s' = insert k (recorded s))"
begin

lemma loop_returns:
  assumes "finite keys" "wfP child"
  shows "\<exists>y. workLoop visit pending s = Some y"
proof -
  have wf: "wf (less_than <*lex*> mult {(y, x). child y x})"
    using assms(2) by (intro wf_lex_prod wf_less_than wf_mult) (simp add: wfp_def)
  show ?thesis
  proof (induction "(card (keys - recorded s), mset pending)" arbitrary: s pending rule: wf_induct_rule [OF wf])
    case less: 1
    show ?case
    proof (cases pending)
      case (Cons x rest)
      obtain r s1 where v: "visit x s = (r, s1)" by fastforce
      show ?thesis
      proof (cases r)
        case (Inr found)
        from progress [of x s found s1] v Inr
        consider "recorded s1 = recorded s" "list_all (\<lambda>y. child y x) found"
          | k where "k \<in> keys" "k \<notin> recorded s" "recorded s1 = insert k (recorded s)"
          by blast
        then have "\<exists>y. workLoop visit (found @ rest) s1 = Some y"
        proof cases
          case 1
          have "(mset rest + mset found, mset rest + {#x#}) \<in> mult {(y, x). child y x}"
            using 1 by (intro one_step_implies_mult) (auto simp: list_all_iff)
          then show ?thesis using 1 Cons by (intro less) (simp add: union_commute)
        next
          case 2
          then have "keys - recorded s1 \<subset> keys - recorded s" by blast
          then have "card (keys - recorded s1) < card (keys - recorded s)"
            using assms(1) by (simp add: psubset_card_mono)
          then show ?thesis by (intro less) simp
        qed
        then show ?thesis using v Inr Cons by (simp add: workLoop_Cons)
      qed (simp add: workLoop_Cons v Cons)
    qed simp
  qed
qed

end

text \<open>Items that always lead to one of their kind: the walk does not end.\<close>

lemma workLoop_stuck:
  assumes "\<And>x s rest. P x s \<Longrightarrow> \<exists>y found s'. visit x s = (Inr (y # found), s') \<and> P y s'"
    and "P x s"
  shows "workLoop visit (x # rest) s = None"
proof (rule ccontr)
  assume "workLoop visit (x # rest) s \<noteq> None"
  then obtain y where "workLoop visit (x # rest) s = Some y" by blast
  moreover have False if "workLoop v pending s = Some y" "v = visit" "pending = x # rest" "P x s"
    for v pending x rest s y
    using that
  proof (induction arbitrary: x rest rule: workLoop.raw_induct [rotated, consumes 1, case_names step])
    case (step rec v pending s y)
    from assms(1) [OF step.prems(3)] obtain z found s' where
      "visit x s = (Inr (z # found), s')" "P z s'" by blast
    then show ?case using step.IH [of v _ s'] step.hyps step.prems by fastforce
  qed
  ultimately show False using assms(2) by blast
qed

end
