(* ===== verification/Node_Manager.thy ===== *)
theory Node_Manager
  imports Work_Loop Event_Types Io_Bridge
begin

text \<open>
  The node manager of a namespace that is read from a node set file
  (\<open>provider/uaNodeSetXml/sasModelProvider/HaNodeManagerNodeSetXml.cpp\<close>). While the SDK creates the nodes,
  the manager collects the variables below objects and the elements of object types; when all nodes are
  there it registers the event types and starts the value handling at the bridge. The nodes and their
  references are the SDK's, a parameter. Recursions over references may not end.
\<close>

subsection \<open>The nodes\<close>

datatype browse_direction = BrowseForward | BrowseInverse | BrowseBoth

record node_ref =
  nrType :: ua_node_id
  nrForward :: bool
  nrTarget :: ua_node_id

text \<open>
  \<open>msClass\<close> is the class of the node \<open>NodeBrowser::getNode\<close> finds, \<open>msBrowse\<close> the result of
  \<open>UaNode::browse\<close> by direction, reference type (with its sub types) and class mask, \<open>None\<close> for a status
  that is not good. \<open>msText\<close> is \<open>UaNodeId::toXmlString\<close>.
\<close>

record model_space =
  msClass :: "ua_node_id \<Rightarrow> node_class option"
  msBrowse :: "browse_direction \<Rightarrow> 32 word \<Rightarrow> node_class option \<Rightarrow> ua_node_id \<Rightarrow> node_ref list option"
  msText :: "ua_node_id \<Rightarrow> string"
  msBrowseName :: "ua_node_id \<Rightarrow> qualified_name"
  msDataType :: "ua_node_id \<Rightarrow> ua_node_id"

definition OpcUaId_References :: "32 word" where "OpcUaId_References = 31"
definition OpcUaId_HierarchicalReferences :: "32 word" where "OpcUaId_HierarchicalReferences = 33"
definition OpcUaId_GeneratesEvent :: "32 word" where "OpcUaId_GeneratesEvent = 41"
definition OpcUaId_HasSubtype :: "32 word" where "OpcUaId_HasSubtype = 45"

subsection \<open>Collecting variables\<close>

text \<open>
  The map from the XML notation of a node id to the node id. Only variables are recorded, so an object
  is entered each time it is found.
\<close>

type_synonym variable_map = "(string \<times> ua_node_id) list"

definition enterVariable ::
  "model_space \<Rightarrow> ua_node_id \<Rightarrow> variable_map \<Rightarrow> (cpp_error, ua_node_id list) res \<times> variable_map"
where
  "enterVariable ms node vars =
    (if map_of vars (msText ms node) \<noteq> None then (Inr [], vars)
     else
       (let vars' = (if msClass ms node = Some NcVariable then smInsert (msText ms node) node vars else vars) in
        case msBrowse ms BrowseForward OpcUaId_HierarchicalReferences None node of
          None \<Rightarrow> (Inl HaNodeManagerException, vars')
        | Some refs \<Rightarrow> (Inr (map nrTarget refs), vars')))"

definition visitVariable ::
  "model_space \<Rightarrow> ua_node_id \<Rightarrow> variable_map \<Rightarrow> (cpp_error, ua_node_id list) res \<times> variable_map"
where
  "visitVariable ms referenced vars =
    (case msClass ms referenced of
       None \<Rightarrow> (Inl HaNodeManagerException, vars)
     | Some c \<Rightarrow> if c = NcVariable \<or> c = NcObject then enterVariable ms referenced vars else (Inr [], vars))"

definition addVariables :: "model_space \<Rightarrow> ua_node_id \<Rightarrow> (variable_map, unit) op" where
  "addVariables ms node vars =
    (case enterVariable ms node vars of
       (Inl e, vars') \<Rightarrow> Some (Inl e, vars')
     | (Inr found, vars') \<Rightarrow> workLoop (visitVariable ms) found vars')"

subsection \<open>Collecting the elements of object types\<close>

record object_type_element =
  oeTypeId :: ua_node_id
  oeNodeClass :: "node_class option"
  oeParent :: ua_node_id
  oeChilds :: "ua_node_id list"

type_synonym element_map = "(string \<times> object_type_element) list"

definition enterElement ::
  "model_space \<Rightarrow> ua_node_id \<Rightarrow> ua_node_id \<Rightarrow> element_map \<Rightarrow>
   (cpp_error, (ua_node_id \<times> ua_node_id) list) res \<times> element_map"
where
  "enterElement ms parent node elems =
    (if map_of elems (msText ms node) \<noteq> None then (Inr [], elems)
     else
       (let elems' = smInsert (msText ms node)
              \<lparr>oeTypeId = node, oeNodeClass = msClass ms node, oeParent = parent, oeChilds = []\<rparr> elems in
        case msBrowse ms BrowseBoth OpcUaId_HierarchicalReferences None node of
          None \<Rightarrow> (Inl HaNodeManagerException, elems')
        | Some refs \<Rightarrow> (Inr (map (\<lambda>r. (node, nrTarget r)) (filter nrForward refs)), elems')))"

text \<open>\<open>elemChilds->push_back\<close> on the element of \<open>node\<close>.\<close>

definition addChild :: "model_space \<Rightarrow> ua_node_id \<Rightarrow> ua_node_id \<Rightarrow> element_map \<Rightarrow> element_map" where
  "addChild ms node child elems =
    (case map_of elems (msText ms node) of
       None \<Rightarrow> elems
     | Some e \<Rightarrow> smInsert (msText ms node) (e\<lparr>oeChilds := oeChilds e @ [child]\<rparr>) elems)"

definition visitElement ::
  "model_space \<Rightarrow> ua_node_id \<times> ua_node_id \<Rightarrow> element_map \<Rightarrow>
   (cpp_error, (ua_node_id \<times> ua_node_id) list) res \<times> element_map"
where
  "visitElement ms p elems =
    (case p of (node, child) \<Rightarrow>
       (case msClass ms child of
          None \<Rightarrow> (Inl HaNodeManagerException, elems)
        | Some _ \<Rightarrow> enterElement ms node child (addChild ms node child elems)))"

definition addObjectTypeElements :: "model_space \<Rightarrow> ua_node_id \<Rightarrow> ua_node_id \<Rightarrow> (element_map, unit) op" where
  "addObjectTypeElements ms node parent elems =
    (case enterElement ms parent node elems of
       (Inl e, elems') \<Rightarrow> Some (Inl e, elems')
     | (Inr found, elems') \<Rightarrow> workLoop (visitElement ms) found elems')"

subsection \<open>Event types\<close>

text \<open>
  An object type is an event type when it, or a type it is derived from or that is derived from it, is
  the target of a \<open>GeneratesEvent\<close> reference. A reference found on the way is examined with the direction
  of the walk; \<open>IsEventType\<close> is the early \<open>return true\<close>. The identifier of the reference type is read as
  a number and its namespace is not looked at.
\<close>

datatype event_stop = IsEventType | StopError cpp_error

type_synonym event_item = "browse_direction \<times> node_ref"

definition eventRefs :: "model_space \<Rightarrow> browse_direction \<Rightarrow> ua_node_id \<Rightarrow> (event_stop, event_item list) res" where
  "eventRefs ms dir node =
    (case msBrowse ms BrowseBoth OpcUaId_References (Some NcObjectType) node of
       None \<Rightarrow> Inl (StopError HaNodeManagerException)
     | Some refs \<Rightarrow> Inr (map (\<lambda>r. (dir, r)) refs))"

definition followed :: "browse_direction \<Rightarrow> bool \<Rightarrow> bool" where
  "followed dir isForward \<longleftrightarrow>
    dir = BrowseBoth \<or> dir = BrowseForward \<and> isForward \<or> dir = BrowseInverse \<and> \<not> isForward"

definition visitEventRef ::
  "model_space \<Rightarrow> event_item \<Rightarrow> unit \<Rightarrow> (event_stop, event_item list) res \<times> unit"
where
  "visitEventRef ms item u =
    (case item of (dir, r) \<Rightarrow>
       (case identifierNumeric (nrType r) of
          Inl e \<Rightarrow> Inl (StopError e)
        | Inr i \<Rightarrow>
            if i = OpcUaId_GeneratesEvent then (if nrForward r then Inr [] else Inl IsEventType)
            else if i = OpcUaId_HasSubtype then
              (if followed dir (nrForward r) then
                 (case msClass ms (nrTarget r) of
                    None \<Rightarrow> Inl (StopError HaNodeManagerException)
                  | Some _ \<Rightarrow> eventRefs ms (if nrForward r then BrowseForward else BrowseInverse) (nrTarget r))
               else Inr [])
            else Inr []), u)"

definition isEventType :: "model_space \<Rightarrow> ua_node_id \<Rightarrow> (cpp_error, bool) res option" where
  "isEventType ms node =
    (case eventRefs ms BrowseBoth node of
       Inl (StopError e) \<Rightarrow> Some (Inl e)
     | Inl IsEventType \<Rightarrow> Some (Inr True)
     | Inr items \<Rightarrow>
         (case workLoop (visitEventRef ms) items () of
            None \<Rightarrow> None
          | Some (Inr _, _) \<Rightarrow> Some (Inr False)
          | Some (Inl IsEventType, _) \<Rightarrow> Some (Inr True)
          | Some (Inl (StopError e), _) \<Rightarrow> Some (Inl e)))"

subsection \<open>What the walk over variables collects\<close>

definition collectable :: "model_space \<Rightarrow> ua_node_id \<Rightarrow> bool" where
  "collectable ms n = (msClass ms n = Some NcVariable \<or> msClass ms n = Some NcObject)"

definition varTargets :: "model_space \<Rightarrow> ua_node_id \<Rightarrow> ua_node_id list" where
  "varTargets ms n =
    (case msBrowse ms BrowseForward OpcUaId_HierarchicalReferences None n of
       None \<Rightarrow> [] | Some refs \<Rightarrow> map nrTarget refs)"

text \<open>The nodes found from a set of nodes, when those with a key in \<open>A\<close> are not entered.\<close>

inductive varReach :: "model_space \<Rightarrow> string set \<Rightarrow> ua_node_id set \<Rightarrow> ua_node_id \<Rightarrow> bool"
  for ms A P
where
  start: "n \<in> P \<Longrightarrow> collectable ms n \<Longrightarrow> varReach ms A P n"
| step: "varReach ms A P n \<Longrightarrow> msText ms n \<notin> A \<Longrightarrow> m \<in> set (varTargets ms n) \<Longrightarrow> collectable ms m \<Longrightarrow>
    varReach ms A P m"

definition foundKeys :: "model_space \<Rightarrow> string set \<Rightarrow> ua_node_id set \<Rightarrow> string set" where
  "foundKeys ms A P = A \<union> msText ms ` {n. msClass ms n = Some NcVariable \<and> varReach ms A P n}"

text \<open>The recorded variables: sorted by key, each under its own notation.\<close>

definition variablesWf :: "model_space \<Rightarrow> variable_map \<Rightarrow> bool" where
  "variablesWf ms vars =
    (smInv vars \<and> list_all (\<lambda>p. msText ms (snd p) = fst p \<and> msClass ms (snd p) = Some NcVariable) vars)"

lemma varReach_none [simp]: "\<not> varReach ms A {} n"
proof
  assume "varReach ms A {} n"
  then show False by induction simp_all
qed

lemma foundKeys_none [simp]: "foundKeys ms A {} = A"
  by (simp add: foundKeys_def)

lemma varReach_mono: "varReach ms A P n \<Longrightarrow> P \<subseteq> Q \<Longrightarrow> varReach ms A Q n"
  by (induction rule: varReach.induct) (auto intro: varReach.intros)

lemma varReach_ignored: "\<not> collectable ms x \<Longrightarrow> varReach ms A (insert x R) n \<longleftrightarrow> varReach ms A R n"
proof
  assume "\<not> collectable ms x" "varReach ms A (insert x R) n"
  from this(2,1) show "varReach ms A R n"
    by (induction rule: varReach.induct) (auto intro: varReach.intros)
qed (auto intro: varReach_mono)

lemma varReach_known:
  assumes "msText ms x \<in> A" "varReach ms A (insert x R) n"
  shows "n = x \<or> varReach ms A R n"
  using assms(2,1) by induction (auto intro: varReach.intros)

lemma varReach_entered:
  assumes "inj (msText ms)" "collectable ms x" "msText ms x \<notin> A" "A \<subseteq> A'" "A' \<subseteq> insert (msText ms x) A"
  shows "varReach ms A (insert x R) n \<longleftrightarrow> n = x \<or> varReach ms A' (set (varTargets ms x) \<union> R) n"
proof
  assume "varReach ms A (insert x R) n"
  then show "n = x \<or> varReach ms A' (set (varTargets ms x) \<union> R) n"
  proof induction
    case (step n m)
    show ?case
    proof (cases "n = x")
      case True
      then show ?thesis using step by (auto intro: varReach.start)
    next
      case False
      then have "msText ms n \<notin> A'" using step assms by (auto dest: injD)
      then show ?thesis using False step by (auto intro: varReach.step)
    qed
  qed (auto intro: varReach.start)
next
  have x: "varReach ms A (insert x R) x" using assms(2) by (auto intro: varReach.start)
  have "varReach ms A (insert x R) n" if "varReach ms A' (set (varTargets ms x) \<union> R) n" for n
    using that
  proof induction
    case (start n)
    then show ?case using x assms(3) by (auto intro: varReach.intros)
  next
    case (step n m)
    then show ?case using assms(4) by (auto intro: varReach.step)
  qed
  then show "n = x \<or> varReach ms A' (set (varTargets ms x) \<union> R) n \<Longrightarrow> varReach ms A (insert x R) n"
    using x by blast
qed

lemma foundKeys_known:
  assumes "msText ms x \<in> A"
  shows "foundKeys ms A (insert x R) = foundKeys ms A R"
proof -
  have "varReach ms A R n \<Longrightarrow> varReach ms A (insert x R) n" for n
    by (erule varReach_mono) auto
  then show ?thesis using varReach_known [OF assms] assms by (auto simp: foundKeys_def)
qed

lemma foundKeys_entered:
  assumes "inj (msText ms)" "collectable ms x" "msText ms x \<notin> A"
  shows "foundKeys ms A (insert x R) =
    foundKeys ms (if msClass ms x = Some NcVariable then insert (msText ms x) A else A)
      (set (varTargets ms x) \<union> R)"
proof (cases "msClass ms x = Some NcVariable")
  case True
  then show ?thesis
    using varReach_entered [OF assms subset_insertI subset_refl, of R] by (auto simp: foundKeys_def)
next
  case False
  then have "{n. msClass ms n = Some NcVariable \<and> varReach ms A (insert x R) n} =
      {n. msClass ms n = Some NcVariable \<and> varReach ms A (set (varTargets ms x) \<union> R) n}"
    using varReach_entered [OF assms subset_refl subset_insertI, of R] by auto
  then show ?thesis using False by (simp add: foundKeys_def)
qed

text \<open>One visit, as the loop sees it.\<close>

definition variablesInv :: "model_space \<Rightarrow> string set \<Rightarrow> variable_map \<Rightarrow> ua_node_id list \<Rightarrow> bool" where
  "variablesInv ms G vars pending =
    (variablesWf ms vars \<and> foundKeys ms (dom (map_of vars)) (set pending) = G)"

lemma variablesWf_insert:
  "variablesWf ms vars \<Longrightarrow> msClass ms x = Some NcVariable \<Longrightarrow> variablesWf ms (smInsert (msText ms x) x vars)"
proof -
  have "set (smInsert k v ps) \<subseteq> insert (k, v) (set ps)" for k :: string and v :: ua_node_id and ps
    by (induction ps) auto
  then show "variablesWf ms vars \<Longrightarrow> msClass ms x = Some NcVariable \<Longrightarrow> variablesWf ms (smInsert (msText ms x) x vars)"
    by (fastforce simp: variablesWf_def list_all_iff)
qed

lemma enterVariable_keeps:
  assumes "inj (msText ms)" "collectable ms x" "variablesInv ms G vars (x # rest)"
    "enterVariable ms x vars = (Inr found, vars')"
  shows "variablesInv ms G vars' (found @ rest)"
proof (cases "map_of vars (msText ms x)")
  case None
  then have x: "msText ms x \<notin> dom (map_of vars)" by blast
  have found: "found = varTargets ms x" and
    vars': "vars' = (if msClass ms x = Some NcVariable then smInsert (msText ms x) x vars else vars)"
    using assms(4) None by (auto simp: enterVariable_def varTargets_def Let_def split: option.splits)
  have "dom (map_of vars') =
      (if msClass ms x = Some NcVariable then insert (msText ms x) (dom (map_of vars)) else dom (map_of vars))"
    by (simp add: vars')
  moreover have "variablesWf ms vars'"
    using assms(3) by (simp add: vars' variablesInv_def variablesWf_insert)
  ultimately show ?thesis
    using assms(3) foundKeys_entered [OF assms(1,2) x, of "set rest"]
    by (simp add: variablesInv_def found)
next
  case (Some y)
  then show ?thesis
    using assms(3,4) foundKeys_known [of ms x "dom (map_of vars)" "set rest"]
    by (auto simp: variablesInv_def enterVariable_def)
qed

lemma visitVariable_keeps:
  assumes "inj (msText ms)" "variablesInv ms G vars (x # rest)" "visitVariable ms x vars = (Inr found, vars')"
  shows "variablesInv ms G vars' (found @ rest)"
proof (cases "collectable ms x")
  case True
  then have "visitVariable ms x vars = enterVariable ms x vars"
    by (auto simp: visitVariable_def collectable_def)
  then show ?thesis using enterVariable_keeps [OF assms(1) True assms(2)] assms(3) by simp
next
  case False
  then have "found = []" "vars' = vars"
    using assms(3) by (auto simp: visitVariable_def collectable_def split: option.splits if_splits)
  then show ?thesis
    using assms(2) varReach_ignored [OF False, of "dom (map_of vars)" "set rest"]
    by (simp add: variablesInv_def foundKeys_def)
qed

lemma enterVariable_fails:
  "enterVariable ms x vars = (Inl e, vars') \<Longrightarrow> variablesWf ms vars \<Longrightarrow>
   e = HaNodeManagerException \<and> variablesWf ms vars'"
  by (auto simp: enterVariable_def Let_def variablesWf_insert split: if_splits option.splits)

lemma visitVariable_fails:
  "visitVariable ms x vars = (Inl e, vars') \<Longrightarrow> variablesWf ms vars \<Longrightarrow>
   e = HaNodeManagerException \<and> variablesWf ms vars'"
  by (auto simp: visitVariable_def split: if_splits option.splits dest: enterVariable_fails)

interpretation collect: work_invariant "visitVariable ms"
  "\<lambda>vars pending. inj (msText ms) \<and> variablesInv ms G vars pending"
  "\<lambda>e vars. e = HaNodeManagerException \<and> variablesWf ms vars" for ms G
proof unfold_locales
  fix s x rest found s'
  assume "inj (msText ms) \<and> variablesInv ms G s (x # rest)" "visitVariable ms x s = (Inr found, s')"
  then show "inj (msText ms) \<and> variablesInv ms G s' (found @ rest)"
    using visitVariable_keeps by blast
next
  fix s x rest e s'
  assume "inj (msText ms) \<and> variablesInv ms G s (x # rest)" "visitVariable ms x s = (Inl e, s')"
  then show "e = HaNodeManagerException \<and> variablesWf ms s'"
    using visitVariable_fails by (auto simp: variablesInv_def)
qed

lemma addVariables_result:
  assumes "inj (msText ms)" "collectable ms node" "variablesWf ms vars"
    "addVariables ms node vars = Some (r, vars')"
  shows "case r of
      Inl e \<Rightarrow> e = HaNodeManagerException \<and> variablesWf ms vars'
    | Inr _ \<Rightarrow> variablesWf ms vars' \<and> dom (map_of vars') = foundKeys ms (dom (map_of vars)) {node}"
proof -
  let ?G = "foundKeys ms (dom (map_of vars)) {node}"
  have start: "variablesInv ms ?G vars [node]" using assms(3) by (simp add: variablesInv_def)
  obtain q vars1 where e: "enterVariable ms node vars = (q, vars1)" by fastforce
  show ?thesis
  proof (cases q)
    case (Inl err)
    then show ?thesis
      using assms(4) e enterVariable_fails [of ms node vars err vars1] assms(3)
      by (auto simp: addVariables_def)
  next
    case (Inr found)
    then have "workLoop (visitVariable ms) found vars1 = Some (r, vars')"
      using assms(4) e by (simp add: addVariables_def)
    moreover have "variablesInv ms ?G vars1 found"
      using enterVariable_keeps [OF assms(1,2) start] e Inr by fastforce
    ultimately show ?thesis
      using collect.loop_result [of ms found vars1 r vars' ?G] assms(1)
      by (auto simp: variablesInv_def split: sum.splits)
  qed
qed

subsection \<open>When the walk over variables ends\<close>

definition objectChild :: "model_space \<Rightarrow> ua_node_id \<Rightarrow> ua_node_id \<Rightarrow> bool" where
  "objectChild ms m n = (msClass ms n = Some NcObject \<and> m \<in> set (varTargets ms n))"

interpretation collect: work_measure "visitVariable ms" "\<lambda>vars. dom (map_of vars)"
  "msText ms ` {n. msClass ms n = Some NcVariable}" "objectChild ms" for ms
proof unfold_locales
  fix x s found s'
  assume *: "visitVariable ms x s = (Inr found, s')"
  show "dom (map_of s') = dom (map_of s) \<and> list_all (\<lambda>y. objectChild ms y x) found \<or>
    (\<exists>k\<in>msText ms ` {n. msClass ms n = Some NcVariable}.
       k \<notin> dom (map_of s) \<and> dom (map_of s') = insert k (dom (map_of s)))"
  proof (cases "found = [] \<and> s' = s")
    case False
    then have "map_of s (msText ms x) = None"
      "msClass ms x = Some NcVariable \<and> s' = smInsert (msText ms x) x s \<or>
       msClass ms x = Some NcObject \<and> s' = s \<and> found = varTargets ms x"
      using * by (auto simp: visitVariable_def enterVariable_def varTargets_def Let_def
          split: option.splits if_splits)
    then show ?thesis by (auto simp: objectChild_def list_all_iff)
  qed simp
qed

lemma addVariables_returns:
  assumes "finite {n. msClass ms n = Some NcVariable}" "wfP (objectChild ms)"
  shows "\<exists>y. addVariables ms node vars = Some y"
proof -
  obtain q vars1 where "enterVariable ms node vars = (q, vars1)" by fastforce
  then show ?thesis
    using collect.loop_returns [OF _ assms(2), of _ vars1] assms(1)
    by (cases q) (simp_all add: addVariables_def)
qed

text \<open>Objects that lead to each other first: they are not recorded, so the walk never returns.\<close>

definition leadsOn :: "model_space \<Rightarrow> variable_map \<Rightarrow> ua_node_id set \<Rightarrow> ua_node_id \<Rightarrow> bool" where
  "leadsOn ms vars C n =
    (n \<in> C \<and> msClass ms n = Some NcObject \<and> map_of vars (msText ms n) = None \<and>
     (case varTargets ms n of [] \<Rightarrow> False | m # _ \<Rightarrow> m \<in> C))"

lemma leadsOn_visit:
  assumes "leadsOn ms vars C n"
  obtains m found where "visitVariable ms n vars = (Inr (m # found), vars)"
    "enterVariable ms n vars = (Inr (m # found), vars)" "m \<in> C"
  using assms
  by (auto simp: leadsOn_def visitVariable_def enterVariable_def varTargets_def Let_def
      split: option.splits list.splits if_splits)

lemma addVariables_diverges:
  assumes "\<forall>n\<in>C. leadsOn ms vars C n" "node \<in> C"
  shows "addVariables ms node vars = None"
proof -
  have "leadsOn ms vars C node" using assms by blast
  then obtain m found where m: "enterVariable ms node vars = (Inr (m # found), vars)" "m \<in> C"
    by (rule leadsOn_visit)
  have "workLoop (visitVariable ms) (m # found) vars = None"
  proof (rule workLoop_stuck [where P = "\<lambda>n s. s = vars \<and> n \<in> C"])
    fix x s rest
    assume *: "s = vars \<and> x \<in> C"
    then have "leadsOn ms vars C x" using assms(1) by blast
    then show "\<exists>y found s'. visitVariable ms x s = (Inr (y # found), s') \<and> s' = vars \<and> y \<in> C"
      using * by (elim leadsOn_visit) blast
  qed (simp add: m)
  then show ?thesis by (simp add: addVariables_def m)
qed

subsection \<open>What the walk over object types collects\<close>

definition elemTargets :: "model_space \<Rightarrow> ua_node_id \<Rightarrow> ua_node_id list option" where
  "elemTargets ms n =
    map_option (\<lambda>refs. map nrTarget (filter nrForward refs))
      (msBrowse ms BrowseBoth OpcUaId_HierarchicalReferences None n)"

text \<open>
  Each element is recorded under the notation of its node with the class of it, its children and the
  references still pending for it are all its forward references in order, and each child is an element.
\<close>

definition elementInv ::
  "model_space \<Rightarrow> string set \<Rightarrow> (ua_node_id \<times> ua_node_id) list \<Rightarrow> string \<Rightarrow> object_type_element \<Rightarrow> bool"
where
  "elementInv ms K pending k e =
    (msText ms (oeTypeId e) = k \<and> oeNodeClass e = msClass ms (oeTypeId e) \<and>
     elemTargets ms (oeTypeId e) =
       Some (oeChilds e @ map snd (filter (\<lambda>p. fst p = oeTypeId e) pending)) \<and>
     list_all (\<lambda>c. msText ms c \<in> K) (oeChilds e))"

definition elementsInv ::
  "model_space \<Rightarrow> string set \<Rightarrow> (ua_node_id \<times> ua_node_id) list \<Rightarrow> element_map \<Rightarrow> bool"
where
  "elementsInv ms K pending elems =
    (smInv elems \<and> list_all (\<lambda>p. elementInv ms K pending (fst p) (snd p)) elems \<and>
     list_all (\<lambda>p. msText ms (fst p) \<in> dom (map_of elems)) pending)"

definition elementsWf :: "model_space \<Rightarrow> element_map \<Rightarrow> bool" where
  "elementsWf ms elems = elementsInv ms (dom (map_of elems)) [] elems"

lemma smInv_list_all:
  "smInv ps \<Longrightarrow> list_all (\<lambda>p. Q (fst p) (snd p)) ps \<longleftrightarrow> (\<forall>k v. map_of ps k = Some v \<longrightarrow> Q k v)"
  by (auto simp: list_all_iff map_of_eq_Some_iff [OF smInv_distinct])

lemma elementsInv_iff:
  "elementsInv ms K pending elems \<longleftrightarrow>
    smInv elems \<and> (\<forall>k e. map_of elems k = Some e \<longrightarrow> elementInv ms K pending k e) \<and>
    (\<forall>p\<in>set pending. msText ms (fst p) \<in> dom (map_of elems))"
  using smInv_list_all [of elems "elementInv ms K pending"]
  by (auto simp: elementsInv_def list_all_iff)

text \<open>Recording a new element.\<close>

definition newElement :: "model_space \<Rightarrow> ua_node_id \<Rightarrow> ua_node_id \<Rightarrow> object_type_element" where
  "newElement ms parent node =
    \<lparr>oeTypeId = node, oeNodeClass = msClass ms node, oeParent = parent, oeChilds = []\<rparr>"

lemma enterElement_cases:
  assumes "enterElement ms parent node elems = (Inr found, elems')"
  obtains (known) "msText ms node \<in> dom (map_of elems)" "found = []" "elems' = elems"
    | (entered) T where "msText ms node \<notin> dom (map_of elems)" "elemTargets ms node = Some T"
      "found = map (Pair node) T" "elems' = smInsert (msText ms node) (newElement ms parent node) elems"
proof (cases "map_of elems (msText ms node)")
  case None
  show ?thesis
  proof (cases "msBrowse ms BrowseBoth OpcUaId_HierarchicalReferences None node")
    case (Some refs)
    then show ?thesis
      using assms None
      by (intro entered [of "map nrTarget (filter nrForward refs)"])
        (auto simp: enterElement_def elemTargets_def newElement_def comp_def)
  qed (use assms None in \<open>simp add: enterElement_def\<close>)
next
  case (Some e)
  then show ?thesis using assms by (intro known) (simp_all add: enterElement_def domIff)
qed

lemma entered_keeps:
  assumes "elementsInv ms K rest elems" "msText ms node \<notin> dom (map_of elems)" "elemTargets ms node = Some T"
  shows "elementsInv ms K (map (Pair node) T @ rest) (smInsert (msText ms node) (newElement ms parent node) elems)"
    (is "elementsInv ms K ?P ?E")
proof -
  have sm: "smInv elems" and
    old: "\<And>k e. map_of elems k = Some e \<Longrightarrow> elementInv ms K rest k e" and
    pend: "\<And>p. p \<in> set rest \<Longrightarrow> msText ms (fst p) \<in> dom (map_of elems)"
    using assms(1) by (auto simp: elementsInv_iff)
  have "filter (\<lambda>p. fst p = node) rest = []"
    using pend assms(2) by (fastforce simp: filter_empty_conv)
  then have new: "elementInv ms K ?P (msText ms node) (newElement ms parent node)"
    using assms(3) by (simp add: elementInv_def newElement_def filter_map comp_def)
  have "elementInv ms K ?P k e" if "map_of elems k = Some e" for k e
  proof -
    have "oeTypeId e \<noteq> node" using old [OF that] that assms(2) by (auto simp: elementInv_def)
    then have "filter (\<lambda>p. fst p = oeTypeId e) ?P = filter (\<lambda>p. fst p = oeTypeId e) rest"
      by (simp add: filter_map comp_def)
    then show ?thesis using old [OF that] by (simp add: elementInv_def)
  qed
  moreover have "msText ms (fst p) \<in> dom (map_of ?E)" if "p \<in> set ?P" for p
    using pend that by (cases "p \<in> set rest") auto
  ultimately show ?thesis using sm new by (simp add: elementsInv_iff)
qed

lemma addChild_keeps:
  assumes "inj (msText ms)" "elementsInv ms K ((node, child) # rest) elems"
  shows "elementsInv ms (insert (msText ms child) K) rest (addChild ms node child elems)"
    and "dom (map_of (addChild ms node child elems)) = dom (map_of elems)"
proof -
  have sm: "smInv elems" and
    old: "\<And>k e. map_of elems k = Some e \<Longrightarrow> elementInv ms K ((node, child) # rest) k e" and
    pend: "\<And>p. p \<in> set rest \<Longrightarrow> msText ms (fst p) \<in> dom (map_of elems)" and
    "msText ms node \<in> dom (map_of elems)"
    using assms(2) by (auto simp: elementsInv_iff)
  then obtain e where e: "map_of elems (msText ms node) = Some e" by blast
  have id: "oeTypeId e = node" using old [OF e] assms(1) by (auto simp: elementInv_def dest: injD)
  let ?E = "addChild ms node child elems"
  have E: "?E = smInsert (msText ms node) (e\<lparr>oeChilds := oeChilds e @ [child]\<rparr>) elems"
    by (simp add: addChild_def e)
  show dom: "dom (map_of ?E) = dom (map_of elems)" using e by (auto simp: E)
  have "elementInv ms (insert (msText ms child) K) rest k e'" if "map_of ?E k = Some e'" for k e'
  proof (cases "k = msText ms node")
    case True
    then have "e' = e\<lparr>oeChilds := oeChilds e @ [child]\<rparr>" using that by (simp add: E)
    then show ?thesis using old [OF e] True id by (auto simp: elementInv_def list_all_iff)
  next
    case False
    then have k: "map_of elems k = Some e'" using that by (simp add: E)
    then have "oeTypeId e' \<noteq> node" using old [OF k] False by (auto simp: elementInv_def)
    then show ?thesis using old [OF k] by (auto simp: elementInv_def list_all_iff)
  qed
  then show "elementsInv ms (insert (msText ms child) K) rest ?E"
    using sm pend by (auto simp: elementsInv_iff dom E)
qed

text \<open>The elements of earlier walks stay as they are.\<close>

definition elementWalk ::
  "model_space \<Rightarrow> string set \<Rightarrow> element_map \<Rightarrow> element_map \<Rightarrow> (ua_node_id \<times> ua_node_id) list \<Rightarrow> bool"
where
  "elementWalk ms D elems0 elems pending =
    (D \<subseteq> dom (map_of elems) \<and> elementsInv ms (dom (map_of elems)) pending elems \<and> map_of elems0 \<subseteq>\<^sub>m map_of elems \<and>
     list_all (\<lambda>p. msText ms (fst p) \<notin> dom (map_of elems0)) pending)"

lemma elementInv_mono:
  "elementsInv ms K pending elems \<Longrightarrow> K \<subseteq> K' \<Longrightarrow> elementsInv ms K' pending elems"
  by (fastforce simp: elementsInv_def elementInv_def list_all_iff)

lemma enterElement_keeps:
  assumes "elementsInv ms (insert (msText ms node) (dom (map_of elems))) rest elems"
    "map_of elems0 \<subseteq>\<^sub>m map_of elems" "list_all (\<lambda>p. msText ms (fst p) \<notin> dom (map_of elems0)) rest"
    "enterElement ms parent node elems = (Inr found, elems')"
    and "D \<subseteq> insert (msText ms node) (dom (map_of elems))"
  shows "elementWalk ms D elems0 elems' (found @ rest)"
  using assms(4)
proof (cases rule: enterElement_cases)
  case known
  then have "insert (msText ms node) (dom (map_of elems)) = dom (map_of elems)" by blast
  then show ?thesis using assms(1-3,5) known by (simp only: elementWalk_def append_Nil)
next
  case (entered T)
  have "msText ms node \<notin> dom (map_of elems0)" using entered(1) assms(2) by (auto simp: map_le_def dom_def)
  moreover have "map_of elems0 \<subseteq>\<^sub>m map_of elems'"
    using entered(1) assms(2) by (auto simp: entered(4) map_le_def domIff) (metis domI domIff option.simps(3))
  moreover have "dom (map_of elems') = insert (msText ms node) (dom (map_of elems))"
    by (simp add: entered(4))
  ultimately show ?thesis
    using entered_keeps [OF assms(1) entered(1,2), of parent] assms(3,5)
    by (auto simp: elementWalk_def entered(3) list_all_iff simp flip: entered(4))
qed

lemma visitElement_keeps:
  assumes "inj (msText ms)" "elementWalk ms D elems0 elems (p # rest)"
    "visitElement ms p elems = (Inr found, elems')"
  shows "elementWalk ms D elems0 elems' (found @ rest)"
proof -
  obtain node child where p: "p = (node, child)" by fastforce
  let ?E = "addChild ms node child elems"
  have e: "enterElement ms node child ?E = (Inr found, elems')"
    using assms(3) by (simp add: visitElement_def p split: option.splits)
  have inv: "elementsInv ms (dom (map_of elems)) ((node, child) # rest) elems"
    and le: "map_of elems0 \<subseteq>\<^sub>m map_of elems"
    and out: "msText ms node \<notin> dom (map_of elems0)"
      "list_all (\<lambda>p. msText ms (fst p) \<notin> dom (map_of elems0)) rest"
    using assms(2) by (simp_all add: elementWalk_def p)
  note child = addChild_keeps [OF assms(1) inv]
  have "map_of ?E k = map_of elems k" if "k \<noteq> msText ms node" for k
    using that by (simp add: addChild_def split: option.split)
  then have "map_of elems0 k = map_of ?E k" if "k \<in> dom (map_of elems0)" for k
    using le out(1) that by (cases "k = msText ms node") (auto simp: map_le_def)
  then have "map_of elems0 \<subseteq>\<^sub>m map_of ?E" by (simp add: map_le_def)
  moreover have "D \<subseteq> insert (msText ms child) (dom (map_of elems))"
    using assms(2) by (auto simp: elementWalk_def)
  ultimately show ?thesis using child out(2) by (intro enterElement_keeps [OF _ _ _ e]) simp_all
qed

lemma enterElement_fails:
  "enterElement ms parent node elems = (Inl e, elems') \<Longrightarrow> smInv elems \<Longrightarrow>
   e = HaNodeManagerException \<and> smInv elems'"
  by (auto simp: enterElement_def Let_def split: if_splits option.splits)

lemma visitElement_fails:
  "visitElement ms p elems = (Inl e, elems') \<Longrightarrow> smInv elems \<Longrightarrow>
   e = HaNodeManagerException \<and> smInv elems'"
  by (auto simp: visitElement_def addChild_def split: option.splits prod.splits dest: enterElement_fails)

interpretation elements: work_invariant "visitElement ms"
  "\<lambda>elems pending. inj (msText ms) \<and> elementWalk ms D elems0 elems pending"
  "\<lambda>e elems. e = HaNodeManagerException \<and> smInv elems" for ms D elems0
proof unfold_locales
  fix s p rest found s'
  assume "inj (msText ms) \<and> elementWalk ms D elems0 s (p # rest)" "visitElement ms p s = (Inr found, s')"
  then show "inj (msText ms) \<and> elementWalk ms D elems0 s' (found @ rest)"
    using visitElement_keeps by blast
next
  fix s p rest e s'
  assume "inj (msText ms) \<and> elementWalk ms D elems0 s (p # rest)" "visitElement ms p s = (Inl e, s')"
  then show "e = HaNodeManagerException \<and> smInv s'"
    using visitElement_fails by (auto simp: elementWalk_def elementsInv_def)
qed

lemma addObjectTypeElements_result:
  assumes "inj (msText ms)" "elementsWf ms elems" "addObjectTypeElements ms node parent elems = Some (r, elems')"
  shows "case r of
      Inl e \<Rightarrow> e = HaNodeManagerException \<and> smInv elems'
    | Inr _ \<Rightarrow> elementsWf ms elems' \<and> map_of elems \<subseteq>\<^sub>m map_of elems' \<and>
        msText ms node \<in> dom (map_of elems')"
proof -
  obtain q elems1 where e: "enterElement ms parent node elems = (q, elems1)" by fastforce
  show ?thesis
  proof (cases q)
    case (Inl err)
    then show ?thesis
      using assms(2,3) e enterElement_fails [of ms parent node elems err elems1]
      by (auto simp: addObjectTypeElements_def elementsWf_def elementsInv_def)
  next
    case (Inr found)
    have "elementsInv ms (insert (msText ms node) (dom (map_of elems))) [] elems"
      using assms(2) by (auto simp: elementsWf_def intro: elementInv_mono)
    from enterElement_keeps [OF this, of elems parent found elems1 "{msText ms node}"]
    have start: "elementWalk ms {msText ms node} elems elems1 found" using e Inr by simp
    have run: "workLoop (visitElement ms) found elems1 = Some (r, elems')"
      using assms(3) e Inr by (simp add: addObjectTypeElements_def)
    show ?thesis
      using elements.loop_result [OF run, of "{msText ms node}" elems] start assms(1)
      by (auto simp: elementWalk_def elementsWf_def split: sum.splits)
  qed
qed

lemma visitElement_progress:
  "visitElement ms p elems = (Inr found, elems') \<Longrightarrow>
   dom (map_of elems') = dom (map_of elems) \<and> found = [] \<or>
   (\<exists>k\<in>msText ms ` {n. msClass ms n \<noteq> None}. k \<notin> dom (map_of elems) \<and>
      dom (map_of elems') = insert k (dom (map_of elems)))"
proof -
  obtain node child where p: "p = (node, child)" by fastforce
  have same: "dom (map_of (addChild ms node child elems)) = dom (map_of elems)"
    by (auto simp: addChild_def split: option.split)
  assume "visitElement ms p elems = (Inr found, elems')"
  then have "enterElement ms node child (addChild ms node child elems) = (Inr found, elems')"
    and "msClass ms child \<noteq> None"
    by (auto simp: visitElement_def p split: option.splits)
  from this(1) this(2) same show ?thesis by (cases rule: enterElement_cases) auto
qed

interpretation elements: work_measure "visitElement ms" "\<lambda>elems. dom (map_of elems)"
  "msText ms ` {n. msClass ms n \<noteq> None}" "\<lambda>_ _. False" for ms
proof unfold_locales
  fix p elems found elems'
  assume "visitElement ms p elems = (Inr found, elems')"
  from visitElement_progress [OF this]
  show "dom (map_of elems') = dom (map_of elems) \<and> list_all (\<lambda>_. False) found \<or>
    (\<exists>k\<in>msText ms ` {n. msClass ms n \<noteq> None}.
       k \<notin> dom (map_of elems) \<and> dom (map_of elems') = insert k (dom (map_of elems)))"
    by (elim disjE conjE) simp_all
qed

lemma addObjectTypeElements_returns:
  assumes "finite {n. msClass ms n \<noteq> None}"
  shows "\<exists>y. addObjectTypeElements ms node parent elems = Some y"
proof -
  have "wfP (\<lambda>_ _ :: ua_node_id \<times> ua_node_id. False)" by (simp add: wfp_def)
  moreover obtain q elems1 where "enterElement ms parent node elems = (q, elems1)" by fastforce
  ultimately show ?thesis
    using elements.loop_returns [of ms _ elems1] assms
    by (cases q) (simp_all add: addObjectTypeElements_def)
qed

subsection \<open>What an event type is\<close>

text \<open>The sub types (\<open>f\<close>) or super types of an object type, and the types an event is generated of.\<close>

definition hierarchyRefs :: "model_space \<Rightarrow> ua_node_id \<Rightarrow> node_ref list" where
  "hierarchyRefs ms n =
    (case msBrowse ms BrowseBoth OpcUaId_References (Some NcObjectType) n of None \<Rightarrow> [] | Some refs \<Rightarrow> refs)"

definition typeEdge :: "model_space \<Rightarrow> bool \<Rightarrow> ua_node_id \<Rightarrow> ua_node_id \<Rightarrow> bool" where
  "typeEdge ms f n m =
    (\<exists>r\<in>set (hierarchyRefs ms n). identifierNumeric (nrType r) = Inr OpcUaId_HasSubtype \<and> nrForward r = f \<and> nrTarget r = m)"

definition generated :: "model_space \<Rightarrow> ua_node_id \<Rightarrow> bool" where
  "generated ms n =
    (\<exists>r\<in>set (hierarchyRefs ms n). identifierNumeric (nrType r) = Inr OpcUaId_GeneratesEvent \<and> \<not> nrForward r)"

definition eventBelow :: "model_space \<Rightarrow> bool \<Rightarrow> ua_node_id \<Rightarrow> bool" where
  "eventBelow ms f n = (\<exists>m. (typeEdge ms f)\<^sup>*\<^sup>* n m \<and> generated ms m)"

lemma eventBelow_step: "eventBelow ms f n \<longleftrightarrow> generated ms n \<or> (\<exists>m. typeEdge ms f n m \<and> eventBelow ms f m)"
  unfolding eventBelow_def by (metis converse_rtranclpE converse_rtranclp_into_rtranclp rtranclp.rtrancl_refl)

text \<open>What a pending reference leads to.\<close>

definition leadsToEvent :: "model_space \<Rightarrow> event_item \<Rightarrow> bool" where
  "leadsToEvent ms item =
    (case item of (dir, r) \<Rightarrow>
       identifierNumeric (nrType r) = Inr OpcUaId_GeneratesEvent \<and> \<not> nrForward r \<or>
       identifierNumeric (nrType r) = Inr OpcUaId_HasSubtype \<and> followed dir (nrForward r) \<and>
         eventBelow ms (nrForward r) (nrTarget r))"

definition directionOf :: "bool \<Rightarrow> browse_direction" where
  "directionOf f = (if f then BrowseForward else BrowseInverse)"

lemma followed_simps [simp]: "followed BrowseBoth f" "followed (directionOf f) g \<longleftrightarrow> g = f"
  by (auto simp: followed_def directionOf_def)

lemma leads_from_node:
  "(\<exists>r\<in>set (hierarchyRefs ms n). leadsToEvent ms (directionOf f, r)) \<longleftrightarrow> eventBelow ms f n"
proof -
  have "(\<exists>r\<in>set (hierarchyRefs ms n). leadsToEvent ms (directionOf f, r)) \<longleftrightarrow>
      generated ms n \<or> (\<exists>m. typeEdge ms f n m \<and> eventBelow ms f m)"
    by (auto simp: leadsToEvent_def generated_def typeEdge_def)
  then show ?thesis by (simp add: eventBelow_step [of ms f n])
qed

lemma leads_from_start:
  "(\<exists>r\<in>set (hierarchyRefs ms n). leadsToEvent ms (BrowseBoth, r)) \<longleftrightarrow> (\<exists>f. eventBelow ms f n)"
proof -
  have "(\<exists>r\<in>set (hierarchyRefs ms n). leadsToEvent ms (BrowseBoth, r)) \<longleftrightarrow>
      (\<exists>f. \<exists>r\<in>set (hierarchyRefs ms n). leadsToEvent ms (directionOf f, r))"
    by (auto simp: leadsToEvent_def)
  then show ?thesis by (simp add: leads_from_node)
qed

lemma eventRefs_Inr:
  "eventRefs ms dir n = Inr items \<Longrightarrow> items = map (Pair dir) (hierarchyRefs ms n)"
  by (auto simp: eventRefs_def hierarchyRefs_def split: option.splits)

lemma eventRefs_Inl: "eventRefs ms dir n \<noteq> Inl IsEventType"
  by (auto simp: eventRefs_def split: option.splits)

definition staysIn :: "event_item \<Rightarrow> bool" where
  "staysIn item = (case item of (dir, r) \<Rightarrow>
     identifierNumeric (nrType r) = Inr OpcUaId_HasSubtype \<and> followed dir (nrForward r))"

lemma visitEventRef_cases:
  assumes "visitEventRef ms (dir, r) u = (Inr found, u')"
  obtains (follow) "identifierNumeric (nrType r) = Inr OpcUaId_HasSubtype" "followed dir (nrForward r)"
      "found = map (Pair (directionOf (nrForward r))) (hierarchyRefs ms (nrTarget r))"
    | (skip) "\<not> leadsToEvent ms (dir, r)" "found = []" "\<not> staysIn (dir, r)"
proof (cases "identifierNumeric (nrType r)")
  case (Inr i)
  consider "i = OpcUaId_GeneratesEvent" | "i = OpcUaId_HasSubtype" "followed dir (nrForward r)"
    | "i \<noteq> OpcUaId_GeneratesEvent" "\<not> (i = OpcUaId_HasSubtype \<and> followed dir (nrForward r))"
    by blast
  then show ?thesis
  proof cases
    case 1
    then show ?thesis using assms Inr
      by (intro skip) (auto simp: visitEventRef_def leadsToEvent_def staysIn_def OpcUaId_GeneratesEvent_def OpcUaId_HasSubtype_def split: if_splits)
  next
    case 2
    then have "eventRefs ms (directionOf (nrForward r)) (nrTarget r) = Inr found"
      using assms Inr
      by (auto simp: visitEventRef_def directionOf_def OpcUaId_GeneratesEvent_def OpcUaId_HasSubtype_def
          split: option.splits)
    then show ?thesis using 2 Inr by (intro follow) (simp_all add: eventRefs_Inr)
  next
    case 3
    then show ?thesis using assms Inr
      by (intro skip) (auto simp: visitEventRef_def leadsToEvent_def staysIn_def split: if_splits)
  qed
qed (use assms in \<open>simp add: visitEventRef_def\<close>)

lemma visitEventRef_leads:
  assumes "visitEventRef ms item u = (Inr found, u')"
  shows "leadsToEvent ms item \<longleftrightarrow> (\<exists>y\<in>set found. leadsToEvent ms y)"
proof -
  obtain dir r where item: "item = (dir, r)" by fastforce
  from assms [unfolded item]
  have "leadsToEvent ms (dir, r) \<longleftrightarrow> (\<exists>y\<in>set found. leadsToEvent ms y)"
  proof (cases rule: visitEventRef_cases)
    case follow
    have "(\<exists>y\<in>set found. leadsToEvent ms y) \<longleftrightarrow> eventBelow ms (nrForward r) (nrTarget r)"
      using leads_from_node [of ms "nrTarget r" "nrForward r"] by (simp add: follow(3))
    moreover have "leadsToEvent ms (dir, r) \<longleftrightarrow> eventBelow ms (nrForward r) (nrTarget r)"
      using follow(1,2) by (simp add: leadsToEvent_def OpcUaId_GeneratesEvent_def OpcUaId_HasSubtype_def)
    ultimately show ?thesis by simp
  qed simp
  then show ?thesis by (simp add: item)
qed

lemma visitEventRef_stops:
  "visitEventRef ms item u = (Inl IsEventType, u') \<Longrightarrow> leadsToEvent ms item"
  using eventRefs_Inl [of ms]
  by (auto simp: visitEventRef_def leadsToEvent_def split: sum.splits if_splits option.splits prod.splits)

interpretation events: work_invariant "visitEventRef ms"
  "\<lambda>_ pending. B \<longleftrightarrow> (\<exists>item\<in>set pending. leadsToEvent ms item)"
  "\<lambda>e _. e = IsEventType \<longrightarrow> B" for ms B
proof unfold_locales
  fix s s' :: unit and x rest found
  assume "B \<longleftrightarrow> (\<exists>item\<in>set (x # rest). leadsToEvent ms item)" "visitEventRef ms x s = (Inr found, s')"
  then show "B \<longleftrightarrow> (\<exists>item\<in>set (found @ rest). leadsToEvent ms item)"
    using visitEventRef_leads [of ms x s found s'] by auto
next
  fix s s' :: unit and x rest e
  assume "B \<longleftrightarrow> (\<exists>item\<in>set (x # rest). leadsToEvent ms item)" "visitEventRef ms x s = (Inl e, s')"
  then show "e = IsEventType \<longrightarrow> B" using visitEventRef_stops [of ms x s s'] by auto
qed

lemma isEventType_result:
  assumes "isEventType ms node = Some (Inr b)"
  shows "b \<longleftrightarrow> eventBelow ms True node \<or> eventBelow ms False node"
proof (cases "eventRefs ms BrowseBoth node")
  case (Inl e)
  then show ?thesis using assms eventRefs_Inl [of ms] by (cases e) (auto simp: isEventType_def)
next
  case (Inr items)
  let ?B = "eventBelow ms True node \<or> eventBelow ms False node"
  have start: "?B \<longleftrightarrow> (\<exists>item\<in>set items. leadsToEvent ms item)"
    using leads_from_start [of ms node] eventRefs_Inr [OF Inr] by (auto simp: ex_bool_eq)
  obtain r u where run: "workLoop (visitEventRef ms) items () = Some (r, u)"
    using assms Inr by (auto simp: isEventType_def split: option.splits)
  show ?thesis
    using events.loop_result [OF run start] assms Inr run
    by (auto simp: isEventType_def split: sum.splits event_stop.splits)
qed

text \<open>When there is no endless chain of super types and none of sub types, the search ends.\<close>

definition itemChild :: "model_space \<Rightarrow> event_item \<Rightarrow> event_item \<Rightarrow> bool" where
  "itemChild ms y x =
    (staysIn x \<and> y \<in> Pair (directionOf (nrForward (snd x))) ` set (hierarchyRefs ms (nrTarget (snd x))))"

lemma itemChild_wf:
  assumes "\<And>f. wfP (\<lambda>m n. typeEdge ms f n m)"
  shows "wfP (itemChild ms)"
proof (rule accp_wfpI, rule allI)
  have below: "Wellfounded.accp (itemChild ms) (directionOf f, r)" if "r \<in> set (hierarchyRefs ms n)" for f n r
    using that
  proof (induction n arbitrary: r rule: wfp_induct_rule [OF assms [of f]])
    case (1 n)
    show ?case
    proof (rule accp.intros)
      fix y
      assume y: "itemChild ms y (directionOf f, r)"
      then have "nrForward r = f" "typeEdge ms f n (nrTarget r)"
        using 1(2) by (auto simp: itemChild_def staysIn_def typeEdge_def)
      moreover obtain q where "y = (directionOf (nrForward r), q)" "q \<in> set (hierarchyRefs ms (nrTarget r))"
        using y by (auto simp: itemChild_def)
      ultimately show "Wellfounded.accp (itemChild ms) y" using 1(1) by simp
    qed
  qed
  fix x
  show "Wellfounded.accp (itemChild ms) x"
    by (rule accp.intros) (auto simp: itemChild_def intro: below)
qed

interpretation events: work_measure "visitEventRef ms" "\<lambda>_. {}" "{}" "itemChild ms" for ms
proof unfold_locales
  fix x s found s'
  assume v: "visitEventRef ms x s = (Inr found, s')"
  obtain dir r where x: "x = (dir, r)" by fastforce
  from v have "list_all (\<lambda>y. itemChild ms y x) found"
    unfolding x by (cases rule: visitEventRef_cases) (auto simp: itemChild_def staysIn_def list_all_iff)
  then show "{} = {} \<and> list_all (\<lambda>y. itemChild ms y x) found \<or>
    (\<exists>k\<in>{}. k \<notin> {} \<and> {} = insert k {})" by simp
qed

lemma isEventType_returns:
  assumes "\<And>f. wfP (\<lambda>m n. typeEdge ms f n m)"
  shows "\<exists>y. isEventType ms node = Some y"
proof (cases "eventRefs ms BrowseBoth node")
  case (Inl e)
  then show ?thesis by (cases e) (simp_all add: isEventType_def)
next
  case (Inr items)
  obtain r u where "workLoop (visitEventRef ms) items () = Some (r, u)"
    using events.loop_returns [OF _ itemChild_wf [OF assms], of items "()"] by auto
  then show ?thesis
    using Inr by (auto simp: isEventType_def split: sum.splits event_stop.splits)
qed

end
