(* ===== verification/Node_Set.thy ===== *)
theory Node_Set
  imports Node_Manager Example_Text
begin

text \<open>
  What happens when all nodes of a node set are created: the event types of the collected elements are
  registered and the value handling of the collected variables is started
  (\<open>HaNodeManagerNodeSetXml::allNodesAndReferencesCreated\<close>); the start and the end of a node manager; and
  the factories and model files of the provider (\<open>HaXmlUaNodeFactoryManagerSet.cpp\<close>,
  \<open>HaNodeManagerNodeSetXmlCreator.cpp\<close>, \<open>UaNodeSetXMLSASModelProvider.cpp\<close>).
\<close>

subsection \<open>The created nodes\<close>

record node_set =
  nsElements :: element_map
  nsVariables :: variable_map
  nsRegistry :: event_registry
  nsValues :: server_values

text \<open>\<open>variableCreated\<close> and \<open>objectCreated\<close>; \<open>objectTypeCreated\<close>.\<close>

definition variableCreated :: "model_space \<Rightarrow> ua_node_id \<Rightarrow> (node_set, unit) op" where
  "variableCreated ms node = (\<lambda>s.
    map_option (\<lambda>(r, vars). (r, s\<lparr>nsVariables := vars\<rparr>)) (addVariables ms node (nsVariables s)))"

definition objectCreated :: "model_space \<Rightarrow> ua_node_id \<Rightarrow> (node_set, unit) op" where
  "objectCreated ms node = (\<lambda>s.
    map_option (\<lambda>(r, vars). (r, s\<lparr>nsVariables := vars\<rparr>)) (addVariables ms node (nsVariables s)))"

definition objectTypeCreated :: "model_space \<Rightarrow> ua_node_id \<Rightarrow> ua_node_id \<Rightarrow> (node_set, unit) op" where
  "objectTypeCreated ms node superType = (\<lambda>s.
    map_option (\<lambda>(r, elems). (r, s\<lparr>nsElements := elems\<rparr>)) (addObjectTypeElements ms node superType (nsElements s)))"

text \<open>
  An event type is registered with its parent, its child variables as its fields; \<open>fieldIndex\<close> is the
  SDK's index of a field name.
\<close>

definition registerChild ::
  "model_space \<Rightarrow> (qualified_name \<Rightarrow> 32 word) \<Rightarrow> ua_node_id \<Rightarrow> ua_node_id \<Rightarrow> event_registry \<Rightarrow> event_registry"
where
  "registerChild ms fieldIndex typeId child r =
    (if msClass ms child = Some NcVariable
     then registerEventField (msText ms) fieldIndex typeId child (msBrowseName ms child) r
     else r)"

definition registerElement ::
  "model_space \<Rightarrow> (qualified_name \<Rightarrow> 32 word) \<Rightarrow> object_type_element \<Rightarrow> event_registry \<Rightarrow> event_registry"
where
  "registerElement ms fieldIndex e r =
    fold (registerChild ms fieldIndex (oeTypeId e)) (oeChilds e)
      (registerEventType (oeParent e) (oeTypeId e) r)"

text \<open>
  One element: the event type to hand to the bridge, if it is one, and whether its examination failed. A
  type that is not found any more is a \<open>NULL\<close> pointer that is dereferenced.
\<close>

definition examineElement ::
  "model_space \<Rightarrow> (qualified_name \<Rightarrow> 32 word) \<Rightarrow> object_type_element \<Rightarrow> (event_registry, ua_node_id list \<times> bool) op"
where
  "examineElement ms fieldIndex e = (\<lambda>r.
    if oeNodeClass e \<noteq> Some NcObjectType then Some (Inr ([], False), r)
    else if msClass ms (oeTypeId e) \<noteq> Some NcObjectType then Some (Inl UndefinedBehaviour, r)
    else
      (case isEventType ms (oeTypeId e) of
         None \<Rightarrow> None
       | Some (Inl err) \<Rightarrow>
           if err = UndefinedBehaviour then Some (Inl UndefinedBehaviour, r) else Some (Inr ([], True), r)
       | Some (Inr b) \<Rightarrow>
           if b then Some (Inr ([oeTypeId e], False), registerElement ms fieldIndex e r)
           else Some (Inr ([], False), r)))"

fun examineElements ::
  "model_space \<Rightarrow> (qualified_name \<Rightarrow> 32 word) \<Rightarrow> object_type_element list \<Rightarrow> (event_registry, ua_node_id list \<times> bool) op"
where
  "examineElements ms fieldIndex [] = liftP (Inr ([], False))"
| "examineElements ms fieldIndex (e # es) =
     bindP (examineElement ms fieldIndex e) (\<lambda>(types, failed).
     bindP (examineElements ms fieldIndex es) (\<lambda>(types', failed').
       liftP (Inr (types @ types', failed \<or> failed'))))"

text \<open>The variables that are not part of an object type.\<close>

definition instanceVariables :: "node_set \<Rightarrow> ua_node_id list" where
  "instanceVariables s =
    map snd (filter (\<lambda>p. map_of (nsElements s) (fst p) = None) (nsVariables s))"

text \<open>
  The whole handler. The result says whether it is reported as a success; a failure is only logged. The
  elements and variables are gone afterwards, in both cases.
\<close>

definition nodesCreated ::
  "model_space \<Rightarrow> (qualified_name \<Rightarrow> 32 word) \<Rightarrow> io_bridge \<Rightarrow>
   ((io_node_id \<times> ua_variable) list \<Rightarrow> (io_node_id \<times> ua_variable) list) \<Rightarrow>
   (io_node_id list \<Rightarrow> (cpp_error, io_node_data list option) res) \<Rightarrow> (ua_node_id \<Rightarrow> ua_variant \<Rightarrow> bool) \<Rightarrow>
   (node_set, bool) op"
where
  "nodesCreated ms fieldIndex br order subscribe accepts = (\<lambda>s.
    case examineElements ms fieldIndex (map snd (nsElements s)) (nsRegistry s) of
      None \<Rightarrow> None
    | Some (Inl e, r) \<Rightarrow> Some (Inl e, s\<lparr>nsRegistry := r\<rparr>)
    | Some (Inr (types, failed), r) \<Rightarrow>
        Some
          (case attemptR (updateObjectTypes br subscribe types) of
             Inl e \<Rightarrow> (Inl e, s\<lparr>nsRegistry := r\<rparr>)
           | Inr typesDone \<Rightarrow>
               if list_ex (\<lambda>n. msClass ms n \<noteq> Some NcVariable) (instanceVariables s)
               then (Inl UndefinedBehaviour, s\<lparr>nsRegistry := r\<rparr>)
               else
                 (case attemptR (updateVariables br order subscribe accepts
                         (map (\<lambda>n. \<lparr>uvNodeId = n, uvDataType = msDataType ms n\<rparr>) (instanceVariables s)) (nsValues s)) of
                    Inl e \<Rightarrow> (Inl e, s\<lparr>nsRegistry := r\<rparr>)
                  | Inr valuesDone \<Rightarrow>
                      (Inr (\<not> failed \<and> typesDone \<noteq> None \<and> valuesDone \<noteq> None),
                       \<lparr>nsElements = [], nsVariables = [], nsRegistry = r,
                        nsValues = (case valuesDone of Some v \<Rightarrow> v | None \<Rightarrow> nsValues s)\<rparr>))))"

subsection \<open>What is registered\<close>

definition eventElement :: "model_space \<Rightarrow> object_type_element \<Rightarrow> bool" where
  "eventElement ms e = (oeNodeClass e = Some NcObjectType \<and> isEventType ms (oeTypeId e) = Some (Inr True))"

lemma examineElement_result:
  "examineElement ms fi e r = Some (Inr (types, failed), r') \<Longrightarrow>
   types = map oeTypeId (filter (eventElement ms) [e]) \<and>
   r' = (if eventElement ms e then registerElement ms fi e r else r)"
  by (auto simp: examineElement_def eventElement_def split: if_splits option.splits sum.splits)

lemma examineElements_result:
  "examineElements ms fi es r = Some (Inr (types, failed), r') \<Longrightarrow>
   types = map oeTypeId (filter (eventElement ms) es) \<and>
   r' = fold (registerElement ms fi) (filter (eventElement ms) es) r"
proof (induction es arbitrary: r types failed)
  case (Cons e es)
  then obtain x r1 y where
    e: "examineElement ms fi e r = Some (Inr (fst x, snd x), r1)" and
    es: "examineElements ms fi es r1 = Some (Inr (fst y, snd y), r')" and types: "types = fst x @ fst y"
    by (fastforce simp: bindP_eq_Some split: prod.splits)
  from Cons.IH [OF es] examineElement_result [OF e] show ?case
    by (cases "eventElement ms e") (simp_all add: types)
qed simp

text \<open>The field of a type that the last of its child variables with an index takes.\<close>

definition fieldChild ::
  "model_space \<Rightarrow> (qualified_name \<Rightarrow> 32 word) \<Rightarrow> object_type_element \<Rightarrow> 32 word \<Rightarrow> ua_node_id option"
where
  "fieldChild ms fieldIndex e i =
    find (\<lambda>c. msClass ms c = Some NcVariable \<and> fieldIndex (msBrowseName ms c) = i) (rev (oeChilds e))"

definition orElse :: "'a option \<Rightarrow> 'a option \<Rightarrow> 'a option" where
  "orElse a b = (case a of Some x \<Rightarrow> Some x | None \<Rightarrow> b)"

lemma orElse_simps [simp]: "orElse (Some x) b = Some x" "orElse None b = b" "orElse a None = a"
  "orElse (orElse a b) c = orElse a (orElse b c)"
  by (simp_all add: orElse_def split: option.split)

lemma find_append: "find P (xs @ ys) = orElse (find P xs) (find P ys)"
  by (induction xs) simp_all

lemma registerChildren:
  assumes "inj (msText ms)"
  shows "erTypes (fold (registerChild ms fi t) cs r) = erTypes r"
    and "erFields (fold (registerChild ms fi t) cs r) (getKey (msText ms) u i) =
      orElse (if u = t then find (\<lambda>c. msClass ms c = Some NcVariable \<and> fi (msBrowseName ms c) = i) (rev cs) else None)
        (erFields r (getKey (msText ms) u i))"
proof (induction cs arbitrary: r)
  case (Cons c cs)
  have one: "erTypes (registerChild ms fi t c r) = erTypes r"
    "erFields (registerChild ms fi t c r) (getKey (msText ms) u i) =
      orElse (if u = t \<and> msClass ms c = Some NcVariable \<and> fi (msBrowseName ms c) = i then Some c else None)
        (erFields r (getKey (msText ms) u i))" for r
    by (auto simp: registerChild_def registerEventField_def getKey_inj [OF assms])
  { case 1 then show ?case using Cons.IH(1) one(1) by simp }
  { case 2 then show ?case using Cons.IH(2) one(2) by (simp add: find_append) }
qed simp_all

lemma registerElement_result:
  assumes "inj (msText ms)"
  shows "erTypes (registerElement ms fi e r) = (erTypes r)(oeTypeId e \<mapsto> oeParent e)"
    and "erFields (registerElement ms fi e r) (getKey (msText ms) u i) =
      orElse (if u = oeTypeId e then fieldChild ms fi e i else None) (erFields r (getKey (msText ms) u i))"
  using registerChildren [OF assms]
  by (simp_all add: registerElement_def registerEventType_def fieldChild_def)

lemma registerElements_result:
  assumes "inj (msText ms)" "distinct (map oeTypeId es)"
  shows "erTypes (fold (registerElement ms fi) es r) t =
      orElse (map_option oeParent (find (\<lambda>e. oeTypeId e = t) es)) (erTypes r t)"
    and "erFields (fold (registerElement ms fi) es r) (getKey (msText ms) t i) =
      orElse (Option.bind (find (\<lambda>e. oeTypeId e = t) es) (\<lambda>e. fieldChild ms fi e i))
        (erFields r (getKey (msText ms) t i))"
proof -
  have none: "find (\<lambda>e. oeTypeId e = oeTypeId a) es = None" if "oeTypeId a \<notin> oeTypeId ` set es" for a es
    unfolding find_None_iff using that by (metis imageI)
  show "erTypes (fold (registerElement ms fi) es r) t =
      orElse (map_option oeParent (find (\<lambda>e. oeTypeId e = t) es)) (erTypes r t)"
    using assms(2)
  proof (induction es arbitrary: r)
    case (Cons a es)
    then show ?case using none [of a es] by (auto simp: registerElement_result [OF assms(1)])
  qed simp
  show "erFields (fold (registerElement ms fi) es r) (getKey (msText ms) t i) =
      orElse (Option.bind (find (\<lambda>e. oeTypeId e = t) es) (\<lambda>e. fieldChild ms fi e i))
        (erFields r (getKey (msText ms) t i))"
    using assms(2)
  proof (induction es arbitrary: r)
    case (Cons a es)
    then show ?case using none [of a es] by (auto simp: registerElement_result [OF assms(1)])
  qed simp
qed

lemma keyed_find:
  assumes "distinct (map fst elems)" "list_all (\<lambda>p. msText ms (oeTypeId (snd p)) = fst p) elems" "inj (msText ms)"
  shows "find (\<lambda>e. oeTypeId e = t) (filter ev (map snd elems)) =
      Option.bind (map_of elems (msText ms t)) (\<lambda>e. if ev e then Some e else None)"
    and "distinct (map oeTypeId (filter ev (map snd elems)))"
proof -
  have key: "msText ms t = fst p \<longleftrightarrow> oeTypeId (snd p) = t" if "p \<in> set elems" for p t
    using assms(2) that by (metis (mono_tags, lifting) assms(3) injD list_all_iff)
  have "distinct (map (\<lambda>p. msText ms (oeTypeId (snd p))) elems)"
    using assms(1,2) by (metis (mono_tags, lifting) list_all_iff map_eq_conv)
  then have "distinct (map oeTypeId (map snd elems))"
    by (auto simp: distinct_map inj_on_def)
  then show "distinct (map oeTypeId (filter ev (map snd elems)))"
    by (rule distinct_map_filter)
  show "find (\<lambda>e. oeTypeId e = t) (filter ev (map snd elems)) =
      Option.bind (map_of elems (msText ms t)) (\<lambda>e. if ev e then Some e else None)"
    using assms(1) key
  proof (induction elems)
    case (Cons p ps)
    have none: "find (\<lambda>e. oeTypeId e = t) (filter ev (map snd ps)) = None" if "oeTypeId (snd p) = t"
      unfolding find_None_iff
    proof
      assume "\<exists>x. x \<in> set (filter ev (map snd ps)) \<and> oeTypeId x = t"
      then obtain q where q: "q \<in> set ps" "oeTypeId (snd q) = t" by auto
      then have "fst q = fst p" using Cons.prems(2) [of p t] Cons.prems(2) [of q t] that by simp
      then show False using q(1) Cons.prems(1) by (auto simp: image_iff)
    qed
    have IH: "find (\<lambda>e. oeTypeId e = t) (filter ev (map snd ps)) =
        Option.bind (map_of ps (msText ms t)) (\<lambda>e. if ev e then Some e else None)"
      using Cons.prems by (intro Cons.IH) simp_all
    have key: "fst p = msText ms t \<longleftrightarrow> oeTypeId (snd p) = t"
      using Cons.prems(2) [of p t] by auto
    show ?case
    proof (cases "oeTypeId (snd p) = t")
      case True
      then show ?thesis using key none by (cases p) simp
    next
      case False
      then show ?thesis using key IH by (cases p) simp
    qed
  qed simp
qed

definition eventElementOf :: "model_space \<Rightarrow> node_set \<Rightarrow> ua_node_id \<Rightarrow> object_type_element option" where
  "eventElementOf ms s t =
    Option.bind (map_of (nsElements s) (msText ms t)) (\<lambda>e. if eventElement ms e then Some e else None)"

lemma nodesCreated_cases:
  assumes "nodesCreated ms fi br order subscribe accepts s = Some (Inr ok, s')"
  obtains types failed r vals where
    "examineElements ms fi (map snd (nsElements s)) (nsRegistry s) = Some (Inr (types, failed), r)"
    "attemptR (updateVariables br order subscribe accepts
       (map (\<lambda>n. \<lparr>uvNodeId = n, uvDataType = msDataType ms n\<rparr>) (instanceVariables s)) (nsValues s)) = Inr vals"
    "s' = \<lparr>nsElements = [], nsVariables = [], nsRegistry = r,
       nsValues = (case vals of Some v \<Rightarrow> v | None \<Rightarrow> nsValues s)\<rparr>"
  using assms
  by (auto simp: nodesCreated_def split: option.splits sum.splits prod.splits if_splits)

lemma nodesCreated_registry:
  assumes "inj (msText ms)" "elementsWf ms (nsElements s)"
    "nodesCreated ms fi br order subscribe accepts s = Some (Inr ok, s')"
  shows "erTypes (nsRegistry s') t = orElse (map_option oeParent (eventElementOf ms s t)) (erTypes (nsRegistry s) t)"
    and "erFields (nsRegistry s') (getKey (msText ms) t i) =
      orElse (Option.bind (eventElementOf ms s t) (\<lambda>e. fieldChild ms fi e i))
        (erFields (nsRegistry s) (getKey (msText ms) t i))"
proof -
  obtain types failed r vals where
    ex: "examineElements ms fi (map snd (nsElements s)) (nsRegistry s) = Some (Inr (types, failed), r)" and
    s': "nsRegistry s' = r"
    using assms(3) by (rule nodesCreated_cases) simp
  have keyed: "distinct (map fst (nsElements s))"
    "list_all (\<lambda>p. msText ms (oeTypeId (snd p)) = fst p) (nsElements s)"
    using assms(2) by (auto simp: elementsWf_def elementsInv_def elementInv_def list_all_iff smInv_distinct)
  note f = keyed_find [OF keyed assms(1), where ev = "eventElement ms"]
  note g = registerElements_result [OF assms(1) f(2), of fi "nsRegistry s"]
  show "erTypes (nsRegistry s') t = orElse (map_option oeParent (eventElementOf ms s t)) (erTypes (nsRegistry s) t)"
    using g(1) [of t] examineElements_result [OF ex] by (simp add: s' f(1) eventElementOf_def)
  show "erFields (nsRegistry s') (getKey (msText ms) t i) =
      orElse (Option.bind (eventElementOf ms s t) (\<lambda>e. fieldChild ms fi e i))
        (erFields (nsRegistry s) (getKey (msText ms) t i))"
    using g(2) [of t i] examineElements_result [OF ex] by (simp add: s' f(1) eventElementOf_def)
qed

lemma nodesCreated_values:
  assumes "inj (msText ms)" "variablesWf ms (nsVariables s)"
    "nodesCreated ms fi br order subscribe accepts s = Some (Inr ok, s')"
  shows "svHandling (nsValues s') n =
    (if n \<in> set (instanceVariables s) then expectedHandling br n (svHandling (nsValues s) n)
     else svHandling (nsValues s) n)"
proof -
  let ?vars = "map (\<lambda>n. \<lparr>uvNodeId = n, uvDataType = msDataType ms n\<rparr>) (instanceVariables s)"
  obtain vals where up: "attemptR (updateVariables br order subscribe accepts ?vars (nsValues s)) = Inr vals" and
    s': "nsValues s' = (case vals of Some v \<Rightarrow> v | None \<Rightarrow> nsValues s)"
    using assms(3) by (rule nodesCreated_cases) simp
  have ids: "map uvNodeId ?vars = instanceVariables s" by (simp add: comp_def)
  have "distinct (map (\<lambda>p. msText ms (snd p)) (nsVariables s))"
    using assms(2) by (metis (mono_tags, lifting) variablesWf_def list_all_iff map_eq_conv smInv_distinct)
  then have "distinct (instanceVariables s)"
    by (auto simp: instanceVariables_def distinct_map inj_on_def)
  then have dist: "distinct (map uvNodeId ?vars)" by (simp only: ids)
  have "vals \<noteq> None"
  proof
    assume "vals = None"
    then obtain e where "updateVariables br order subscribe accepts ?vars (nsValues s) = Inl e" "e \<noteq> UndefinedBehaviour"
      using up by (auto simp: attemptR_eq_None)
    then show False using update_variables [OF dist, where s = "nsValues s" and br = br and order = order
          and subscribe = subscribe and accepts = accepts] by simp
  qed
  then obtain v where v: "vals = Some v" "nsValues s' = v" using s' by auto
  then have "updateVariables br order subscribe accepts ?vars (nsValues s) = Inr v" using up by simp
  then obtain entries s1 where prep: "prepareVariables br ?vars (nsValues s) = Inr (entries, s1)"
    "svHandling v = svHandling s1"
    by (rule updateVariables_handling)
  have set_ids: "uvNodeId ` set ?vars = set (instanceVariables s)" by force
  show ?thesis
  proof (cases "n \<in> set (instanceVariables s)")
    case True
    then show ?thesis
      using prepareVariables_handling [OF prep(1) dist] prep(2) v(2) by (auto simp: list_all_iff)
  next
    case False
    then show ?thesis
      using prepareVariables_other [OF prep(1), of n] prep(2) v(2) set_ids by simp
  qed
qed

subsection \<open>A concrete node set\<close>

text \<open>
  An event type \<open>1\<close> with a variable \<open>2\<close>, derived from the base event type; an object \<open>10\<close> with a variable
  \<open>11\<close> and an object \<open>12\<close> that shares it; two objects \<open>20\<close>, \<open>21\<close> that organize each other.
\<close>

definition exampleClass :: "ua_node_id \<Rightarrow> node_class option" where
  "exampleClass n =
    map_of [(UaNumeric 0 2041, NcObjectType), (UaNumeric 2 1, NcObjectType), (UaNumeric 2 2, NcVariable),
      (UaNumeric 2 10, NcObject), (UaNumeric 2 11, NcVariable), (UaNumeric 2 12, NcObject),
      (UaNumeric 2 20, NcObject), (UaNumeric 2 21, NcObject)] n"

definition nodeSetRefs :: "ua_node_id \<Rightarrow> node_ref list" where
  "nodeSetRefs n =
    (case map_of [(UaNumeric 2 1, [(True, 2)]), (UaNumeric 2 10, [(True, 11), (True, 12)]),
        (UaNumeric 2 12, [(True, 11)]), (UaNumeric 2 20, [(True, 21)]), (UaNumeric 2 21, [(True, 20)])] n of
       None \<Rightarrow> []
     | Some ps \<Rightarrow> map (\<lambda>(f, i). \<lparr>nrType = UaNumeric 0 47, nrForward = f, nrTarget = UaNumeric 2 i\<rparr>) ps)"

definition exampleTypeRefs :: "ua_node_id \<Rightarrow> node_ref list" where
  "exampleTypeRefs n =
    (if n = UaNumeric 2 1 then [\<lparr>nrType = UaNumeric 0 45, nrForward = False, nrTarget = UaNumeric 0 2041\<rparr>]
     else if n = UaNumeric 0 2041
     then [\<lparr>nrType = UaNumeric 0 41, nrForward = False, nrTarget = UaNumeric 0 2004\<rparr>]
     else [])"

definition nodeSetSpace :: model_space where
  "nodeSetSpace = \<lparr>msClass = exampleClass,
     msBrowse = (\<lambda>dir refType mask n.
       Some (if refType = OpcUaId_References then exampleTypeRefs n else nodeSetRefs n)),
     msText = exampleText, msBrowseName = (\<lambda>_. (2, ''Level'')), msDataType = (\<lambda>_. UaNumeric 0 11)\<rparr>"

definition exampleSet :: node_set where
  "exampleSet =
    \<lparr>nsElements =
       [(exampleText (UaNumeric 2 1), \<lparr>oeTypeId = UaNumeric 2 1, oeNodeClass = Some NcObjectType,
           oeParent = UaNumeric 0 2041, oeChilds = [UaNumeric 2 2]\<rparr>),
        (exampleText (UaNumeric 2 2), \<lparr>oeTypeId = UaNumeric 2 2, oeNodeClass = Some NcVariable,
           oeParent = UaNumeric 2 1, oeChilds = []\<rparr>)],
     nsVariables = [(exampleText (UaNumeric 2 11), UaNumeric 2 11)],
     nsRegistry = emptyRegistry, nsValues = \<lparr>svCache = (\<lambda>_. UaNull), svHandling = (\<lambda>_. None)\<rparr>\<rparr>"

lemma exampleSpace_text [simp]: "inj (msText nodeSetSpace)"
  by (simp add: nodeSetSpace_def exampleText_inj)

lemma example_walk:
  "addVariables nodeSetSpace (UaNumeric 2 10) [] = Some (Inr (), [(exampleText (UaNumeric 2 11), UaNumeric 2 11)])"
  by code_simp

lemma example_elements:
  "addObjectTypeElements nodeSetSpace (UaNumeric 2 1) (UaNumeric 0 2041) [] = Some (Inr (), nsElements exampleSet)"
  by code_simp

lemma example_event_type: "isEventType nodeSetSpace (UaNumeric 2 1) = Some (Inr True)"
  by code_simp

lemma example_created:
  "map_option (\<lambda>(r, s). isOk r)
     (nodesCreated nodeSetSpace (\<lambda>_. 7) exampleBridge id (\<lambda>_. Inr None) (\<lambda>_ _. True) exampleSet) = Some True"
  by code_simp

lemma example_wf:
  "elementsWf nodeSetSpace (nsElements exampleSet)" "variablesWf nodeSetSpace (nsVariables exampleSet)"
proof -
  have "elementsWf nodeSetSpace []" by (simp add: elementsWf_def elementsInv_def)
  from addObjectTypeElements_result [OF exampleSpace_text this example_elements]
  show "elementsWf nodeSetSpace (nsElements exampleSet)" by simp
  show "variablesWf nodeSetSpace (nsVariables exampleSet)"
    by (simp add: variablesWf_def exampleSet_def nodeSetSpace_def exampleClass_def)
qed

lemma example_event_element:
  "eventElementOf nodeSetSpace exampleSet (UaNumeric 2 1) = Some (snd (hd (nsElements exampleSet)))"
  "fieldChild nodeSetSpace (\<lambda>_. 7) (snd (hd (nsElements exampleSet))) 7 = Some (UaNumeric 2 2)"
  "instanceVariables exampleSet = [UaNumeric 2 11]"
  by code_simp+

lemma example_edges: "wfP (\<lambda>m n. typeEdge nodeSetSpace f n m)"
  by (rule wfp_if_convertible_to_nat [where f = "\<lambda>n. if n = UaNumeric 2 1 then 1 else 0"])
    (auto simp: typeEdge_def hierarchyRefs_def nodeSetSpace_def exampleTypeRefs_def OpcUaId_HasSubtype_def split: if_splits)

text \<open>The same without the objects that organize each other.\<close>

definition acyclicSpace :: model_space where
  "acyclicSpace = nodeSetSpace\<lparr>msClass := exampleClass(UaNumeric 2 20 := None, UaNumeric 2 21 := None)\<rparr>"

lemma example_finite: "finite {n. exampleClass n \<noteq> None}"
  unfolding exampleClass_def dom_def [symmetric] by (rule finite_dom_map_of)

lemma acyclic_objects: "wfP (objectChild acyclicSpace)"
proof (rule wfp_if_convertible_to_nat [where f = "\<lambda>n. if n = UaNumeric 2 10 then 2 else if n = UaNumeric 2 12 then 1 else 0"])
  fix m n
  assume "objectChild acyclicSpace m n"
  then have "n = UaNumeric 2 10 \<and> m \<in> {UaNumeric 2 11, UaNumeric 2 12} \<or> n = UaNumeric 2 12 \<and> m = UaNumeric 2 11"
    by (auto simp: objectChild_def varTargets_def acyclicSpace_def nodeSetSpace_def exampleClass_def nodeSetRefs_def
        OpcUaId_HierarchicalReferences_def OpcUaId_References_def split: if_splits)
  then show "(if m = UaNumeric 2 10 then 2 else if m = UaNumeric 2 12 then 1 else 0)
    < (if n = UaNumeric 2 10 then 2 else if n = UaNumeric 2 12 then 1 else (0 :: nat))" by auto
qed

subsection \<open>Correctness of the collection and the registration\<close>

text \<open>
  A walk over variables either throws the exception of the node manager or adds exactly the variables
  that are found from its node without passing one that was recorded before; the recorded variables
  stay sorted by key, each under its own key.
\<close>

theorem variables_collected:
  assumes "inj (msText ms)" "collectable ms node" "variablesWf ms vars"
    "addVariables ms node vars = Some (r, vars')"
  shows "case r of
      Inl e \<Rightarrow> e = HaNodeManagerException \<and> variablesWf ms vars'
    | Inr _ \<Rightarrow> variablesWf ms vars' \<and> dom (map_of vars') = foundKeys ms (dom (map_of vars)) {node}"
  by (rule addVariables_result) (use assms in simp_all)

theorem variables_collected_witness:
  "foundKeys nodeSetSpace {} {UaNumeric 2 10} = {exampleText (UaNumeric 2 11)}"
  using variables_collected [OF exampleSpace_text _ _ example_walk]
  by (simp add: collectable_def variablesWf_def nodeSetSpace_def exampleClass_def)

text \<open>
  A walk over variables returns when there are finitely many variables and no endless chain of
  objects.
\<close>

theorem add_variables_returns:
  assumes "finite {n. msClass ms n = Some NcVariable}" "wfP (objectChild ms)"
  shows "\<exists>y. addVariables ms node vars = Some y"
  by (rule addVariables_returns) (use assms in simp_all)

theorem add_variables_returns_witness: "\<exists>y. addVariables acyclicSpace (UaNumeric 2 10) [] = Some y"
proof (rule add_variables_returns)
  show "finite {n. msClass acyclicSpace n = Some NcVariable}"
    by (rule finite_subset [OF _ example_finite]) (auto simp: acyclicSpace_def)
qed (rule acyclic_objects)

text \<open>
  C36. Objects whose first forward references stay among them are walked forever: objects are not
  recorded as visited.
\<close>

theorem object_cycle_diverges:
  assumes "\<forall>n\<in>C. leadsOn ms vars C n" "node \<in> C"
  shows "addVariables ms node vars = None"
  by (rule addVariables_diverges) (use assms in simp_all)

theorem object_cycle_diverges_witness: "addVariables nodeSetSpace (UaNumeric 2 20) [] = None"
  by (rule object_cycle_diverges [where C = "{UaNumeric 2 20, UaNumeric 2 21}"])
    (simp_all add: leadsOn_def varTargets_def nodeSetSpace_def exampleClass_def nodeSetRefs_def
      OpcUaId_HierarchicalReferences_def OpcUaId_References_def)

text \<open>
  C21. The elements of object types are well formed after each walk that returns: each is recorded under
  its own key with its class, its children are all its forward references in order, and each child is
  itself an element. Elements of earlier walks do not change, and in a finite node set each walk returns.
\<close>

theorem elements_collected:
  assumes "inj (msText ms)" "elementsWf ms elems" "finite {n. msClass ms n \<noteq> None}"
  shows "case addObjectTypeElements ms node parent elems of
      None \<Rightarrow> False
    | Some (Inl e, elems') \<Rightarrow> e = HaNodeManagerException \<and> smInv elems'
    | Some (Inr _, elems') \<Rightarrow> elementsWf ms elems' \<and> map_of elems \<subseteq>\<^sub>m map_of elems' \<and>
        msText ms node \<in> dom (map_of elems')"
proof -
  obtain r elems' where run: "addObjectTypeElements ms node parent elems = Some (r, elems')"
    using addObjectTypeElements_returns [OF assms(3)] by fastforce
  show ?thesis
    using addObjectTypeElements_result [OF assms(1,2) run] by (simp add: run split: sum.splits)
qed

theorem elements_collected_witness: "elementsWf nodeSetSpace (nsElements exampleSet)"
proof -
  have "finite {n. msClass nodeSetSpace n \<noteq> None}" using example_finite by (simp add: nodeSetSpace_def)
  moreover have "elementsWf nodeSetSpace []" by (simp add: elementsWf_def elementsInv_def)
  ultimately show ?thesis
    using elements_collected [OF exampleSpace_text, of "[]" "UaNumeric 2 1" "UaNumeric 0 2041"]
    by (simp add: example_elements)
qed

text \<open>
  C23. The examination of an object type, when it returns without an exception, answers whether an event
  is generated of the type, of a type it is derived from, or of one derived from it. It returns when
  neither the super types nor the sub types form an endless chain.
\<close>

theorem event_type_examined:
  assumes "\<forall>f. wfP (\<lambda>m n. typeEdge ms f n m)"
  shows "case isEventType ms node of
      None \<Rightarrow> False
    | Some (Inl _) \<Rightarrow> True
    | Some (Inr b) \<Rightarrow> (b \<longleftrightarrow> eventBelow ms True node \<or> eventBelow ms False node)"
proof -
  obtain y where y: "isEventType ms node = Some y"
    using isEventType_returns [of ms node] assms by blast
  then show ?thesis using isEventType_result [of ms node] by (cases y) simp_all
qed

theorem event_type_examined_witness:
  "eventBelow nodeSetSpace True (UaNumeric 2 1) \<or> eventBelow nodeSetSpace False (UaNumeric 2 1)"
  using event_type_examined [of nodeSetSpace "UaNumeric 2 1"] example_edges by (simp add: example_event_type)

text \<open>
  C2. When all nodes are created, exactly the event types among the collected elements are added to the
  registry, each with its parent and, for each field index, the last of its child variables with it;
  everything else in the registry stays. The collected lists are empty then, and exactly the variables
  that are not part of an object type get the value handling of the bridge.
\<close>

theorem node_set_created:
  assumes "inj (msText ms)" "elementsWf ms (nsElements s)" "variablesWf ms (nsVariables s)"
    "nodesCreated ms fi br order subscribe accepts s = Some (Inr ok, s')"
  shows "nsElements s' = [] \<and> nsVariables s' = [] \<and>
    erTypes (nsRegistry s') t = orElse (map_option oeParent (eventElementOf ms s t)) (erTypes (nsRegistry s) t) \<and>
    erFields (nsRegistry s') (getKey (msText ms) t i) =
      orElse (Option.bind (eventElementOf ms s t) (\<lambda>e. fieldChild ms fi e i))
        (erFields (nsRegistry s) (getKey (msText ms) t i)) \<and>
    svHandling (nsValues s') n =
      (if n \<in> set (instanceVariables s) then expectedHandling br n (svHandling (nsValues s) n)
       else svHandling (nsValues s) n)"
  using nodesCreated_registry [OF assms(1,2,4), of t] nodesCreated_values [OF assms(1,3,4), of n]
  by (auto intro: nodesCreated_cases [OF assms(4)])

theorem node_set_created_witness:
  "\<exists>ok s'. nodesCreated nodeSetSpace (\<lambda>_. 7) exampleBridge id (\<lambda>_. Inr None) (\<lambda>_ _. True) exampleSet = Some (Inr ok, s') \<and>
    erTypes (nsRegistry s') (UaNumeric 2 1) = Some (UaNumeric 0 2041) \<and>
    svHandling (nsValues s') (UaNumeric 2 2) = None"
proof -
  obtain ok s' where run:
    "nodesCreated nodeSetSpace (\<lambda>_. 7) exampleBridge id (\<lambda>_. Inr None) (\<lambda>_ _. True) exampleSet = Some (Inr ok, s')"
    using example_created by (auto simp: isOk_iff)
  show ?thesis
    using node_set_created [OF exampleSpace_text example_wf run, of "UaNumeric 2 1" _ "UaNumeric 2 2"] run
    by (simp add: example_event_element) (simp add: exampleSet_def)
qed

text \<open>
  The fields of an event type can be looked up once its node set is created: the lookup of an index
  gives the last of its child variables with that index.
\<close>

theorem created_fields_found:
  assumes "inj (msText ms)" "elementsWf ms (nsElements s)"
    "nodesCreated ms fi br order subscribe accepts s = Some (Inr ok, s')"
    "eventElementOf ms s t = Some e" "fieldChild ms fi e i = Some c"
  shows "getEventFieldNodeId (msText ms) (nsRegistry s') t i = Some (Some c)"
  using nodesCreated_registry(2) [OF assms(1-3), of t i] assms(4,5)
  by (subst getEventFieldNodeId.simps) simp

theorem created_fields_found_witness:
  "\<exists>ok s'. nodesCreated nodeSetSpace (\<lambda>_. 7) exampleBridge id (\<lambda>_. Inr None) (\<lambda>_ _. True) exampleSet = Some (Inr ok, s') \<and>
    getEventFieldNodeId exampleText (nsRegistry s') (UaNumeric 2 1) 7 = Some (Some (UaNumeric 2 2))"
proof -
  obtain ok s' where run:
    "nodesCreated nodeSetSpace (\<lambda>_. 7) exampleBridge id (\<lambda>_. Inr None) (\<lambda>_ _. True) exampleSet = Some (Inr ok, s')"
    using example_created by (auto simp: isOk_iff)
  show ?thesis
    using created_fields_found [OF exampleSpace_text example_wf(1) run example_event_element(1,2)] run
    by (simp add: nodeSetSpace_def)
qed

end
