(* ===== verification/Node_Provider.thy ===== *)
theory Node_Provider
  imports Node_Set
begin

text \<open>
  The provider of node sets (\<open>UaNodeSetXMLSASModelProvider.cpp\<close>): its model files, the factories of nodes
  (\<open>HaXmlUaNodeFactoryManagerSet.cpp\<close>), the creation of node managers
  (\<open>HaNodeManagerNodeSetXmlCreator.cpp\<close>), and the start and the end of a node manager with its bridge. The
  directory listing, the status of the SDK's own start and the answers of the data provider are
  parameters.
\<close>

subsection \<open>Factories\<close>

text \<open>
  Each factory manager is the list of the name spaces it was told, in the order of the calls; managers
  added later are told the earlier name spaces first.
\<close>

record factory_set =
  fsManagers :: "16 word list list"
  fsNamespaces :: "16 word list"

definition emptyFactories :: factory_set where
  "emptyFactories = \<lparr>fsManagers = [], fsNamespaces = []\<rparr>"

definition addFactoryManager :: "16 word list \<Rightarrow> factory_set \<Rightarrow> factory_set" where
  "addFactoryManager manager fs =
    fs\<lparr>fsManagers := fsManagers fs @ [foldl (\<lambda>m ns. m @ [ns]) manager (fsNamespaces fs)]\<rparr>"

definition addNamespace :: "16 word \<Rightarrow> factory_set \<Rightarrow> factory_set" where
  "addNamespace ns fs =
    fs\<lparr>fsNamespaces := fsNamespaces fs @ [ns], fsManagers := map (\<lambda>m. m @ [ns]) (fsManagers fs)\<rparr>"

text \<open>
  What a factory of a name space creates: objects get the methods of its manager, variables are those of the
  SDK, and the default value is the empty one. The objects of the SDK are a parameter; it gives \<open>NULL\<close> when it
  cannot create one.
\<close>

definition xmlCreateObject :: "'m \<Rightarrow> 'o option \<Rightarrow> (cpp_error, 'o \<times> 'm) res" where
  "xmlCreateObject methodManager generic =
    (case generic of None \<Rightarrow> Inl UndefinedBehaviour | Some ob \<Rightarrow> Inr (ob, methodManager))"

definition xmlCreateVariable :: "'v option \<Rightarrow> 'v option" where
  "xmlCreateVariable generic = generic"

definition xmlDefaultValue :: "ua_node_id \<Rightarrow> 32 word \<Rightarrow> ua_variant" where
  "xmlDefaultValue dataTypeId valueRank = UaNull"

subsection \<open>The bridge of a manager\<close>

text \<open>What the start of the bridge has stored so far; all pointers are \<open>NULL\<close> at its construction.\<close>

record bridge_parts =
  bpBrowser :: bool
  bpDefault :: "value_handling option"
  bpProps :: "io_node_data list option"
  bpConverter :: "converter_env option"

definition newBridge :: bridge_parts where
  "newBridge = \<lparr>bpBrowser = False, bpDefault = None, bpProps = None, bpConverter = None\<rparr>"

text \<open>
  An exception of the provider is logged and gives a bad status; what was stored before stays.
\<close>

definition bridgeAfterStartUp ::
  "converter_env \<Rightarrow> (cpp_error, value_handling option) res \<Rightarrow> (cpp_error, io_node_data list option) res \<Rightarrow>
   bridge_parts \<Rightarrow> (cpp_error, 32 word \<times> bridge_parts) res"
where
  "bridgeAfterStartUp env defaults props b =
    (let b1 = b\<lparr>bpBrowser := True\<rparr> in
     bindR (attemptR defaults) (\<lambda>d.
       case d of
         None \<Rightarrow> Inr (OpcUa_Bad, b1)
       | Some d \<Rightarrow>
           (let b2 = b1\<lparr>bpDefault := d\<rparr> in
            mapR (\<lambda>p.
                case p of
                  None \<Rightarrow> (OpcUa_Bad, b2)
                | Some p \<Rightarrow> (OpcUa_Good, b2\<lparr>bpProps := p, bpConverter := Some env\<rparr>))
              (attemptR props))))"

text \<open>The bridge the services of the server work on, once it is complete.\<close>

definition bridgeOf :: "bridge_parts \<Rightarrow> io_bridge option" where
  "bridgeOf b =
    map_option (\<lambda>env. \<lparr>brEnv = env, brDefault = bpDefault b, brProps = bpProps b\<rparr>) (bpConverter b)"

subsection \<open>The start and the end of a manager\<close>

text \<open>The constructor leaves the pointer to the bridge \<open>NULL\<close>; the end of the manager leaves it dangling.\<close>

datatype bridge_pointer = BridgeNull | BridgeAt bridge_parts | BridgeDangling

definition managerAfterStartUp ::
  "32 word \<Rightarrow> 16 word \<Rightarrow> converter_env \<Rightarrow> (cpp_error, value_handling option) res \<Rightarrow>
   (cpp_error, io_node_data list option) res \<Rightarrow> factory_set \<times> bridge_pointer \<Rightarrow>
   (cpp_error, 32 word) res \<times> factory_set \<times> bridge_pointer"
where
  "managerAfterStartUp superStatus ns env defaults props s =
    (case s of (fs, p) \<Rightarrow>
       if \<not> statusIsGood superStatus then (Inr superStatus, fs, p)
       else
         (case bridgeAfterStartUp env defaults props newBridge of
            Inl e \<Rightarrow> (Inl e, addNamespace ns fs, BridgeAt newBridge)
          | Inr (status, b) \<Rightarrow> (Inr status, addNamespace ns fs, BridgeAt b)))"

definition managerBeforeShutDown ::
  "32 word \<Rightarrow> bridge_pointer \<Rightarrow> (cpp_error, 32 word \<times> bridge_pointer) res"
where
  "managerBeforeShutDown superStatus p =
    (case p of
       BridgeAt b \<Rightarrow> Inr (if statusIsGood OpcUa_Good then superStatus else OpcUa_Good, BridgeDangling)
     | _ \<Rightarrow> Inl UndefinedBehaviour)"

subsection \<open>The provider\<close>

text \<open>
  The model files, the factories, and the managers of the name spaces created so far, which every manager
  uses as its associated managers.
\<close>

record node_set_provider =
  npModelFiles :: "string list"
  npFactories :: factory_set
  npManagers :: "string list"

definition newNodeSetProvider :: node_set_provider where
  "newNodeSetProvider = \<lparr>npModelFiles = [], npFactories = emptyFactories, npManagers = []\<rparr>"

definition endsWith :: "string \<Rightarrow> string \<Rightarrow> bool" where
  "endsWith suffix s = (length suffix \<le> length s \<and> drop (length s - length suffix) s = suffix)"

definition providerOpen ::
  "string \<Rightarrow> (string \<Rightarrow> string list option) \<Rightarrow> node_set_provider \<Rightarrow> (cpp_error, node_set_provider) res"
where
  "providerOpen confDir listDir np =
    (let modelsDir = confDir @ ''models/'' in
     case listDir modelsDir of
       None \<Rightarrow> Inl SASModelProviderException
     | Some entries \<Rightarrow>
         Inr (np\<lparr>npModelFiles := npModelFiles np @ map (\<lambda>e. modelsDir @ e) (filter (endsWith ''.xml'') (sort entries))\<rparr>))"

definition providerClose :: "node_set_provider \<Rightarrow> node_set_provider" where
  "providerClose np = np\<lparr>npModelFiles := []\<rparr>"

definition createNodeManagers :: "node_set_provider \<Rightarrow> string list option" where
  "createNodeManagers np = None"

text \<open>One parser module per model file, each with a new factory manager of the set.\<close>

definition createServerApplicationModules :: "node_set_provider \<Rightarrow> (string \<times> nat) list \<times> node_set_provider" where
  "createServerApplicationModules np =
    foldl (\<lambda>(modules, np) f.
        (modules @ [(f, length (fsManagers (npFactories np)))],
         np\<lparr>npFactories := addFactoryManager [] (npFactories np)\<rparr>))
      ([], np) (npModelFiles np)"

definition createNodeManager :: "string \<Rightarrow> node_set_provider \<Rightarrow> node_set_provider" where
  "createNodeManager namespaceUri np = np\<lparr>npManagers := npManagers np @ [namespaceUri]\<rparr>"

subsection \<open>Every factory manager knows every name space\<close>

inductive factoriesReach :: "factory_set \<Rightarrow> bool" where
  start: "factoriesReach emptyFactories"
| manager: "factoriesReach fs \<Longrightarrow> factoriesReach (addFactoryManager [] fs)"
| namespace: "factoriesReach fs \<Longrightarrow> factoriesReach (addNamespace ns fs)"

lemma foldl_snoc: "foldl (\<lambda>m ns. m @ [ns]) xs ys = xs @ ys"
  by (induction ys arbitrary: xs) simp_all

text \<open>
  C37. However managers and name spaces come, every factory manager was told every name space exactly
  once, in the order they were added.
\<close>

theorem factories_complete: "factoriesReach fs \<Longrightarrow> list_all (\<lambda>m. m = fsNamespaces fs) (fsManagers fs)"
  by (induction rule: factoriesReach.induct)
    (simp_all add: emptyFactories_def addFactoryManager_def addNamespace_def foldl_snoc list_all_iff)

theorem factories_complete_witness:
  "fsManagers (addFactoryManager [] (addNamespace 3 (addFactoryManager [] emptyFactories))) = [[3], [3]]"
  using factories_complete [OF factoriesReach.manager [OF factoriesReach.namespace
      [OF factoriesReach.manager [OF factoriesReach.start], of 3]]]
  by (simp add: addFactoryManager_def addNamespace_def emptyFactories_def)

subsection \<open>Model files\<close>

lemma modules_result:
  "foldl (\<lambda>(modules, np) f.
        (modules @ [(f, length (fsManagers (npFactories np)))],
         np\<lparr>npFactories := addFactoryManager [] (npFactories np)\<rparr>)) (ms, np) fs =
   (ms @ zip fs [length (fsManagers (npFactories np))..<length (fsManagers (npFactories np)) + length fs],
    np\<lparr>npFactories := foldl (\<lambda>s f. addFactoryManager [] s) (npFactories np) fs\<rparr>)"
proof (induction fs arbitrary: ms np)
  case (Cons f fs)
  have "[k..<k + Suc (length fs)] = k # [Suc k..<Suc k + length fs]" for k
    by (subst upt_conv_Cons) simp_all
  then show ?case using Cons
    by (simp add: addFactoryManager_def del: upt_Suc)
qed simp

lemma foldl_addManager:
  "fsNamespaces (foldl (\<lambda>s f. addFactoryManager [] s) fs xs) = fsNamespaces fs"
  "fsManagers (foldl (\<lambda>s f. addFactoryManager [] s) fs xs) =
     fsManagers fs @ replicate (length xs) (fsNamespaces fs)"
  by (induction xs arbitrary: fs) (simp_all add: addFactoryManager_def foldl_snoc)

lemma drop_suffix_iff: "endsWith suffix s \<longleftrightarrow> (\<exists>t. s = t @ suffix)"
proof
  assume "endsWith suffix s"
  then have "s = take (length s - length suffix) s @ suffix"
    by (metis append_take_drop_id endsWith_def)
  then show "\<exists>t. s = t @ suffix" by blast
qed (auto simp: endsWith_def)

text \<open>
  After opening a closed provider its modules are the files of the model directory whose names end in
  \<open>.xml\<close>, each once, in the order of their names; each has a factory manager of its own, which knows
  all name spaces. Opening fails exactly when the directory cannot be read.
\<close>

theorem model_files_loaded:
  assumes "npModelFiles np = []"
  shows "case providerOpen confDir listDir np of
      Inl e \<Rightarrow> e = SASModelProviderException \<and> listDir (confDir @ ''models/'') = None
    | Inr np1 \<Rightarrow> (\<exists>entries names. listDir (confDir @ ''models/'') = Some entries \<and>
        mset names = filter_mset (endsWith ''.xml'') (mset entries) \<and> sorted names \<and>
        (let (modules, np2) = createServerApplicationModules np1 in
           map fst modules = map (\<lambda>e. confDir @ ''models/'' @ e) names \<and> distinct (map snd modules) \<and>
           list_all (\<lambda>m. fsManagers (npFactories np2) ! snd m = fsNamespaces (npFactories np)) modules))"
proof (cases "listDir (confDir @ ''models/'')")
  case (Some entries)
  let ?names = "filter (endsWith ''.xml'') (sort entries)"
  let ?files = "map (\<lambda>e. confDir @ ''models/'' @ e) ?names"
  let ?fs = "npFactories np"
  have open': "providerOpen confDir listDir np = Inr (np\<lparr>npModelFiles := ?files\<rparr>)"
    by (simp add: providerOpen_def Some assms)
  have "list_all (\<lambda>m. (fsManagers ?fs @ replicate (length ?files) (fsNamespaces ?fs)) ! snd m = fsNamespaces ?fs)
      (zip ?files [length (fsManagers ?fs)..<length (fsManagers ?fs) + length ?files])"
    by (auto simp: list_all_iff nth_append dest!: set_zip_rightD)
  moreover have "mset ?names = filter_mset (endsWith ''.xml'') (mset entries)"
    by (metis mset_filter mset_sort)
  moreover have "sorted ?names" by (simp add: sorted_wrt_filter)
  moreover have "listDir (confDir @ ''models/'') = Some entries" by (rule Some)
  ultimately show ?thesis
    unfolding open' sum.case
    by (intro exI [of _ entries] exI [of _ ?names])
      (simp add: createServerApplicationModules_def modules_result foldl_addManager)
qed (simp add: providerOpen_def)

definition exampleListing :: "string \<Rightarrow> string list option" where
  "exampleListing d = (if d = ''/c/models/'' then Some [''b.xml'', ''.'', ''a.xml'', ''a.xmlx''] else None)"

theorem model_files_loaded_witness:
  "\<exists>np1. providerOpen ''/c/'' exampleListing newNodeSetProvider = Inr np1 \<and>
    map fst (fst (createServerApplicationModules np1)) = [''/c/models/a.xml'', ''/c/models/b.xml'']"
proof -
  have "npModelFiles newNodeSetProvider = []" by (simp add: newNodeSetProvider_def)
  from model_files_loaded [OF this, where confDir = "''/c/''" and listDir = exampleListing]
  obtain np1 where np1: "providerOpen ''/c/'' exampleListing newNodeSetProvider = Inr np1"
    by (auto simp: exampleListing_def split: sum.splits)
  moreover have "mapR (\<lambda>np1. map fst (fst (createServerApplicationModules np1)))
      (providerOpen ''/c/'' exampleListing newNodeSetProvider) = Inr [''/c/models/a.xml'', ''/c/models/b.xml'']"
    by code_simp
  ultimately show ?thesis by simp
qed

subsection \<open>The start of a manager\<close>

lemma bridge_started:
  "bridgeAfterStartUp env defaults props newBridge = Inr (status, b) \<Longrightarrow>
   (status = OpcUa_Good \<and> (\<exists>d p. defaults = Inr d \<and> props = Inr p \<and>
      bridgeOf b = Some \<lparr>brEnv = env, brDefault = d, brProps = p\<rparr>)) \<or>
   (status = OpcUa_Bad \<and> bridgeOf b = None)"
  by (auto simp: bridgeAfterStartUp_def bridgeOf_def newBridge_def Let_def bindR_eq_Inr mapR_eq_Inr
      split: option.splits)

text \<open>
  After a start that did not run into undefined behaviour the status is good exactly when the SDK's
  own start and both answers of the provider were good; then the bridge is the one with these answers.
  Otherwise there is no complete bridge, or no bridge at all when the SDK's start failed, and the name
  space is announced to the factories unless the SDK's start failed.
\<close>

theorem manager_started:
  assumes "managerAfterStartUp superStatus ns env defaults props (fs, BridgeNull) = (Inr status, fs', p)"
  shows "if statusIsGood superStatus
    then fs' = addNamespace ns fs \<and>
      (\<exists>b. p = BridgeAt b \<and>
         (if statusIsGood status then
            (\<exists>d q. defaults = Inr d \<and> props = Inr q \<and> bridgeOf b = Some \<lparr>brEnv = env, brDefault = d, brProps = q\<rparr>)
          else bridgeOf b = None \<and> (\<not> isOk defaults \<or> \<not> isOk props)))
    else status = superStatus \<and> fs' = fs \<and> p = BridgeNull"
proof (cases "statusIsGood superStatus")
  case True
  then obtain b where b: "bridgeAfterStartUp env defaults props newBridge = Inr (status, b)"
    "fs' = addNamespace ns fs" "p = BridgeAt b"
    using assms by (auto simp: managerAfterStartUp_def split: sum.splits)
  have "isOk defaults \<Longrightarrow> isOk props \<Longrightarrow> status = OpcUa_Good"
    using b(1) by (auto simp: isOk_iff bridgeAfterStartUp_def Let_def)
  moreover have "statusIsGood OpcUa_Good" "\<not> statusIsGood OpcUa_Bad"
    by (simp_all add: statusIsGood_def OpcUa_Good_def OpcUa_Bad_def)
  ultimately show ?thesis using bridge_started [OF b(1)] True b(2,3) by auto
next
  case False
  then show ?thesis using assms by (simp add: managerAfterStartUp_def)
qed

theorem manager_started_witness:
  "\<exists>b. managerAfterStartUp OpcUa_Good 2 exampleEnv (Inr (Some VhNone)) (Inr None) (emptyFactories, BridgeNull) =
      (Inr OpcUa_Good, addNamespace 2 emptyFactories, BridgeAt b) \<and>
    bridgeOf b = Some \<lparr>brEnv = exampleEnv, brDefault = Some VhNone, brProps = None\<rparr>"
proof -
  have good: "statusIsGood OpcUa_Good" by (simp add: statusIsGood_def OpcUa_Good_def)
  obtain b where run: "managerAfterStartUp OpcUa_Good 2 exampleEnv (Inr (Some VhNone)) (Inr None)
      (emptyFactories, BridgeNull) = (Inr OpcUa_Good, addNamespace 2 emptyFactories, BridgeAt b)"
    using good by (simp add: managerAfterStartUp_def bridgeAfterStartUp_def Let_def)
  then show ?thesis using manager_started [OF run] good by simp
qed

text \<open>
  The end of a manager is defined exactly when it has a bridge: not when the SDK's own start failed before,
  and not a second time.
\<close>

lemma manager_shut_down:
  "isOk (managerBeforeShutDown superStatus p) \<longleftrightarrow> (\<exists>b. p = BridgeAt b)"
  by (cases p) (simp_all add: managerBeforeShutDown_def)

lemma manager_shut_down_unstarted:
  "managerAfterStartUp OpcUa_Bad ns env defaults props (fs, BridgeNull) = (r, fs', p) \<Longrightarrow>
   managerBeforeShutDown superStatus p = Inl UndefinedBehaviour"
  by (auto simp: managerAfterStartUp_def managerBeforeShutDown_def statusIsGood_def OpcUa_Bad_def)

end
