(* ===== verification/Loggers.thy ===== *)
theory Loggers
  imports Ua_Model
begin

text \<open>
  The loggers: to the console (\<open>common/logging/ConsoleLogger.cpp\<close>), to the traces of the server SDK and the
  client SDK (\<open>logging/ServerSdkLogger.cpp\<close>, \<open>binaryServer/logging/ClientSdkLogger.cpp\<close>), and to the Java
  logger (\<open>common/logging/JLogger.cpp\<close>), with their factories and the time functions of
  \<open>utilities/linux.cpp\<close>. A message is the text after formatting; it is shorter than \<open>2\<^sup>3\<^sup>1\<close> characters, so
  that the positions in it fit into an \<open>int\<close>.
\<close>

datatype log_level = LevelError | LevelWarn | LevelInfo | LevelDebug | LevelTrace

fun levelName :: "log_level \<Rightarrow> string" where
  "levelName LevelError = ''ERROR''"
| "levelName LevelWarn = ''WARN''"
| "levelName LevelInfo = ''INFO''"
| "levelName LevelDebug = ''DEBUG''"
| "levelName LevelTrace = ''TRACE''"

subsection \<open>Lines\<close>

text \<open>The successive results of \<open>strtok(message, "\n")\<close>: delimiters are skipped, there is no empty line.\<close>

abbreviation newline :: char where "newline \<equiv> CHR 0x0A"

function strtokLines :: "string \<Rightarrow> string list" where
  "strtokLines s =
    (let s' = dropWhile (\<lambda>c. c = newline) s in
     if s' = [] then []
     else takeWhile (\<lambda>c. c \<noteq> newline) s' # strtokLines (dropWhile (\<lambda>c. c \<noteq> newline) s'))"
  by auto

termination
proof (relation "measure length")
  fix s s' :: string
  assume s': "s' = dropWhile (\<lambda>c. c = newline) s" "s' \<noteq> []"
  then have "hd s' \<noteq> newline" using hd_dropWhile [of "\<lambda>c. c = newline" s] by simp
  then have "length (dropWhile (\<lambda>c. c \<noteq> newline) s') < length s'"
    using s'(2) length_dropWhile_le [THEN le_imp_less_Suc, of "\<lambda>c. c \<noteq> newline" "tl s'"]
    by (cases s') simp_all
  also have "length s' \<le> length s" by (simp add: s'(1) length_dropWhile_le)
  finally show "(dropWhile (\<lambda>c. c \<noteq> newline) s', s) \<in> measure length" by (simp only: in_measure)
qed simp

declare strtokLines.simps [simp del]

lemma strtokLines_step:
  "dropWhile (\<lambda>c. c = newline) s \<noteq> [] \<Longrightarrow>
   strtokLines s = takeWhile (\<lambda>c. c \<noteq> newline) (dropWhile (\<lambda>c. c = newline) s) #
     strtokLines (dropWhile (\<lambda>c. c \<noteq> newline) (dropWhile (\<lambda>c. c = newline) s))"
  by (simp only: strtokLines.simps [of s] Let_def if_False)

lemma strtokLines_end: "dropWhile (\<lambda>c. c = newline) s = [] \<Longrightarrow> strtokLines s = []"
  by (simp add: strtokLines.simps [of s] del: dropWhile_eq_Nil_conv)

lemma concat_strtokLines: "concat (strtokLines s) = filter (\<lambda>c. c \<noteq> newline) s"
proof (induction s rule: strtokLines.induct)
  case (1 s)
  let ?s' = "dropWhile (\<lambda>c. c = newline) s"
  have skip: "filter (\<lambda>c. c \<noteq> newline) s = filter (\<lambda>c. c \<noteq> newline) ?s'"
    by (induction s) auto
  show ?case
  proof (cases "?s' = []")
    case True
    then show ?thesis using skip by (simp only: strtokLines_end concat.simps filter.simps)
  next
    case False
    have "takeWhile (\<lambda>c. c \<noteq> newline) t @ filter (\<lambda>c. c \<noteq> newline) (dropWhile (\<lambda>c. c \<noteq> newline) t) =
        filter (\<lambda>c. c \<noteq> newline) t" for t
      by (induction t) auto
    then show ?thesis
      unfolding strtokLines_step [OF False] concat.simps 1 [OF refl False] skip by simp
  qed
qed

lemma strtokLines_lines: "l \<in> set (strtokLines s) \<Longrightarrow> l \<noteq> [] \<and> newline \<notin> set l"
proof (induction s rule: strtokLines.induct)
  case (1 s)
  let ?s' = "dropWhile (\<lambda>c. c = newline) s"
  have s': "?s' \<noteq> []"
  proof
    assume "?s' = []"
    from strtokLines_end [OF this] 1(2) show False by simp
  qed
  then have "hd ?s' \<noteq> newline" by (rule hd_dropWhile)
  moreover have "takeWhile (\<lambda>c. c \<noteq> newline) t \<noteq> []" if "t \<noteq> []" "hd t \<noteq> newline" for t
    using that by (cases t) simp_all
  ultimately have first: "takeWhile (\<lambda>c. c \<noteq> newline) ?s' \<noteq> []"
    "newline \<notin> set (takeWhile (\<lambda>c. c \<noteq> newline) ?s')"
    using s' by (blast, auto dest: set_takeWhileD)
  have "l = takeWhile (\<lambda>c. c \<noteq> newline) ?s' \<or>
      l \<in> set (strtokLines (dropWhile (\<lambda>c. c \<noteq> newline) ?s'))"
    using 1(2) unfolding strtokLines_step [OF s'] by simp
  then show ?case
  proof
    assume "l = takeWhile (\<lambda>c. c \<noteq> newline) ?s'"
    then show ?thesis using first by (simp only: simp_thms)
  qed (rule 1(1) [OF refl s'])
qed

subsection \<open>The console\<close>

datatype output_stream = Stdout | Stderr

text \<open>All levels are enabled. Each line gets the time at which it is printed.\<close>

definition consoleStream :: "log_level \<Rightarrow> output_stream" where
  "consoleStream level = (if level = LevelError \<or> level = LevelWarn then Stderr else Stdout)"

definition consolePrintln :: "string \<Rightarrow> log_level \<Rightarrow> string \<Rightarrow> string \<Rightarrow> string" where
  "consolePrintln timeStamp level loggerName msg =
    timeStamp @ '' '' @ levelName level @ '' '' @ loggerName @ '': '' @ msg @ [newline]"

definition consoleLog :: "string \<Rightarrow> log_level \<Rightarrow> (nat \<Rightarrow> string) \<Rightarrow> string \<Rightarrow> (output_stream \<times> string) list" where
  "consoleLog loggerName level clock message =
    map (\<lambda>(i, line). (consoleStream level, consolePrintln (clock i) level loggerName line))
      (enumerate 0 (strtokLines message))"

text \<open>
  \<open>getTimeString\<close>: the time of day in UTC, with milliseconds; \<open>getTime\<close>. The time is not negative and
  \<open>usec\<close> is below one million, as \<open>gettimeofday\<close> gives it.
\<close>

definition padZero :: "nat \<Rightarrow> nat \<Rightarrow> string" where
  "padZero w n = replicate (w - length (showNat n)) (CHR ''0'') @ showNat n"

definition getTimeString :: "nat \<Rightarrow> nat \<Rightarrow> string" where
  "getTimeString sec usec =
    padZero 2 (sec div 3600 mod 24) @ '':'' @ padZero 2 (sec div 60 mod 60) @ '':'' @ padZero 2 (sec mod 60) @
    ''.'' @ take 4 (padZero 3 (usec div 1000) @ ''Z'')"

definition getTimeMillis :: "c_long \<Rightarrow> c_long \<Rightarrow> c_long" where
  "getTimeMillis sec usec = sec * 1000 + usec div 1000"

subsection \<open>The traces of the SDKs\<close>

text \<open>An entry: what is put before and after the piece of a line it holds.\<close>

record sdk_entry =
  sePrefix :: string
  sePiece :: string
  seSuffix :: string

definition sdkMaxLen :: nat where "sdkMaxLen = 1800"

text \<open>The inner loop over a long line, from position \<open>i\<close>.\<close>

function sdkPieces :: "string \<Rightarrow> nat \<Rightarrow> sdk_entry list" where
  "sdkPieces line i =
    (if i < length line then
       (let j = min (i + sdkMaxLen) (length line) in
        \<lparr>sePrefix = (if j > sdkMaxLen then ''...'' else ''''), sePiece = take (j - i) (drop i line),
         seSuffix = (if j < length line then ''...'' else '''')\<rparr> # sdkPieces line j)
     else [])"
  by auto

termination by (relation "measure (\<lambda>(line, i). length line - i)") (auto simp: sdkMaxLen_def)

declare sdkPieces.simps [simp del]

definition sdkLine :: "string \<Rightarrow> sdk_entry list" where
  "sdkLine line =
    (if sdkMaxLen < length line then sdkPieces line 0
     else [\<lparr>sePrefix = '''', sePiece = line, seSuffix = ''''\<rparr>])"

definition sdkPrintln :: "log_level \<Rightarrow> string \<Rightarrow> sdk_entry \<Rightarrow> log_level \<times> string" where
  "sdkPrintln level loggerName e =
    (level, levelName level @ '' '' @ loggerName @ '': '' @ sePrefix e @ sePiece e @ seSuffix e)"

text \<open>
  The level of the SDK's trace (\<open>UaTrace::TraceLevel\<close>, in its documented order) decides which messages are
  written.
\<close>

datatype trace_level = NoTrace | Errors | Warning | Info | InterfaceCall | CtorDtor | ProgramFlow | Data

fun traceRank :: "trace_level \<Rightarrow> nat" where
  "traceRank NoTrace = 0"
| "traceRank Errors = 1"
| "traceRank Warning = 2"
| "traceRank Info = 3"
| "traceRank InterfaceCall = 4"
| "traceRank CtorDtor = 5"
| "traceRank ProgramFlow = 6"
| "traceRank Data = 7"

fun sdkThreshold :: "log_level \<Rightarrow> trace_level" where
  "sdkThreshold LevelError = Errors"
| "sdkThreshold LevelWarn = Warning"
| "sdkThreshold LevelInfo = Info"
| "sdkThreshold LevelDebug = InterfaceCall"
| "sdkThreshold LevelTrace = ProgramFlow"

definition sdkEnabled :: "trace_level \<Rightarrow> log_level \<Rightarrow> bool" where
  "sdkEnabled current level = (traceRank current \<ge> traceRank (sdkThreshold level))"

definition sdkEntries :: "string \<Rightarrow> sdk_entry list" where
  "sdkEntries message = concat (map sdkLine (strtokLines message))"

definition sdkLog :: "trace_level \<Rightarrow> string \<Rightarrow> log_level \<Rightarrow> string \<Rightarrow> (log_level \<times> string) list" where
  "sdkLog current loggerName level message =
    (if sdkEnabled current level then map (sdkPrintln level loggerName) (sdkEntries message) else [])"

text \<open>
  The logger of the server hands each entry to its trace with the number of the module; the logger of the
  client has a trace of its own, with a level of its own and without modules.
\<close>

definition sdkModule :: int where "sdkModule = 10"

definition serverSdkLog :: "trace_level \<Rightarrow> string \<Rightarrow> log_level \<Rightarrow> string \<Rightarrow> (int \<times> log_level \<times> string) list" where
  "serverSdkLog serverLevel loggerName level message =
    map (\<lambda>e. (sdkModule, e)) (sdkLog serverLevel loggerName level message)"

definition clientSdkEnabled :: "trace_level \<Rightarrow> log_level \<Rightarrow> bool" where
  "clientSdkEnabled clientLevel level =
    (traceRank clientLevel \<ge>
      traceRank (case level of
        LevelError \<Rightarrow> Errors | LevelWarn \<Rightarrow> Warning | LevelInfo \<Rightarrow> Info | LevelDebug \<Rightarrow> InterfaceCall
      | LevelTrace \<Rightarrow> ProgramFlow))"

definition clientSdkPrintln :: "log_level \<Rightarrow> string \<Rightarrow> sdk_entry \<Rightarrow> log_level \<times> string" where
  "clientSdkPrintln level loggerName e =
    (level, levelName level @ '' '' @ loggerName @ '': '' @ sePrefix e @ sePiece e @ seSuffix e)"

definition clientSdkLog :: "trace_level \<Rightarrow> string \<Rightarrow> log_level \<Rightarrow> string \<Rightarrow> (log_level \<times> string) list" where
  "clientSdkLog clientLevel loggerName level message =
    (if clientSdkEnabled clientLevel level then map (clientSdkPrintln level loggerName) (sdkEntries message) else [])"

lemma clientSdkLog_same: "clientSdkLog clientLevel loggerName level message = sdkLog clientLevel loggerName level message"
proof -
  have "clientSdkPrintln = sdkPrintln" by (intro ext) (simp add: clientSdkPrintln_def sdkPrintln_def)
  moreover have "clientSdkEnabled clientLevel level = sdkEnabled clientLevel level"
    by (cases level) (simp_all add: clientSdkEnabled_def sdkEnabled_def)
  ultimately show ?thesis by (simp add: clientSdkLog_def sdkLog_def)
qed

text \<open>The pieces of a line are the line.\<close>

lemma sdkPieces_concat: "concat (map sePiece (sdkPieces line i)) = drop i line"
proof (induction line i rule: sdkPieces.induct)
  case (1 line i)
  show ?case
  proof (cases "i < length line")
    case True
    let ?j = "min (i + sdkMaxLen) (length line)"
    have "i \<le> ?j" using True by simp
    then have "take (?j - i) (drop i line) @ drop ?j line = drop i line"
      by (metis append_take_drop_id drop_drop le_add_diff_inverse2)
    then show ?thesis using 1 [OF True refl] True
      by (subst sdkPieces.simps) (simp add: Let_def)
  qed (subst sdkPieces.simps, simp)
qed

lemma sdkPieces_bounds:
  "e \<in> set (sdkPieces line i) \<Longrightarrow>
   length (sePiece e) \<le> sdkMaxLen \<and> sePiece e \<noteq> [] \<and> length (sePrefix e) \<le> 3 \<and> length (seSuffix e) \<le> 3"
proof (induction line i rule: sdkPieces.induct)
  case (1 line i)
  show ?case
  proof (cases "i < length line")
    case True
    let ?j = "min (i + sdkMaxLen) (length line)"
    let ?e = "\<lparr>sePrefix = (if ?j > sdkMaxLen then ''...'' else ''''), sePiece = take (?j - i) (drop i line),
         seSuffix = (if ?j < length line then ''...'' else '''')\<rparr>"
    have "e = ?e \<or> e \<in> set (sdkPieces line ?j)"
      using 1(2) True by (subst (asm) sdkPieces.simps) (simp add: Let_def)
    then show ?thesis
    proof
      assume "e = ?e"
      then show ?thesis using True by (auto simp: sdkMaxLen_def)
    qed (rule 1(1) [OF True refl])
  next
    case False
    then show ?thesis using 1(2) by (subst (asm) sdkPieces.simps) simp
  qed
qed

text \<open>Marks stand exactly where a line goes on.\<close>

lemma sdkPieces_marks:
  "i < length line \<Longrightarrow> (i = 0 \<or> sdkMaxLen \<le> i) \<Longrightarrow> sdkMaxLen < length line \<Longrightarrow>
   map sePrefix (sdkPieces line i) =
     (if i = 0 then '''' else ''...'') # replicate (length (sdkPieces line i) - 1) ''...'' \<and>
   map seSuffix (sdkPieces line i) = replicate (length (sdkPieces line i) - 1) ''...'' @ ['''']"
proof (induction line i rule: sdkPieces.induct)
  case (1 line i)
  define j where "j = min (i + sdkMaxLen) (length line)"
  have step: "sdkPieces line i =
      \<lparr>sePrefix = (if j > sdkMaxLen then ''...'' else ''''), sePiece = take (j - i) (drop i line),
       seSuffix = (if j < length line then ''...'' else '''')\<rparr> # sdkPieces line j"
    using 1(2) by (subst sdkPieces.simps) (simp add: Let_def j_def)
  have pre: "j > sdkMaxLen \<longleftrightarrow> i \<noteq> 0" using 1(2,3,4) by (auto simp: sdkMaxLen_def j_def)
  show ?case
  proof (cases "j < length line")
    case True
    then have "j \<noteq> 0" "sdkMaxLen \<le> j" by (auto simp: sdkMaxLen_def j_def)
    then have IH: "map sePrefix (sdkPieces line j) = ''...'' # replicate (length (sdkPieces line j) - 1) ''...''"
      "map seSuffix (sdkPieces line j) = replicate (length (sdkPieces line j) - 1) ''...'' @ ['''']"
      using 1(1) [OF 1(2) j_def] True 1(4) by simp_all
    then have "sdkPieces line j \<noteq> []" by auto
    then obtain n where n: "length (sdkPieces line j) = Suc n"
      by (metis length_0_conv not0_implies_Suc)
    show ?thesis unfolding step using IH pre True by (simp add: n)
  next
    case False
    then have "sdkPieces line j = []" by (subst sdkPieces.simps) simp
    then show ?thesis unfolding step using pre False by simp
  qed
qed

lemma sdkLine_concat: "concat (map sePiece (sdkLine line)) = line"
  by (simp add: sdkLine_def sdkPieces_concat)

lemma sdkLine_bounds:
  "e \<in> set (sdkLine line) \<Longrightarrow> line \<noteq> [] \<Longrightarrow>
   length (sePiece e) \<le> sdkMaxLen \<and> sePiece e \<noteq> [] \<and> length (sePrefix e) \<le> 3 \<and> length (seSuffix e) \<le> 3"
  using sdkPieces_bounds [of e line 0] by (auto simp: sdkLine_def split: if_splits)

lemma concat_map_concat: "concat (map f (concat xss)) = concat (map (\<lambda>xs. concat (map f xs)) xss)"
  by (induction xss) simp_all


text \<open>A line that is too long is marked where it goes on: at the start of all pieces but the first, and at the end of all but the last.\<close>

lemma sdk_line_marks:
  assumes "sdkMaxLen < length line"
  shows "map sePrefix (sdkLine line) = '''' # replicate (length (sdkLine line) - 1) ''...''"
    and "map seSuffix (sdkLine line) = replicate (length (sdkLine line) - 1) ''...'' @ ['''']"
proof -
  have "0 < length line" using assms by (cases line) simp_all
  from sdkPieces_marks [OF this _ assms]
  show "map sePrefix (sdkLine line) = '''' # replicate (length (sdkLine line) - 1) ''...''"
    and "map seSuffix (sdkLine line) = replicate (length (sdkLine line) - 1) ''...'' @ ['''']"
    using assms by (simp_all add: sdkLine_def)
qed

subsection \<open>The Java logger\<close>

datatype java_level = Finest | Finer | Fine | JavaInfo | JavaWarning | Severe

fun javaRank :: "java_level \<Rightarrow> nat" where
  "javaRank Finest = 0"
| "javaRank Finer = 1"
| "javaRank Fine = 2"
| "javaRank JavaInfo = 3"
| "javaRank JavaWarning = 4"
| "javaRank Severe = 5"

text \<open>
  The level is shared by all loggers and asked from Java once, as long as it has its initial value \<open>10\<close>;
  \<open>isLoggable\<close> is \<open>java.util.logging.Logger.isLoggable\<close>.
\<close>

definition initLevel :: "(java_level \<Rightarrow> bool) \<Rightarrow> int \<Rightarrow> int" where
  "initLevel isLoggable currentLevel =
    (if currentLevel \<noteq> 10 then currentLevel
     else if isLoggable Finest then 1
     else if isLoggable Finer then 2
     else if isLoggable Fine then 3
     else if isLoggable JavaInfo then 4
     else if isLoggable JavaWarning then 5
     else if isLoggable Severe then 6
     else currentLevel)"

fun javaEnabled :: "int \<Rightarrow> log_level \<Rightarrow> bool" where
  "javaEnabled currentLevel LevelError = (currentLevel < 7)"
| "javaEnabled currentLevel LevelWarn = (currentLevel < 6)"
| "javaEnabled currentLevel LevelInfo = (currentLevel < 5)"
| "javaEnabled currentLevel LevelDebug = (currentLevel < 4)"
| "javaEnabled currentLevel LevelTrace = (currentLevel < 3)"

fun javaMethod :: "log_level \<Rightarrow> string" where
  "javaMethod LevelError = ''severe''"
| "javaMethod LevelWarn = ''warning''"
| "javaMethod LevelInfo = ''info''"
| "javaMethod LevelDebug = ''fine''"
| "javaMethod LevelTrace = ''finer''"

text \<open>The calls of the Java logger: the method and the message.\<close>

definition javaLog :: "int \<Rightarrow> log_level \<Rightarrow> string \<Rightarrow> (string \<times> string) list" where
  "javaLog currentLevel level message =
    (if javaEnabled currentLevel level then [(javaMethod level, message)] else [])"

fun methodLevel :: "log_level \<Rightarrow> java_level" where
  "methodLevel LevelError = Severe"
| "methodLevel LevelWarn = JavaWarning"
| "methodLevel LevelInfo = JavaInfo"
| "methodLevel LevelDebug = Fine"
| "methodLevel LevelTrace = Finer"

text \<open>
  The first logger sets the shared level so that a message is handed to Java exactly when Java would
  log it; later changes of the level in Java have no effect.
\<close>

theorem java_levels:
  assumes "\<forall>a b. javaRank a \<le> javaRank b \<longrightarrow> isLoggable a \<longrightarrow> isLoggable b" "isLoggable Severe"
  shows "javaLog (initLevel later (initLevel isLoggable 10)) level message =
    (if isLoggable (methodLevel level) then [(javaMethod level, message)] else [])"
proof -
  have up: "isLoggable a \<Longrightarrow> javaRank a \<le> javaRank b \<Longrightarrow> isLoggable b" for a b
    using assms(1) by blast
  have "initLevel isLoggable 10 \<noteq> 10" using assms(2) by (simp add: initLevel_def)
  then have keep: "initLevel later (initLevel isLoggable 10) = initLevel isLoggable 10"
    by (simp add: initLevel_def)
  have "javaEnabled (initLevel isLoggable 10) level = isLoggable (methodLevel level)"
    using assms(2) up [of Finest Finer] up [of Finer Fine] up [of Fine JavaInfo] up [of JavaInfo JavaWarning]
    by (cases level) (simp_all add: initLevel_def)
  then show ?thesis by (simp add: javaLog_def keep)
qed

theorem java_levels_witness:
  "javaLog (initLevel (\<lambda>_. True) (initLevel (\<lambda>l. javaRank l \<ge> 3) 10)) LevelDebug ''x'' = [] \<and>
   javaLog (initLevel (\<lambda>_. True) (initLevel (\<lambda>l. javaRank l \<ge> 3) 10)) LevelInfo ''x'' = [(''info'', ''x'')]"
  using java_levels [of "\<lambda>l. javaRank l \<ge> 3" "\<lambda>_. True" _ "''x''"] by simp

subsection \<open>The factories of loggers\<close>

text \<open>
  The four factories have the same code. Their map is keyed by the pointer of the name, not by its text;
  a pointer is a number, and a logger the number of its creation.
\<close>

record logger_map =
  lmLoggers :: "(nat \<times> nat) list"
  lmCreated :: nat

definition newLoggerMap :: logger_map where
  "newLoggerMap = \<lparr>lmLoggers = [], lmCreated = 0\<rparr>"

definition factoryGetLogger :: "nat \<Rightarrow> logger_map \<Rightarrow> nat \<times> logger_map" where
  "factoryGetLogger name lm =
    (case map_of (lmLoggers lm) name of
       Some logger \<Rightarrow> (logger, lm)
     | None \<Rightarrow>
         (lmCreated lm,
          \<lparr>lmLoggers = smInsert name (lmCreated lm) (lmLoggers lm), lmCreated = lmCreated lm + 1\<rparr>))"

fun factoryGetLoggers :: "nat list \<Rightarrow> logger_map \<Rightarrow> nat list \<times> logger_map" where
  "factoryGetLoggers [] lm = ([], lm)"
| "factoryGetLoggers (n # ns) lm =
     (let (l, lm1) = factoryGetLogger n lm; (ls, lm2) = factoryGetLoggers ns lm1 in (l # ls, lm2))"

text \<open>The loggers the destructor deletes.\<close>

definition factoryDeletes :: "logger_map \<Rightarrow> nat list" where
  "factoryDeletes lm = map snd (lmLoggers lm)"

definition loggerMapInv :: "logger_map \<Rightarrow> bool" where
  "loggerMapInv lm =
    (smInv (lmLoggers lm) \<and> inj_on (map_of (lmLoggers lm)) (dom (map_of (lmLoggers lm))) \<and>
     ran (map_of (lmLoggers lm)) = {..<lmCreated lm})"

lemma loggerMapInv_new [simp]: "loggerMapInv newLoggerMap"
  by (simp add: loggerMapInv_def newLoggerMap_def lessThan_def)

lemma factoryGetLogger_step:
  assumes "loggerMapInv lm" "factoryGetLogger n lm = (l, lm')"
  shows "loggerMapInv lm' \<and> map_of (lmLoggers lm') = (map_of (lmLoggers lm))(n \<mapsto> l)"
proof (cases "map_of (lmLoggers lm) n")
  case None
  let ?m = "map_of (lmLoggers lm)"
  have res: "l = lmCreated lm" "lmLoggers lm' = smInsert n l (lmLoggers lm)" "lmCreated lm' = Suc (lmCreated lm)"
    using assms(2) None by (auto simp: factoryGetLogger_def)
  have new: "?m x \<noteq> Some l" for x
  proof
    assume "?m x = Some l"
    then have "l \<in> ran ?m" by (rule ranI)
    then show False using assms(1) by (simp add: loggerMapInv_def res(1))
  qed
  have "inj_on (?m(n \<mapsto> l)) (insert n (dom ?m))"
    using assms(1) None new by (auto simp: loggerMapInv_def inj_on_def domIff)
  moreover have "ran (?m(n \<mapsto> l)) = {..<Suc (lmCreated lm)}"
    using assms(1) None by (auto simp: loggerMapInv_def res(1) lessThan_Suc)
  ultimately show ?thesis
    using assms(1) by (simp add: loggerMapInv_def res(2,3))
qed (use assms in \<open>auto simp: factoryGetLogger_def\<close>)

lemma factoryGetLoggers_result:
  "loggerMapInv lm \<Longrightarrow> factoryGetLoggers ns lm = (ls, lm') \<Longrightarrow>
   loggerMapInv lm' \<and> map_of (lmLoggers lm) \<subseteq>\<^sub>m map_of (lmLoggers lm') \<and>
   map Some ls = map (map_of (lmLoggers lm')) ns \<and>
   dom (map_of (lmLoggers lm')) = dom (map_of (lmLoggers lm)) \<union> set ns"
proof (induction ns arbitrary: lm ls)
  case (Cons n ns)
  obtain l lm1 where one: "factoryGetLogger n lm = (l, lm1)" by fastforce
  obtain ls' where rest: "factoryGetLoggers ns lm1 = (ls', lm')" "ls = l # ls'"
    using Cons.prems(2) one by (auto split: prod.splits)
  have step: "loggerMapInv lm1" "map_of (lmLoggers lm1) = (map_of (lmLoggers lm))(n \<mapsto> l)"
    using factoryGetLogger_step [OF Cons.prems(1) one] by simp_all
  have old: "map_of (lmLoggers lm) \<subseteq>\<^sub>m map_of (lmLoggers lm1)"
  proof (cases "map_of (lmLoggers lm) n")
    case (Some k)
    then show ?thesis using one by (simp add: factoryGetLogger_def)
  qed (auto simp: step(2) map_le_def)
  note IH = Cons.IH [OF step(1) rest(1)]
  then have "map_of (lmLoggers lm1) \<subseteq>\<^sub>m map_of (lmLoggers lm')" by blast
  then have "map_of (lmLoggers lm1) n = map_of (lmLoggers lm') n" by (simp add: map_le_def step(2))
  then have "map_of (lmLoggers lm') n = Some l" by (simp add: step(2))
  moreover have "map_of (lmLoggers lm) \<subseteq>\<^sub>m map_of (lmLoggers lm')"
    using old IH by (blast intro: map_le_trans)
  moreover have "dom (map_of (lmLoggers lm')) = dom (map_of (lmLoggers lm)) \<union> set (n # ns)"
    using IH by (auto simp: step(2))
  ultimately show ?case using IH rest(2) by simp
qed simp

text \<open>
  A factory creates one logger for each pointer it is asked for, gives it on each request with
  this pointer, and deletes each logger exactly once. Equal names at different addresses have different
  loggers.
\<close>

theorem factory_loggers:
  "let (ls, lm) = factoryGetLoggers names newLoggerMap in
     (\<exists>f. inj_on f (set names) \<and> ls = map f names \<and> distinct (factoryDeletes lm) \<and>
       set (factoryDeletes lm) = f ` set names)"
proof -
  obtain ls lm where run: "factoryGetLoggers names newLoggerMap = (ls, lm)" by fastforce
  let ?m = "map_of (lmLoggers lm)"
  note r = factoryGetLoggers_result [OF loggerMapInv_new run]
  then have inv: "smInv (lmLoggers lm)" "inj_on ?m (dom ?m)" and ls: "map Some ls = map ?m names"
    by (auto simp: loggerMapInv_def)
  have dom: "dom ?m = set names" using r by (simp add: newLoggerMap_def)
  let ?f = "\<lambda>n. the (?m n)"
  have some: "?m n = Some (?f n)" if "n \<in> set names" for n using that dom by (auto simp: domD)
  have inj: "inj_on ?f (set names)"
    using inv(2) dom some by (metis (mono_tags, lifting) inj_on_def)
  have "map Some ls = map Some (map ?f names)" using ls some by simp
  then have "ls = map ?f names" by (metis inj_Some inj_map_eq_map)
  moreover have entries: "snd p = ?f (fst p) \<and> fst p \<in> set names" if "p \<in> set (lmLoggers lm)" for p
  proof -
    have "?m (fst p) = Some (snd p)"
      using that smInv_distinct [OF inv(1)] by (intro map_of_is_SomeI) simp_all
    then show ?thesis using dom by auto
  qed
  have del: "factoryDeletes lm = map ?f (map fst (lmLoggers lm))"
    using entries by (auto simp: factoryDeletes_def)
  have keys: "set (map fst (lmLoggers lm)) = set names" using dom by (simp add: dom_map_of_conv_image_fst)
  have "distinct (factoryDeletes lm)"
    unfolding del distinct_map using smInv_distinct [OF inv(1)] inj keys by (simp add: distinct_map)
  moreover have "set (factoryDeletes lm) = ?f ` set names"
    unfolding del using keys by (simp add: image_image flip: keys)
  ultimately show ?thesis using inj by (auto simp: run)
qed

end
