(* ===== verification/Data_Generator.thy ===== *)
theory Data_Generator
  imports Op_Monad Converter_Ua2IO Io_Bridge
begin

text \<open>
  The generator of values (\<open>sasModelProvider/base/generator/DataGenerator.cpp\<close>): a value for a data type,
  for structures and unions by a recursion over their fields, and the values of variables and arguments.
  The recursion may not end: \<open>generateData\<close> is a partial function. What is logged changes what is
  generated, since a value that is logged is converted first; the levels of the logger are parameters.
\<close>

text \<open>The counter the values are made of, and the number of times the clock was read.\<close>

record gen_state =
  gsCounter :: "16 word"
  gsClock :: nat

text \<open>The node browser is the source of types of the converter as well.\<close>

record gen_env =
  gnConv :: converter_env
  gnNow :: "nat \<Rightarrow> 64 word"
  gnInfo :: bool
  gnTrace :: bool

definition genInitial :: gen_state where
  "genInitial = \<lparr>gsCounter = 1, gsClock = 0\<rparr>"

subsection \<open>Built-in types\<close>

definition genBuildInType :: "converter_env \<Rightarrow> ua_node_id \<Rightarrow> (cpp_error, ua_node_id) res" where
  "genBuildInType env dataTypeId =
    (if uaNamespaceIndex dataTypeId = 0 then Inr dataTypeId
     else bindR (cbGetSuperTypes env dataTypeId)
       (\<lambda>superTypes. case superTypes of
          Some (t # ts) \<Rightarrow> Inr (last (t # ts))
        | _ \<Rightarrow> Inl GeneratorException))"

text \<open>\<open>valueCounter++\<close>; the counter wraps around at 16 bits.\<close>

definition nextCounter :: "(gen_state, 16 word) op" where
  "nextCounter = bindP (getP gsCounter) (\<lambda>c.
     bindP (modifyP (\<lambda>s. s\<lparr>gsCounter := c + 1\<rparr>)) (\<lambda>_. liftP (Inr c)))"

definition counted :: "(16 word \<Rightarrow> ua_variant) \<Rightarrow> (gen_state, ua_variant) op" where
  "counted f = bindP nextCounter (\<lambda>c. liftP (Inr (f c)))"

definition countedText :: "16 word \<Rightarrow> string" where
  "countedText c = ''string'' @ showInt (sint c)"

definition genNow :: "gen_env \<Rightarrow> (gen_state, ua_variant) op" where
  "genNow env = bindP (getP gsClock) (\<lambda>k.
     bindP (modifyP (\<lambda>s. s\<lparr>gsClock := k + 1\<rparr>)) (\<lambda>_. liftP (Inr (UaDateTime (gnNow env k)))))"

definition genBytes :: "(gen_state, ua_variant) op" where
  "genBytes = bindP nextCounter (\<lambda>a. bindP nextCounter (\<lambda>b. liftP (Inr (UaByteStr [ucast a, ucast b]))))"

text \<open>
  The expression for \<open>Float\<close>, \<open>Double\<close> and \<open>Duration\<close>, \<open>valueCounter + valueCounter++ / 1000.0\<close>, reads and
  changes the counter without an order between the two: undefined behaviour.
\<close>

definition genScalar :: "gen_env \<Rightarrow> 32 word \<Rightarrow> (gen_state, ua_variant) op" where
  "genScalar env i =
    (if i = OpcUaType_Boolean then liftP (Inr (UaBool True))
     else if i = OpcUaType_SByte then counted (\<lambda>c. UaSByte (ucast c))
     else if i = OpcUaType_Byte then counted (\<lambda>c. UaByte (ucast c))
     else if i = OpcUaType_Int16 then counted UaInt16
     else if i = OpcUaType_UInt16 then counted UaUInt16
     else if i = OpcUaType_Int32 then counted (\<lambda>c. UaInt32 (scast c))
     else if i = OpcUaType_UInt32 then counted (\<lambda>c. UaUInt32 (scast c))
     else if i = OpcUaType_Int64 then counted (\<lambda>c. UaInt64 (scast c))
     else if i = OpcUaType_UInt64 then counted (\<lambda>c. UaUInt64 (scast c))
     else if i = OpcUaType_Float then liftP (Inl UndefinedBehaviour)
     else if i = OpcUaType_Double \<or> i = OpcUaId_Duration then liftP (Inl UndefinedBehaviour)
     else if i = OpcUaType_String then counted (\<lambda>c. UaStr (Some (countedText c)))
     else if i = OpcUaType_DateTime \<or> i = OpcUaId_UtcTime then genNow env
     else if i = OpcUaType_ByteString then genBytes
     else if i = OpcUaType_LocalizedText then counted (\<lambda>c. UaLocText (Some ''en'') (Some (countedText c)))
     else if i = OpcUaId_Enumeration then liftP (Inr (UaInt32 0))
     else liftP (Inl GeneratorException))"

text \<open>For a type outside name space 0 the result stays \<open>NULL\<close>, which every caller dereferences.\<close>

definition generateBuildInType :: "gen_env \<Rightarrow> ua_node_id \<Rightarrow> (gen_state, ua_variant) op" where
  "generateBuildInType env dataTypeId =
    (if uaNamespaceIndex dataTypeId \<noteq> 0 then liftP (Inl UndefinedBehaviour)
     else bindP (liftP (identifierNumeric dataTypeId)) (genScalar env))"

subsection \<open>Structures and arrays\<close>

text \<open>The recursive calls of \<open>generate\<close> are the argument \<open>gen\<close>: data type and whether it is an array.\<close>

type_synonym generator = "ua_node_id \<Rightarrow> bool \<Rightarrow> (gen_state, ua_variant) op"

definition generateStructureField :: "gen_env \<Rightarrow> generator \<Rightarrow> ua_field \<Rightarrow> (gen_state, ua_variant) op" where
  "generateStructureField env gen sf =
    bindP (gen (fldTypeId sf) (fldArray sf)) (\<lambda>v.
    bindP (liftP (if gnTrace env then mapR (\<lambda>_. ()) (ua2io (gnConv env) v (fldTypeId sf)) else Inr ())) (\<lambda>_.
      liftP (Inr v)))"

text \<open>The first field of a union that can be generated; a union without fields stays null.\<close>

fun generateUnion ::
  "gen_env \<Rightarrow> generator \<Rightarrow> ua_field list \<Rightarrow> bool \<Rightarrow> (gen_state, (string \<times> ua_variant option) list) op"
where
  "generateUnion env gen [] failed = liftP (if failed then Inl GeneratorException else Inr [])"
| "generateUnion env gen (sf # sfs) failed =
     catchP (bindP (generateStructureField env gen sf) (\<lambda>v. liftP (Inr [(fldName sf, Some v)])))
       (\<lambda>_. generateUnion env gen sfs True)"

text \<open>The fields of a structure; only an optional field may fail.\<close>

fun generateFields ::
  "gen_env \<Rightarrow> generator \<Rightarrow> ua_field list \<Rightarrow> (string \<times> ua_variant option) list \<Rightarrow>
   (gen_state, (string \<times> ua_variant option) list) op"
where
  "generateFields env gen [] sv = liftP (Inr sv)"
| "generateFields env gen (sf # sfs) sv =
     bindP (catchP
         (bindP (generateStructureField env gen sf) (\<lambda>v. liftP (Inr (smInsert (fldName sf) (Some v) sv))))
         (\<lambda>e. liftP (if fldOptional sf then Inr sv else Inl e)))
       (generateFields env gen sfs)"

definition generateStructure :: "gen_env \<Rightarrow> generator \<Rightarrow> ua_node_id \<Rightarrow> (gen_state, ua_variant) op" where
  "generateStructure env gen dataTypeId =
    bindP (liftP (cbGetStructureDefinition (gnConv env) dataTypeId)) (\<lambda>sd.
    bindP (if sdIsUnion sd then generateUnion env gen (sdChildren sd) False
           else generateFields env gen (sdChildren sd) [])
      (\<lambda>eo. liftP (Inr (UaExt eo))))"

text \<open>
  An array has one element. The element is read by its type; a value it does not hold would be read
  uninitialized.
\<close>

definition genArraySize :: nat where "genArraySize = 1"

fun generateElements :: "generator \<Rightarrow> ua_node_id \<Rightarrow> nat \<Rightarrow> (gen_state, ua_variant list) op" where
  "generateElements gen dataTypeId 0 = liftP (Inr [])"
| "generateElements gen dataTypeId (Suc n) =
     bindP (gen dataTypeId False) (\<lambda>v.
     bindP (generateElements gen dataTypeId n) (\<lambda>vs. liftP (Inr (v # vs))))"

definition convert2ExtensionObjectArray :: "ua_variant list \<Rightarrow> (cpp_error, ua_variant) res" where
  "convert2ExtensionObjectArray values' =
    Inr (UaArr OpcUaId_Structure (map (\<lambda>v. UaExt (toExtensionObject v)) values'))"

definition convert2Int32Array :: "ua_variant list \<Rightarrow> (cpp_error, ua_variant) res" where
  "convert2Int32Array values' =
    mapR (UaArr OpcUaType_Int32)
      (traverseR (\<lambda>v. case v of UaInt32 i \<Rightarrow> Inr (UaInt32 i) | _ \<Rightarrow> Inl UndefinedBehaviour) values')"

definition convert2UInt32Array :: "ua_variant list \<Rightarrow> (cpp_error, ua_variant) res" where
  "convert2UInt32Array values' =
    mapR (UaArr OpcUaType_UInt32)
      (traverseR (\<lambda>v. case v of UaUInt32 i \<Rightarrow> Inr (UaUInt32 i) | _ \<Rightarrow> Inl UndefinedBehaviour) values')"

definition convert2LocalizedTextArray :: "ua_variant list \<Rightarrow> (cpp_error, ua_variant) res" where
  "convert2LocalizedTextArray values' =
    Inr (UaArr OpcUaType_LocalizedText
      (map (\<lambda>v. case v of UaLocText l t \<Rightarrow> UaLocText l t | _ \<Rightarrow> UaLocText None None) values'))"

definition convert2Array :: "ua_variant list \<Rightarrow> (cpp_error, ua_variant) res" where
  "convert2Array values' =
    (case values' of
       [] \<Rightarrow> Inl UndefinedBehaviour
     | UaExt _ # _ \<Rightarrow> convert2ExtensionObjectArray values'
     | UaInt32 _ # _ \<Rightarrow> convert2Int32Array values'
     | UaUInt32 _ # _ \<Rightarrow> convert2UInt32Array values'
     | UaLocText _ _ # _ \<Rightarrow> convert2LocalizedTextArray values'
     | _ \<Rightarrow> Inl GeneratorException)"

definition generateArray :: "generator \<Rightarrow> ua_node_id \<Rightarrow> (gen_state, ua_variant) op" where
  "generateArray gen dataTypeId =
    bindP (generateElements gen dataTypeId genArraySize) (\<lambda>vs. liftP (convert2Array vs))"

subsection \<open>The recursion\<close>

definition generateStep :: "gen_env \<Rightarrow> generator \<Rightarrow> generator" where
  "generateStep env gen dataTypeId isArray =
    (if isArray then generateArray gen dataTypeId
     else
       bindP (liftP (genBuildInType (gnConv env) dataTypeId)) (\<lambda>b.
       bindP (liftP (identifierNumeric b)) (\<lambda>i.
         if i = OpcUaId_Structure \<or> i = OpcUaId_Union then generateStructure env gen dataTypeId
         else generateBuildInType env b)))"

lemma mono_field:
  assumes "\<And>t a s. mono_option (\<lambda>f. g f t a s)"
  shows "mono_option (\<lambda>f. generateStructureField env (g f) sf s)"
  unfolding generateStructureField_def by (intro mono_op assms)

lemma mono_generateStep:
  assumes "\<And>t a s. mono_option (\<lambda>f. g f t a s)"
  shows "mono_option (\<lambda>f. generateStep env (g f) t a s)"
proof -
  note field = mono_field [OF assms]
  have union: "mono_option (\<lambda>f. generateUnion env (g f) sfs failed s)" for sfs failed s
  proof (induction sfs arbitrary: failed s)
    case (Cons sf sfs)
    show ?case unfolding generateUnion.simps by (intro mono_op field Cons)
  qed (simp add: mono_option_const)
  have struct: "mono_option (\<lambda>f. generateFields env (g f) sfs sv s)" for sfs sv s
  proof (induction sfs arbitrary: sv s)
    case (Cons sf sfs)
    show ?case unfolding generateFields.simps by (intro mono_op field Cons)
  qed (simp add: mono_option_const)
  have elements: "mono_option (\<lambda>f. generateElements (g f) t n s)" for n s
  proof (induction n arbitrary: s)
    case (Suc n)
    show ?case unfolding generateElements.simps by (intro mono_op assms Suc)
  qed (simp add: mono_option_const)
  have str: "mono_option (\<lambda>f. generateStructure env (g f) t s)" for s
    unfolding generateStructure_def by (intro mono_op union struct)
  have array: "mono_option (\<lambda>f. generateArray (g f) t s)" for s
    unfolding generateArray_def by (intro mono_op elements)
  show ?thesis unfolding generateStep_def by (intro mono_op array str)
qed

declare mono_generateStep [partial_function_mono]

text \<open>\<open>DataGeneratorPrivate::generate\<close>.\<close>

partial_function (option) generateData ::
  "gen_env \<Rightarrow> ua_node_id \<Rightarrow> bool \<Rightarrow> gen_state \<Rightarrow> ((cpp_error, ua_variant) res \<times> gen_state) option"
where
  "generateData env dataTypeId isArray s = generateStep env (generateData env) dataTypeId isArray s"

declare generateData.simps [code]

subsection \<open>The values of variables and arguments\<close>

record gen_variable =
  gvNodeId :: ua_node_id
  gvTypeDefinition :: ua_node_id
  gvDataType :: ua_node_id
  gvValueRank :: c_int

definition dictionaryTypes :: "ua_node_id list" where
  "dictionaryTypes = [UaNumeric 0 72, UaNumeric 0 69]"

text \<open>
  One value: an exception gives \<open>NULL\<close>. With the level \<open>info\<close> the value is converted for the log, and
  a value that cannot be converted is dropped.
\<close>

definition generateLogged :: "gen_env \<Rightarrow> ua_node_id \<Rightarrow> bool \<Rightarrow> (gen_state, ua_variant option) op" where
  "generateLogged env dataType isArray =
    catchP
      (bindP (generateData env dataType isArray) (\<lambda>v.
       bindP (liftP (if gnInfo env then mapR (\<lambda>_. ()) (ua2io (gnConv env) v dataType) else Inr ())) (\<lambda>_.
         liftP (Inr (Some v)))))
      (\<lambda>_. liftP (Inr None))"

text \<open>Variables of the two dictionary types are skipped: the result has no entry for them.\<close>

fun generateVariables :: "gen_env \<Rightarrow> gen_variable list \<Rightarrow> (gen_state, ua_variant option list) op" where
  "generateVariables env [] = liftP (Inr [])"
| "generateVariables env (v # vs) =
     (if gvTypeDefinition v \<in> set dictionaryTypes then generateVariables env vs
      else
        bindP (generateLogged env (gvDataType v) (gvValueRank v = 1)) (\<lambda>r.
        bindP (generateVariables env vs) (\<lambda>rs. liftP (Inr (r # rs)))))"

text \<open>An argument of a method: its data type and its value rank.\<close>

fun generateArguments :: "gen_env \<Rightarrow> (ua_node_id \<times> c_int) list \<Rightarrow> (gen_state, ua_variant option list) op" where
  "generateArguments env [] = liftP (Inr [])"
| "generateArguments env ((dataType, valueRank) # args) =
     bindP (generateLogged env dataType (valueRank = 1)) (\<lambda>r.
     bindP (generateArguments env args) (\<lambda>rs. liftP (Inr (r # rs))))"

subsection \<open>Generated values can be converted\<close>

text \<open>What the converter must be able to read of the types: the ids of structures, and distinct names of fields.\<close>

definition typesReadable :: "converter_env \<Rightarrow> bool" where
  "typesReadable conv \<longleftrightarrow>
    (\<forall>t ts. cbGetSuperTypes conv t = Inr (Some ts) \<longrightarrow> ts \<noteq> [] \<longrightarrow> uaNamespaceIndex (last ts) = 0) \<and>
    (\<forall>t sd. cbGetStructureDefinition conv t = Inr sd \<longrightarrow> distinct (map fldName (sdChildren sd)) \<and> isOk (ua2ioNodeId t))"

definition arrayElement :: "converter_env \<Rightarrow> ua_node_id \<Rightarrow> ua_variant \<Rightarrow> bool" where
  "arrayElement conv t v \<longleftrightarrow> \<not> uaIsArray v \<and>
    (case v of
       UaExt _ \<Rightarrow> isOk (bindR (getBuildInType conv t) getIoArrayType)
     | UaInt32 _ \<Rightarrow> isOk (bindR (getBuildInType conv t) getIoArrayType)
     | UaUInt32 _ \<Rightarrow> isOk (bindR (getBuildInType conv t) getIoArrayType)
     | UaLocText _ _ \<Rightarrow> isOk (bindR (getBuildInType conv t) getIoArrayType)
     | _ \<Rightarrow> True)"

definition generatedOk :: "converter_env \<Rightarrow> ua_node_id \<Rightarrow> bool \<Rightarrow> ua_variant \<Rightarrow> bool" where
  "generatedOk conv t isArray v \<longleftrightarrow> isOk (ua2io conv v t) \<and> (isArray \<or> arrayElement conv t v)"

lemma genBuildInType_iff: "genBuildInType conv t = Inr b \<longleftrightarrow> getBuildInType conv t = Inr b"
  by (auto simp: genBuildInType_def getBuildInType_def bindR_eq_Inr split: option.splits list.splits)

lemma buildIn_namespace:
  assumes "typesReadable conv" "getBuildInType conv t = Inr b"
  shows "uaNamespaceIndex b = 0"
proof (cases "uaNamespaceIndex t = 0")
  case False
  then obtain sts where sts: "cbGetSuperTypes conv t = Inr sts"
    "(case sts of Some (t # ts) \<Rightarrow> Inr (last (t # ts)) | _ \<Rightarrow> Inl ConversionException) = Inr b"
    using assms(2) unfolding getBuildInType_def bindR_eq_Inr if_not_P [OF False] by blast
  show ?thesis
  proof (cases sts)
    case (Some ts)
    then have "ts \<noteq> []" "b = last ts" using sts(2) by (cases ts; simp)+
    then show ?thesis using assms(1) sts(1) Some unfolding typesReadable_def by blast
  qed (use sts(2) in simp)
qed (use assms(2) in \<open>simp add: getBuildInType_def\<close>)

lemmas scalar_reads = uaNarrow2io_def uaWide2io_def uaFloatText2io_def uaBytesId2io_def uaLocText2io_def

text \<open>The value of a built-in type is read by the case of that type.\<close>

lemma yieldsP_made:
  "(\<And>c. Q (f c)) \<Longrightarrow> yieldsP (counted f) Q"
  "(\<And>t. Q (UaDateTime t)) \<Longrightarrow> yieldsP (genNow env) Q"
  "(\<And>a b. Q (UaByteStr [a, b])) \<Longrightarrow> yieldsP genBytes Q"
  unfolding counted_def genNow_def genBytes_def
  by (auto intro!: yieldsP_lift yieldsP_bind [OF yieldsP_True])

lemma genScalar_reads:
  "yieldsP (genScalar env i) (\<lambda>v.
     uaIsLeaf v \<and> (\<exists>x. uaBuildInType2io conv convert (UaNumeric 0 i) v = Inr (Some x)) \<and>
     (\<forall>j. v = UaInt32 j \<longrightarrow> i \<in> {OpcUaType_Int32, OpcUaId_Enumeration}) \<and>
     (\<forall>j. v = UaUInt32 j \<longrightarrow> i = OpcUaType_UInt32) \<and>
     (\<forall>l t. v = UaLocText l t \<longrightarrow> i = OpcUaType_LocalizedText))"
  unfolding genScalar_def
  by (intro yieldsP_if yieldsP_made yieldsP_lift) (auto simp: uaBuildInType2io_def scalar_reads)

lemma generatedOk_scalar:
  assumes "typesReadable (gnConv env)" "genBuildInType (gnConv env) t = Inr b" "identifierNumeric b = Inr i"
    "i \<noteq> OpcUaId_Structure" "i \<noteq> OpcUaId_Union"
  shows "yieldsP (generateBuildInType env b) (generatedOk (gnConv env) t False)"
proof -
  have b: "getBuildInType (gnConv env) t = Inr b" using assms(2) by (simp add: genBuildInType_iff)
  have "uaNamespaceIndex b = 0" using assms(1) b by (rule buildIn_namespace)
  then have num: "b = UaNumeric 0 i" using assms(3) by (cases b) simp_all
  show ?thesis
    unfolding generateBuildInType_def num
  proof (simp, rule yieldsP_weaken [OF genScalar_reads [of env i "gnConv env" "ua2io (gnConv env)"]])
    fix v
    assume v: "uaIsLeaf v \<and>
      (\<exists>x. uaBuildInType2io (gnConv env) (ua2io (gnConv env)) (UaNumeric 0 i) v = Inr (Some x)) \<and>
      (\<forall>j. v = UaInt32 j \<longrightarrow> i \<in> {OpcUaType_Int32, OpcUaId_Enumeration}) \<and>
      (\<forall>j. v = UaUInt32 j \<longrightarrow> i = OpcUaType_UInt32) \<and>
      (\<forall>l t. v = UaLocText l t \<longrightarrow> i = OpcUaType_LocalizedText)"
    then have "isOk (ua2io (gnConv env) v t)"
      using assms(4,5) by (cases v) (auto simp: uaScalar2io_def b num)
    moreover have "arrayElement (gnConv env) t v"
      using v by (cases v) (auto simp: arrayElement_def b num getIoArrayType_def)
    ultimately show "generatedOk (gnConv env) t False v" by (simp add: generatedOk_def)
  qed
qed

lemma generateStructureField_ok:
  assumes "\<And>t a. yieldsP (gen t a) (generatedOk conv t a)"
  shows "yieldsP (generateStructureField env gen sf) (\<lambda>v. isOk (ua2io conv v (fldTypeId sf)))"
  unfolding generateStructureField_def
  by (rule yieldsP_bind [OF assms] yieldsP_bind [OF yieldsP_True] yieldsP_lift)+ (auto simp: generatedOk_def)

text \<open>The values of the set fields are readable as their fields.\<close>

definition fieldsReadable :: "converter_env \<Rightarrow> ua_field list \<Rightarrow> (string \<times> ua_variant option) list \<Rightarrow> bool" where
  "fieldsReadable conv sfs sv \<longleftrightarrow>
    (\<forall>k x. map_of sv k = Some x \<longrightarrow>
      (\<exists>v sf. x = Some v \<and> sf \<in> set sfs \<and> fldName sf = k \<and> isOk (ua2io conv v (fldTypeId sf))))"

lemma generateFields_ok:
  assumes "\<And>t a. yieldsP (gen t a) (generatedOk conv t a)"
  shows "set sfs \<subseteq> set all \<Longrightarrow> fieldsReadable conv all sv \<Longrightarrow>
    yieldsP (generateFields env gen sfs sv) (\<lambda>sv'. fieldsReadable conv all sv' \<and>
      dom (map_of sv) \<subseteq> dom (map_of sv') \<and> (\<forall>sf\<in>set sfs. fldOptional sf \<or> fldName sf \<in> dom (map_of sv')))"
proof (induction sfs arbitrary: sv)
  case (Cons sf sfs)
  have add: "fieldsReadable conv all (smInsert (fldName sf) (Some v) sv)"
    if "isOk (ua2io conv v (fldTypeId sf))" for v
    using that Cons.prems by (auto simp: fieldsReadable_def)
  have one: "yieldsP (catchP
      (bindP (generateStructureField env gen sf) (\<lambda>v. liftP (Inr (smInsert (fldName sf) (Some v) sv))))
      (\<lambda>e. liftP (if fldOptional sf then Inr sv else Inl e)))
    (\<lambda>sv1. fieldsReadable conv all sv1 \<and> dom (map_of sv) \<subseteq> dom (map_of sv1) \<and>
      (fldOptional sf \<or> fldName sf \<in> dom (map_of sv1)))"
    by (rule yieldsP_catch yieldsP_bind [OF generateStructureField_ok [OF assms]] yieldsP_lift)+
      (use add Cons.prems in \<open>auto split: if_splits\<close>)
  show ?case
    unfolding generateFields.simps
  proof (rule yieldsP_bind [OF one])
    fix sv1
    assume sv1: "fieldsReadable conv all sv1 \<and> dom (map_of sv) \<subseteq> dom (map_of sv1) \<and>
      (fldOptional sf \<or> fldName sf \<in> dom (map_of sv1))"
    show "yieldsP (generateFields env gen sfs sv1) (\<lambda>sv'. fieldsReadable conv all sv' \<and>
      dom (map_of sv) \<subseteq> dom (map_of sv') \<and> (\<forall>sf\<in>set (sf # sfs). fldOptional sf \<or> fldName sf \<in> dom (map_of sv')))"
      by (rule yieldsP_weaken [OF Cons.IH]) (use Cons.prems sv1 in \<open>simp, simp, simp only: set_simps, blast\<close>)
  qed
qed (auto intro: yieldsP_lift)

lemma generateUnion_ok:
  assumes "\<And>t a. yieldsP (gen t a) (generatedOk conv t a)"
  shows "yieldsP (generateUnion env gen sfs failed) (\<lambda>uv. uv = [] \<or>
    (\<exists>sf\<in>set sfs. \<exists>v. uv = [(fldName sf, Some v)] \<and> isOk (ua2io conv v (fldTypeId sf))))"
proof (induction sfs arbitrary: failed)
  case (Cons sf sfs)
  show ?case
    unfolding generateUnion.simps
  proof (rule yieldsP_catch)
    show "yieldsP (generateUnion env gen sfs True) (\<lambda>uv. uv = [] \<or>
      (\<exists>sf\<in>set (sf # sfs). \<exists>v. uv = [(fldName sf, Some v)] \<and> isOk (ua2io conv v (fldTypeId sf))))"
      by (rule yieldsP_weaken [OF Cons.IH]) auto
  qed (rule yieldsP_bind [OF generateStructureField_ok [OF assms]] yieldsP_lift | auto)+
qed (auto intro!: yieldsP_lift split: if_splits)

lemma field_lookup:
  assumes "fieldsReadable conv sfs sv" "distinct (map fldName sfs)" "sf \<in> set sfs"
    "fldOptional sf \<or> fldName sf \<in> dom (map_of sv)"
  shows "isOk (uaField2io (ua2io conv) sv sf)"
proof (cases "map_of sv (fldName sf)")
  case (Some x)
  then obtain v sf' where x: "x = Some v" "sf' \<in> set sfs" "fldName sf' = fldName sf"
    "isOk (ua2io conv v (fldTypeId sf'))"
    using assms(1) unfolding fieldsReadable_def by blast
  have "sf' = sf" using assms(2,3) x(2,3) by (simp add: distinct_map inj_on_def)
  then show ?thesis using x Some by (simp add: uaField2io_def)
next
  case None
  then have "fldOptional sf" using assms(4) by (simp add: domIff)
  then show ?thesis using None by (simp add: uaField2io_def)
qed

lemma union_lookup:
  assumes "uv = [] \<or> (\<exists>sf\<in>set sfs. \<exists>v. uv = [(fldName sf, Some v)] \<and> isOk (ua2io conv v (fldTypeId sf)))"
    "distinct (map fldName sfs)"
  shows "isOk (uaUnionField2io (ua2io conv) uv sfs)"
proof (cases "uv = []")
  case False
  then obtain sf v where sf: "sf \<in> set sfs" "uv = [(fldName sf, Some v)]" "isOk (ua2io conv v (fldTypeId sf))"
    using assms(1) by blast
  have "find (\<lambda>x. fldName x = fldName sf) sfs = Some sf"
    using assms(2) sf(1) by (induction sfs) (auto simp: image_iff)
  then show ?thesis using sf by (auto simp: uaUnionField2io_def isOk_iff)
qed (simp add: uaUnionField2io_def)

lemma generateStructure_ok:
  assumes "typesReadable (gnConv env)" "genBuildInType (gnConv env) t = Inr b" "identifierNumeric b = Inr i"
    "i = OpcUaId_Structure \<or> i = OpcUaId_Union"
    and gen: "\<And>t a. yieldsP (gen t a) (generatedOk (gnConv env) t a)"
  shows "yieldsP (generateStructure env gen t) (generatedOk (gnConv env) t False)"
proof -
  let ?conv = "gnConv env"
  have b: "getBuildInType ?conv t = Inr b" using assms(2) by (simp add: genBuildInType_iff)
  have "uaNamespaceIndex b = 0" using assms(1) b by (rule buildIn_namespace)
  then have num: "b = UaNumeric 0 i" using assms(3) by (cases b) simp_all
  have ok: "generatedOk ?conv t False (UaExt eo)"
    if sd: "cbGetStructureDefinition ?conv t = Inr sd"
      and eo: "isOk (if sdIsUnion sd then uaUnionField2io (ua2io ?conv) eo (sdChildren sd)
        else uaStructureFields2io (ua2io ?conv) eo (sdChildren sd) [])" for sd eo
  proof -
    have "isOk (ua2ioNodeId t)" using assms(1) sd by (simp add: typesReadable_def)
    then have "isOk (ua2io ?conv (UaExt eo) t)"
      using assms(4) sd eo by (auto simp: uaScalar2io_def b num uaExtensionObject2io_def isOk_iff)
    then show ?thesis
      using assms(4) by (auto simp: generatedOk_def arrayElement_def b num getIoArrayType_def)
  qed
  have names: "distinct (map fldName (sdChildren sd))" if "cbGetStructureDefinition ?conv t = Inr sd" for sd
    using assms(1) that by (simp add: typesReadable_def)
  show ?thesis
    unfolding generateStructure_def
  proof (rule yieldsP_bind_lift)
    fix sd
    assume sd: "cbGetStructureDefinition ?conv t = Inr sd"
    show "yieldsP (bindP (if sdIsUnion sd then generateUnion env gen (sdChildren sd) False
        else generateFields env gen (sdChildren sd) []) (\<lambda>eo. liftP (Inr (UaExt eo)))) (generatedOk ?conv t False)"
    proof (cases "sdIsUnion sd")
      case True
      have "yieldsP (generateUnion env gen (sdChildren sd) False)
          (\<lambda>eo. isOk (uaUnionField2io (ua2io ?conv) eo (sdChildren sd)))"
        using generateUnion_ok [OF gen] by (rule yieldsP_weaken) (rule union_lookup [OF _ names [OF sd]])
      then show ?thesis unfolding if_P [OF True] by (rule yieldsP_bind) (use ok [OF sd] True in simp)
    next
      case False
      have "yieldsP (generateFields env gen (sdChildren sd) [])
          (\<lambda>eo. isOk (uaStructureFields2io (ua2io ?conv) eo (sdChildren sd) []))"
      proof (rule yieldsP_weaken [OF generateFields_ok [OF gen subset_refl]])
        show "fieldsReadable ?conv (sdChildren sd) []" by (simp add: fieldsReadable_def)
        fix eo
        assume "fieldsReadable ?conv (sdChildren sd) eo \<and> dom (map_of []) \<subseteq> dom (map_of eo) \<and>
          (\<forall>sf\<in>set (sdChildren sd). fldOptional sf \<or> fldName sf \<in> dom (map_of eo))"
        then show "isOk (uaStructureFields2io (ua2io ?conv) eo (sdChildren sd) [])"
          using field_lookup [OF _ names [OF sd]] by (simp add: uaStructureFields2io_collect isOk_collectFields)
      qed
      then show ?thesis unfolding if_not_P [OF False] by (rule yieldsP_bind) (use ok [OF sd] False in simp)
    qed
  qed
qed

lemma generateArray_ok:
  assumes "\<And>t a. yieldsP (gen t a) (generatedOk conv t a)"
  shows "yieldsP (generateArray gen t) (generatedOk conv t True)"
proof -
  have one: "generateElements gen t genArraySize = bindP (gen t False) (\<lambda>v. liftP (Inr [v]))"
    by (simp add: genArraySize_def bindP_def liftP_def)
  have arr: "generatedOk conv t True w"
    if v: "generatedOk conv t False v" and w: "convert2Array [v] = Inr w" for v w
  proof -
    have "w = UaArr k [v] \<Longrightarrow> isOk (bindR (getBuildInType conv t) getIoArrayType) \<Longrightarrow> ?thesis" for k
      using v by (fastforce simp: generatedOk_def arrayElement_def uaArray2io_def isOk_iff bindR_eq_Inr)
    then show ?thesis
      using v w by (cases v) (auto simp: convert2Array_def convert2ExtensionObjectArray_def convert2Int32Array_def
        convert2UInt32Array_def convert2LocalizedTextArray_def generatedOk_def arrayElement_def)
  qed
  show ?thesis
    unfolding generateArray_def one
    by (rule yieldsP_bind [of _ "\<lambda>vs. \<exists>v. vs = [v] \<and> generatedOk conv t False v"])
      (auto intro!: yieldsP_bind [OF assms] yieldsP_lift intro: arr)
qed

lemma generateStep_ok:
  assumes "typesReadable (gnConv env)" "\<And>t a. yieldsP (gen t a) (generatedOk (gnConv env) t a)"
  shows "yieldsP (generateStep env gen t a) (generatedOk (gnConv env) t a)"
proof (cases a)
  case False
  show ?thesis
    unfolding generateStep_def if_not_P [OF False]
  proof (rule yieldsP_bind_lift, rule yieldsP_bind_lift)
    fix b i
    assume b: "genBuildInType (gnConv env) t = Inr b" and i: "identifierNumeric b = Inr i"
    show "yieldsP (if i = OpcUaId_Structure \<or> i = OpcUaId_Union then generateStructure env gen t
        else generateBuildInType env b) (generatedOk (gnConv env) t a)"
      using False generateStructure_ok [OF assms(1) b i _ assms(2)] generatedOk_scalar [OF assms(1) b i]
      by (intro yieldsP_if) simp_all
  qed
qed (simp add: generateStep_def generateArray_ok assms(2))

lemma generateData_ok:
  assumes "typesReadable (gnConv env)"
  shows "yieldsP (generateData env t a) (generatedOk (gnConv env) t a)"
  unfolding yieldsP_def
proof (intro allI impI)
  fix s v s'
  assume "generateData env t a s = Some (Inr v, s')"
  moreover have "\<forall>v. fst y = Inr v \<longrightarrow> generatedOk (gnConv env') t a v"
    if "generateData env' t a s = Some y" "env' = env" for env' t a s y
    using that
  proof (induction rule: generateData.raw_induct [rotated, consumes 1, case_names step])
    case (step rec env' t a s y)
    have "yieldsP (rec env' t a) (generatedOk (gnConv env') t a)" for t a
      unfolding yieldsP_def using step.IH step.prems by fastforce
    then have "yieldsP (generateStep env' (rec env') t a) (generatedOk (gnConv env') t a)"
      using generateStep_ok assms step.prems by blast
    then show ?case using step.hyps unfolding yieldsP_def by (cases y) auto
  qed
  ultimately show "generatedOk (gnConv env) t a v" by fastforce
qed

lemma generateLogged_ok:
  assumes "typesReadable (gnConv env)"
  shows "yieldsP (generateLogged env t a) (\<lambda>r. case r of None \<Rightarrow> True | Some v \<Rightarrow> isOk (ua2io (gnConv env) v t))"
  unfolding generateLogged_def
  by (rule yieldsP_catch yieldsP_bind [OF generateData_ok [OF assms]] yieldsP_bind [OF yieldsP_True] yieldsP_lift)+
    (auto simp: generatedOk_def)

lemma generateVariables_ok:
  assumes "typesReadable (gnConv env)"
  shows "yieldsP (generateVariables env vs) (\<lambda>rs.
    list_all2 (\<lambda>v r. case r of None \<Rightarrow> True | Some x \<Rightarrow> isOk (ua2io (gnConv env) x (gvDataType v)))
      (filter (\<lambda>v. gvTypeDefinition v \<notin> set dictionaryTypes) vs) rs)"
proof (induction vs)
  case (Cons v vs)
  show ?case
  proof (cases "gvTypeDefinition v \<in> set dictionaryTypes")
    case False
    then have step: "generateVariables env (v # vs) =
        bindP (generateLogged env (gvDataType v) (gvValueRank v = 1)) (\<lambda>r.
        bindP (generateVariables env vs) (\<lambda>rs. liftP (Inr (r # rs))))" by simp
    show ?thesis
      unfolding step using False
      by (intro yieldsP_bind [OF generateLogged_ok [OF assms]] yieldsP_bind [OF Cons.IH] yieldsP_lift) auto
  qed (use Cons.IH in simp)
qed simp


subsection \<open>Termination\<close>

text \<open>The types of the fields of a type.\<close>

definition fieldTypeOf :: "converter_env \<Rightarrow> ua_node_id \<Rightarrow> ua_node_id \<Rightarrow> bool" where
  "fieldTypeOf conv t' t \<longleftrightarrow>
    (\<exists>sd. cbGetStructureDefinition conv t = Inr sd \<and> t' \<in> fldTypeId ` set (sdChildren sd))"

lemma generateStructureField_returns:
  "(\<And>a. returnsP (gen (fldTypeId sf) a)) \<Longrightarrow> returnsP (generateStructureField env gen sf)"
  unfolding generateStructureField_def by (intro returnsP_bind) simp_all

lemma generateUnion_returns:
  "(\<And>sf a. sf \<in> set sfs \<Longrightarrow> returnsP (gen (fldTypeId sf) a)) \<Longrightarrow> returnsP (generateUnion env gen sfs failed)"
proof (induction sfs arbitrary: failed)
  case (Cons sf sfs)
  show ?case
    unfolding generateUnion.simps
    by (intro returnsP_catch returnsP_bind generateStructureField_returns Cons) (simp_all add: Cons.prems)
qed simp

lemma generateFields_returns:
  "(\<And>sf a. sf \<in> set sfs \<Longrightarrow> returnsP (gen (fldTypeId sf) a)) \<Longrightarrow> returnsP (generateFields env gen sfs sv)"
proof (induction sfs arbitrary: sv)
  case (Cons sf sfs)
  show ?case
    unfolding generateFields.simps
    by (intro returnsP_catch returnsP_bind generateStructureField_returns Cons) (simp_all add: Cons.prems)
qed simp

lemma genScalar_returns: "returnsP (genScalar env i)"
  unfolding genScalar_def counted_def genNow_def genBytes_def nextCounter_def
  by (auto intro!: returnsP_bind)

lemma generateStructure_returns:
  assumes "\<And>t' a. fieldTypeOf (gnConv env) t' t \<Longrightarrow> returnsP (gen t' a)"
  shows "returnsP (generateStructure env gen t)"
proof (cases "cbGetStructureDefinition (gnConv env) t")
  case (Inr sd)
  have "returnsP (gen (fldTypeId sf) a)" if "sf \<in> set (sdChildren sd)" for sf a
    using assms that Inr by (auto simp: fieldTypeOf_def)
  then show ?thesis
    unfolding generateStructure_def
    by (auto simp: Inr intro!: returnsP_bind generateUnion_returns generateFields_returns)
qed (simp add: generateStructure_def)

lemma generateStep_returns:
  assumes "\<And>t' a. fieldTypeOf (gnConv env) t' t \<Longrightarrow> returnsP (gen t' a)"
  shows "returnsP (generateStep env gen t False)"
  unfolding generateStep_def generateBuildInType_def
  by (auto intro!: returnsP_bind generateStructure_returns genScalar_returns assms)

lemma generateArray_returns: "returnsP (gen t False) \<Longrightarrow> returnsP (generateArray gen t)"
  unfolding generateArray_def genArraySize_def by (auto intro!: returnsP_bind)

lemma generateData_returns:
  assumes "wfP (fieldTypeOf (gnConv env))"
  shows "returnsP (generateData env t a)"
  using assms
proof (induction t arbitrary: a rule: wfp_induct_rule)
  case (less t)
  have unfold': "generateData env t a = generateStep env (generateData env) t a" for a
    by (rule ext) (rule generateData.simps)
  have scalar: "returnsP (generateData env t False)"
    unfolding unfold' by (rule generateStep_returns) (rule less)
  show ?case
  proof (cases a)
    case True
    then show ?thesis
      unfolding unfold' generateStep_def by (simp add: generateArray_returns scalar)
  qed (use scalar in simp)
qed

text \<open>
  When no type contains itself through the types of its fields, the generation of the values of
  any variables returns.
\<close>

theorem generation_returns:
  assumes "wfP (fieldTypeOf (gnConv env))"
  shows "\<exists>y. generateVariables env vs s = Some y"
proof -
  have "returnsP (generateVariables env vs)"
  proof (induction vs)
    case (Cons v vs)
    then show ?case
      by (auto simp: generateLogged_def intro!: returnsP_bind returnsP_catch generateData_returns [OF assms])
  qed simp
  then show ?thesis by (simp add: returnsP_def)
qed

text \<open>
  A structure whose first field has the type of the structure is generated forever, optional or not, array
  or not.
\<close>

lemma recursive_type_diverges:
  assumes "genBuildInType (gnConv env) t = Inr (UaNumeric ns OpcUaId_Structure)"
    and "cbGetStructureDefinition (gnConv env) t = Inr sd" "\<not> sdIsUnion sd"
    and "sdChildren sd = sf # sfs" "fldTypeId sf = t"
  shows "generateData env t a s = None"
proof (rule ccontr)
  assume "generateData env t a s \<noteq> None"
  then obtain y where "generateData env t a s = Some y" by blast
  moreover have False if "generateData env' t' a s = Some y" "env' = env" "t' = t" for env' t' a s y
    using that
  proof (induction rule: generateData.raw_induct [rotated, consumes 1, case_names step])
    case (step rec env' t' a s y)
    have none: "rec env t a s = None" for a s
      using step.IH step.prems by (cases "rec env t a s") auto
    have "generateStep env (rec env) t a s = None"
    proof (cases a)
      case True
      then show ?thesis
        by (simp add: generateStep_def generateArray_def genArraySize_def bindP_None none)
    next
      case False
      have "generateStructureField env (rec env) sf s = None" for s
        using assms(5) none by (simp add: generateStructureField_def bindP_None)
      then show ?thesis
        using False assms by (simp add: generateStep_def generateStructure_def bindP_None catchP_None)
    qed
    then show False using step.hyps step.prems by simp
  qed
  ultimately show False by blast
qed

subsection \<open>Concrete types\<close>

text \<open>A structure with a count, an optional duration, which is never generated, and an array of a union.\<close>

definition exampleTypes :: converter_env where
  "exampleTypes =
    \<lparr>cbGetSuperTypes = (\<lambda>t. Inr (if t = UaNumeric 1 1 then Some [UaNumeric 0 22]
        else if t = UaNumeric 1 2 then Some [UaNumeric 0 12756] else Some [])),
     cbGetStructureDefinition = (\<lambda>t.
       if t = UaNumeric 1 1 then
         Inr \<lparr>sdIsUnion = False,
           sdChildren = [\<lparr>fldName = ''count'', fldTypeId = UaNumeric 0 6, fldOptional = False, fldArray = False\<rparr>,
                         \<lparr>fldName = ''index'', fldTypeId = UaNumeric 0 25, fldOptional = True, fldArray = False\<rparr>,
                         \<lparr>fldName = ''parts'', fldTypeId = UaNumeric 1 2, fldOptional = False, fldArray = True\<rparr>]\<rparr>
       else if t = UaNumeric 1 2 then
         Inr \<lparr>sdIsUnion = True,
           sdChildren = [\<lparr>fldName = ''x'', fldTypeId = UaNumeric 0 25, fldOptional = False, fldArray = False\<rparr>,
                         \<lparr>fldName = ''y'', fldTypeId = UaNumeric 0 12, fldOptional = False, fldArray = False\<rparr>]\<rparr>
       else Inl NodeBrowserException),
     sdkDataType = (\<lambda>_. UaNumeric 0 0)\<rparr>"

definition exampleGen :: gen_env where
  "exampleGen = \<lparr>gnConv = exampleTypes, gnNow = (\<lambda>_. 0), gnInfo = True, gnTrace = True\<rparr>"

definition generatorVariables :: "gen_variable list" where
  "generatorVariables =
    [\<lparr>gvNodeId = UaNumeric 1 10, gvTypeDefinition = UaNumeric 0 63, gvDataType = UaNumeric 1 1, gvValueRank = -1\<rparr>,
     \<lparr>gvNodeId = UaNumeric 1 11, gvTypeDefinition = UaNumeric 0 72, gvDataType = UaNumeric 0 15, gvValueRank = -1\<rparr>,
     \<lparr>gvNodeId = UaNumeric 1 12, gvTypeDefinition = UaNumeric 0 63, gvDataType = UaNumeric 0 7, gvValueRank = 1\<rparr>,
     \<lparr>gvNodeId = UaNumeric 1 13, gvTypeDefinition = UaNumeric 0 63, gvDataType = UaNumeric 0 12, gvValueRank = 1\<rparr>]"

lemma example_generated:
  "generateVariables exampleGen generatorVariables genInitial =
    Some (Inr [Some (UaExt [(''count'', Some (UaInt32 1)),
        (''parts'', Some (UaArr 22 [UaExt [(''y'', Some (UaStr (Some ''string2'')))]]))]),
      Some (UaArr 7 [UaUInt32 3]), None], \<lparr>gsCounter = 5, gsClock = 0\<rparr>)"
  by code_simp

lemma exampleTypes_readable: "typesReadable exampleTypes"
  by (auto simp: typesReadable_def exampleTypes_def ua2ioNodeId_def split: if_splits)


theorem generation_returns_witness: "\<exists>y. generateVariables exampleGen generatorVariables genInitial = Some y"
proof (rule generation_returns)
  show "wfP (fieldTypeOf (gnConv exampleGen))"
    unfolding wfp_def
    by (rule wf_subset [OF wf_measure [of "\<lambda>t. if t = UaNumeric 1 1 then 2 else if t = UaNumeric 1 2 then 1 else 0"]])
      (auto simp: fieldTypeOf_def exampleGen_def exampleTypes_def split: if_splits)
qed

end
