(* ===== verification/Event_Generator.thy ===== *)
theory Event_Generator
  imports Data_Generator Node_Manager
begin

text \<open>
  The generator of events (\<open>sasModelProvider/base/generator/DataGenerator.cpp\<close>): the fields of an event type
  and its super types, the search for a source node among the instances of the types that generate the
  event, and the event data. The nodes and the results of the browse services are parameters. All
  recursions follow references without a record of the nodes they passed; they may not end.
\<close>

text \<open>
  \<open>esFieldRefs\<close>: hierarchical references to variables and object types in both directions;
  \<open>esInverseRefs\<close>: all inverse references; \<open>esSubTypeRefs\<close>: forward references to sub types;
  \<open>esInstanceRefs\<close>: forward references seen by the internal session. \<open>None\<close> is a status that is not good.
\<close>

record event_space =
  esFieldRefs :: "ua_node_id \<Rightarrow> node_ref list option"
  esInverseRefs :: "ua_node_id \<Rightarrow> node_ref list option"
  esSubTypeRefs :: "ua_node_id \<Rightarrow> node_ref list option"
  esInstanceRefs :: "ua_node_id \<Rightarrow> node_ref list option"
  esClass :: "ua_node_id \<Rightarrow> node_class option"
  esName :: "ua_node_id \<Rightarrow> qualified_name"
  esVariable :: "ua_node_id \<Rightarrow> gen_variable"

definition hierarchicalIds :: "32 word list" where
  "hierarchicalIds = [35, 46, 47, 49]"

definition OpcUaId_HasTypeDefinition :: "32 word" where "OpcUaId_HasTypeDefinition = 40"
definition genSourceNode :: "32 word" where "genSourceNode = 2044"
definition genMessage :: "32 word" where "genMessage = 2050"
definition genSeverity :: "32 word" where "genSeverity = 2051"
definition objectsFolder :: ua_node_id where "objectsFolder = UaNumeric 0 85"

subsection \<open>Sub types\<close>

text \<open>The node is added before it is used; a node that is not found is used nevertheless.\<close>

definition visitSubType ::
  "event_space \<Rightarrow> ua_node_id \<Rightarrow> ua_node_id list \<Rightarrow> (cpp_error, ua_node_id list) res \<times> ua_node_id list"
where
  "visitSubType es n types =
    (case esClass es n of
       None \<Rightarrow> Inl UndefinedBehaviour
     | Some _ \<Rightarrow>
         (case esSubTypeRefs es n of
            None \<Rightarrow> Inl GeneratorException
          | Some refs \<Rightarrow> Inr (map nrTarget refs)), types @ [n])"

definition getSubTypes :: "event_space \<Rightarrow> ua_node_id \<Rightarrow> (ua_node_id list, unit) op" where
  "getSubTypes es t types =
    (case esSubTypeRefs es t of
       None \<Rightarrow> Some (Inl GeneratorException, types)
     | Some refs \<Rightarrow> workLoop (visitSubType es) (map nrTarget refs) types)"

subsection \<open>An instance of the types\<close>

type_synonym search = "(unit, ua_node_id option) op"

text \<open>The references of a node in order; what is found below a node is searched at once, its exceptions are dropped.\<close>

fun instanceLoop ::
  "event_space \<Rightarrow> ua_node_id list \<Rightarrow> (ua_node_id \<Rightarrow> search) \<Rightarrow> ua_node_id \<Rightarrow> node_ref list \<Rightarrow> search"
where
  "instanceLoop es types search root [] = liftP (Inr None)"
| "instanceLoop es types search root (r # rs) =
     bindP (bindP (liftP (identifierNumeric (nrType r))) (\<lambda>i.
         if i = OpcUaId_HasTypeDefinition then liftP (Inr (if nrTarget r \<in> set types then Some root else None))
         else if i \<in> set hierarchicalIds \<and> esClass es (nrTarget r) \<noteq> None then
           catchP (search (nrTarget r)) (\<lambda>_. liftP (Inr None))
         else liftP (Inr None)))
       (\<lambda>found. if found \<noteq> None then liftP (Inr found) else instanceLoop es types search root rs)"

definition instanceStep :: "event_space \<Rightarrow> ua_node_id list \<Rightarrow> (ua_node_id \<Rightarrow> search) \<Rightarrow> ua_node_id \<Rightarrow> search" where
  "instanceStep es types search root =
    (case esInstanceRefs es root of
       None \<Rightarrow> liftP (Inl GeneratorException)
     | Some refs \<Rightarrow> instanceLoop es types search root refs)"

lemma mono_instanceStep:
  assumes "\<And>n s. mono_option (\<lambda>f. g f n s)"
  shows "mono_option (\<lambda>f. instanceStep es types (g f) root s)"
proof -
  have "mono_option (\<lambda>f. instanceLoop es types (g f) root rs s)" for rs s
  proof (induction rs arbitrary: s)
    case (Cons r rs)
    show ?case unfolding instanceLoop.simps by (intro mono_op assms Cons)
  qed (simp add: mono_option_const)
  then show ?thesis by (cases "esInstanceRefs es root") (simp_all add: instanceStep_def mono_option_const)
qed

declare mono_instanceStep [partial_function_mono]

partial_function (option) getInstance ::
  "event_space \<Rightarrow> ua_node_id list \<Rightarrow> ua_node_id \<Rightarrow> unit \<Rightarrow> ((cpp_error, ua_node_id option) res \<times> unit) option"
where
  "getInstance es types root s = instanceStep es types (getInstance es types) root s"

declare getInstance.simps [code]

subsection \<open>The source node of an event\<close>

text \<open>
  The inverse references of the event type in order: the source node of a super type, or an instance
  below the objects folder of a type that generates the event or of one of its sub types.
\<close>

definition typesOf :: "event_space \<Rightarrow> ua_node_id \<Rightarrow> (unit, ua_node_id list) op" where
  "typesOf es t = (\<lambda>s.
    case getSubTypes es t [] of
      None \<Rightarrow> None
    | Some (Inl e, _) \<Rightarrow> Some (Inl e, s)
    | Some (Inr _, types) \<Rightarrow> Some (Inr (types @ [t]), s))"

definition sourceOf :: "event_space \<Rightarrow> (ua_node_id \<Rightarrow> search) \<Rightarrow> node_ref \<Rightarrow> search" where
  "sourceOf es search r =
    bindP (liftP (identifierNumeric (nrType r))) (\<lambda>i.
      if i = OpcUaId_HasSubtype then
        bindP (liftP (guardR (esClass es (nrTarget r) = Some NcObjectType) UndefinedBehaviour)) (\<lambda>_.
          search (nrTarget r))
      else if i = OpcUaId_GeneratesEvent then
        bindP (liftP (guardR (esClass es (nrTarget r) \<noteq> None) UndefinedBehaviour)) (\<lambda>_.
        bindP (typesOf es (nrTarget r)) (\<lambda>types.
        bindP (liftP (guardR (esClass es objectsFolder \<noteq> None) UndefinedBehaviour)) (\<lambda>_.
          getInstance es types objectsFolder)))
      else liftP (Inr None))"

fun sourceLoop :: "event_space \<Rightarrow> (ua_node_id \<Rightarrow> search) \<Rightarrow> node_ref list \<Rightarrow> search" where
  "sourceLoop es search [] = liftP (Inr None)"
| "sourceLoop es search (r # rs) =
     bindP (sourceOf es search r)
       (\<lambda>found. if found \<noteq> None then liftP (Inr found) else sourceLoop es search rs)"

definition sourceStep :: "event_space \<Rightarrow> (ua_node_id \<Rightarrow> search) \<Rightarrow> ua_node_id \<Rightarrow> search" where
  "sourceStep es search objectType =
    (case esInverseRefs es objectType of
       None \<Rightarrow> liftP (Inl GeneratorException)
     | Some refs \<Rightarrow> sourceLoop es search refs)"

lemma mono_sourceStep:
  assumes "\<And>n s. mono_option (\<lambda>f. g f n s)"
  shows "mono_option (\<lambda>f. sourceStep es (g f) t s)"
proof -
  have "mono_option (\<lambda>f. sourceLoop es (g f) rs s)" for rs s
  proof (induction rs arbitrary: s)
    case (Cons r rs)
    show ?case unfolding sourceLoop.simps sourceOf_def by (intro mono_op assms Cons)
  qed (simp add: mono_option_const)
  then show ?thesis by (cases "esInverseRefs es t") (simp_all add: sourceStep_def mono_option_const)
qed

declare mono_sourceStep [partial_function_mono]

partial_function (option) getEventSourceNode ::
  "event_space \<Rightarrow> ua_node_id \<Rightarrow> unit \<Rightarrow> ((cpp_error, ua_node_id option) res \<times> unit) option"
where
  "getEventSourceNode es objectType s = sourceStep es (getEventSourceNode es) objectType s"

declare getEventSourceNode.simps [code]

subsection \<open>The fields of an event type\<close>

text \<open>The names of the fields found so far, and their data.\<close>

record collected_fields =
  efGen :: gen_state
  efNames :: "qualified_name list"
  efFields :: "io_node_data list"

definition inGen :: "(gen_state, 'a) op \<Rightarrow> (collected_fields, 'a) op" where
  "inGen m = (\<lambda>s. map_option (\<lambda>p. (fst p, s\<lparr>efGen := snd p\<rparr>)) (m (efGen s)))"

definition inSearch :: "(unit, 'a) op \<Rightarrow> (collected_fields, 'a) op" where
  "inSearch m = (\<lambda>s. map_option (\<lambda>p. (fst p, s)) (m ()))"

definition isSourceNode :: "ua_node_id \<Rightarrow> (cpp_error, bool) res" where
  "isSourceNode n =
    (if uaNamespaceIndex n \<noteq> 0 then Inr False else mapR (\<lambda>i. i = genSourceNode) (identifierNumeric n))"

text \<open>
  The value of a field: the source node of the event type the generation was started with, or a generated
  value of the data type of the variable.
\<close>

definition eventFieldValue ::
  "event_space \<Rightarrow> gen_env \<Rightarrow> ua_node_id \<Rightarrow> ua_node_id \<Rightarrow> (collected_fields, io_variant) op"
where
  "eventFieldValue es env root n =
    bindP (liftP (isSourceNode n)) (\<lambda>src.
      if src then
        bindP (inSearch (getEventSourceNode es root)) (\<lambda>found.
          case found of
            None \<Rightarrow> liftP (Inl GeneratorException)
          | Some sourceNode \<Rightarrow> liftP (ua2io (gnConv env) (UaNodeIdVal sourceNode) (UaNumeric 0 OpcUaType_NodeId)))
      else
        bindP (liftP (guardR (esClass es n = Some NcVariable) UndefinedBehaviour)) (\<lambda>_.
        bindP (inGen (generateData env (gvDataType (esVariable es n)) (gvValueRank (esVariable es n) = 1))) (\<lambda>v.
          liftP (ua2io (gnConv env) v (gvDataType (esVariable es n))))))"

text \<open>A field whose browse name was met before, in this type or in a sub type, is skipped. Exceptions are logged.\<close>

definition eventField :: "event_space \<Rightarrow> gen_env \<Rightarrow> ua_node_id \<Rightarrow> node_ref \<Rightarrow> (collected_fields, unit) op" where
  "eventField es env root r =
    catchP
      (bindP (liftP (identifierNumeric (nrType r))) (\<lambda>i.
       bindP (getP efNames) (\<lambda>names.
         if i = OpcUaId_HasSubtype \<or> esName es (nrTarget r) \<in> set names then liftP (Inr ())
         else
           bindP (liftP (ua2ioNodeId (nrTarget r))) (\<lambda>nid.
           bindP (eventFieldValue es env root (nrTarget r)) (\<lambda>v.
             modifyP (\<lambda>s. s\<lparr>efNames := efNames s @ [esName es (nrTarget r)],
                            efFields := efFields s @ [newNodeData nid (Some v)]\<rparr>))))))
      (\<lambda>_. liftP (Inr ()))"

fun eventFieldRefs :: "event_space \<Rightarrow> gen_env \<Rightarrow> ua_node_id \<Rightarrow> node_ref list \<Rightarrow> (collected_fields, unit) op" where
  "eventFieldRefs es env root [] = liftP (Inr ())"
| "eventFieldRefs es env root (r # rs) = bindP (eventField es env root r) (\<lambda>_. eventFieldRefs es env root rs)"

text \<open>The super types, after the fields of the type itself.\<close>

fun superFields ::
  "event_space \<Rightarrow> (ua_node_id \<Rightarrow> (collected_fields, unit) op) \<Rightarrow> node_ref list \<Rightarrow> (collected_fields, unit) op"
where
  "superFields es gen [] = liftP (Inr ())"
| "superFields es gen (r # rs) =
     bindP
       (catchP
         (bindP (liftP (identifierNumeric (nrType r))) (\<lambda>i.
            if i = OpcUaId_HasSubtype \<and> \<not> nrForward r then
              bindP (liftP (guardR (esClass es (nrTarget r) = Some NcObjectType) UndefinedBehaviour)) (\<lambda>_.
                gen (nrTarget r))
            else liftP (Inr ())))
         (\<lambda>_. liftP (Inr ())))
       (\<lambda>_. superFields es gen rs)"

definition eventFieldsStep ::
  "event_space \<Rightarrow> gen_env \<Rightarrow> ua_node_id \<Rightarrow> (ua_node_id \<Rightarrow> (collected_fields, unit) op) \<Rightarrow> ua_node_id \<Rightarrow>
   (collected_fields, unit) op"
where
  "eventFieldsStep es env root gen objectType =
    (case esFieldRefs es objectType of
       None \<Rightarrow> liftP (Inl GeneratorException)
     | Some refs \<Rightarrow> bindP (eventFieldRefs es env root refs) (\<lambda>_. superFields es gen refs))"

lemma mono_eventFieldsStep:
  assumes "\<And>n s. mono_option (\<lambda>f. g f n s)"
  shows "mono_option (\<lambda>f. eventFieldsStep es env root (g f) t s)"
proof -
  have "mono_option (\<lambda>f. superFields es (g f) rs s)" for rs s
  proof (induction rs arbitrary: s)
    case (Cons r rs)
    show ?case unfolding superFields.simps by (intro mono_op assms Cons)
  qed (simp add: mono_option_const)
  then have "mono_option (\<lambda>f. bindP (eventFieldRefs es env root refs) (\<lambda>_. superFields es (g f) refs) s)" for refs s
    by (intro mono_op)
  then show ?thesis by (cases "esFieldRefs es t") (simp_all add: eventFieldsStep_def mono_option_const)
qed

declare mono_eventFieldsStep [partial_function_mono]

partial_function (option) generateEventFieldData ::
  "event_space \<Rightarrow> gen_env \<Rightarrow> ua_node_id \<Rightarrow> ua_node_id \<Rightarrow> collected_fields \<Rightarrow> ((cpp_error, unit) res \<times> collected_fields) option"
where
  "generateEventFieldData es env root objectType s =
     eventFieldsStep es env root (generateEventFieldData es env root) objectType s"

declare generateEventFieldData.simps [code]

subsection \<open>The event data\<close>

text \<open>
  The default fields are taken from the fields of name space 0, which are all removed. The message is
  read as the text of a string or of a localized text, the severity as an integer of 32 bits; values of
  other kinds would be read through the wrong member.
\<close>

record event_defaults =
  edSource :: "io_node_id option"
  edMessage :: "string option"
  edSeverity :: "c_int option"
  edRest :: "io_node_data list"

fun fieldText :: "io_variant option \<Rightarrow> (cpp_error, string) res" where
  "fieldText (Some (IOScalar (IOString (Some t)))) = Inr t"
| "fieldText (Some (IOScalar (IOLocalizedText _ (Some t)))) = Inr t"
| "fieldText _ = Inl UndefinedBehaviour"

fun fieldInt :: "io_variant option \<Rightarrow> (cpp_error, c_int) res" where
  "fieldInt (Some (IOScalar (IOInt i))) = Inr i"
| "fieldInt (Some (IOScalar (IOUInt i))) = Inr i"
| "fieldInt _ = Inl UndefinedBehaviour"

fun fieldNodeId :: "io_variant option \<Rightarrow> (cpp_error, io_node_id) res" where
  "fieldNodeId (Some (IONodeId n)) = Inr n"
| "fieldNodeId _ = Inl UndefinedBehaviour"

definition takeDefault :: "io_node_data \<Rightarrow> event_defaults \<Rightarrow> (cpp_error, event_defaults) res" where
  "takeDefault d ed =
    (case ndNodeId d of
       NodeIdNumeric ns i \<Rightarrow>
         if ns \<noteq> 0 then Inr (ed\<lparr>edRest := edRest ed @ [d]\<rparr>)
         else if i = ucast genSourceNode then mapR (\<lambda>n. ed\<lparr>edSource := Some n\<rparr>) (fieldNodeId (ndData d))
         else if i = ucast genMessage then mapR (\<lambda>t. ed\<lparr>edMessage := Some t\<rparr>) (fieldText (ndData d))
         else if i = ucast genSeverity then mapR (\<lambda>v. ed\<lparr>edSeverity := Some v\<rparr>) (fieldInt (ndData d))
         else Inr ed
     | NodeIdString ns _ \<Rightarrow> if ns \<noteq> 0 then Inr (ed\<lparr>edRest := edRest ed @ [d]\<rparr>) else Inl UndefinedBehaviour)"

fun takeDefaults :: "io_node_data list \<Rightarrow> event_defaults \<Rightarrow> (cpp_error, event_defaults) res" where
  "takeDefaults [] ed = Inr ed"
| "takeDefaults (d # ds) ed = bindR (takeDefault d ed) (takeDefaults ds)"

definition eventDataOf :: "io_node_data list \<Rightarrow> (cpp_error, io_variant) res" where
  "eventDataOf fields' =
    bindR (takeDefaults fields' \<lparr>edSource = None, edMessage = None, edSeverity = None, edRest = []\<rparr>) (\<lambda>ed.
      case (edSource ed, edMessage ed, edSeverity ed) of
        (Some n, Some m, Some sev) \<Rightarrow>
          Inr (IOEventData n m sev (map (\<lambda>d. (ndNodeId d, ndData d, ndException d)) (edRest ed)))
      | _ \<Rightarrow> Inl GeneratorException)"

definition generateEvent :: "event_space \<Rightarrow> gen_env \<Rightarrow> ua_node_id \<Rightarrow> (gen_state, io_variant option) op" where
  "generateEvent es env objectType =
    catchP
      (bindP (\<lambda>g. map_option (\<lambda>p. (mapR (\<lambda>_. efFields (snd p)) (fst p), efGen (snd p)))
          (generateEventFieldData es env objectType objectType \<lparr>efGen = g, efNames = [], efFields = []\<rparr>)) (\<lambda>fs.
        liftP (mapR Some (eventDataOf fs))))
      (\<lambda>_. liftP (Inr None))"

fun generateEvents :: "event_space \<Rightarrow> gen_env \<Rightarrow> ua_node_id list \<Rightarrow> (gen_state, io_variant option list) op" where
  "generateEvents es env [] = liftP (Inr [])"
| "generateEvents es env (t # ts) =
     bindP (generateEvent es env t) (\<lambda>r.
     bindP (generateEvents es env ts) (\<lambda>rs. liftP (Inr (r # rs))))"

subsection \<open>The fields have distinct names\<close>

text \<open>The collected data belongs to nodes with the collected names, which are distinct.\<close>

definition namedFields :: "event_space \<Rightarrow> qualified_name list \<Rightarrow> io_node_id list \<Rightarrow> bool" where
  "namedFields es names nids \<longleftrightarrow>
    distinct names \<and> list_all2 (\<lambda>q nid. \<exists>n. esName es n = q \<and> ua2ioNodeId n = Inr nid) names nids"

definition fieldsInv :: "event_space \<Rightarrow> collected_fields \<Rightarrow> bool" where
  "fieldsInv es s = namedFields es (efNames s) (map ndNodeId (efFields s))"

lemma fieldsInv_gen [simp]: "fieldsInv es (s\<lparr>efGen := g\<rparr>) = fieldsInv es s"
  by (simp add: fieldsInv_def)

lemma fieldsInv_add:
  assumes "fieldsInv es s" "esName es n \<notin> set (efNames s)" "ua2ioNodeId n = Inr nid"
  shows "fieldsInv es (s\<lparr>efNames := efNames s @ [esName es n], efFields := efFields s @ [newNodeData nid v]\<rparr>)"
  using assms by (auto simp: fieldsInv_def namedFields_def newNodeData_def intro!: list_all2_appendI)

text \<open>The value of a field does not touch the names and fields.\<close>

definition fixesFields :: "(collected_fields, 'a) op \<Rightarrow> bool" where
  "fixesFields m = (\<forall>N F. keepsP (\<lambda>s. efNames s = N \<and> efFields s = F) m)"

lemma fixesFields_simps [simp]: "fixesFields (liftP r)" "fixesFields (getP g)"
  by (simp_all add: fixesFields_def)

lemma fixesFields_in [simp]: "fixesFields (inGen m)" "fixesFields (inSearch m')"
  by (auto simp: fixesFields_def keepsP_def hoareP_def inGen_def inSearch_def)

lemma fixesFields_bind: "fixesFields m \<Longrightarrow> (\<And>x. fixesFields (f x)) \<Longrightarrow> fixesFields (bindP m f)"
  unfolding fixesFields_def by (blast intro: keepsP_bind)

lemma eventFieldValue_fixes: "fixesFields (eventFieldValue es env root n)"
  unfolding eventFieldValue_def by (auto intro!: fixesFields_bind split: option.split)

lemma fixesFields_keeps:
  assumes "fixesFields m" "m s = Some (r, s')" "r \<noteq> Inl UndefinedBehaviour"
  shows "efNames s' = efNames s" "efFields s' = efFields s"
  using assms unfolding fixesFields_def keepsP_def hoareP_def by blast+

lemma eventField_keeps: "keepsP (fieldsInv es) (eventField es env root r)"
  unfolding eventField_def keepsP_def
proof (rule hoareP_catch)
  let ?n = "nrTarget r"
  show "hoareP (fieldsInv es) (\<lambda>_. True)
     (bindP (liftP (identifierNumeric (nrType r))) (\<lambda>i.
       bindP (getP efNames) (\<lambda>names.
         if i = OpcUaId_HasSubtype \<or> esName es ?n \<in> set names then liftP (Inr ())
         else
           bindP (liftP (ua2ioNodeId ?n)) (\<lambda>nid.
           bindP (eventFieldValue es env root ?n) (\<lambda>v.
             modifyP (\<lambda>s. s\<lparr>efNames := efNames s @ [esName es ?n],
                            efFields := efFields s @ [newNodeData nid (Some v)]\<rparr>)))))) (\<lambda>_ _. True)"
  proof (intro hoareP_bind hoareP_if)
    fix i names
    show "hoareP (fieldsInv es) (\<lambda>_. True) (getP efNames) (\<lambda>names s. names = efNames s)"
      by (rule hoareP_get) simp
    assume new: "\<not> (i = OpcUaId_HasSubtype \<or> esName es ?n \<in> set names)"
    show "hoareP (fieldsInv es) (\<lambda>s. names = efNames s) (liftP (ua2ioNodeId ?n))
        (\<lambda>nid s. ua2ioNodeId ?n = Inr nid \<and> esName es ?n \<notin> set (efNames s))"
      by (rule hoareP_lift) (use new in simp)
    fix nid
    show "hoareP (fieldsInv es) (\<lambda>s. ua2ioNodeId ?n = Inr nid \<and> esName es ?n \<notin> set (efNames s))
        (eventFieldValue es env root ?n) (\<lambda>_ s. ua2ioNodeId ?n = Inr nid \<and> esName es ?n \<notin> set (efNames s))"
      unfolding hoareP_def
    proof (intro allI impI)
      fix s q s'
      assume s: "fieldsInv es s" "ua2ioNodeId ?n = Inr nid \<and> esName es ?n \<notin> set (efNames s)"
        and run: "eventFieldValue es env root ?n s = Some (q, s')"
      show "q = Inl UndefinedBehaviour \<or> (fieldsInv es s' \<and>
          (\<forall>x. q = Inr x \<longrightarrow> ua2ioNodeId ?n = Inr nid \<and> esName es ?n \<notin> set (efNames s')))"
      proof (cases "q = Inl UndefinedBehaviour")
        case False
        from fixesFields_keeps [OF eventFieldValue_fixes run False] show ?thesis
          using s by (simp add: fieldsInv_def)
      qed simp
    qed
  qed (auto intro!: hoareP_lift hoareP_modify fieldsInv_add)
qed (auto intro!: hoareP_lift)

lemma eventFields_keeps: "keepsP (fieldsInv es) (eventFieldRefs es env root rs)"
proof (induction rs)
  case (Cons r rs)
  then show ?case unfolding eventFieldRefs.simps by (intro keepsP_bind [OF eventField_keeps])
qed simp

lemma superFields_keeps:
  assumes "\<And>n. keepsP (fieldsInv es) (gen n)"
  shows "keepsP (fieldsInv es) (superFields es gen rs)"
proof (induction rs)
  case (Cons r rs)
  show ?case
    unfolding superFields.simps by (intro keepsP_bind keepsP_catch keepsP_if keepsP_lift assms Cons)
qed simp

lemma generateEventFieldData_keeps: "keepsP (fieldsInv es) (generateEventFieldData es env root t)"
proof -
  have "fst y = Inl UndefinedBehaviour \<or> fieldsInv es (snd y)"
    if "generateEventFieldData es' env root t s = Some y" "es' = es" "fieldsInv es s" for es' env root t s y
    using that
  proof (induction rule: generateEventFieldData.raw_induct [rotated, consumes 1, case_names step])
    case (step rec es' env root t s y)
    have rec: "keepsP (fieldsInv es) (rec es env root n)" for n
      unfolding keepsP_def hoareP_def using step.IH step.prems(1) by fastforce
    have "keepsP (fieldsInv es) (eventFieldsStep es env root (rec es env root) t)"
      by (cases "esFieldRefs es t")
        (auto simp: eventFieldsStep_def intro!: keepsP_bind [OF eventFields_keeps] superFields_keeps rec)
    then show ?case using step.hyps step.prems keepsP_run by (cases y) fastforce
  qed
  then show ?thesis unfolding keepsP_def hoareP_def by fastforce
qed

fun ioNamespaceIndex :: "io_node_id \<Rightarrow> c_int" where
  "ioNamespaceIndex (NodeIdNumeric ns _) = ns"
| "ioNamespaceIndex (NodeIdString ns _) = ns"

definition ownField :: "io_node_data \<Rightarrow> bool" where
  "ownField d \<longleftrightarrow> ioNamespaceIndex (ndNodeId d) \<noteq> 0"

lemma takeDefault_rest:
  "takeDefault d ed = Inr ed' \<Longrightarrow> edRest ed' = edRest ed @ (if ownField d then [d] else [])"
  by (cases "ndNodeId d") (auto simp: takeDefault_def ownField_def mapR_eq_Inr split: if_splits)

lemma takeDefaults_rest: "takeDefaults ds ed = Inr ed' \<Longrightarrow> edRest ed' = edRest ed @ filter ownField ds"
proof (induction ds arbitrary: ed)
  case (Cons d ds)
  then obtain ed1 where "takeDefault d ed = Inr ed1" "takeDefaults ds ed1 = Inr ed'"
    by (auto simp: bindR_eq_Inr)
  then show ?case using Cons.IH takeDefault_rest [of d ed ed1] by simp
qed simp

lemma list_all2_filter_right:
  "list_all2 P xs ys \<Longrightarrow> \<exists>xs'. list_all2 P xs' (filter Q ys) \<and> set xs' \<subseteq> set xs \<and> (distinct xs \<longrightarrow> distinct xs')"
proof (induction rule: list_all2_induct)
  case (Cons x xs y ys)
  then obtain xs' where xs': "list_all2 P xs' (filter Q ys)" "set xs' \<subseteq> set xs" "distinct xs \<longrightarrow> distinct xs'"
    by blast
  show ?case
  proof (cases "Q y")
    case True
    then show ?thesis using xs' Cons.hyps by (intro exI [of _ "x # xs'"]) auto
  next
    case False
    then show ?thesis using xs' by (intro exI [of _ xs']) auto
  qed
qed auto

text \<open>What is promised of the data of a generated event.\<close>

definition eventOk :: "event_space \<Rightarrow> io_variant \<Rightarrow> bool" where
  "eventOk es e \<longleftrightarrow>
    (\<exists>n m sev fs. e = IOEventData n m sev fs \<and>
      list_all (\<lambda>f. ioNamespaceIndex (fst f) \<noteq> 0) fs \<and> (\<exists>names. namedFields es names (map fst fs)))"

lemma eventDataOf_ok:
  assumes "eventDataOf fs = Inr e" "namedFields es names (map ndNodeId fs)"
  shows "eventOk es e"
proof -
  obtain ed n m sev where ed: "takeDefaults fs \<lparr>edSource = None, edMessage = None, edSeverity = None, edRest = []\<rparr> = Inr ed"
    and e: "e = IOEventData n m sev (map (\<lambda>d. (ndNodeId d, ndData d, ndException d)) (edRest ed))"
  proof -
    obtain ed where ed: "takeDefaults fs \<lparr>edSource = None, edMessage = None, edSeverity = None, edRest = []\<rparr> = Inr ed"
      using assms(1) by (auto simp: eventDataOf_def bindR_eq_Inr)
    with assms(1) that [OF ed] show thesis
      by (cases "edSource ed"; cases "edMessage ed"; cases "edSeverity ed") (auto simp: eventDataOf_def)
  qed
  have rest: "edRest ed = filter ownField fs" using takeDefaults_rest [OF ed] by simp
  have "list_all2 (\<lambda>q nid. \<exists>n. esName es n = q \<and> ua2ioNodeId n = Inr nid) names (map ndNodeId fs)"
    using assms(2) by (simp add: namedFields_def)
  from list_all2_filter_right [OF this, of "\<lambda>nid. ioNamespaceIndex nid \<noteq> 0"]
  obtain names' where "namedFields es names' (filter (\<lambda>nid. ioNamespaceIndex nid \<noteq> 0) (map ndNodeId fs))"
    using assms(2) unfolding namedFields_def by blast
  moreover have "filter (\<lambda>nid. ioNamespaceIndex nid \<noteq> 0) (map ndNodeId fs) = map ndNodeId (edRest ed)"
    unfolding rest by (simp add: filter_map comp_def ownField_def [abs_def])
  moreover have "list_all (\<lambda>d. ioNamespaceIndex (ndNodeId d) \<noteq> 0) (edRest ed)"
    unfolding rest by (auto simp: list_all_iff ownField_def)
  ultimately show ?thesis by (auto simp: eventOk_def e comp_def list_all_iff)
qed

lemma generateEvent_ok: "yieldsP (generateEvent es env t) (\<lambda>r. case r of None \<Rightarrow> True | Some e \<Rightarrow> eventOk es e)"
proof -
  have fields': "yieldsP (\<lambda>g. map_option (\<lambda>p. (mapR (\<lambda>_. efFields (snd p)) (fst p), efGen (snd p)))
      (generateEventFieldData es env t t \<lparr>efGen = g, efNames = [], efFields = []\<rparr>))
    (\<lambda>fs. \<exists>names. namedFields es names (map ndNodeId fs))"
    unfolding yieldsP_def
  proof (intro allI impI)
    fix g fs g'
    assume "map_option (\<lambda>p. (mapR (\<lambda>_. efFields (snd p)) (fst p), efGen (snd p)))
      (generateEventFieldData es env t t \<lparr>efGen = g, efNames = [], efFields = []\<rparr>) = Some (Inr fs, g')"
    then obtain u s where run: "generateEventFieldData es env t t \<lparr>efGen = g, efNames = [], efFields = []\<rparr> = Some (Inr u, s)"
      "fs = efFields s" by (auto simp: mapR_eq_Inr)
    have "fieldsInv es s"
      by (rule keepsP_run [OF generateEventFieldData_keeps _ run(1)])
        (simp_all add: fieldsInv_def namedFields_def)
    then show "\<exists>names. namedFields es names (map ndNodeId fs)" using run(2) by (auto simp: fieldsInv_def)
  qed
  show ?thesis
    unfolding generateEvent_def
  proof (rule yieldsP_catch, rule yieldsP_bind [OF fields'], rule yieldsP_lift)
    fix fs r
    assume "\<exists>names. namedFields es names (map ndNodeId fs)" "mapR Some (eventDataOf fs) = Inr r"
    then show "case r of None \<Rightarrow> True | Some e \<Rightarrow> eventOk es e"
      using eventDataOf_ok by (fastforce simp: mapR_eq_Inr)
  qed simp
qed

lemma generateEvents_ok:
  "yieldsP (generateEvents es env ts)
     (\<lambda>rs. length rs = length ts \<and> list_all (\<lambda>r. case r of None \<Rightarrow> True | Some e \<Rightarrow> eventOk es e) rs)"
proof (induction ts)
  case (Cons t ts)
  show ?case
    unfolding generateEvents.simps
    by (intro yieldsP_bind [OF generateEvent_ok] yieldsP_bind [OF Cons] yieldsP_lift) auto
qed simp


subsection \<open>The source node is an instance\<close>

definition subTypeRef :: "event_space \<Rightarrow> ua_node_id \<Rightarrow> ua_node_id \<Rightarrow> bool" where
  "subTypeRef es t t' \<longleftrightarrow> (\<exists>refs. esSubTypeRefs es t = Some refs \<and> t' \<in> nrTarget ` set refs)"

text \<open>An inverse reference of an object type with the given number as type.\<close>

definition inverseRef :: "event_space \<Rightarrow> 32 word \<Rightarrow> ua_node_id \<Rightarrow> ua_node_id \<Rightarrow> bool" where
  "inverseRef es i t t' \<longleftrightarrow>
    (\<exists>refs r. esInverseRefs es t = Some refs \<and> r \<in> set refs \<and> identifierNumeric (nrType r) = Inr i \<and> nrTarget r = t')"

inductive instanceBelow :: "event_space \<Rightarrow> ua_node_id set \<Rightarrow> ua_node_id \<Rightarrow> ua_node_id \<Rightarrow> bool"
  for es types where
  here: "esInstanceRefs es n = Some refs \<Longrightarrow> r \<in> set refs \<Longrightarrow>
    identifierNumeric (nrType r) = Inr OpcUaId_HasTypeDefinition \<Longrightarrow> nrTarget r \<in> types \<Longrightarrow>
    instanceBelow es types n n"
| below: "esInstanceRefs es n = Some refs \<Longrightarrow> r \<in> set refs \<Longrightarrow> identifierNumeric (nrType r) = Inr i \<Longrightarrow>
    i \<in> set hierarchicalIds \<Longrightarrow> instanceBelow es types (nrTarget r) k \<Longrightarrow> instanceBelow es types n k"

interpretation subTypes: work_invariant "visitSubType es"
    "\<lambda>types pending. set types \<union> set pending \<subseteq> {t'. (subTypeRef es)\<^sup>*\<^sup>* t t'}" "\<lambda>_ _. True" for es t
proof unfold_locales
  fix types n rest found types'
  assume I: "set types \<union> set (n # rest) \<subseteq> {t'. (subTypeRef es)\<^sup>*\<^sup>* t t'}"
    and v: "visitSubType es n types = (Inr found, types')"
  then obtain refs where refs: "esSubTypeRefs es n = Some refs" "found = map nrTarget refs" "types' = types @ [n]"
    by (auto simp: visitSubType_def split: option.splits)
  have "(subTypeRef es)\<^sup>*\<^sup>* t x" if "x \<in> set found" for x
  proof -
    have "subTypeRef es n x" using that refs by (auto simp: subTypeRef_def)
    then show ?thesis using I by (auto intro: rtranclp.rtrancl_into_rtrancl)
  qed
  then show "set types' \<union> set (found @ rest) \<subseteq> {t'. (subTypeRef es)\<^sup>*\<^sup>* t t'}" using I refs(3) by auto
qed simp

lemma typesOf_sound: "yieldsP (typesOf es t) (\<lambda>types. set types \<subseteq> {t'. (subTypeRef es)\<^sup>*\<^sup>* t t'})"
  unfolding yieldsP_def
proof (intro allI impI)
  fix s types s'
  assume "typesOf es t s = Some (Inr types, s')"
  then obtain u acc where run: "getSubTypes es t [] = Some (Inr u, acc)" "types = acc @ [t]"
    by (auto simp: typesOf_def split: option.splits sum.splits prod.splits)
  then obtain refs where refs: "esSubTypeRefs es t = Some refs"
    "workLoop (visitSubType es) (map nrTarget refs) [] = Some (Inr u, acc)"
    by (auto simp: getSubTypes_def split: option.splits)
  have "set [] \<union> set (map nrTarget refs) \<subseteq> {t'. (subTypeRef es)\<^sup>*\<^sup>* t t'}"
    using refs(1) by (auto simp: subTypeRef_def)
  from subTypes.loop_result [OF refs(2) this] show "set types \<subseteq> {t'. (subTypeRef es)\<^sup>*\<^sup>* t t'}"
    using run(2) by auto
qed

definition maybe :: "('a \<Rightarrow> bool) \<Rightarrow> 'a option \<Rightarrow> bool" where
  "maybe Q r = (case r of None \<Rightarrow> True | Some x \<Rightarrow> Q x)"

lemma maybe_simps [simp]: "maybe Q None" "maybe Q (Some x) \<longleftrightarrow> Q x"
  by (simp_all add: maybe_def)

lemma instanceLoop_sound:
  assumes "\<And>n. yieldsP (search n) (maybe (instanceBelow es (set types) n))"
  shows "esInstanceRefs es root = Some refs \<Longrightarrow> set rs \<subseteq> set refs \<Longrightarrow>
    yieldsP (instanceLoop es types search root rs) (maybe (instanceBelow es (set types) root))"
proof (induction rs)
  case (Cons r rs)
  have r: "r \<in> set refs" using Cons.prems by simp
  have one: "yieldsP (bindP (liftP (identifierNumeric (nrType r))) (\<lambda>i.
         if i = OpcUaId_HasTypeDefinition then liftP (Inr (if nrTarget r \<in> set types then Some root else None))
         else if i \<in> set hierarchicalIds \<and> esClass es (nrTarget r) \<noteq> None then
           catchP (search (nrTarget r)) (\<lambda>_. liftP (Inr None))
         else liftP (Inr None))) (maybe (instanceBelow es (set types) root))"
  proof (rule yieldsP_bind_lift)
    fix i assume i: "identifierNumeric (nrType r) = Inr i"
    show "yieldsP (if i = OpcUaId_HasTypeDefinition then liftP (Inr (if nrTarget r \<in> set types then Some root else None))
         else if i \<in> set hierarchicalIds \<and> esClass es (nrTarget r) \<noteq> None then
           catchP (search (nrTarget r)) (\<lambda>_. liftP (Inr None))
         else liftP (Inr None)) (maybe (instanceBelow es (set types) root))"
    proof (intro yieldsP_if)
      assume h: "i \<in> set hierarchicalIds \<and> esClass es (nrTarget r) \<noteq> None"
      have "maybe (instanceBelow es (set types) root) x" if "maybe (instanceBelow es (set types) (nrTarget r)) x" for x
        using that h instanceBelow.below [OF Cons.prems(1) r i] by (cases x) auto
      then show "yieldsP (catchP (search (nrTarget r)) (\<lambda>_. liftP (Inr None))) (maybe (instanceBelow es (set types) root))"
        by (intro yieldsP_catch yieldsP_weaken [OF assms]) simp_all
    next
      assume "i = OpcUaId_HasTypeDefinition"
      then have "nrTarget r \<in> set types \<Longrightarrow> instanceBelow es (set types) root root"
        using instanceBelow.here [OF Cons.prems(1) r] i by simp
      then show "yieldsP (liftP (Inr (if nrTarget r \<in> set types then Some root else None)))
          (maybe (instanceBelow es (set types) root))" by simp
    qed simp
  qed
  then show ?case
    unfolding instanceLoop.simps using Cons by (intro yieldsP_bind [OF one] yieldsP_if) auto
qed simp

lemma getInstance_sound: "yieldsP (getInstance es types root) (maybe (instanceBelow es (set types) root))"
proof -
  have "\<forall>x. fst y = Inr x \<longrightarrow> maybe (instanceBelow es (set types) root) x"
    if "getInstance es' types' root s = Some y" "es' = es" "types' = types" for es' types' root s y
    using that
  proof (induction rule: getInstance.raw_induct [rotated, consumes 1, case_names step])
    case (step rec es' types' root s y)
    have rec: "yieldsP (rec es types n) (maybe (instanceBelow es (set types) n))" for n
      unfolding yieldsP_def using step.IH step.prems by fastforce
    have "yieldsP (instanceStep es types (rec es types) root) (maybe (instanceBelow es (set types) root))"
      using instanceLoop_sound [OF rec] by (auto simp: instanceStep_def split: option.split)
    then show ?case using step.hyps step.prems unfolding yieldsP_def by (cases y) auto
  qed
  then show ?thesis unfolding yieldsP_def by fastforce
qed

text \<open>What the search for the source node of an event type may find.\<close>

definition sourceNodeOf :: "event_space \<Rightarrow> ua_node_id \<Rightarrow> ua_node_id \<Rightarrow> bool" where
  "sourceNodeOf es t n \<longleftrightarrow>
    (\<exists>t' g. (inverseRef es OpcUaId_HasSubtype)\<^sup>*\<^sup>* t t' \<and> inverseRef es OpcUaId_GeneratesEvent t' g \<and>
      instanceBelow es {k. (subTypeRef es)\<^sup>*\<^sup>* g k} objectsFolder n)"

lemma instanceBelow_mono: "instanceBelow es A n k \<Longrightarrow> A \<subseteq> B \<Longrightarrow> instanceBelow es B n k"
  by (induction rule: instanceBelow.induct) (auto intro: instanceBelow.intros)

lemma sourceLoop_sound:
  assumes "\<And>n. yieldsP (search n) (maybe (sourceNodeOf es n))"
  shows "esInverseRefs es t = Some refs \<Longrightarrow> set rs \<subseteq> set refs \<Longrightarrow>
    yieldsP (sourceLoop es search rs) (maybe (sourceNodeOf es t))"
proof (induction rs)
  case (Cons r rs)
  have one: "yieldsP (sourceOf es search r) (maybe (sourceNodeOf es t))"
    unfolding sourceOf_def
  proof (intro yieldsP_bind_lift yieldsP_if)
    fix i
    assume "identifierNumeric (nrType r) = Inr i" "i = OpcUaId_HasSubtype"
    then have "inverseRef es OpcUaId_HasSubtype t (nrTarget r)"
      using Cons.prems by (auto simp: inverseRef_def)
    then have "maybe (sourceNodeOf es t) x" if "maybe (sourceNodeOf es (nrTarget r)) x" for x
      using that by (cases x) (auto simp: sourceNodeOf_def intro: converse_rtranclp_into_rtranclp)
    then show "yieldsP (search (nrTarget r)) (maybe (sourceNodeOf es t))"
      by (intro yieldsP_weaken [OF assms])
  next
    fix i
    assume "identifierNumeric (nrType r) = Inr i" "i = OpcUaId_GeneratesEvent"
    then have g: "inverseRef es OpcUaId_GeneratesEvent t (nrTarget r)"
      using Cons.prems by (auto simp: inverseRef_def)
    show "yieldsP (bindP (typesOf es (nrTarget r)) (\<lambda>types.
        bindP (liftP (guardR (esClass es objectsFolder \<noteq> None) UndefinedBehaviour)) (\<lambda>_.
          getInstance es types objectsFolder))) (maybe (sourceNodeOf es t))"
    proof (rule yieldsP_bind [OF typesOf_sound], rule yieldsP_bind_lift, rule yieldsP_weaken [OF getInstance_sound])
      fix types x
      assume "set types \<subseteq> {t'. (subTypeRef es)\<^sup>*\<^sup>* (nrTarget r) t'}" "maybe (instanceBelow es (set types) objectsFolder) x"
      then show "maybe (sourceNodeOf es t) x"
        using g by (cases x) (auto simp: sourceNodeOf_def intro: instanceBelow_mono)
    qed
  qed (auto intro: yieldsP_lift)
  then show ?case
    unfolding sourceLoop.simps using Cons by (intro yieldsP_bind [OF one] yieldsP_if) auto
qed simp

text \<open>
  C17. The source node that is found for an event type is an instance below the objects folder, over
  hierarchical references, of a type that generates the event type or one of its super types, or of a sub
  type of such a type.
\<close>

theorem source_node_instance:
  assumes "getEventSourceNode es t u = Some (Inr (Some n), u')"
  shows "sourceNodeOf es t n"
proof -
  have "\<forall>x. fst y = Inr x \<longrightarrow> maybe (sourceNodeOf es t) x"
    if "getEventSourceNode es' t s = Some y" "es' = es" for es' t s y
    using that
  proof (induction rule: getEventSourceNode.raw_induct [rotated, consumes 1, case_names step])
    case (step rec es' t s y)
    have rec: "yieldsP (rec es n) (maybe (sourceNodeOf es n))" for n
      unfolding yieldsP_def using step.IH step.prems by fastforce
    have "yieldsP (sourceStep es (rec es) t) (maybe (sourceNodeOf es t))"
      using sourceLoop_sound [OF rec] by (auto simp: sourceStep_def split: option.split)
    then show ?case using step.hyps step.prems unfolding yieldsP_def by (cases y) auto
  qed
  from this [OF assms refl] show ?thesis by simp
qed

subsection \<open>A concrete event type\<close>

definition generatorRef :: "32 word \<Rightarrow> bool \<Rightarrow> ua_node_id \<Rightarrow> node_ref" where
  "generatorRef i forward n = \<lparr>nrType = UaNumeric 0 i, nrForward = forward, nrTarget = n\<rparr>"

text \<open>
  The event type \<open>1:100\<close> with a field of its own, derived from the base event type; objects of the type
  \<open>1:200\<close> generate it, and \<open>1:300\<close> is such an object.
\<close>

definition generatorSpace :: event_space where
  "generatorSpace =
    \<lparr>esFieldRefs = (\<lambda>n.
       if n = UaNumeric 1 100 then Some [generatorRef 46 True (UaNumeric 1 101), generatorRef 45 False (UaNumeric 0 2041)]
       else if n = UaNumeric 0 2041 then
         Some (map (generatorRef 46 True) [UaNumeric 0 2044, UaNumeric 0 2050, UaNumeric 0 2051, UaNumeric 1 102])
       else None),
     esInverseRefs = (\<lambda>n.
       if n = UaNumeric 1 100 then Some [generatorRef 45 False (UaNumeric 0 2041), generatorRef 41 False (UaNumeric 1 200)]
       else Some []),
     esSubTypeRefs = (\<lambda>n. Some []),
     esInstanceRefs = (\<lambda>n.
       if n = UaNumeric 0 85 then Some [generatorRef 40 True (UaNumeric 0 61), generatorRef 35 True (UaNumeric 1 300)]
       else if n = UaNumeric 1 300 then Some [generatorRef 40 True (UaNumeric 1 200)]
       else None),
     esClass = (\<lambda>n. Some (if n = UaNumeric 1 100 \<or> n = UaNumeric 0 2041 then NcObjectType
       else if n = UaNumeric 0 85 \<or> n = UaNumeric 1 300 then NcObject else NcVariable)),
     esName = (\<lambda>n. (0, if n = UaNumeric 0 2044 then ''SourceNode'' else if n = UaNumeric 0 2050 then ''Message''
       else if n = UaNumeric 0 2051 then ''Severity'' else ''Level'')),
     esVariable = (\<lambda>n. \<lparr>gvNodeId = n, gvTypeDefinition = UaNumeric 0 68,
       gvDataType = UaNumeric 0 (if n = UaNumeric 0 2050 then 21 else if n = UaNumeric 0 2051 then 5 else 6),
       gvValueRank = -1\<rparr>)\<rparr>"

lemma example_source:
  "getEventSourceNode generatorSpace (UaNumeric 1 100) () = Some (Inr (Some (UaNumeric 1 300)), ())"
  by code_simp

definition exampleEventData :: io_variant where
  "exampleEventData = IOEventData (NodeIdNumeric 1 300) ''string2'' 3
    [(NodeIdNumeric 1 101, Some (IOScalar (IOLong 1)), None)]"

lemma example_generated_event:
  "generateEvents generatorSpace (exampleGen\<lparr>gnTrace := False\<rparr>) [UaNumeric 1 100] genInitial =
    Some (Inr [Some exampleEventData], \<lparr>gsCounter = 4, gsClock = 0\<rparr>)"
  by code_simp


theorem source_node_instance_witness: "sourceNodeOf generatorSpace (UaNumeric 1 100) (UaNumeric 1 300)"
  by (rule source_node_instance [OF example_source])

end
