(* ===== verification/Generator_Provider.thy ===== *)
theory Generator_Provider
  imports Event_Generator Converter_Io2Ua "HOL-Library.AList"
begin

text \<open>
  The data provider of generated values
  (\<open>sasModelProvider/base/generator/GeneratorIODataProvider.cpp\<close>): reading, calls, subscriptions and the
  events that are fired with each call. The callbacks of subscribers are parameters; locking and sleeping
  are left out.
\<close>

text \<open>
  The registered event types with the number of their callback, in the order of their first registration
  (the order of a \<open>std::map\<close> over \<open>UaNodeId\<close> is the SDK's), and the events that were fired.
\<close>

record gen_provider =
  gpGen :: gen_state
  gpEventTypes :: "(ua_node_id \<times> nat) list"
  gpFired :: "(nat \<times> io_node_id \<times> io_variant) list"

definition newGenProvider :: gen_provider where
  "newGenProvider = \<lparr>gpGen = genInitial, gpEventTypes = [], gpFired = []\<rparr>"

definition onGen :: "(gen_state, 'a) op \<Rightarrow> (gen_provider, 'a) op" where
  "onGen m = (\<lambda>s. map_option (\<lambda>p. (fst p, s\<lparr>gpGen := snd p\<rparr>)) (m (gpGen s)))"

subsection \<open>Reading\<close>

text \<open>A node that is not a variable leaves a \<open>NULL\<close> pointer, which is dereferenced.\<close>

definition getVariables :: "event_space \<Rightarrow> io_node_id list \<Rightarrow> (cpp_error, gen_variable list) res" where
  "getVariables es nodeIds =
    traverseR (\<lambda>n. mapR (\<lambda>_. esVariable es (io2uaNodeId n))
      (guardR (esClass es (io2uaNodeId n) = Some NcVariable) UndefinedBehaviour)) nodeIds"

text \<open>The value of a variable; a value that cannot be converted is \<open>NULL\<close>.\<close>

definition readGenerated :: "converter_env \<Rightarrow> gen_variable \<times> ua_variant option \<Rightarrow> (cpp_error, io_node_data) res" where
  "readGenerated conv p =
    (case p of (var, g) \<Rightarrow>
       bindR (ua2ioNodeId (gvNodeId var)) (\<lambda>nid.
       mapR (newNodeData nid)
         (case g of None \<Rightarrow> Inr None | Some v \<Rightarrow> attemptR (ua2io conv v (gvDataType var)))))"

text \<open>The \<open>i\<close>th generated value is paired with the \<open>i\<close>th variable.\<close>

definition genRead :: "event_space \<Rightarrow> gen_env \<Rightarrow> io_node_id list \<Rightarrow> (gen_state, io_node_data list) op" where
  "genRead es env nodeIds =
    bindP (liftP (getVariables es nodeIds)) (\<lambda>vars.
    bindP (generateVariables env vars) (\<lambda>gs.
      liftP (traverseR (readGenerated (gnConv env)) (zip vars gs))))"

subsection \<open>Events\<close>

text \<open>
  Each event of a registered type is handed to its callback. An exception is only recorded when one was
  recorded before, so none is ever thrown.
\<close>

type_synonym event_callback = "nat \<Rightarrow> io_node_id \<Rightarrow> io_variant \<Rightarrow> (cpp_error, unit) res"

definition fireEvent :: "event_callback \<Rightarrow> (ua_node_id \<times> nat) \<times> io_variant option \<Rightarrow> (gen_provider, unit) op" where
  "fireEvent notify p =
    (case p of ((t, callback), event) \<Rightarrow>
       (case event of
          None \<Rightarrow> liftP (Inr ())
        | Some e \<Rightarrow>
            catchP
              (bindP (liftP (ua2ioNodeId t)) (\<lambda>nid.
               bindP (modifyP (\<lambda>s. s\<lparr>gpFired := gpFired s @ [(callback, nid, e)]\<rparr>)) (\<lambda>_.
                 liftP (notify callback nid e))))
              (\<lambda>_. liftP (Inr ()))))"

fun fireAll :: "event_callback \<Rightarrow> ((ua_node_id \<times> nat) \<times> io_variant option) list \<Rightarrow> (gen_provider, unit) op" where
  "fireAll notify [] = liftP (Inr ())"
| "fireAll notify (p # ps) = bindP (fireEvent notify p) (\<lambda>_. fireAll notify ps)"

definition fireEvents :: "event_space \<Rightarrow> gen_env \<Rightarrow> event_callback \<Rightarrow> (gen_provider, unit) op" where
  "fireEvents es env notify =
    catchP
      (bindP (getP gpEventTypes) (\<lambda>types.
       bindP (liftP (guardR (list_all (\<lambda>p. esClass es (fst p) = Some NcObjectType) types) UndefinedBehaviour)) (\<lambda>_.
       bindP (onGen (generateEvents es env (map fst types))) (\<lambda>events.
         fireAll notify (zip types events)))))
      (\<lambda>_. liftP (Inr ()))"

subsection \<open>Calls\<close>

definition genEventCount :: nat where "genEventCount = 10"

fun fireTimes :: "nat \<Rightarrow> (gen_provider, unit) op \<Rightarrow> (gen_provider, unit) op" where
  "fireTimes 0 fire = liftP (Inr ())"
| "fireTimes (Suc n) fire = bindP fire (\<lambda>_. fireTimes n fire)"

text \<open>
  The output arguments of a method, \<open>None\<close> when the method has none; \<open>NULL\<close> for an argument that cannot be
  generated.
\<close>

definition genCallOne ::
  "event_space \<Rightarrow> gen_env \<Rightarrow> (ua_node_id \<Rightarrow> (ua_node_id \<times> c_int) list option) \<Rightarrow> io_method_data \<Rightarrow>
   (gen_state, io_node_id \<times> io_node_id \<times> io_variant option list) op"
where
  "genCallOne es env outputArguments md =
    bindP (liftP (guardR (esClass es (io2uaNodeId (mdMethodNodeId md)) = Some NcMethod) UndefinedBehaviour)) (\<lambda>_.
      case outputArguments (io2uaNodeId (mdMethodNodeId md)) of
        None \<Rightarrow> liftP (Inr (mdObjectNodeId md, mdMethodNodeId md, []))
      | Some args \<Rightarrow>
          bindP (generateArguments env args) (\<lambda>gs.
            liftP (mapR (\<lambda>vs. (mdObjectNodeId md, mdMethodNodeId md, vs))
              (traverseR (\<lambda>(arg, g). case g of None \<Rightarrow> Inr None | Some v \<Rightarrow> mapR Some (ua2io (gnConv env) v (fst arg)))
                (zip args gs)))))"

fun genCallAll ::
  "event_space \<Rightarrow> gen_env \<Rightarrow> (ua_node_id \<Rightarrow> (ua_node_id \<times> c_int) list option) \<Rightarrow> io_method_data list \<Rightarrow>
   (gen_state, (io_node_id \<times> io_node_id \<times> io_variant option list) list) op"
where
  "genCallAll es env outputArguments [] = liftP (Inr [])"
| "genCallAll es env outputArguments (md # mds) =
     bindP (genCallOne es env outputArguments md) (\<lambda>r.
     bindP (genCallAll es env outputArguments mds) (\<lambda>rs. liftP (Inr (r # rs))))"

definition genCall ::
  "event_space \<Rightarrow> gen_env \<Rightarrow> event_callback \<Rightarrow> (ua_node_id \<Rightarrow> (ua_node_id \<times> c_int) list option) \<Rightarrow>
   io_method_data list \<Rightarrow> (gen_provider, (io_node_id \<times> io_node_id \<times> io_variant option list) list) op"
where
  "genCall es env notify outputArguments mds =
    bindP (fireTimes genEventCount (fireEvents es env notify)) (\<lambda>_.
      onGen (genCallAll es env outputArguments mds))"

subsection \<open>Subscriptions\<close>

text \<open>Variables are collected and event types registered, until a node is not found.\<close>

fun subscribeNodes ::
  "event_space \<Rightarrow> nat \<Rightarrow> io_node_id list \<Rightarrow> io_node_id list \<Rightarrow> (gen_provider, io_node_id list) op"
where
  "subscribeNodes es callback [] variables = liftP (Inr variables)"
| "subscribeNodes es callback (n # ns) variables =
     (case esClass es (io2uaNodeId n) of
        None \<Rightarrow> liftP (Inl GeneratorException)
      | Some c \<Rightarrow>
          if c = NcVariable then subscribeNodes es callback ns (variables @ [n])
          else if c = NcObjectType then
            bindP (modifyP (\<lambda>s. s\<lparr>gpEventTypes := AList.update (io2uaNodeId n) callback (gpEventTypes s)\<rparr>))
              (\<lambda>_. subscribeNodes es callback ns variables)
          else subscribeNodes es callback ns variables)"

text \<open>The first data of the node, or \<open>NULL\<close> data.\<close>

definition subscribedData :: "io_node_data list \<Rightarrow> io_node_id \<Rightarrow> io_node_data" where
  "subscribedData variablesData n =
    (case find (\<lambda>d. nodeIdEquals (ndNodeId d) n) variablesData of None \<Rightarrow> newNodeData n None | Some d \<Rightarrow> d)"

definition genSubscribe ::
  "event_space \<Rightarrow> gen_env \<Rightarrow> nat \<Rightarrow> io_node_id list \<Rightarrow> (gen_provider, io_node_data list) op"
where
  "genSubscribe es env callback nodeIds =
    bindP (subscribeNodes es callback nodeIds []) (\<lambda>variables.
    bindP (onGen (genRead es env variables)) (\<lambda>variablesData.
      liftP (Inr (map (subscribedData variablesData) nodeIds))))"

subsection \<open>What a reader gets\<close>

lemma getVariables_result:
  "getVariables es nodeIds = Inr vars \<Longrightarrow> vars = map (\<lambda>n. esVariable es (io2uaNodeId n)) nodeIds"
  by (induction nodeIds arbitrary: vars) (auto simp: getVariables_def bindR_eq_Inr mapR_eq_Inr)

lemma readGenerated_result:
  assumes "readGenerated conv (var, g) = Inr d" "ua2ioNodeId (gvNodeId var) = Inr n"
    and "case g of None \<Rightarrow> True | Some v \<Rightarrow> isOk (ua2io conv v (gvDataType var))"
  shows "ndNodeId d = n \<and> (ndData d = None \<longleftrightarrow> g = None)"
  using assms by (cases g) (auto simp: readGenerated_def mapR_eq_Inr newNodeData_def isOk_iff)

lemma readData_all:
  "list_all2 (\<lambda>v g. case g of None \<Rightarrow> True | Some x \<Rightarrow> isOk (ua2io conv x (gvDataType v))) vars gs \<Longrightarrow>
   traverseR (readGenerated conv) (zip vars gs) = Inr ds \<Longrightarrow>
   traverseR (\<lambda>v. ua2ioNodeId (gvNodeId v)) vars = Inr ns \<Longrightarrow>
   map ndNodeId ds = ns \<and> list_all2 (\<lambda>g d. ndData d = None \<longleftrightarrow> g = None) gs ds"
proof (induction arbitrary: ds ns rule: list_all2_induct)
  case (Cons v vs g gs)
  then show ?case
    using readGenerated_result [of conv v g] by (fastforce simp: bindR_eq_Inr)
qed simp

text \<open>
  Reading variables that are not dictionaries gives one result for each node id, in order and for
  that node, and its data is \<open>NULL\<close> only when no value could be generated.
\<close>

theorem read_aligned:
  assumes "typesReadable (gnConv env)"
    and "\<forall>n. ua2ioNodeId (gvNodeId (esVariable es (io2uaNodeId n))) = Inr n \<or> n \<notin> set nodeIds"
    and "\<forall>n. gvTypeDefinition (esVariable es (io2uaNodeId n)) \<notin> set dictionaryTypes \<or> n \<notin> set nodeIds"
    and "genRead es env nodeIds s = Some (Inr ds, s')"
  shows "map ndNodeId ds = nodeIds \<and>
    (\<exists>gs. generateVariables env (map (\<lambda>n. esVariable es (io2uaNodeId n)) nodeIds) s = Some (Inr gs, s') \<and>
      list_all2 (\<lambda>g d. ndData d = None \<longleftrightarrow> g = None) gs ds)"
proof -
  let ?vars = "map (\<lambda>n. esVariable es (io2uaNodeId n)) nodeIds"
  obtain gs where gs: "generateVariables env ?vars s = Some (Inr gs, s')"
    "traverseR (readGenerated (gnConv env)) (zip ?vars gs) = Inr ds"
    using assms(4) getVariables_result [of es nodeIds] by (auto simp: genRead_def bindP_eq_Some)
  have "filter (\<lambda>v. gvTypeDefinition v \<notin> set dictionaryTypes) ?vars = ?vars"
    using assms(3) by (auto simp: filter_id_conv)
  then have "list_all2 (\<lambda>v r. case r of None \<Rightarrow> True | Some x \<Rightarrow> isOk (ua2io (gnConv env) x (gvDataType v))) ?vars gs"
    using generateVariables_ok [OF assms(1), of ?vars] gs(1) unfolding yieldsP_def by metis
  moreover have "traverseR (\<lambda>v. ua2ioNodeId (gvNodeId v)) ?vars = Inr nodeIds"
    unfolding traverseR_map comp_def using assms(2)
    by (intro traverseR_all [where g = "\<lambda>n. n", simplified]) blast
  ultimately show ?thesis using readData_all [OF _ gs(2)] gs(1) by blast
qed

subsection \<open>What a subscriber gets\<close>

lemma subscribeNodes_result:
  "subscribeNodes es callback ns vs s = Some (Inr vs', s') \<Longrightarrow>
   map_of (gpEventTypes s') t =
     (if \<exists>n \<in> set ns. esClass es (io2uaNodeId n) = Some NcObjectType \<and> io2uaNodeId n = t then Some callback
      else map_of (gpEventTypes s) t)"
proof (induction ns arbitrary: vs s)
  case (Cons n ns)
  then show ?case
    by (cases "esClass es (io2uaNodeId n)") (auto simp: update_conv split: if_splits)
qed simp

lemma onGen_types: "onGen m s = Some (r, s') \<Longrightarrow> gpEventTypes s' = gpEventTypes s \<and> gpFired s' = gpFired s"
  by (auto simp: onGen_def)

text \<open>
  A subscription that succeeds answers for every node in the order of the request, with the data of
  that node or \<open>NULL\<close>, and afterwards exactly its object types are registered with its callback in addition.
\<close>

theorem subscribe_aligned:
  assumes "genSubscribe es env callback nodeIds s = Some (Inr ds, s')"
  shows "map ndNodeId ds = nodeIds \<and>
    map_of (gpEventTypes s') t =
      (if t \<in> io2uaNodeId ` {n \<in> set nodeIds. esClass es (io2uaNodeId n) = Some NcObjectType} then Some callback
       else map_of (gpEventTypes s) t)"
proof -
  obtain vs s1 vd where run: "subscribeNodes es callback nodeIds [] s = Some (Inr vs, s1)"
    "onGen (genRead es env vs) s1 = Some (Inr vd, s')" "ds = map (subscribedData vd) nodeIds"
    using assms by (auto simp: genSubscribe_def bindP_eq_Some)
  have "ndNodeId (subscribedData vd n) = n" for n
    by (auto simp: subscribedData_def newNodeData_def find_Some_iff split: option.split)
  then have "map ndNodeId ds = nodeIds" by (simp add: run(3) comp_def)
  moreover have "map_of (gpEventTypes s') t =
      (if t \<in> io2uaNodeId ` {n \<in> set nodeIds. esClass es (io2uaNodeId n) = Some NcObjectType} then Some callback
       else map_of (gpEventTypes s) t)"
    using subscribeNodes_result [OF run(1), of t] onGen_types [OF run(2)] by (auto simp: image_iff)
  ultimately show ?thesis by blast
qed

subsection \<open>What the callbacks get\<close>

text \<open>An event that may be fired for the registered types.\<close>

definition firedOk :: "event_space \<Rightarrow> (ua_node_id \<times> nat) list \<Rightarrow> nat \<times> io_node_id \<times> io_variant \<Rightarrow> bool" where
  "firedOk es types f = (case f of (callback, nid, e) \<Rightarrow>
    eventOk es e \<and> (\<exists>t. (t, callback) \<in> set types \<and> ua2ioNodeId t = Inr nid))"

lemma fireEvent_result:
  assumes "fireEvent notify ((t, c), r) s = Some (q, s')" "(t, c) \<in> set types" "case r of None \<Rightarrow> True | Some e \<Rightarrow> eventOk es e"
  shows "(q = Inr () \<or> q = Inl UndefinedBehaviour) \<and>
    (\<exists>new. gpFired s' = gpFired s @ new \<and> list_all (firedOk es types) new)"
proof (cases r)
  case (Some e)
  show ?thesis
  proof (cases "ua2ioNodeId t")
    case (Inr nid)
    have "firedOk es types (c, nid, e)" using assms(2,3) Some Inr by (auto simp: firedOk_def)
    then show ?thesis
      using assms(1) Some Inr by (cases "notify c nid e") (auto simp: fireEvent_def catchP_def split: if_splits)
  qed (use assms(1) Some in \<open>auto simp: fireEvent_def catchP_def split: if_splits\<close>)
qed (use assms(1) in \<open>auto simp: fireEvent_def\<close>)

lemma fireAll_result:
  "fireAll notify ps s = Some (q, s') \<Longrightarrow> fst ` set ps \<subseteq> set types \<Longrightarrow>
   list_all (\<lambda>r. case r of None \<Rightarrow> True | Some e \<Rightarrow> eventOk es e) (map snd ps) \<Longrightarrow>
   (q = Inr () \<or> q = Inl UndefinedBehaviour) \<and> (\<exists>new. gpFired s' = gpFired s @ new \<and> list_all (firedOk es types) new)"
proof (induction ps arbitrary: s)
  case (Cons p ps)
  obtain t c r where p: "p = ((t, c), r)" by (metis prod.collapse)
  obtain q1 s1 where one: "fireEvent notify p s = Some (q1, s1)"
    using Cons.prems(1) by (auto simp: bindP_def split: option.splits)
  have ok: "q1 = Inr () \<or> q1 = Inl UndefinedBehaviour"
    and new: "\<exists>new. gpFired s1 = gpFired s @ new \<and> list_all (firedOk es types) new"
    using fireEvent_result [OF one [unfolded p], of types es] Cons.prems(2,3) p by auto
  show ?case
  proof (cases "q1 = Inr ()")
    case True
    then have "fireAll notify ps s1 = Some (q, s')" using Cons.prems(1) one by simp
    from Cons.IH [OF this] obtain rest where "q = Inr () \<or> q = Inl UndefinedBehaviour"
      "gpFired s' = gpFired s1 @ rest" "list_all (firedOk es types) rest"
      using Cons.prems(2,3) by auto
    moreover obtain first where "gpFired s1 = gpFired s @ first" "list_all (firedOk es types) first"
      using new by blast
    ultimately have "gpFired s' = gpFired s @ first @ rest" "list_all (firedOk es types) (first @ rest)"
      by simp_all
    then show ?thesis using \<open>q = Inr () \<or> q = Inl UndefinedBehaviour\<close> by blast
  next
    case False
    then have "q1 = Inl UndefinedBehaviour" using ok by blast
    then have "q = q1" "s' = s1" using Cons.prems(1) one by (auto simp: bindP_def)
    then show ?thesis using new ok by blast
  qed
qed auto

text \<open>
  C24. Firing events never throws, whatever the generation or a callback throws; every event that reaches
  a callback is well formed and of an event type that is registered with this callback.
\<close>

theorem fire_events_silent:
  assumes "fireEvents es env notify s = Some (r, s')"
  shows "r = Inl UndefinedBehaviour \<or>
    r = Inr () \<and> (\<exists>new. gpFired s' = gpFired s @ new \<and> list_all (firedOk es (gpEventTypes s)) new)"
proof -
  let ?types = "gpEventTypes s"
  let ?m = "bindP (getP gpEventTypes) (\<lambda>types.
       bindP (liftP (guardR (list_all (\<lambda>p. esClass es (fst p) = Some NcObjectType) types) UndefinedBehaviour)) (\<lambda>_.
       bindP (onGen (generateEvents es env (map fst types))) (\<lambda>events.
         fireAll notify (zip types events))))"
  obtain q s1 where run: "?m s = Some (q, s1)"
    using assms by (auto simp: fireEvents_def catchP_def split: option.splits)
  have "q = Inl UndefinedBehaviour \<or> (\<exists>e. q = Inl e \<and> e \<noteq> UndefinedBehaviour \<and> gpFired s1 = gpFired s) \<or>
      q = Inr () \<and> (\<exists>new. gpFired s1 = gpFired s @ new \<and> list_all (firedOk es ?types) new)"
  proof (cases "list_all (\<lambda>p. esClass es (fst p) = Some NcObjectType) ?types")
    case True
    then obtain g s2 where gen: "onGen (generateEvents es env (map fst ?types)) s = Some (g, s2)"
      using run by (auto simp: bindP_def split: option.splits)
    show ?thesis
    proof (cases g)
      case (Inl e)
      then show ?thesis using run gen True onGen_types [OF gen] by (auto simp: bindP_def)
    next
      case (Inr events)
      then have fire: "fireAll notify (zip ?types events) s2 = Some (q, s1)"
        using run gen True by simp
      obtain g' where g': "generateEvents es env (map fst ?types) (gpGen s) = Some (Inr events, g')"
        using gen Inr by (auto simp: onGen_def)
      have ev: "length events = length ?types \<and>
          list_all (\<lambda>r. case r of None \<Rightarrow> True | Some e \<Rightarrow> eventOk es e) events"
        using generateEvents_ok g' unfolding yieldsP_def by fastforce
      have "fst ` set (zip ?types events) \<subseteq> set ?types" by (auto dest: set_zip_leftD)
      from fireAll_result [OF fire this] show ?thesis
        using ev onGen_types [OF gen] by auto
    qed
  qed (use run in simp)
  then show ?thesis
    using assms run by (auto simp: fireEvents_def catchP_def split: if_splits)
qed

subsection \<open>Concrete requests\<close>

lemma exampleSpace_readable:
  "ua2ioNodeId (gvNodeId (esVariable generatorSpace (io2uaNodeId (NodeIdNumeric 1 i)))) = Inr (NodeIdNumeric 1 (ucast (ucast i :: 32 word)))"
  by (simp add: generatorSpace_def io2uaNodeId_def ua2ioNodeId_def)

lemma example_read:
  "genRead generatorSpace (exampleGen\<lparr>gnTrace := False\<rparr>) [NodeIdNumeric 1 101, NodeIdNumeric 1 102] genInitial =
    Some (Inr [newNodeData (NodeIdNumeric 1 101) (Some (IOScalar (IOLong 1))),
               newNodeData (NodeIdNumeric 1 102) (Some (IOScalar (IOLong 2)))], \<lparr>gsCounter = 3, gsClock = 0\<rparr>)"
  by code_simp

theorem read_aligned_witness:
  "\<exists>gs. generateVariables (exampleGen\<lparr>gnTrace := False\<rparr>)
      (map (\<lambda>n. esVariable generatorSpace (io2uaNodeId n)) [NodeIdNumeric 1 101, NodeIdNumeric 1 102]) genInitial =
        Some (Inr gs, \<lparr>gsCounter = 3, gsClock = 0\<rparr>) \<and>
    list_all2 (\<lambda>g d. ndData d = None \<longleftrightarrow> g = None) gs
      [newNodeData (NodeIdNumeric 1 101) (Some (IOScalar (IOLong 1))),
       newNodeData (NodeIdNumeric 1 102) (Some (IOScalar (IOLong 2)))]"
proof -
  have "typesReadable (gnConv (exampleGen\<lparr>gnTrace := False\<rparr>))"
    by (simp add: exampleGen_def exampleTypes_readable)
  moreover have "\<forall>n. ua2ioNodeId (gvNodeId (esVariable generatorSpace (io2uaNodeId n))) = Inr n \<or>
      n \<notin> set [NodeIdNumeric 1 101, NodeIdNumeric 1 102]"
    using exampleSpace_readable [of 101] exampleSpace_readable [of 102] by auto
  moreover have "\<forall>n. gvTypeDefinition (esVariable generatorSpace (io2uaNodeId n)) \<notin> set dictionaryTypes \<or>
      n \<notin> set [NodeIdNumeric 1 101, NodeIdNumeric 1 102]"
    by (auto simp: generatorSpace_def dictionaryTypes_def)
  ultimately show ?thesis using read_aligned [OF _ _ _ example_read] by blast
qed

text \<open>
  With a dictionary among the variables the values move: the dictionary gets the value of the variable
  after it, which gets none.
\<close>

definition dictionarySpace :: event_space where
  "dictionarySpace = generatorSpace\<lparr>esVariable := (\<lambda>n.
     \<lparr>gvNodeId = n, gvTypeDefinition = UaNumeric 0 (if n = UaNumeric 1 101 then 72 else 63),
      gvDataType = UaNumeric 0 6, gvValueRank = -1\<rparr>)\<rparr>"

lemma dictionary_moves_values:
  "genRead dictionarySpace (exampleGen\<lparr>gnTrace := False\<rparr>) [NodeIdNumeric 1 101, NodeIdNumeric 1 102] genInitial =
    Some (Inr [newNodeData (NodeIdNumeric 1 101) (Some (IOScalar (IOLong 1)))], \<lparr>gsCounter = 2, gsClock = 0\<rparr>)"
  by code_simp

lemma example_subscribe:
  "genSubscribe generatorSpace (exampleGen\<lparr>gnTrace := False\<rparr>) 7
      [NodeIdNumeric 1 100, NodeIdNumeric 1 101, NodeIdNumeric 1 300] newGenProvider =
    Some (Inr [newNodeData (NodeIdNumeric 1 100) None, newNodeData (NodeIdNumeric 1 101) (Some (IOScalar (IOLong 1))),
               newNodeData (NodeIdNumeric 1 300) None],
      \<lparr>gpGen = \<lparr>gsCounter = 2, gsClock = 0\<rparr>, gpEventTypes = [(UaNumeric 1 100, 7)], gpFired = []\<rparr>)"
  by code_simp

theorem subscribe_aligned_witness:
  "map ndNodeId [newNodeData (NodeIdNumeric 1 100) None, newNodeData (NodeIdNumeric 1 101) (Some (IOScalar (IOLong 1))),
     newNodeData (NodeIdNumeric 1 300) None] = [NodeIdNumeric 1 100, NodeIdNumeric 1 101, NodeIdNumeric 1 300] \<and>
   map_of [(UaNumeric 1 100, 7 :: nat)] (UaNumeric 1 101) = None"
proof -
  have "UaNumeric 1 101 \<notin> io2uaNodeId ` {n \<in> set [NodeIdNumeric 1 100, NodeIdNumeric 1 101, NodeIdNumeric 1 300].
      esClass generatorSpace (io2uaNodeId n) = Some NcObjectType}"
    by (auto simp: io2uaNodeId_def generatorSpace_def)
  with subscribe_aligned [OF example_subscribe, of "UaNumeric 1 101"] show ?thesis
    by (simp only: if_False newGenProvider_def gen_provider.simps map_of.simps simp_thms)
qed

text \<open>A callback that throws: the event has reached it, and nothing is reported.\<close>

lemma example_fired:
  "fireEvents generatorSpace (exampleGen\<lparr>gnTrace := False\<rparr>) (\<lambda>_ _ _. Inl SubscriberCallbackException)
      \<lparr>gpGen = genInitial, gpEventTypes = [(UaNumeric 1 100, 7)], gpFired = []\<rparr> =
    Some (Inr (), \<lparr>gpGen = \<lparr>gsCounter = 4, gsClock = 0\<rparr>, gpEventTypes = [(UaNumeric 1 100, 7)],
      gpFired = [(7, NodeIdNumeric 1 100, exampleEventData)]\<rparr>)"
  by code_simp

theorem fire_events_silent_witness:
  "firedOk generatorSpace [(UaNumeric 1 100, 7)] (7, NodeIdNumeric 1 100, exampleEventData)"
  using fire_events_silent [OF example_fired] by simp

end
