(* ===== verification/Ha_Server.thy ===== *)
theory Ha_Server
  imports Op_Monad Text_Util
begin

text \<open>
  The server (\<open>src/Server.cpp\<close>): it starts the core of the SDK, loads the provider libraries of a directory,
  opens one provider of data and one of models, and releases everything on \<open>close\<close> or when \<open>open\<close> fails.
  The directory, the libraries and the core are parameters. The state keeps a trace of what was acquired
  and released; the resources of a library are named by the number of its handle.
\<close>

subsection \<open>Names of libraries\<close>

text \<open>
  \<open>find_first_not_of("0123456789_")\<close> is stored in an \<open>int\<close>, \<open>npos\<close> as \<open>-1\<close>. The prefix and the suffix are
  only cut off, not compared.
\<close>

definition isCountChar :: "char \<Rightarrow> bool" where
  "isCountChar c = (isDigit c \<or> c = CHR ''_'')"

definition countNumber :: "string \<Rightarrow> int" where
  "countNumber entry =
    (if list_all isCountChar entry then -1 else int (length (takeWhile isCountChar entry)))"

definition moduleNameOf :: "string \<Rightarrow> string \<Rightarrow> string option" where
  "moduleNameOf libSuffix entry =
    (let start = countNumber entry + 3; cut = start + int (length libSuffix) in
     if int (length entry) > cut
     then Some (take (nat (int (length entry) - cut)) (drop (nat start) entry))
     else None)"

subsection \<open>The outside of the server\<close>

datatype provider_kind = IoKind | SasKind

text \<open>
  A factory in a library: what opening each provider it creates does, by the configuration directory
  (\<open>None\<close>: opened with the Java environment), and whether the library has the function to destroy it.
\<close>

record factory_code =
  fcOpen :: "(string option \<Rightarrow> (cpp_error, unit) res) list"
  fcDestroy :: bool

record library_code =
  lcIo :: "factory_code option"
  lcSas :: "factory_code option"

type_synonym provider_id = "nat \<times> nat"

text \<open>
  \<open>seNodeManagers\<close> and \<open>seModules\<close> are the numbers of node managers and modules a model provider creates,
  \<open>None\<close> for \<open>NULL\<close>.
\<close>

record server_env =
  sePlatform :: bool
  seStart :: bool
  seListing :: "string \<Rightarrow> string list option"
  seLibrary :: "string \<Rightarrow> library_code option"
  seSuffix :: string
  seNodeManagers :: "provider_id \<Rightarrow> nat option"
  seModules :: "provider_id \<Rightarrow> nat option"

datatype server_event =
    ParserInit | PlatformInit | CoreNew | CoreStart | CoreAddNodeManager | CoreAddModule
  | LibOpen nat | FactoryNew provider_kind nat | ProviderOpen provider_kind provider_id
  | CoreStop | CoreDelete | ProviderClose provider_kind provider_id | ProviderDelete provider_kind provider_id
  | FactoryDestroy provider_kind nat | LibClose nat | PlatformCleanup | ParserCleanup

subsection \<open>The state\<close>

text \<open>\<open>svCore\<close>: no core, or whether it is started. A factory is kept with whether it can be destroyed.\<close>

record server =
  svJava :: bool
  svCore :: "bool option"
  svLibs :: "nat list"
  svIoFactories :: "(nat \<times> bool) list"
  svIoProviders :: "provider_id list"
  svSasFactories :: "(nat \<times> bool) list"
  svSasProviders :: "provider_id list"
  svNextHandle :: nat
  svTrace :: "server_event list"

definition newServer :: server where
  "newServer = \<lparr>svJava = False, svCore = None, svLibs = [], svIoFactories = [], svIoProviders = [],
     svSasFactories = [], svSasProviders = [], svNextHandle = 0, svTrace = []\<rparr>"

definition emit :: "server_event list \<Rightarrow> server \<Rightarrow> server" where
  "emit es s = s\<lparr>svTrace := svTrace s @ es\<rparr>"

definition confDir :: string where "confDir = ''/etc/opcua/conf/provider/''"
definition providerPath :: string where "providerPath = ''/usr/lib/provider/''"

subsection \<open>Closing\<close>

fun closeProviders :: "provider_kind \<Rightarrow> provider_id list \<Rightarrow> server_event list" where
  "closeProviders k [] = []"
| "closeProviders k (p # ps) = ProviderClose k p # ProviderDelete k p # closeProviders k ps"

text \<open>A factory whose library lacks the function is destroyed through a \<open>NULL\<close> pointer.\<close>

fun destroyFactories :: "provider_kind \<Rightarrow> (nat \<times> bool) list \<Rightarrow> (cpp_error, server_event list) res" where
  "destroyFactories k [] = Inr []"
| "destroyFactories k ((h, destroy) # fs) =
     (if destroy then mapR (\<lambda>es. FactoryDestroy k h # es) (destroyFactories k fs) else Inl UndefinedBehaviour)"

definition closeCore :: "server \<Rightarrow> server" where
  "closeCore s =
    (case svCore s of
       None \<Rightarrow> s
     | Some started \<Rightarrow> emit ((if started then [CoreStop] else []) @ [CoreDelete]) (s\<lparr>svCore := None\<rparr>))"

definition serverClose :: "(server, unit) op" where
  "serverClose =
    bindP (modifyP closeCore) (\<lambda>_.
    bindP (modifyP (\<lambda>s. emit (closeProviders SasKind (svSasProviders s)) (s\<lparr>svSasProviders := []\<rparr>))) (\<lambda>_.
    bindP (getP svSasFactories) (\<lambda>fs.
    bindP (liftP (destroyFactories SasKind fs)) (\<lambda>es.
    bindP (modifyP (\<lambda>s. emit es (s\<lparr>svSasFactories := []\<rparr>))) (\<lambda>_.
    bindP (modifyP (\<lambda>s. emit (closeProviders IoKind (svIoProviders s)) (s\<lparr>svIoProviders := []\<rparr>))) (\<lambda>_.
    bindP (getP svIoFactories) (\<lambda>fs.
    bindP (liftP (destroyFactories IoKind fs)) (\<lambda>es.
    bindP (modifyP (\<lambda>s. emit es (s\<lparr>svIoFactories := []\<rparr>))) (\<lambda>_.
    modifyP (\<lambda>s. emit (map LibClose (svLibs s) @ [PlatformCleanup, ParserCleanup]) (s\<lparr>svLibs := []\<rparr>)))))))))))"

subsection \<open>Opening\<close>

text \<open>The factories of this call that were taken: module name, library and code. Only the first of each kind is.\<close>

type_synonym taken = "(string \<times> nat \<times> factory_code) option"

definition takeFactory ::
  "provider_kind \<Rightarrow> string \<Rightarrow> nat \<Rightarrow> factory_code option \<Rightarrow> taken \<Rightarrow> (server, taken) op"
where
  "takeFactory k moduleName h fc t =
    (case fc of
       Some fc \<Rightarrow>
         if t = None then
           bindP (modifyP (\<lambda>s. emit [FactoryNew k h]
               (case k of
                  IoKind \<Rightarrow> s\<lparr>svIoFactories := svIoFactories s @ [(h, fcDestroy fc)]\<rparr>
                | SasKind \<Rightarrow> s\<lparr>svSasFactories := svSasFactories s @ [(h, fcDestroy fc)]\<rparr>)))
             (\<lambda>_. liftP (Inr (Some (moduleName, h, fc))))
         else liftP (Inr t)
     | None \<Rightarrow> liftP (Inr t))"

definition openLib :: "server_env \<Rightarrow> string \<Rightarrow> taken \<times> taken \<Rightarrow> (server, taken \<times> taken) op" where
  "openLib env entry ts =
    (case moduleNameOf (seSuffix env) entry of
       None \<Rightarrow> liftP (Inr ts)
     | Some moduleName \<Rightarrow>
         (case seLibrary env (providerPath @ entry) of
            None \<Rightarrow> liftP (Inr ts)
          | Some lib \<Rightarrow>
              bindP (getP svNextHandle) (\<lambda>h.
              bindP (modifyP (\<lambda>s. emit [LibOpen h] (s\<lparr>svLibs := svLibs s @ [h], svNextHandle := h + 1\<rparr>))) (\<lambda>_.
              bindP (takeFactory IoKind moduleName h (lcIo lib) (fst ts)) (\<lambda>io.
              bindP (takeFactory SasKind moduleName h (lcSas lib) (snd ts)) (\<lambda>sas.
                liftP (Inr (io, sas))))))))"

fun openLibs :: "server_env \<Rightarrow> string list \<Rightarrow> taken \<times> taken \<Rightarrow> (server, taken \<times> taken) op" where
  "openLibs env [] ts = liftP (Inr ts)"
| "openLibs env (e # es) ts = bindP (openLib env e ts) (openLibs env es)"

text \<open>
  Only the first provider of a factory is opened and kept; one that throws is neither closed nor deleted.
\<close>

definition openProvider :: "provider_kind \<Rightarrow> taken \<Rightarrow> (server, unit) op" where
  "openProvider k t =
    (case t of
       None \<Rightarrow> liftP (Inr ())
     | Some (moduleName, h, fc) \<Rightarrow>
         (case fcOpen fc of
            [] \<Rightarrow> liftP (Inr ())
          | open' # _ \<Rightarrow>
              bindP (getP svJava) (\<lambda>java.
              bindP (liftP (open' (if java \<and> k = IoKind then None else Some (confDir @ moduleName @ ''/'')))) (\<lambda>_.
                modifyP (\<lambda>s. emit [ProviderOpen k (h, 0)]
                  (case k of
                     IoKind \<Rightarrow> s\<lparr>svIoProviders := svIoProviders s @ [(h, 0)]\<rparr>
                   | SasKind \<Rightarrow> s\<lparr>svSasProviders := svSasProviders s @ [(h, 0)]\<rparr>))))))"

definition addToCore :: "server_env \<Rightarrow> (server, unit) op" where
  "addToCore env =
    bindP (getP (\<lambda>s. hd (svSasProviders s))) (\<lambda>p.
    bindP (modifyP (emit (case seNodeManagers env p of None \<Rightarrow> [] | Some n \<Rightarrow> replicate n CoreAddNodeManager))) (\<lambda>_.
      modifyP (emit (case seModules env p of None \<Rightarrow> [] | Some n \<Rightarrow> replicate n CoreAddModule))))"

definition startServer :: "server_env \<Rightarrow> (server, unit) op" where
  "startServer env =
    bindP (modifyP (emit [ParserInit])) (\<lambda>_.
    bindP (liftP (guardR (sePlatform env) ServerException)) (\<lambda>_.
    bindP (modifyP (\<lambda>s. emit [PlatformInit, CoreNew] (s\<lparr>svCore := Some False\<rparr>))) (\<lambda>_.
    bindP (liftP (guardR (seStart env) ServerException)) (\<lambda>_.
      modifyP (\<lambda>s. emit [CoreStart] (s\<lparr>svCore := Some True\<rparr>))))))"

definition openAll :: "server_env \<Rightarrow> (server, unit) op" where
  "openAll env =
    bindP (startServer env) (\<lambda>_.
    bindP (liftP (case seListing env providerPath of None \<Rightarrow> Inl ServerException | Some es \<Rightarrow> Inr (sort es))) (\<lambda>es.
    bindP (openLibs env es (None, None)) (\<lambda>ts.
    bindP (openProvider IoKind (fst ts)) (\<lambda>_.
    bindP (getP svIoProviders) (\<lambda>ps.
    bindP (liftP (guardR (ps \<noteq> []) ServerException)) (\<lambda>_.
    bindP (openProvider SasKind (snd ts)) (\<lambda>_.
    bindP (getP svSasProviders) (\<lambda>ps.
    bindP (liftP (guardR (ps \<noteq> []) ServerException)) (\<lambda>_.
      addToCore env)))))))))"

definition serverOpen :: "server_env \<Rightarrow> (server, unit) op" where
  "serverOpen env = catchP (openAll env) (\<lambda>e. bindP serverClose (\<lambda>_. liftP (Inl e)))"

text \<open>\<open>open\<close> with the Java environment keeps it for this and all later calls.\<close>

definition serverOpenJava :: "server_env \<Rightarrow> (server, unit) op" where
  "serverOpenJava env = bindP (modifyP (\<lambda>s. s\<lparr>svJava := True\<rparr>)) (\<lambda>_. serverOpen env)"

text \<open>Notifications and events of Java are passed to every open data provider.\<close>

definition serverNotification :: "(provider_id \<Rightarrow> 'w \<Rightarrow> 'w) \<Rightarrow> server \<Rightarrow> 'w \<Rightarrow> 'w" where
  "serverNotification notify s w = fold notify (svIoProviders s) w"

subsection \<open>The rules of acquiring and releasing\<close>

text \<open>
  What is alive, and the rules: a factory needs its library, a provider its factory, a model provider an
  open data provider; the core is gone before a provider is closed, the model providers before the data
  providers; a factory is destroyed when its providers are gone, a library is closed when its factories are.
\<close>

record live =
  lvCore :: "bool option"
  lvLibs :: "nat set"
  lvFactories :: "(provider_kind \<times> nat) set"
  lvProviders :: "(provider_kind \<times> provider_id) set"
  lvClosed :: "(provider_kind \<times> provider_id) set"

definition noneLive :: live where
  "noneLive = \<lparr>lvCore = None, lvLibs = {}, lvFactories = {}, lvProviders = {}, lvClosed = {}\<rparr>"

definition allowed :: "live \<Rightarrow> server_event \<Rightarrow> bool" where
  "allowed l e =
    (case e of
       CoreNew \<Rightarrow> lvCore l = None
     | CoreStart \<Rightarrow> lvCore l = Some False
     | CoreAddNodeManager \<Rightarrow> lvCore l \<noteq> None \<and> SasKind \<in> fst ` lvProviders l
     | CoreAddModule \<Rightarrow> lvCore l \<noteq> None \<and> SasKind \<in> fst ` lvProviders l
     | LibOpen h \<Rightarrow> h \<notin> lvLibs l
     | FactoryNew k h \<Rightarrow> h \<in> lvLibs l \<and> (k, h) \<notin> lvFactories l
     | ProviderOpen k p \<Rightarrow> (k, fst p) \<in> lvFactories l \<and> (k, p) \<notin> lvProviders l \<and>
         (k = SasKind \<longrightarrow> IoKind \<in> fst ` lvProviders l)
     | CoreStop \<Rightarrow> lvCore l = Some True
     | CoreDelete \<Rightarrow> lvCore l = Some False
     | ProviderClose k p \<Rightarrow> (k, p) \<in> lvProviders l \<and> lvCore l = None \<and>
         (k = IoKind \<longrightarrow> SasKind \<notin> fst ` lvProviders l)
     | ProviderDelete k p \<Rightarrow> (k, p) \<in> lvClosed l
     | FactoryDestroy k h \<Rightarrow> (k, h) \<in> lvFactories l \<and> (\<forall>p. (k, p) \<in> lvProviders l \<longrightarrow> fst p \<noteq> h)
     | LibClose h \<Rightarrow> h \<in> lvLibs l \<and> h \<notin> snd ` lvFactories l
     | PlatformCleanup \<Rightarrow> lvCore l = None
     | ParserCleanup \<Rightarrow> lvCore l = None
     | _ \<Rightarrow> True)"

definition effect :: "server_event \<Rightarrow> live \<Rightarrow> live" where
  "effect e l =
    (case e of
       CoreNew \<Rightarrow> l\<lparr>lvCore := Some False\<rparr>
     | CoreStart \<Rightarrow> l\<lparr>lvCore := Some True\<rparr>
     | LibOpen h \<Rightarrow> l\<lparr>lvLibs := insert h (lvLibs l)\<rparr>
     | FactoryNew k h \<Rightarrow> l\<lparr>lvFactories := insert (k, h) (lvFactories l)\<rparr>
     | ProviderOpen k p \<Rightarrow> l\<lparr>lvProviders := insert (k, p) (lvProviders l)\<rparr>
     | CoreStop \<Rightarrow> l\<lparr>lvCore := Some False\<rparr>
     | CoreDelete \<Rightarrow> l\<lparr>lvCore := None\<rparr>
     | ProviderClose k p \<Rightarrow> l\<lparr>lvClosed := insert (k, p) (lvClosed l)\<rparr>
     | ProviderDelete k p \<Rightarrow>
         l\<lparr>lvProviders := lvProviders l - {(k, p)}, lvClosed := lvClosed l - {(k, p)}\<rparr>
     | FactoryDestroy k h \<Rightarrow> l\<lparr>lvFactories := lvFactories l - {(k, h)}\<rparr>
     | LibClose h \<Rightarrow> l\<lparr>lvLibs := lvLibs l - {h}\<rparr>
     | _ \<Rightarrow> l)"

fun monitor :: "server_event list \<Rightarrow> live \<Rightarrow> live option" where
  "monitor [] l = Some l"
| "monitor (e # es) l = (if allowed l e then monitor es (effect e l) else None)"

lemma monitor_append: "monitor (es @ fs) l = Option.bind (monitor es l) (monitor fs)"
  by (induction es arbitrary: l) simp_all

text \<open>What the server itself believes to be alive.\<close>

definition believed :: "server \<Rightarrow> live" where
  "believed s =
    \<lparr>lvCore = svCore s, lvLibs = set (svLibs s),
     lvFactories = Pair IoKind ` fst ` set (svIoFactories s) \<union> Pair SasKind ` fst ` set (svSasFactories s),
     lvProviders = Pair IoKind ` set (svIoProviders s) \<union> Pair SasKind ` set (svSasProviders s),
     lvClosed = {}\<rparr>"

definition followsRules :: "server \<Rightarrow> bool" where
  "followsRules s = (monitor (svTrace s) noneLive = Some (believed s))"

text \<open>The rest of the invariant: nothing twice, every part below what it needs.\<close>

definition serverInv :: "server \<Rightarrow> bool" where
  "serverInv s =
    (followsRules s \<and> distinct (svLibs s) \<and> list_all (\<lambda>h. h < svNextHandle s) (svLibs s) \<and>
     distinct (map fst (svIoFactories s)) \<and> distinct (map fst (svSasFactories s)) \<and>
     fst ` set (svIoFactories s) \<subseteq> set (svLibs s) \<and> fst ` set (svSasFactories s) \<subseteq> set (svLibs s) \<and>
     distinct (svIoProviders s) \<and> distinct (svSasProviders s) \<and>
     fst ` set (svIoProviders s) \<subseteq> fst ` set (svIoFactories s) \<and>
     fst ` set (svSasProviders s) \<subseteq> fst ` set (svSasFactories s) \<and>
     (svSasProviders s \<noteq> [] \<longrightarrow> svIoProviders s \<noteq> []))"

definition nothingHeld :: "server \<Rightarrow> bool" where
  "nothingHeld s =
    (svCore s = None \<and> svLibs s = [] \<and> svIoFactories s = [] \<and> svIoProviders s = [] \<and>
     svSasFactories s = [] \<and> svSasProviders s = [])"

lemma emit_simps [simp]:
  "svJava (emit es s) = svJava s" "svCore (emit es s) = svCore s" "svLibs (emit es s) = svLibs s"
  "svIoFactories (emit es s) = svIoFactories s" "svIoProviders (emit es s) = svIoProviders s"
  "svSasFactories (emit es s) = svSasFactories s" "svSasProviders (emit es s) = svSasProviders s"
  "svNextHandle (emit es s) = svNextHandle s" "svTrace (emit es s) = svTrace s @ es"
  by (simp_all add: emit_def)

lemma believed_emit [simp]: "believed (emit es s) = believed s"
  by (simp add: believed_def)

text \<open>A step follows the rules when its events lead from what was believed to what is believed now.\<close>

lemma followsRules_step:
  "followsRules s \<Longrightarrow> monitor es (believed s) = Some (believed s') \<Longrightarrow> svTrace s' = svTrace s \<Longrightarrow>
   followsRules (emit es s')"
  by (simp add: followsRules_def monitor_append)

subsection \<open>Closing releases everything\<close>

lemma monitor_closeProviders:
  assumes "lvCore l = None" "distinct ps" "Pair k ` set ps \<subseteq> lvProviders l" "lvClosed l = {}"
    "k = IoKind \<longrightarrow> SasKind \<notin> fst ` lvProviders l"
  shows "monitor (closeProviders k ps) l = Some (l\<lparr>lvProviders := lvProviders l - Pair k ` set ps\<rparr>)"
  using assms
proof (induction ps arbitrary: l)
  case (Cons p ps)
  let ?l = "l\<lparr>lvProviders := lvProviders l - {(k, p)}\<rparr>"
  have l: "effect (ProviderDelete k p) (effect (ProviderClose k p) l) = ?l"
    using Cons.prems(4) by (simp add: effect_def)
  have "monitor (closeProviders k ps) ?l = Some (?l\<lparr>lvProviders := lvProviders ?l - Pair k ` set ps\<rparr>)"
    by (rule Cons.IH) (use Cons.prems in auto)
  moreover have "allowed l (ProviderClose k p)" "allowed (effect (ProviderClose k p) l) (ProviderDelete k p)"
    using Cons.prems by (auto simp: allowed_def effect_def)
  moreover have "lvProviders l - {(k, p)} - Pair k ` set ps = lvProviders l - Pair k ` set (p # ps)"
    by auto
  ultimately show ?case by (simp add: l)
qed simp

lemma monitor_destroyFactories:
  assumes "destroyFactories k fs = Inr es" "distinct (map fst fs)" "Pair k ` fst ` set fs \<subseteq> lvFactories l"
    "k \<notin> fst ` lvProviders l"
  shows "monitor es l = Some (l\<lparr>lvFactories := lvFactories l - Pair k ` fst ` set fs\<rparr>)"
  using assms
proof (induction fs arbitrary: es l)
  case (Cons f fs)
  obtain h b where f: "f = (h, b)" by fastforce
  obtain es' where es: "destroyFactories k fs = Inr es'" "es = FactoryDestroy k h # es'"
    using Cons.prems(1) by (auto simp: f mapR_eq_Inr split: if_splits)
  let ?l = "l\<lparr>lvFactories := lvFactories l - {(k, h)}\<rparr>"
  have "monitor es' ?l = Some (?l\<lparr>lvFactories := lvFactories ?l - Pair k ` fst ` set fs\<rparr>)"
  proof (rule Cons.IH [OF es(1)])
    show "distinct (map fst fs)" using Cons.prems(2) by simp
    have "Pair k ` fst ` set fs \<subseteq> lvFactories l" using Cons.prems(3) by (simp add: f)
    moreover have "(k, h) \<notin> Pair k ` fst ` set fs" using Cons.prems(2) by (simp add: f image_iff)
    ultimately show "Pair k ` fst ` set fs \<subseteq> lvFactories ?l" by auto
    show "k \<notin> fst ` lvProviders ?l" using Cons.prems(4) by simp
  qed
  moreover have "allowed l (FactoryDestroy k h)"
    using Cons.prems by (force simp: allowed_def f)
  moreover have "lvFactories l - {(k, h)} - Pair k ` fst ` set fs = lvFactories l - Pair k ` fst ` set (f # fs)"
    by (auto simp: f)
  ultimately show ?case by (simp add: es(2) effect_def)
qed simp

lemma monitor_closeLibs:
  assumes "distinct hs" "set hs \<subseteq> lvLibs l" "lvFactories l = {}"
  shows "monitor (map LibClose hs) l = Some (l\<lparr>lvLibs := lvLibs l - set hs\<rparr>)"
  using assms
proof (induction hs arbitrary: l)
  case (Cons h hs)
  have "monitor (map LibClose hs) (l\<lparr>lvLibs := lvLibs l - {h}\<rparr>) =
      Some (l\<lparr>lvLibs := lvLibs l - {h} - set hs\<rparr>)"
    by (subst Cons.IH) (use Cons.prems in auto)
  moreover have "lvLibs l - {h} - set hs = lvLibs l - set (h # hs)" by auto
  ultimately show ?case using Cons.prems by (simp add: allowed_def effect_def)
qed simp

lemma fst_Pair_image [simp]: "k \<in> fst ` Pair k' ` X \<longleftrightarrow> k = k' \<and> X \<noteq> {}"
  by (auto simp: image_image)

definition coreEvents :: "server \<Rightarrow> server_event list" where
  "coreEvents s =
    (case svCore s of None \<Rightarrow> [] | Some started \<Rightarrow> (if started then [CoreStop] else []) @ [CoreDelete])"

lemma closeCore_fields:
  "closeCore s = emit (coreEvents s) (s\<lparr>svCore := None\<rparr>)"
  by (cases "svCore s") (simp_all add: closeCore_def coreEvents_def emit_def)

lemma destroyFactories_error: "destroyFactories k fs = Inl e \<Longrightarrow> e = UndefinedBehaviour"
  by (induction k fs rule: destroyFactories.induct) (auto simp: mapR_def bindR_eq_Inl split: if_splits)

lemma serverClose_run:
  assumes "serverClose s = Some (r, s')"
  shows "r = Inl UndefinedBehaviour \<or>
    (\<exists>es1 es2. destroyFactories SasKind (svSasFactories s) = Inr es1 \<and>
       destroyFactories IoKind (svIoFactories s) = Inr es2 \<and> r = Inr () \<and>
       s' = \<lparr>svJava = svJava s, svCore = None, svLibs = [], svIoFactories = [], svIoProviders = [],
         svSasFactories = [], svSasProviders = [], svNextHandle = svNextHandle s,
         svTrace = svTrace s @ coreEvents s @ closeProviders SasKind (svSasProviders s) @ es1 @
           closeProviders IoKind (svIoProviders s) @ es2 @ map LibClose (svLibs s) @ [PlatformCleanup, ParserCleanup]\<rparr>)"
proof (cases "destroyFactories SasKind (svSasFactories s)")
  case (Inl e)
  then show ?thesis
    using assms destroyFactories_error [OF Inl]
    by (simp add: serverClose_def bindP_def modifyP_def getP_def liftP_def closeCore_fields)
next
  case es1: (Inr es1)
  show ?thesis
  proof (cases "destroyFactories IoKind (svIoFactories s)")
    case (Inl e)
    then show ?thesis
      using assms es1 destroyFactories_error [OF Inl]
      by (simp add: serverClose_def bindP_def modifyP_def getP_def liftP_def closeCore_fields)
  next
    case (Inr es2)
    then show ?thesis
      using assms es1
      by (auto simp: serverClose_def bindP_def modifyP_def getP_def liftP_def closeCore_fields emit_def
          intro!: server.equality)
  qed
qed

lemma monitor_coreEvents: "lvCore l = svCore s \<Longrightarrow> monitor (coreEvents s) l = Some (l\<lparr>lvCore := None\<rparr>)"
  by (cases "svCore s") (auto simp: coreEvents_def allowed_def effect_def split: if_splits)

lemma live_none: "\<lparr>lvCore = None, lvLibs = {}, lvFactories = {}, lvProviders = {}, lvClosed = {}\<rparr> = noneLive"
  by (simp add: noneLive_def)

lemma serverClose_inv:
  assumes "serverInv s" "serverClose s = Some (r, s')"
  shows "r = Inl UndefinedBehaviour \<or> (r = Inr () \<and> nothingHeld s' \<and> serverInv s')"
  using serverClose_run [OF assms(2)]
proof (elim disjE exE conjE)
  fix es1 es2
  assume es1: "destroyFactories SasKind (svSasFactories s) = Inr es1"
    and es2: "destroyFactories IoKind (svIoFactories s) = Inr es2" and r: "r = Inr ()"
    and s': "s' = \<lparr>svJava = svJava s, svCore = None, svLibs = [], svIoFactories = [], svIoProviders = [],
         svSasFactories = [], svSasProviders = [], svNextHandle = svNextHandle s,
         svTrace = svTrace s @ coreEvents s @ closeProviders SasKind (svSasProviders s) @ es1 @
           closeProviders IoKind (svIoProviders s) @ es2 @ map LibClose (svLibs s) @ [PlatformCleanup, ParserCleanup]\<rparr>"
  let ?IoF = "Pair IoKind ` fst ` set (svIoFactories s)"
  let ?IoP = "Pair IoKind ` set (svIoProviders s)"
  let ?l0 = "(believed s)\<lparr>lvCore := None\<rparr>"
  let ?l1 = "?l0\<lparr>lvProviders := ?IoP\<rparr>"
  let ?l2 = "?l1\<lparr>lvFactories := ?IoF\<rparr>"
  let ?l3 = "?l2\<lparr>lvProviders := {}\<rparr>"
  let ?l4 = "?l3\<lparr>lvFactories := {}\<rparr>"
  have "monitor (svTrace s) noneLive = Some (believed s)"
    using assms(1) by (simp add: serverInv_def followsRules_def)
  moreover have "monitor (coreEvents s) (believed s) = Some ?l0"
    by (rule monitor_coreEvents) (simp add: believed_def)
  moreover have "monitor (closeProviders SasKind (svSasProviders s)) ?l0 = Some ?l1"
  proof -
    have "lvProviders ?l0 - Pair SasKind ` set (svSasProviders s) = ?IoP" by (auto simp: believed_def)
    then show ?thesis
      using monitor_closeProviders [of ?l0 "svSasProviders s" SasKind] assms(1)
      by (simp add: serverInv_def believed_def)
  qed
  moreover have "monitor es1 ?l1 = Some ?l2"
  proof -
    have "lvFactories ?l1 - Pair SasKind ` fst ` set (svSasFactories s) = ?IoF" by (auto simp: believed_def)
    then show ?thesis
      using monitor_destroyFactories [OF es1, of ?l1] assms(1)
      by (auto simp: serverInv_def believed_def)
  qed
  moreover have "monitor (closeProviders IoKind (svIoProviders s)) ?l2 = Some ?l3"
    using monitor_closeProviders [of ?l2 "svIoProviders s" IoKind] assms(1)
    by (auto simp: serverInv_def believed_def)
  moreover have "monitor es2 ?l3 = Some ?l4"
    using monitor_destroyFactories [OF es2, of ?l3] assms(1)
    by (auto simp: serverInv_def believed_def)
  moreover have "monitor (map LibClose (svLibs s)) ?l4 = Some noneLive"
    using monitor_closeLibs [of "svLibs s" ?l4] assms(1)
    by (simp add: serverInv_def believed_def noneLive_def)
  moreover have "monitor [PlatformCleanup, ParserCleanup] noneLive = Some noneLive"
    by (simp add: allowed_def effect_def noneLive_def)
  ultimately have "monitor (svTrace s') noneLive = Some noneLive"
    by (simp only: s' server.simps monitor_append Option.bind.bind_lunit)
  then show ?thesis
    by (simp add: r s' nothingHeld_def serverInv_def followsRules_def believed_def noneLive_def)
qed simp

subsection \<open>Opening follows the rules\<close>

definition takenFrom :: "provider_kind \<Rightarrow> server \<Rightarrow> taken \<Rightarrow> bool" where
  "takenFrom k s t =
    (case t of
       None \<Rightarrow> True
     | Some (moduleName, h, fc) \<Rightarrow> (k, h) \<in> lvFactories (believed s))"

text \<open>The states while the libraries are loaded, and after the data provider is opened.\<close>

definition scanning :: "taken \<times> taken \<Rightarrow> server \<Rightarrow> bool" where
  "scanning ts s =
    (svCore s \<noteq> None \<and> svIoProviders s = [] \<and> svSasProviders s = [] \<and>
     takenFrom IoKind s (fst ts) \<and> takenFrom SasKind s (snd ts))"

definition dataOpened :: "taken \<Rightarrow> server \<Rightarrow> bool" where
  "dataOpened t s = (svCore s \<noteq> None \<and> svSasProviders s = [] \<and> takenFrom SasKind s t)"

lemma serverInv_emit:
  "serverInv s \<Longrightarrow> monitor es (believed s) = Some (believed s) \<Longrightarrow> serverInv (emit es s)"
  by (auto simp: serverInv_def intro: followsRules_step)

lemma start_parser:
  "serverInv s \<Longrightarrow> nothingHeld s \<Longrightarrow> serverInv (emit [ParserInit] s) \<and> nothingHeld (emit [ParserInit] s)"
  by (auto simp: nothingHeld_def allowed_def effect_def intro!: serverInv_emit)

definition coreMade :: "bool \<Rightarrow> server \<Rightarrow> bool" where
  "coreMade b s =
    (svCore s = Some b \<and> svLibs s = [] \<and> svIoFactories s = [] \<and> svIoProviders s = [] \<and>
     svSasFactories s = [] \<and> svSasProviders s = [])"

lemma start_core:
  assumes "serverInv s" "nothingHeld s"
  shows "serverInv (emit [PlatformInit, CoreNew] (s\<lparr>svCore := Some False\<rparr>)) \<and>
    coreMade False (emit [PlatformInit, CoreNew] (s\<lparr>svCore := Some False\<rparr>))"
proof -
  have "followsRules (emit [PlatformInit, CoreNew] (s\<lparr>svCore := Some False\<rparr>))"
    by (rule followsRules_step [of s])
      (use assms in \<open>simp_all add: serverInv_def nothingHeld_def believed_def allowed_def effect_def\<close>)
  then show ?thesis using assms by (simp add: serverInv_def nothingHeld_def coreMade_def)
qed

lemma start_core_started:
  assumes "serverInv s" "coreMade False s"
  shows "serverInv (emit [CoreStart] (s\<lparr>svCore := Some True\<rparr>)) \<and>
    scanning (None, None) (emit [CoreStart] (s\<lparr>svCore := Some True\<rparr>))"
proof -
  have "followsRules (emit [CoreStart] (s\<lparr>svCore := Some True\<rparr>))"
    by (rule followsRules_step [of s])
      (use assms in \<open>simp_all add: serverInv_def coreMade_def believed_def allowed_def effect_def\<close>)
  then show ?thesis using assms by (simp add: serverInv_def coreMade_def scanning_def takenFrom_def)
qed

lemma startServer_hoare: "hoareP serverInv nothingHeld (startServer env) (\<lambda>_. scanning (None, None))"
  unfolding startServer_def
  by (rule hoareP_bind [where R = "\<lambda>_. nothingHeld"], rule hoareP_modify, erule (1) start_parser,
      rule hoareP_bind [where R = "\<lambda>_. nothingHeld"], rule hoareP_lift, assumption,
      rule hoareP_bind [where R = "\<lambda>_. coreMade False"], rule hoareP_modify, erule (1) start_core,
      rule hoareP_bind [where R = "\<lambda>_. coreMade False"], rule hoareP_lift, assumption,
      rule hoareP_modify, erule (1) start_core_started)

text \<open>One library.\<close>

definition libOpened :: "nat \<Rightarrow> taken \<times> taken \<Rightarrow> server \<Rightarrow> bool" where
  "libOpened h ts s =
    (scanning ts s \<and> h \<in> set (svLibs s) \<and> (SasKind, h) \<notin> lvFactories (believed s))"

lemma handle_fresh: "serverInv s \<Longrightarrow> svNextHandle s \<notin> set (svLibs s)"
  by (auto simp: serverInv_def list_all_iff)

lemma libOpen_step:
  assumes "serverInv s" "scanning ts s" "h = svNextHandle s"
  shows "serverInv (emit [LibOpen h] (s\<lparr>svLibs := svLibs s @ [h], svNextHandle := h + 1\<rparr>)) \<and>
    libOpened h ts (emit [LibOpen h] (s\<lparr>svLibs := svLibs s @ [h], svNextHandle := h + 1\<rparr>)) \<and>
    (IoKind, h) \<notin> lvFactories (believed (emit [LibOpen h] (s\<lparr>svLibs := svLibs s @ [h], svNextHandle := h + 1\<rparr>)))"
proof -
  let ?s = "s\<lparr>svLibs := svLibs s @ [h], svNextHandle := h + 1\<rparr>"
  have fresh: "h \<notin> set (svLibs s)" using handle_fresh [OF assms(1)] assms(3) by simp
  have "followsRules (emit [LibOpen h] ?s)"
    by (rule followsRules_step [of s])
      (use assms(1) fresh in \<open>simp_all add: serverInv_def believed_def allowed_def effect_def\<close>)
  moreover have "(k, h) \<notin> lvFactories (believed ?s)" for k
    using assms(1) fresh by (auto simp: serverInv_def believed_def)
  ultimately show ?thesis
    using assms fresh
    by (auto simp: serverInv_def libOpened_def scanning_def takenFrom_def believed_def list_all_iff split: option.splits)
qed

lemma takeFactory_step:
  assumes "serverInv s" "h \<in> set (svLibs s)" "(k, h) \<notin> lvFactories (believed s)"
  shows "serverInv (emit [FactoryNew k h]
      (case k of
         IoKind \<Rightarrow> s\<lparr>svIoFactories := svIoFactories s @ [(h, b)]\<rparr>
       | SasKind \<Rightarrow> s\<lparr>svSasFactories := svSasFactories s @ [(h, b)]\<rparr>))"
proof (cases k)
  case IoKind
  have "followsRules (emit [FactoryNew k h] (s\<lparr>svIoFactories := svIoFactories s @ [(h, b)]\<rparr>))"
    by (rule followsRules_step [of s])
      (use assms IoKind in \<open>simp_all add: serverInv_def believed_def allowed_def effect_def\<close>)
  then show ?thesis using assms IoKind by (auto simp: serverInv_def believed_def)
next
  case SasKind
  have "followsRules (emit [FactoryNew k h] (s\<lparr>svSasFactories := svSasFactories s @ [(h, b)]\<rparr>))"
    by (rule followsRules_step [of s])
      (use assms SasKind in \<open>simp_all add: serverInv_def believed_def allowed_def effect_def\<close>)
  then show ?thesis using assms SasKind by (auto simp: serverInv_def believed_def)
qed

lemma takeIo_hoare:
  "hoareP serverInv (\<lambda>s. libOpened h ts s \<and> (IoKind, h) \<notin> lvFactories (believed s))
     (takeFactory IoKind m h fc (fst ts)) (\<lambda>io. libOpened h (io, snd ts))"
proof (cases "fc \<noteq> None \<and> fst ts = None")
  case True
  then obtain f where fc: "fc = Some f" by blast
  have step: "serverInv (emit [FactoryNew IoKind h] (s\<lparr>svIoFactories := svIoFactories s @ [(h, fcDestroy f)]\<rparr>)) \<and>
      libOpened h (Some (m, h, f), snd ts) (emit [FactoryNew IoKind h] (s\<lparr>svIoFactories := svIoFactories s @ [(h, fcDestroy f)]\<rparr>))"
    if "serverInv s" "libOpened h ts s \<and> (IoKind, h) \<notin> lvFactories (believed s)" for s
    using takeFactory_step [OF that(1), of h IoKind "fcDestroy f"] that(2)
    by (auto simp: libOpened_def scanning_def takenFrom_def believed_def split: option.splits)
  show ?thesis
    using True unfolding takeFactory_def fc
    by simp
      (rule hoareP_bind [where R = "\<lambda>_. libOpened h (Some (m, h, f), snd ts)"], rule hoareP_modify,
        erule (1) step, rule hoareP_lift, simp)
next
  case False
  then have "takeFactory IoKind m h fc (fst ts) = liftP (Inr (fst ts))"
    by (auto simp: takeFactory_def split: option.splits)
  then show ?thesis by (auto intro: hoareP_lift)
qed

lemma takeSas_hoare:
  "hoareP serverInv (libOpened h ts) (takeFactory SasKind m h fc (snd ts)) (\<lambda>sas. scanning (fst ts, sas))"
proof (cases "fc \<noteq> None \<and> snd ts = None")
  case True
  then obtain f where fc: "fc = Some f" by blast
  have step: "serverInv (emit [FactoryNew SasKind h] (s\<lparr>svSasFactories := svSasFactories s @ [(h, fcDestroy f)]\<rparr>)) \<and>
      scanning (fst ts, Some (m, h, f)) (emit [FactoryNew SasKind h] (s\<lparr>svSasFactories := svSasFactories s @ [(h, fcDestroy f)]\<rparr>))"
    if "serverInv s" "libOpened h ts s" for s
    using takeFactory_step [OF that(1), of h SasKind "fcDestroy f"] that(2)
    by (auto simp: libOpened_def scanning_def takenFrom_def believed_def split: option.splits)
  show ?thesis
    using True unfolding takeFactory_def fc
    by simp
      (rule hoareP_bind [where R = "\<lambda>_. scanning (fst ts, Some (m, h, f))"], rule hoareP_modify,
        erule (1) step, rule hoareP_lift, simp)
next
  case False
  then have "takeFactory SasKind m h fc (snd ts) = liftP (Inr (snd ts))"
    by (auto simp: takeFactory_def split: option.splits)
  then show ?thesis by (auto simp: libOpened_def intro: hoareP_lift)
qed

lemma openLib_hoare: "hoareP serverInv (scanning ts) (openLib env e ts) scanning"
proof (cases "moduleNameOf (seSuffix env) e")
  case None
  then show ?thesis by (auto simp: openLib_def hoareP_def)
next
  case m: (Some m)
  show ?thesis
  proof (cases "seLibrary env (providerPath @ e)")
    case None
    then show ?thesis by (auto simp: openLib_def m hoareP_def)
  next
    case (Some lib)
    show ?thesis
      unfolding openLib_def m option.case Some
    proof (rule hoareP_bind [where R = "\<lambda>h s. scanning ts s \<and> h = svNextHandle s"], rule hoareP_get, simp)
      fix h
      show "hoareP serverInv (\<lambda>s. scanning ts s \<and> h = svNextHandle s)
        (bindP (modifyP (\<lambda>s. emit [LibOpen h] (s\<lparr>svLibs := svLibs s @ [h], svNextHandle := h + 1\<rparr>))) (\<lambda>_.
         bindP (takeFactory IoKind m h (lcIo lib) (fst ts)) (\<lambda>io.
         bindP (takeFactory SasKind m h (lcSas lib) (snd ts)) (\<lambda>sas. liftP (Inr (io, sas)))))) scanning"
      proof (rule hoareP_bind [where R = "\<lambda>_ s. libOpened h ts s \<and> (IoKind, h) \<notin> lvFactories (believed s)"],
          rule hoareP_modify, use libOpen_step in blast)
        show "hoareP serverInv (\<lambda>s. libOpened h ts s \<and> (IoKind, h) \<notin> lvFactories (believed s))
          (bindP (takeFactory IoKind m h (lcIo lib) (fst ts)) (\<lambda>io.
           bindP (takeFactory SasKind m h (lcSas lib) (snd ts)) (\<lambda>sas. liftP (Inr (io, sas))))) scanning"
        proof (rule hoareP_bind [OF takeIo_hoare])
          fix io
          show "hoareP serverInv (libOpened h (io, snd ts))
            (bindP (takeFactory SasKind m h (lcSas lib) (snd ts)) (\<lambda>sas. liftP (Inr (io, sas)))) scanning"
            using takeSas_hoare [of h "(io, snd ts)" m "lcSas lib"]
            by (intro hoareP_bind [where R = "\<lambda>sas. scanning (io, sas)"] hoareP_lift) auto
        qed
      qed
    qed
  qed
qed

lemma openLibs_hoare: "hoareP serverInv (scanning ts) (openLibs env es ts) scanning"
proof (induction es arbitrary: ts)
  case Nil
  then show ?case by (auto simp: hoareP_def)
next
  case (Cons e es)
  then show ?case by (auto intro: hoareP_bind openLib_hoare)
qed

lemma providerOpen_step:
  assumes "serverInv s" "(k, h) \<in> lvFactories (believed s)"
    "k = IoKind \<longrightarrow> svIoProviders s = [] \<and> svSasProviders s = []"
    "k = SasKind \<longrightarrow> svSasProviders s = [] \<and> svIoProviders s \<noteq> []"
  shows "serverInv (emit [ProviderOpen k (h, 0)]
      (case k of
         IoKind \<Rightarrow> s\<lparr>svIoProviders := svIoProviders s @ [(h, 0)]\<rparr>
       | SasKind \<Rightarrow> s\<lparr>svSasProviders := svSasProviders s @ [(h, 0)]\<rparr>))"
proof (cases k)
  case IoKind
  have "followsRules (emit [ProviderOpen k (h, 0)] (s\<lparr>svIoProviders := svIoProviders s @ [(h, 0)]\<rparr>))"
    by (rule followsRules_step [of s])
      (use assms IoKind in \<open>simp_all add: serverInv_def believed_def allowed_def effect_def\<close>)
  then show ?thesis using assms IoKind by (auto simp: serverInv_def believed_def)
next
  case SasKind
  have "followsRules (emit [ProviderOpen k (h, 0)] (s\<lparr>svSasProviders := svSasProviders s @ [(h, 0)]\<rparr>))"
    by (rule followsRules_step [of s])
      (use assms SasKind in \<open>auto simp: serverInv_def believed_def allowed_def effect_def\<close>)
  then show ?thesis using assms SasKind by (auto simp: serverInv_def believed_def)
qed

lemma openIo_hoare:
  "hoareP serverInv (scanning (io, sas)) (openProvider IoKind io) (\<lambda>_. dataOpened sas)"
proof -
  have skip: "hoareP serverInv (scanning (io, sas)) (liftP (Inr ())) (\<lambda>_. dataOpened sas)"
    by (auto simp: scanning_def dataOpened_def intro: hoareP_lift)
  have step: "serverInv (emit [ProviderOpen IoKind (h, 0)] (s\<lparr>svIoProviders := svIoProviders s @ [(h, 0)]\<rparr>)) \<and>
      dataOpened sas (emit [ProviderOpen IoKind (h, 0)] (s\<lparr>svIoProviders := svIoProviders s @ [(h, 0)]\<rparr>))"
    if "serverInv s" "scanning (Some (m, h, fc), sas) s" for m h fc s
    using providerOpen_step [OF that(1), of IoKind h] that(2)
    by (auto simp: scanning_def dataOpened_def takenFrom_def believed_def split: option.splits)
  show ?thesis
  proof (cases io)
    case None
    with skip show ?thesis by (simp add: openProvider_def)
  next
    case (Some t)
    obtain m h fc where t: "t = (m, h, fc)" by (cases t)
    show ?thesis
    proof (cases "fcOpen fc")
      case Nil
      with Some t skip show ?thesis by (simp add: openProvider_def)
    next
      case (Cons open' rest)
      show ?thesis
        unfolding openProvider_def Some t option.case prod.case Cons list.case provider_kind.case
        by (rule hoareP_bind [where R = "\<lambda>_. scanning (Some (m, h, fc), sas)"], rule hoareP_get, assumption,
            rule hoareP_bind [where R = "\<lambda>_. scanning (Some (m, h, fc), sas)"], rule hoareP_lift, assumption,
            rule hoareP_modify, erule (1) step)
    qed
  qed
qed

lemma openSas_hoare:
  "hoareP serverInv (\<lambda>s. dataOpened sas s \<and> svIoProviders s \<noteq> []) (openProvider SasKind sas)
     (\<lambda>_ s. svCore s \<noteq> None)"
proof -
  have step: "serverInv (emit [ProviderOpen SasKind (h, 0)] (s\<lparr>svSasProviders := svSasProviders s @ [(h, 0)]\<rparr>)) \<and>
      svCore (emit [ProviderOpen SasKind (h, 0)] (s\<lparr>svSasProviders := svSasProviders s @ [(h, 0)]\<rparr>)) \<noteq> None"
    if "serverInv s" "dataOpened (Some (m, h, fc)) s \<and> svIoProviders s \<noteq> []" for m h fc s
    using providerOpen_step [OF that(1), of SasKind h] that(2)
    by (auto simp: dataOpened_def takenFrom_def)
  show ?thesis
  proof (cases sas)
    case None
    then show ?thesis by (auto simp: openProvider_def dataOpened_def intro: hoareP_lift)
  next
    case (Some t)
    obtain m h fc where t: "t = (m, h, fc)" by (cases t)
    show ?thesis
    proof (cases "fcOpen fc")
      case Nil
      with Some t show ?thesis by (auto simp: openProvider_def dataOpened_def intro: hoareP_lift)
    next
      case (Cons open' rest)
      let ?P = "\<lambda>s. dataOpened (Some (m, h, fc)) s \<and> svIoProviders s \<noteq> []"
      show ?thesis
        unfolding openProvider_def Some t option.case prod.case Cons list.case provider_kind.case
        by (rule hoareP_bind [where R = "\<lambda>_. ?P"], rule hoareP_get, assumption,
            rule hoareP_bind [where R = "\<lambda>_. ?P"], rule hoareP_lift, assumption,
            rule hoareP_modify, erule (1) step)
    qed
  qed
qed

lemma monitor_replicate:
  "allowed l e \<Longrightarrow> effect e l = l \<Longrightarrow> monitor (replicate n e) l = Some l"
  by (induction n) simp_all

lemma addToCore_hoare:
  "hoareP serverInv (\<lambda>s. svCore s \<noteq> None \<and> svSasProviders s \<noteq> []) (addToCore env) (\<lambda>_ _. True)"
proof -
  let ?P = "\<lambda>s. svCore s \<noteq> None \<and> svSasProviders s \<noteq> []"
  have add: "serverInv (emit (case c of None \<Rightarrow> [] | Some n \<Rightarrow> replicate n e) s)"
    if "serverInv s" "?P s" "e = CoreAddNodeManager \<or> e = CoreAddModule" for s c e
    using that by (intro serverInv_emit)
      (auto simp: believed_def allowed_def effect_def image_Un intro!: monitor_replicate split: option.split)
  show ?thesis
    unfolding addToCore_def
    by (rule hoareP_bind [where R = "\<lambda>_. ?P"], rule hoareP_get, assumption,
        rule hoareP_bind [where R = "\<lambda>_. ?P"], rule hoareP_modify, use add in simp,
        rule hoareP_modify, use add in simp)
qed

lemma openAll_hoare: "hoareP serverInv nothingHeld (openAll env) (\<lambda>_ _. True)"
  unfolding openAll_def
proof (rule hoareP_bind [OF startServer_hoare], rule hoareP_bind [where R = "\<lambda>_. scanning (None, None)"],
    rule hoareP_lift, assumption, rule hoareP_bind [OF openLibs_hoare])
  fix ts :: "taken \<times> taken"
  obtain io sas where ts: "ts = (io, sas)" by fastforce
  let ?P = "\<lambda>s. dataOpened sas s \<and> svIoProviders s \<noteq> []"
  show "hoareP serverInv (scanning ts)
    (bindP (openProvider IoKind (fst ts)) (\<lambda>_.
     bindP (getP svIoProviders) (\<lambda>ps.
     bindP (liftP (guardR (ps \<noteq> []) ServerException)) (\<lambda>_.
     bindP (openProvider SasKind (snd ts)) (\<lambda>_.
     bindP (getP svSasProviders) (\<lambda>ps.
     bindP (liftP (guardR (ps \<noteq> []) ServerException)) (\<lambda>_. addToCore env))))))) (\<lambda>_ _. True)"
    unfolding ts fst_conv snd_conv
    by (rule hoareP_bind [OF openIo_hoare],
        rule hoareP_bind [where R = "\<lambda>ps s. dataOpened sas s \<and> ps = svIoProviders s"], rule hoareP_get, simp,
        rule hoareP_bind [where R = "\<lambda>_. ?P"], rule hoareP_lift, simp,
        rule hoareP_bind [OF openSas_hoare],
        rule hoareP_bind [where R = "\<lambda>ps s. svCore s \<noteq> None \<and> ps = svSasProviders s"], rule hoareP_get, simp,
        rule hoareP_bind [where R = "\<lambda>_ s. svCore s \<noteq> None \<and> svSasProviders s \<noteq> []"], rule hoareP_lift, simp,
        rule addToCore_hoare)
qed

subsection \<open>Every life of a server\<close>

text \<open>
  Opening when nothing is held (a second \<open>open\<close> would overwrite the core), with Java or without, and
  closing, each without undefined behaviour.
\<close>

inductive serverReach :: "server \<Rightarrow> bool" where
  start: "serverReach newServer"
| open_plain: "serverReach s \<Longrightarrow> nothingHeld s \<Longrightarrow> serverOpen env s = Some (r, s') \<Longrightarrow>
    r \<noteq> Inl UndefinedBehaviour \<Longrightarrow> serverReach s'"
| open_java: "serverReach s \<Longrightarrow> nothingHeld s \<Longrightarrow> serverOpenJava env s = Some (r, s') \<Longrightarrow>
    r \<noteq> Inl UndefinedBehaviour \<Longrightarrow> serverReach s'"
| close: "serverReach s \<Longrightarrow> serverClose s = Some (r, s') \<Longrightarrow> r \<noteq> Inl UndefinedBehaviour \<Longrightarrow> serverReach s'"

lemma serverOpen_inv:
  assumes "serverInv s" "nothingHeld s" "serverOpen env s = Some (r, s')" "r \<noteq> Inl UndefinedBehaviour"
  shows "serverInv s' \<and> (\<not> isOk r \<longrightarrow> nothingHeld s')"
proof -
  obtain q s1 where q: "openAll env s = Some (q, s1)"
    using assms(3) by (auto simp: serverOpen_def catchP_def split: option.splits)
  have inv: "q = Inl UndefinedBehaviour \<or> serverInv s1"
    using openAll_hoare [of env] assms(1,2) q unfolding hoareP_def by blast
  show ?thesis
  proof (cases q)
    case (Inr x)
    then have "r = Inr x" "s' = s1" using assms(3) q by (simp_all add: serverOpen_def)
    then show ?thesis using Inr inv by simp
  next
    case (Inl e)
    then have e: "e \<noteq> UndefinedBehaviour" "bindP serverClose (\<lambda>_. liftP (Inl e)) s1 = Some (r, s')"
      using assms(3,4) q by (auto simp: serverOpen_def catchP_def split: if_splits)
    then obtain c s2 where c: "serverClose s1 = Some (c, s2)"
      by (auto simp: bindP_def split: option.splits)
    have "c \<noteq> Inl UndefinedBehaviour" using c e(2) assms(4) by (auto simp: bindP_def)
    moreover have "serverInv s1" using inv Inl e(1) by simp
    ultimately have s2: "c = Inr ()" "nothingHeld s2" "serverInv s2" using serverClose_inv [OF _ c] by auto
    then show ?thesis using c e(2) by (simp add: bindP_def)
  qed
qed

lemma serverInv_new: "serverInv newServer" "nothingHeld newServer"
  by (simp_all add: serverInv_def nothingHeld_def followsRules_def newServer_def believed_def noneLive_def)

lemma serverInv_java: "serverInv s \<Longrightarrow> serverInv (s\<lparr>svJava := True\<rparr>)" "nothingHeld s \<Longrightarrow> nothingHeld (s\<lparr>svJava := True\<rparr>)"
  by (simp_all add: serverInv_def followsRules_def believed_def nothingHeld_def)

lemma serverReach_inv: "serverReach s \<Longrightarrow> serverInv s"
proof (induction rule: serverReach.induct)
  case start
  then show ?case by (rule serverInv_new)
next
  case (open_plain s env r s')
  then show ?case using serverOpen_inv by blast
next
  case (open_java s env r s')
  then have "serverOpen env (s\<lparr>svJava := True\<rparr>) = Some (r, s')" by (simp add: serverOpenJava_def)
  then show ?case using open_java serverInv_java serverOpen_inv by blast
next
  case (close s r s')
  then show ?case using serverClose_inv by blast
qed


subsection \<open>When opening succeeds\<close>

text \<open>The libraries that are loaded, in the order of their names, and the first factory of a kind in them.\<close>

definition loadable :: "server_env \<Rightarrow> string \<Rightarrow> (string \<times> library_code) option" where
  "loadable env e =
    (case moduleNameOf (seSuffix env) e of
       None \<Rightarrow> None
     | Some m \<Rightarrow> map_option (Pair m) (seLibrary env (providerPath @ e)))"

fun firstFactory :: "(library_code \<Rightarrow> factory_code option) \<Rightarrow> server_env \<Rightarrow> string list \<Rightarrow> (string \<times> factory_code) option" where
  "firstFactory sel env [] = None"
| "firstFactory sel env (e # es) =
     (case loadable env e of
        None \<Rightarrow> firstFactory sel env es
      | Some (m, lib) \<Rightarrow> (case sel lib of None \<Rightarrow> firstFactory sel env es | Some fc \<Rightarrow> Some (m, fc)))"

definition opensFirst :: "(string \<Rightarrow> string option) \<Rightarrow> (string \<times> factory_code) option \<Rightarrow> bool" where
  "opensFirst dir t =
    (case t of
       None \<Rightarrow> False
     | Some (m, fc) \<Rightarrow> (case fcOpen fc of [] \<Rightarrow> False | open' # _ \<Rightarrow> isOk (open' (dir m))))"

definition view :: "taken \<Rightarrow> (string \<times> factory_code) option" where
  "view t = map_option (\<lambda>(m, h, fc). (m, fc)) t"

definition sameRest :: "server \<Rightarrow> server \<Rightarrow> bool" where
  "sameRest s s' \<longleftrightarrow>
    svJava s' = svJava s \<and> svIoProviders s' = svIoProviders s \<and> svSasProviders s' = svSasProviders s"

lemma takeFactory_run:
  "\<exists>t' s'. takeFactory k m h fc t s = Some (Inr t', s') \<and>
     view t' = (case view t of None \<Rightarrow> map_option (Pair m) fc | v \<Rightarrow> v) \<and> sameRest s s'"
  by (cases k; cases fc; cases t) (auto simp: takeFactory_def view_def sameRest_def)

lemma openLib_run:
  "\<exists>io' sas' s'. openLib env e (io, sas) s = Some (Inr (io', sas'), s') \<and>
     view io' = (case view io of None \<Rightarrow> firstFactory lcIo env [e] | v \<Rightarrow> v) \<and>
     view sas' = (case view sas of None \<Rightarrow> firstFactory lcSas env [e] | v \<Rightarrow> v) \<and> sameRest s s'"
proof (cases "loadable env e")
  case None
  then have "openLib env e (io, sas) s = Some (Inr (io, sas), s)"
    by (auto simp: openLib_def loadable_def split: option.splits)
  then show ?thesis using None by (auto simp: sameRest_def split: option.split)
next
  case (Some p)
  obtain m lib where p: "p = (m, lib)" by fastforce
  have m: "moduleNameOf (seSuffix env) e = Some m" "seLibrary env (providerPath @ e) = Some lib"
    using Some by (auto simp: loadable_def p split: option.splits)
  let ?h = "svNextHandle s"
  let ?s1 = "emit [LibOpen ?h] (s\<lparr>svLibs := svLibs s @ [?h], svNextHandle := ?h + 1\<rparr>)"
  obtain io' s2 where io: "takeFactory IoKind m ?h (lcIo lib) io ?s1 = Some (Inr io', s2)"
    "view io' = (case view io of None \<Rightarrow> map_option (Pair m) (lcIo lib) | v \<Rightarrow> v)" "sameRest ?s1 s2"
    using takeFactory_run [of IoKind m ?h "lcIo lib" io ?s1] by blast
  obtain sas' s3 where sas: "takeFactory SasKind m ?h (lcSas lib) sas s2 = Some (Inr sas', s3)"
    "view sas' = (case view sas of None \<Rightarrow> map_option (Pair m) (lcSas lib) | v \<Rightarrow> v)" "sameRest s2 s3"
    using takeFactory_run [of SasKind m ?h "lcSas lib" sas s2] by blast
  have "openLib env e (io, sas) s = Some (Inr (io', sas'), s3)"
    by (simp add: openLib_def m io(1) [simplified] sas(1))
  moreover have f: "firstFactory sel env [e] = map_option (Pair m) (sel lib)" for sel
    by (simp add: Some p split: option.split)
  moreover have "view io' = (case view io of None \<Rightarrow> firstFactory lcIo env [e] | v \<Rightarrow> v)"
    "view sas' = (case view sas of None \<Rightarrow> firstFactory lcSas env [e] | v \<Rightarrow> v)"
    by (simp_all only: f io(2) sas(2))
  moreover have "sameRest s s3" using io(3) sas(3) by (simp add: sameRest_def)
  ultimately show ?thesis by blast
qed

lemma firstFactory_Cons:
  "firstFactory sel env (e # es) =
    (case firstFactory sel env [e] of None \<Rightarrow> firstFactory sel env es | v \<Rightarrow> v)"
  by (simp split: option.split)

lemma openLibs_run:
  "\<exists>io' sas' s'. openLibs env es (io, sas) s = Some (Inr (io', sas'), s') \<and>
     view io' = (case view io of None \<Rightarrow> firstFactory lcIo env es | v \<Rightarrow> v) \<and>
     view sas' = (case view sas of None \<Rightarrow> firstFactory lcSas env es | v \<Rightarrow> v) \<and> sameRest s s'"
proof (induction es arbitrary: io sas s)
  case Nil
  then show ?case by (auto simp: sameRest_def split: option.split)
next
  case (Cons e es)
  obtain io1 sas1 s1 where one: "openLib env e (io, sas) s = Some (Inr (io1, sas1), s1)"
    "view io1 = (case view io of None \<Rightarrow> firstFactory lcIo env [e] | v \<Rightarrow> v)"
    "view sas1 = (case view sas of None \<Rightarrow> firstFactory lcSas env [e] | v \<Rightarrow> v)" "sameRest s s1"
    using openLib_run by blast
  obtain io2 sas2 s2 where rest: "openLibs env es (io1, sas1) s1 = Some (Inr (io2, sas2), s2)"
    "view io2 = (case view io1 of None \<Rightarrow> firstFactory lcIo env es | v \<Rightarrow> v)"
    "view sas2 = (case view sas1 of None \<Rightarrow> firstFactory lcSas env es | v \<Rightarrow> v)" "sameRest s1 s2"
    using Cons.IH by blast
  have "openLibs env (e # es) (io, sas) s = Some (Inr (io2, sas2), s2)" by (simp add: one(1) rest(1))
  moreover have "view io2 = (case view io of None \<Rightarrow> firstFactory lcIo env (e # es) | v \<Rightarrow> v)"
    unfolding firstFactory_Cons [of lcIo env e es] rest(2) one(2) by (auto split: option.split)
  moreover have "view sas2 = (case view sas of None \<Rightarrow> firstFactory lcSas env (e # es) | v \<Rightarrow> v)"
    unfolding firstFactory_Cons [of lcSas env e es] rest(3) one(3) by (auto split: option.split)
  moreover have "sameRest s s2" using one(4) rest(4) by (simp add: sameRest_def)
  ultimately show ?case by blast
qed

definition kindDir :: "bool \<Rightarrow> string \<Rightarrow> string option" where
  "kindDir java m = (if java then None else Some (confDir @ m @ ''/''))"

text \<open>After one opening of a provider of a kind: its list, and the rest.\<close>

lemma openIo_run:
  "\<exists>r s'. openProvider IoKind t s = Some (r, s') \<and> svJava s' = svJava s \<and>
     svSasProviders s' = svSasProviders s \<and>
     (isOk r \<and> svIoProviders s' \<noteq> [] \<longleftrightarrow> opensFirst (kindDir (svJava s)) (view t) \<or>
        isOk r \<and> svIoProviders s \<noteq> [])"
  by (cases t; cases "case t of None \<Rightarrow> [] | Some (m, h, fc) \<Rightarrow> fcOpen fc")
    (auto simp: openProvider_def opensFirst_def view_def kindDir_def bindP_liftP isOk_iff split: sum.split)

lemma openSas_run:
  "\<exists>r s'. openProvider SasKind t s = Some (r, s') \<and>
     (isOk r \<and> svSasProviders s' \<noteq> [] \<longleftrightarrow> opensFirst (kindDir False) (view t) \<or>
        isOk r \<and> svSasProviders s \<noteq> [])"
  by (cases t; cases "case t of None \<Rightarrow> [] | Some (m, h, fc) \<Rightarrow> fcOpen fc")
    (auto simp: openProvider_def opensFirst_def view_def kindDir_def bindP_liftP isOk_iff split: sum.split)

definition opensAll :: "server_env \<Rightarrow> bool \<Rightarrow> bool" where
  "opensAll env java =
    (sePlatform env \<and> seStart env \<and>
     (case seListing env providerPath of
        None \<Rightarrow> False
      | Some es \<Rightarrow>
          opensFirst (kindDir java) (firstFactory lcIo env (sort es)) \<and>
          opensFirst (kindDir False) (firstFactory lcSas env (sort es))))"

lemma startServer_run:
  "\<exists>r s'. startServer env s = Some (r, s') \<and> (isOk r \<longleftrightarrow> sePlatform env \<and> seStart env) \<and> sameRest s s'"
  by (cases "sePlatform env"; cases "seStart env") (auto simp: startServer_def bindP_liftP sameRest_def)

lemma addToCore_run: "\<exists>s'. addToCore env s = Some (Inr (), s')"
  by (simp add: addToCore_def)

lemma isOk_unit: "isOk r \<longleftrightarrow> r = Inr ()" for r :: "(cpp_error, unit) res"
  by (cases r) simp_all

lemma openAll_run:
  assumes "svIoProviders s = []" "svSasProviders s = []"
  shows "\<exists>r s'. openAll env s = Some (r, s') \<and> (isOk r \<longleftrightarrow> opensAll env (svJava s))"
proof -
  obtain r1 s1 where one: "startServer env s = Some (r1, s1)" "isOk r1 \<longleftrightarrow> sePlatform env \<and> seStart env" "sameRest s s1"
    using startServer_run by blast
  show ?thesis
  proof (cases "isOk r1 \<and> seListing env providerPath \<noteq> None")
    case False
    then show ?thesis
      using one(1,2) by (cases r1) (auto simp: openAll_def bindP_def opensAll_def liftP_def split: option.splits)
  next
    case True
    then obtain es where es: "seListing env providerPath = Some es" and r1: "r1 = Inr ()"
      by (auto simp: isOk_unit)
    obtain io sas s2 where libs: "openLibs env (sort es) (None, None) s1 = Some (Inr (io, sas), s2)"
      "view io = firstFactory lcIo env (sort es)" "view sas = firstFactory lcSas env (sort es)" "sameRest s1 s2"
      using openLibs_run [of env "sort es" None None s1] by (auto simp: view_def)
    obtain r3 s3 where io: "openProvider IoKind io s2 = Some (r3, s3)" "svSasProviders s3 = []"
      "isOk r3 \<and> svIoProviders s3 \<noteq> [] \<longleftrightarrow> opensFirst (kindDir (svJava s)) (firstFactory lcIo env (sort es))"
      using openIo_run [of io s2] one(3) libs(2,4) assms by (auto simp: sameRest_def)
    obtain r4 s4 where sas: "openProvider SasKind sas s3 = Some (r4, s4)"
      "isOk r4 \<and> svSasProviders s4 \<noteq> [] \<longleftrightarrow> opensFirst (kindDir False) (firstFactory lcSas env (sort es))"
      using openSas_run [of sas s3] io(2) libs(3) by auto
    obtain s5 where add: "addToCore env s4 = Some (Inr (), s5)" using addToCore_run by blast
    have start: "opensAll env (svJava s) \<longleftrightarrow>
        (isOk r3 \<and> svIoProviders s3 \<noteq> []) \<and> (isOk r4 \<and> svSasProviders s4 \<noteq> [])"
      using True one(2) by (simp add: opensAll_def es io(3) sas(2))
    have run: "openAll env s =
        bindP (openProvider IoKind io) (\<lambda>_.
        bindP (getP svIoProviders) (\<lambda>ps.
        bindP (liftP (guardR (ps \<noteq> []) ServerException)) (\<lambda>_.
        bindP (openProvider SasKind sas) (\<lambda>_.
        bindP (getP svSasProviders) (\<lambda>ps.
        bindP (liftP (guardR (ps \<noteq> []) ServerException)) (\<lambda>_. addToCore env)))))) s2"
      using one(1) r1 libs(1) by (simp add: openAll_def es)
    show ?thesis
    proof (cases "isOk r3 \<and> svIoProviders s3 \<noteq> []")
      case False
      then show ?thesis
        using io(1) start by (cases r3) (auto simp: run bindP_def liftP_def getP_def)
    next
      case ok3: True
      then have r3: "r3 = Inr ()" by (simp add: isOk_unit)
      show ?thesis
      proof (cases "isOk r4 \<and> svSasProviders s4 \<noteq> []")
        case False
        then show ?thesis
          using io(1) r3 ok3 sas(1) start by (cases r4) (auto simp: run bindP_def liftP_def getP_def)
      next
        case True
        then have "r4 = Inr ()" by (simp add: isOk_unit)
        then have "openAll env s = Some (Inr (), s5)"
          using True ok3 io(1) r3 sas(1) add by (simp add: run)
        then show ?thesis using start ok3 True by simp
      qed
    qed
  qed
qed

text \<open>
  C20. Opening succeeds exactly when the platform and the core start, the directory can be read, and
  the first provider of the first factory of each kind opens, in the order of the names of the
  libraries; everything else in the directory is ignored.
\<close>

theorem server_open_succeeds:
  assumes "nothingHeld s"
  shows "(\<exists>s'. serverOpen env s = Some (Inr (), s')) \<longleftrightarrow> opensAll env (svJava s)"
proof -
  obtain r s1 where run: "openAll env s = Some (r, s1)" "isOk r \<longleftrightarrow> opensAll env (svJava s)"
    using openAll_run [of s env] assms by (auto simp: nothingHeld_def)
  show ?thesis
  proof (cases r)
    case (Inr u)
    then show ?thesis using run by (simp add: serverOpen_def)
  next
    case (Inl e)
    then have "serverOpen env s \<noteq> Some (Inr (), s')" for s'
      using run(1) by (auto simp: serverOpen_def catchP_def bindP_def liftP_def split: option.splits sum.splits prod.splits)
    then show ?thesis using run(2) Inl by simp
  qed
qed

subsection \<open>Names\<close>

text \<open>
  The name of a module is what stands between the count with the prefix \<open>lib\<close> and the suffix.
\<close>

theorem library_module_name:
  assumes "list_all isCountChar count" "m \<noteq> []"
  shows "moduleNameOf libSuffix (count @ ''lib'' @ m @ libSuffix) = Some m"
proof -
  let ?e = "count @ ''lib'' @ m @ libSuffix"
  have l: "\<not> isCountChar (CHR ''l'')" by (simp add: isCountChar_def isDigit_def)
  have "takeWhile isCountChar ?e = count"
    using assms(1) l by (simp add: list_all_iff takeWhile_append)
  then have c: "countNumber ?e = int (length count)"
    using l by (simp add: countNumber_def)
  have n: "nat (int (length count) + 3) = length count + 3" by simp
  have d: "drop (length count + 3) ?e = m @ libSuffix" by simp
  have s: "int (length ?e) - (int (length count) + 3 + int (length libSuffix)) = int (length m)" by simp
  have p: "int (length ?e) > int (length count) + 3 + int (length libSuffix)" using assms(2) by simp
  show ?thesis
    unfolding moduleNameOf_def Let_def c n d s if_P [OF p] nat_int by simp
qed

subsection \<open>A concrete server\<close>

definition exampleFactory :: factory_code where
  "exampleFactory = \<lparr>fcOpen = [\<lambda>_. Inr ()], fcDestroy = True\<rparr>"

definition exampleServerEnv :: server_env where
  "exampleServerEnv =
    \<lparr>sePlatform = True, seStart = True,
     seListing = (\<lambda>d. Some [''02_libmodel.so'', ''.'', ''01_libdata.so'', ''..'']),
     seLibrary = (\<lambda>f. if f = ''/usr/lib/provider/01_libdata.so'' then Some \<lparr>lcIo = Some exampleFactory, lcSas = None\<rparr>
       else if f = ''/usr/lib/provider/02_libmodel.so'' then Some \<lparr>lcIo = None, lcSas = Some exampleFactory\<rparr>
       else None),
     seSuffix = ''.so'', seNodeManagers = (\<lambda>_. None), seModules = (\<lambda>_. Some 2)\<rparr>"

definition exampleTrace :: "server_event list" where
  "exampleTrace =
    [ParserInit, PlatformInit, CoreNew, CoreStart, LibOpen 0, FactoryNew IoKind 0, LibOpen 1, FactoryNew SasKind 1,
     ProviderOpen IoKind (0, 0), ProviderOpen SasKind (1, 0), CoreAddModule, CoreAddModule]"

lemma example_opened:
  "serverOpen exampleServerEnv newServer =
    Some (Inr (), \<lparr>svJava = False, svCore = Some True, svLibs = [0, 1], svIoFactories = [(0, True)],
      svIoProviders = [(0, 0)], svSasFactories = [(1, True)], svSasProviders = [(1, 0)], svNextHandle = 2,
      svTrace = exampleTrace\<rparr>)"
  by code_simp


theorem server_open_succeeds_witness: "opensAll exampleServerEnv False"
  using server_open_succeeds [OF serverInv_new(2), of exampleServerEnv] example_opened
  by (simp add: newServer_def)

theorem library_module_name_witness: "moduleNameOf ''.so'' ''01_libmy.so'' = Some ''my''"
  using library_module_name [of "''01_''" "''my''" "''.so''"] by (simp add: isCountChar_def isDigit_def)

end
