(* ===== verification/Opcua_Api.thy ===== *)
theory Opcua_Api
  imports Client Ha_Server
begin

text \<open>
  The native methods behind the two Java classes: \<open>OPCUA\<close>, a client (\<open>main/native/opcua_OPCUA.cpp\<close>), and
  \<open>OPCUADataProvider\<close>, a server (\<open>main/native/opcua_OPCUADataProvider.cpp\<close>). The objects live in global
  variables. A Java exception thrown with \<open>ThrowNew\<close> is a result; its text is kept without the stack trace
  of the C++ exception, which is given as it is. A C++ exception that leaves a native method is undefined.
  Objects that are replaced or not deleted leak; log output is left out.
\<close>

subsection \<open>State\<close>

text \<open>The options of the client, \<open>None\<close> for the pointers that are \<open>NULL\<close>.\<close>

record api_options =
  aoHost :: "string option"
  aoPort :: "int option"
  aoUser :: "string option"
  aoPassword :: "string option"
  aoPublishInterval :: "int option"
  aoConnectTimeout :: "int option"
  aoSendReceiveTimeout :: "int option"
  aoWatchdogInterval :: "int option"

definition noOptions :: api_options where
  "noOptions = \<lparr>aoHost = None, aoPort = None, aoUser = None, aoPassword = None, aoPublishInterval = None,
     aoConnectTimeout = None, aoSendReceiveTimeout = None, aoWatchdogInterval = None\<rparr>"

text \<open>
  The options are static: they outlive an \<open>open\<close>. \<open>apServerId\<close> is the identity the Java conversions report
  with a change of the connection; they are created with the client.
\<close>

record api_state =
  apOpened :: bool
  apClient :: "client option"
  apOptions :: api_options
  apConnection :: string
  apServerId :: string

definition apiInitial :: api_state where
  "apiInitial = \<lparr>apOpened = False, apClient = None, apOptions = noOptions, apConnection = [], apServerId = []\<rparr>"

text \<open>
  The client's environment, the virtual machine, whether the platform of the SDK starts, how the attempts
  to connect with given options go, the text of the session's id, and the answers to browse requests. The
  handler of the messages of the client are the Java conversions.
\<close>

record api_env =
  aeClient :: client_env
  aeVm :: java_vm
  aePlatform :: bool
  aeConnect :: "api_options \<Rightarrow> connect_env"
  aeSessionId :: string
  aeDisconnect :: bool
  aeBrowse :: "ua_node_id \<Rightarrow> browse_answers"

datatype 'a api_result = ApiThrows string "cpp_error option" | ApiReturns 'a

type_synonym 'a api_op = "(api_state, 'a api_result) op"

text \<open>The pointer to the client is \<open>NULL\<close> before the first \<open>open\<close>.\<close>

definition onClient :: "(client, 'a) op \<Rightarrow> (api_state, 'a) op" where
  "onClient m = (\<lambda>s.
    case apClient s of
      None \<Rightarrow> Some (Inl UndefinedBehaviour, s)
    | Some cl \<Rightarrow> map_option (\<lambda>(r, cl'). (r, s\<lparr>apClient := Some cl'\<rparr>)) (m cl))"

definition notConnected :: string where
  "notConnected = ''The device connection is not established. Operation not possible.''"

definition connected :: "string \<Rightarrow> 'a api_op \<Rightarrow> 'a api_op" where
  "connected prefix body =
    bindP (getP apOpened) (\<lambda>opened.
      if opened then catchP body (\<lambda>e. liftP (Inr (ApiThrows prefix (Some e))))
      else liftP (Inr (ApiThrows notConnected None)))"

text \<open>The model of the types the Java conversions were last told.\<close>

definition currentModel :: "client \<Rightarrow> type_model" where
  "currentModel cl =
    foldl (\<lambda>m msg. case msg of ModelMessage m' \<Rightarrow> m' | _ \<Rightarrow> m) Map.empty (clSent cl)"

subsection \<open>Opening and closing\<close>

text \<open>An entry of a hash map whose values are strings; an absent one is the empty string.\<close>

definition getMapEntry :: "java_vm \<Rightarrow> java_object \<Rightarrow> string \<Rightarrow> (cpp_error, string) res" where
  "getMapEntry vm properties key =
    (case properties of
       JHashMap es \<Rightarrow>
         (case map_of es (javaText vm key) of
            None \<Rightarrow> Inr []
          | Some JNull \<Rightarrow> Inr []
          | Some (JString s) \<Rightarrow> Inr (jvGetStringUTFChars vm s)
          | _ \<Rightarrow> Inl UndefinedBehaviour)
     | _ \<Rightarrow> Inl UndefinedBehaviour)"

text \<open>\<open>atoi\<close>; a number that is no \<open>int\<close> is undefined.\<close>

definition atoiR :: "string \<Rightarrow> (cpp_error, int) res" where
  "atoiR s =
    (case dropWhile isSpaceC s of
       [] \<Rightarrow> Inr 0
     | c # cs \<Rightarrow>
         (let neg = (c = CHR ''-'');
              ds = takeWhile isDigit (if neg \<or> c = CHR ''+'' then cs else c # cs);
              v = (if neg then - int (digitsVal ds) else int (digitsVal ds))
          in if - (2 ^ 31) \<le> v \<and> v < 2 ^ 31 then Inr v else Inl UndefinedBehaviour))"

definition intOption :: "java_vm \<Rightarrow> java_object \<Rightarrow> string \<Rightarrow> int option \<Rightarrow> (cpp_error, int option) res" where
  "intOption vm properties key old =
    bindR (getMapEntry vm properties key) (\<lambda>t. if t = [] then Inr old else mapR Some (atoiR t))"

text \<open>The options that follow the host, and the text of the connection. The password goes with the user.\<close>

definition readOptions :: "java_vm \<Rightarrow> java_object \<Rightarrow> string \<Rightarrow> api_options \<Rightarrow> (cpp_error, api_options \<times> string) res" where
  "readOptions vm properties host options =
    bindR (getMapEntry vm properties ''port'') (\<lambda>port.
    bindR (intOption vm properties ''port'' (aoPort options)) (\<lambda>portOption.
    bindR (getMapEntry vm properties ''username'') (\<lambda>user.
    bindR (getMapEntry vm properties ''password'') (\<lambda>password.
    bindR (intOption vm properties ''publishInterval'' (aoPublishInterval options)) (\<lambda>publishInterval.
    bindR (intOption vm properties ''connectTimeout'' (aoConnectTimeout options)) (\<lambda>connectTimeout.
    bindR (intOption vm properties ''sendReceiveTimeout'' (aoSendReceiveTimeout options)) (\<lambda>sendReceiveTimeout.
    bindR (intOption vm properties ''watchdogInterval'' (aoWatchdogInterval options)) (\<lambda>watchdogInterval.
      Inr (\<lparr>aoHost = Some host, aoPort = portOption,
           aoUser = (if user \<noteq> [] then Some user else aoUser options),
           aoPassword = (if user \<noteq> [] then Some password else aoPassword options),
           aoPublishInterval = publishInterval, aoConnectTimeout = connectTimeout,
           aoSendReceiveTimeout = sendReceiveTimeout, aoWatchdogInterval = watchdogInterval\<rparr>,
         host @ (if port \<noteq> [] then '':'' @ port else []))))))))))"

text \<open>An \<open>open\<close> that fails leaves \<open>apOpened\<close> as it was, with a client that has no session.\<close>

definition apiOpen :: "api_env \<Rightarrow> java_object \<Rightarrow> unit api_op" where
  "apiOpen env properties =
    bindP (modifyP (\<lambda>s. s\<lparr>apClient := Some newClient, apServerId := []\<rparr>)) (\<lambda>_.
    bindP (liftP (getMapEntry (aeVm env) properties ''host'')) (\<lambda>host.
    if host = [] then liftP (Inr (ApiThrows ''Failed to open Server connection. No Host given!'' None))
    else
      bindP (getP apOptions) (\<lambda>options.
      bindP (liftP (readOptions (aeVm env) properties host options)) (\<lambda>(options', connection).
      bindP (modifyP (\<lambda>s. s\<lparr>apOptions := options', apConnection := connection, apServerId := connection\<rparr>)) (\<lambda>_.
        catchP
          (bindP (onClient (clientOpen (aeClient env) (aePlatform env) (aeConnect env options')
              \<lparr>coConnectTimeout = aoConnectTimeout options'\<rparr>)) (\<lambda>_.
           bindP (modifyP (\<lambda>s. s\<lparr>apServerId := connection @ ''@'' @ aeSessionId env, apOpened := True\<rparr>)) (\<lambda>_.
             liftP (Inr (ApiReturns ())))))
          (\<lambda>e. liftP (Inr (ApiThrows ''Failed to read data: '' (Some e)))))))))"

definition apiClose :: "api_env \<Rightarrow> (api_state, unit) op" where
  "apiClose env =
    bindP (getP apOpened) (\<lambda>opened.
      if opened then
        bindP (catchP (onClient (clientClose (aeClient env) (aeDisconnect env)))
            (\<lambda>_. liftP (Inl UndefinedBehaviour))) (\<lambda>_.
          modifyP (\<lambda>s. s\<lparr>apOpened := False\<rparr>))
      else liftP (Inr ()))"

subsection \<open>Requests\<close>

definition ofJavaResult :: "java_result \<Rightarrow> java_object api_result" where
  "ofJavaResult r = (case r of JavaThrows t \<Rightarrow> ApiThrows t None | JavaReturns d \<Rightarrow> ApiReturns d)"

definition apiRead :: "api_env \<Rightarrow> c_int \<Rightarrow> java_object \<Rightarrow> java_object api_op" where
  "apiRead env ns id' = connected ''Failed to read data: ''
    (bindP (liftP (createParamId (aeVm env) ns id')) (\<lambda>paramId.
     bindP (onClient (\<lambda>cl. Some (clientRead (aeClient env) 9999 paramId cl, cl))) (\<lambda>msg.
       liftP (mapR ofJavaResult (readResponseToJava (aeVm env) (rrStatus msg) (rrValue msg))))))"

text \<open>The error code of a failed call is not passed on.\<close>

definition apiExec ::
  "api_env \<Rightarrow> c_int \<Rightarrow> java_object \<Rightarrow> c_int \<Rightarrow> java_object \<Rightarrow> java_object list option \<Rightarrow> java_object api_op"
where
  "apiExec env objNs objId metNs metId params = connected ''Failed to exec: ''
    (bindP (liftP (createParamId (aeVm env) objNs objId)) (\<lambda>objectId.
     bindP (liftP (createParamId (aeVm env) metNs metId)) (\<lambda>methodId.
     bindP (onClient (checkModel (aeClient env) methodId 0)) (\<lambda>names.
     bindP (onClient (\<lambda>cl. Some (
       javaParamList (aeVm env) (currentModel cl) params names (refModelType (paramIdToString methodId)), cl))) (\<lambda>list.
     bindP (onClient (\<lambda>cl. Some (
       case clientCall (aeClient env) 9999 methodId objectId list cl of Inl (e, _) \<Rightarrow> Inl e | Inr msg \<Rightarrow> Inr msg, cl))) (\<lambda>msg.
       liftP (mapR ofJavaResult (callResponseToJava (aeVm env) (crStatus msg)
         (case crParams msg of None \<Rightarrow> [] | Some ps \<Rightarrow> ps)))))))))"

definition apiWrite :: "api_env \<Rightarrow> c_int \<Rightarrow> java_object \<Rightarrow> java_object \<Rightarrow> unit api_op" where
  "apiWrite env ns id' data = connected ''Failed to write data: ''
    (bindP (liftP (createParamId (aeVm env) ns id')) (\<lambda>paramId.
     bindP (onClient (checkModel (aeClient env) paramId 1)) (\<lambda>names.
     bindP (liftP (case names of [] \<Rightarrow> Inl UndefinedBehaviour | name # _ \<Rightarrow> Inr name)) (\<lambda>name.
     bindP (onClient (\<lambda>cl. Some (
       javaToBin (aeVm env) (currentModel cl) data name (refModelType (paramIdToString paramId)), cl))) (\<lambda>var.
     bindP (onClient (\<lambda>cl. Some (clientWrite (aeClient env) paramId var cl, cl))) (\<lambda>_.
       liftP (Inr (ApiReturns ()))))))))"

definition apiSubscribe :: "api_env \<Rightarrow> c_int \<Rightarrow> java_object \<Rightarrow> unit api_op" where
  "apiSubscribe env ns id' = connected ''Failed to subscribe: ''
    (bindP (liftP (createParamId (aeVm env) ns id')) (\<lambda>paramId.
     bindP (onClient (clientSubscribe (aeClient env) paramId)) (\<lambda>_.
       liftP (Inr (ApiReturns ())))))"

definition apiUnsubscribe :: "api_env \<Rightarrow> c_int \<Rightarrow> java_object \<Rightarrow> unit api_op" where
  "apiUnsubscribe env ns id' = connected ''Failed to unsubscribe: ''
    (bindP (liftP (createParamId (aeVm env) ns id')) (\<lambda>paramId.
     bindP (onClient (clientUnsubscribe (aeClient env) paramId)) (\<lambda>_.
       liftP (Inr (ApiReturns ())))))"

text \<open>
  The name space of the start is the one given, without the default. Releasing the text of the prefix names
  the wrong string, which is taken to be ignored; the fields are copied into Java maps as they are.
\<close>

definition apiBrowse :: "api_env \<Rightarrow> c_int \<Rightarrow> java_object \<Rightarrow> java_object \<Rightarrow> browse_fields api_op" where
  "apiBrowse env ns nodeId prefix =
    bindP (getP apOpened) (\<lambda>opened.
      if \<not> opened then liftP (Inr (ApiThrows notConnected None))
      else
        bindP (liftP (createParamId (aeVm env) ns nodeId)) (\<lambda>paramId.
        bindP (liftP (case prefix of JString p \<Rightarrow> Inr (jvGetStringUTFChars (aeVm env) p)
            | _ \<Rightarrow> Inl UndefinedBehaviour)) (\<lambda>prefixText.
        let start = (case paramId of
            ParamNumeric _ i \<Rightarrow> UaNumeric (ucast ns) (ucast i)
          | ParamString _ t \<Rightarrow> UaString (ucast ns) (cstr t)) in
        bindP (onClient getSession) (\<lambda>_ s.
          map_option (\<lambda>fields'. (Inr (ApiReturns fields'), s))
            (clientBrowse (ceFullString (aeClient env)) prefixText (aeBrowse env start))))))"

subsection \<open>The data provider\<close>

text \<open>
  Every \<open>open\<close> creates another server; the one before is lost. A notification before the first \<open>open\<close> goes
  through a \<open>NULL\<close> pointer.
\<close>

definition dataProviderOpen :: "server_env \<Rightarrow> (server option, unit api_result) op" where
  "dataProviderOpen env = (\<lambda>_.
    case serverOpenJava env newServer of
      None \<Rightarrow> None
    | Some (Inr _, s) \<Rightarrow> Some (Inr (ApiReturns ()), Some s)
    | Some (Inl e, s) \<Rightarrow>
        Some (if e = UndefinedBehaviour then Inl e else Inr (ApiThrows ''Failed open server: '' (Some e)), Some s))"

definition dataProviderNotification :: "(provider_id \<Rightarrow> 'w \<Rightarrow> 'w) \<Rightarrow> server option \<Rightarrow> 'w \<Rightarrow> (cpp_error, 'w) res" where
  "dataProviderNotification notify server w =
    (case server of None \<Rightarrow> Inl UndefinedBehaviour | Some s \<Rightarrow> Inr (serverNotification notify s w))"

subsection \<open>Without a connection\<close>

lemma connected_closed [simp]: "\<not> apOpened s \<Longrightarrow> connected prefix body s = Some (Inr (ApiThrows notConnected None), s)"
  by (simp add: connected_def)

text \<open>
  Before a successful \<open>open\<close>, and after \<open>close\<close>, every request throws the same Java exception and changes
  nothing, whatever the arguments are and also when there is no client yet; \<open>close\<close> does nothing.
\<close>

theorem api_not_connected:
  assumes "\<not> apOpened s"
  shows "apiRead env ns d s = Some (Inr (ApiThrows notConnected None), s) \<and>
    apiExec env ns d ns' d' params s = Some (Inr (ApiThrows notConnected None), s) \<and>
    apiWrite env ns d d' s = Some (Inr (ApiThrows notConnected None), s) \<and>
    apiSubscribe env ns d s = Some (Inr (ApiThrows notConnected None), s) \<and>
    apiUnsubscribe env ns d s = Some (Inr (ApiThrows notConnected None), s) \<and>
    apiBrowse env ns d d' s = Some (Inr (ApiThrows notConnected None), s) \<and>
    apiClose env s = Some (Inr (), s)"
  using assms
  by (simp add: apiRead_def apiExec_def apiWrite_def apiSubscribe_def apiUnsubscribe_def apiBrowse_def apiClose_def)

subsection \<open>The connection while the flag is set\<close>

definition openClient :: "client \<Rightarrow> bool" where
  "openClient cl = (clListening cl \<and> (\<exists>hs. clSession cl = Some hs \<and> hxSession hs \<and> sessionReachable hs))"

definition apiInv :: "api_state \<Rightarrow> bool" where
  "apiInv s = (apOpened s \<longrightarrow> (\<exists>cl. apClient s = Some cl \<and> openClient cl))"

lemma onClient_keeps: "keepsP openClient m \<Longrightarrow> keepsP apiInv (onClient m)"
  unfolding keepsP_def hoareP_def onClient_def apiInv_def
  by (auto split: option.splits)

lemma openClient_simps [simp]:
  "openClient (cl\<lparr>clFields := f\<rparr>) = openClient cl" "openClient (cl\<lparr>clSent := ms\<rparr>) = openClient cl"
  "openClient (cl\<lparr>clCache := c\<rparr>) = openClient cl"
  by (simp_all add: openClient_def)

lemma keepsP_modify: "(\<And>s. J s \<Longrightarrow> J (f s)) \<Longrightarrow> keepsP J (modifyP f)"
  by (simp add: keepsP_def hoareP_def)

lemma keepsP_const [simp]: "keepsP J (\<lambda>s. Some (f s, s))"
  by (simp add: keepsP_def hoareP_def)

lemma getSession_keeps [simp]: "keepsP J getSession"
  by (simp add: getSession_def)

lemma sendMessage_keeps: "keepsP openClient (sendMessage env msg)"
  unfolding sendMessage_def by (intro keepsP_bind keepsP_modify) simp_all

lemma clientFindModel_keeps: "keepsP openClient (clientFindModel env start)"
  unfolding clientFindModel_def
  by (intro keepsP_bind getSession_keeps) (auto simp: keepsP_def hoareP_def split: if_splits)

lemma recordModel_keeps: "keepsP openClient (recordModel env p name t)"
  unfolding recordModel_def
  by (intro keepsP_bind keepsP_modify clientFindModel_keeps sendMessage_keeps keepsP_lift) simp_all

lemma checkArguments_keeps: "keepsP openClient (checkArguments env p args)"
  by (induction env p args rule: checkArguments.induct)
    (auto intro!: keepsP_bind recordModel_keeps)

lemma checkModel_keeps: "keepsP openClient (checkModel env p t)"
  unfolding checkModel_def Let_def
  by (auto intro!: keepsP_bind keepsP_if recordModel_keeps checkArguments_keeps split: prod.splits)

lemma openClient_session:
  assumes "openClient cl" "clSession cl = Some hs" "sessionStep hs hs'" "hxSession hs' = hxSession hs"
  shows "openClient (cl\<lparr>clSession := Some hs'\<rparr>)"
  using assms sessionReachable.step by (auto simp: openClient_def)

lemma sessionOp_keeps:
  assumes "\<And>hs r hs'. f hs = Some (r, hs') \<Longrightarrow> r \<noteq> Inl UndefinedBehaviour \<Longrightarrow>
    sessionStep hs hs' \<and> hxSession hs' = hxSession hs"
  shows "keepsP openClient (sessionOp f)"
  unfolding keepsP_def hoareP_def sessionOp_def bindP_def getSession_def sessionOf_def
  using openClient_session assms by (fastforce split: option.splits)

lemma subscribe_session:
  "sessionSubscribe sv ids hs = Some (r, hs') \<Longrightarrow> hxSession hs' = hxSession hs"
  by (auto simp: sessionSubscribe_def split: if_splits sum.splits option.splits prod.splits sub_pointer.splits)

lemma unsubscribe_session: "sessionUnsubscribe sv ids hs = (r, hs') \<Longrightarrow> hxSession hs' = hxSession hs"
  by (auto simp: sessionUnsubscribe_def split: sub_pointer.splits prod.splits)

lemma preloadAll_keeps: "keepsP openClient (preloadAll cb ts)"
proof (induction cb ts rule: preloadAll.induct)
  case (2 cb t ts)
  have "keepsP openClient (\<lambda>cl. map_option (\<lambda>(r, c). (r, cl\<lparr>clCache := c\<rparr>)) (preload cb u (clCache cl)))" for u
    by (auto simp: keepsP_def hoareP_def)
  then show ?case using 2 by (simp add: keepsP_bind)
qed simp

lemma clientSubscribe_keeps: "keepsP openClient (clientSubscribe env p)"
  unfolding clientSubscribe_def
  by (intro keepsP_bind getSession_keeps keepsP_lift sessionOp_keeps)
    (auto intro: preloadAll_keeps sessionStep.step_subscribe dest: subscribe_session)

lemma clientUnsubscribe_keeps: "keepsP openClient (clientUnsubscribe env p)"
  unfolding clientUnsubscribe_def
  by (intro keepsP_bind keepsP_lift sessionOp_keeps)
    (auto intro: sessionStep.step_unsubscribe dest: unsubscribe_session)

lemmas api_keeps = keepsP_bind keepsP_catch keepsP_if onClient_keeps keepsP_lift keepsP_const
  checkModel_keeps clientSubscribe_keeps clientUnsubscribe_keeps

lemma connected_keeps: "keepsP J body \<Longrightarrow> keepsP J (connected prefix body)"
  unfolding connected_def by (intro api_keeps)

lemma requests_keep:
  "keepsP apiInv (apiRead env ns d)" "keepsP apiInv (apiExec env ns d ns' d' params)"
  "keepsP apiInv (apiWrite env ns d d')" "keepsP apiInv (apiSubscribe env ns d)"
  "keepsP apiInv (apiUnsubscribe env ns d)"
  unfolding apiRead_def apiExec_def apiWrite_def apiSubscribe_def apiUnsubscribe_def
  by (intro connected_keeps api_keeps)+

lemma apiBrowse_keeps: "keepsP apiInv (apiBrowse env ns d d')"
  unfolding apiBrowse_def Let_def
  by (intro api_keeps getSession_keeps) (auto simp: keepsP_def hoareP_def intro!: api_keeps)

lemma clientOpen_open:
  assumes "clientOpen env good conn options cl = Some (Inr (), cl')"
  shows "openClient cl'"
proof -
  obtain hs where hs: "sessionOpen conn (sessionConf options) newHaSession = Some (Inr (), hs)"
    "clSession cl' = Some hs" "clListening cl'"
    using assms by (auto simp: clientOpen_def split: if_splits option.splits sum.splits)
  have "hxSession hs"
    using hs(1) by (auto simp: sessionOpen_def newHaSession_def Let_def split: prod.splits if_splits)
  then show ?thesis
    using hs(2,3) sessionReachable.step [OF sessionReachable.start sessionStep.step_open [OF hs(1)]]
    by (simp add: openClient_def)
qed

lemma apiOpen_keeps:
  assumes "\<not> apOpened s" "apiOpen env properties s = Some (r, s')" "r \<noteq> Inl UndefinedBehaviour"
  shows "apiInv s'"
proof (cases "apOpened s'")
  case True
  define s1 where "s1 = s\<lparr>apClient := Some newClient, apServerId := []\<rparr>"
  obtain host where host: "getMapEntry (aeVm env) properties ''host'' = Inr host" "host \<noteq> []"
    using assms True by (cases "getMapEntry (aeVm env) properties ''host''") (auto simp: apiOpen_def bindP_liftP split: if_splits)
  obtain o' c where o': "readOptions (aeVm env) properties host (apOptions s) = Inr (o', c)"
    using assms(2) True host assms(1)
    by (cases "readOptions (aeVm env) properties host (apOptions s)") (auto simp: apiOpen_def bindP_liftP)
  define opened where "opened = clientOpen (aeClient env) (aePlatform env) (aeConnect env o')
    \<lparr>coConnectTimeout = aoConnectTimeout o'\<rparr> newClient"
  have "\<exists>cl. opened = Some (Inr (), cl) \<and> apClient s' = Some cl"
    using assms host o' True
    by (cases opened)
      (auto simp: apiOpen_def bindP_liftP onClient_def catchP_def bindP_def opened_def [symmetric] split: sum.splits if_splits)
  then show ?thesis
    using clientOpen_open by (auto simp: opened_def apiInv_def)
qed (simp add: apiInv_def)

lemma apiClose_open:
  assumes "apiInv s" "apOpened s"
  shows "\<exists>s'. apiClose env s = Some (Inl UndefinedBehaviour, s')"
  using assms
  by (auto simp: apiInv_def openClient_def apiClose_def clientClose_def onClient_def catchP_def bindP_def Let_def
      split: sum.splits prod.splits)

lemma openClient_messageId [simp]: "openClient (cl\<lparr>clMessageId := k\<rparr>) = openClient cl"
  by (simp add: openClient_def)

lemma dataChanged_keeps: "keepsP openClient (clientDataChanged env attrs)"
  unfolding clientDataChanged_def Let_def
  by (intro keepsP_bind keepsP_catch keepsP_if keepsP_modify keepsP_lift getSession_keeps sendMessage_keeps) simp_all

lemma sendEvents_keeps: "keepsP openClient (sendEvents env types events good)"
proof (induction events arbitrary: good)
  case (Cons e es)
  have "keepsP openClient (sendEvent env types e)"
    unfolding sendEvent_def
    by (auto intro!: keepsP_bind keepsP_catch keepsP_if keepsP_modify keepsP_lift sendMessage_keeps
        split: option.splits)
  then show ?case using Cons by (auto intro!: keepsP_bind)
qed simp

lemma newEvents_keeps: "keepsP openClient (clientNewEvents env events)"
  unfolding clientNewEvents_def
  by (intro keepsP_bind keepsP_if keepsP_lift getSession_keeps sendEvents_keeps)

text \<open>
  The states the library can be in: any sequence of calls, answers of the server, notifications and status
  changes of the subscription, in which \<open>open\<close> is not called while a connection is open, and which nothing
  undefined has ended.
\<close>

inductive apiReachable :: "api_state \<Rightarrow> bool" where
  api_start: "apiReachable apiInitial"
| api_open: "apiReachable s \<Longrightarrow> \<not> apOpened s \<Longrightarrow> apiOpen env properties s = Some (r, s') \<Longrightarrow>
    r \<noteq> Inl UndefinedBehaviour \<Longrightarrow> apiReachable s'"
| api_close: "apiReachable s \<Longrightarrow> apiClose env s = Some (r, s') \<Longrightarrow> r \<noteq> Inl UndefinedBehaviour \<Longrightarrow> apiReachable s'"
| api_request: "apiReachable s \<Longrightarrow> m \<in> {apiRead env ns d, apiExec env ns d ns' d' params} \<Longrightarrow>
    m s = Some (r, s') \<Longrightarrow> r \<noteq> Inl UndefinedBehaviour \<Longrightarrow> apiReachable s'"
| api_command: "apiReachable s \<Longrightarrow> m' \<in> {apiWrite env ns d d', apiSubscribe env ns d, apiUnsubscribe env ns d} \<Longrightarrow>
    m' s = Some (r', s') \<Longrightarrow> r' \<noteq> Inl UndefinedBehaviour \<Longrightarrow> apiReachable s'"
| api_browse: "apiReachable s \<Longrightarrow> apiBrowse env ns d d' s = Some (r'', s') \<Longrightarrow> r'' \<noteq> Inl UndefinedBehaviour \<Longrightarrow>
    apiReachable s'"
| api_message: "apiReachable s \<Longrightarrow> n \<in> {clientDataChanged cenv attrs, clientNewEvents cenv events, clientStateChanged cenv st} \<Longrightarrow>
    onClient n s = Some (q, s') \<Longrightarrow> q \<noteq> Inl UndefinedBehaviour \<Longrightarrow> apiReachable s'"
| api_status: "apiReachable s \<Longrightarrow> apClient s = Some cl \<Longrightarrow> clSession cl = Some hs \<Longrightarrow> hxSession hs \<Longrightarrow>
    hxSub hs = SubLive sub \<Longrightarrow> subscriptionStatusChanged gone srv sub = (q', sub') \<Longrightarrow> q' \<noteq> Inl UndefinedBehaviour \<Longrightarrow>
    apiReachable (s\<lparr>apClient := Some (cl\<lparr>clSession := Some (hs\<lparr>hxSub := SubLive sub'\<rparr>)\<rparr>)\<rparr>)"

lemma apiReachable_inv: "apiReachable s \<Longrightarrow> apiInv s"
proof (induction rule: apiReachable.induct)
  case api_start
  show ?case by (simp add: apiInv_def apiInitial_def)
next
  case (api_open s env properties r s')
  then show ?case by (intro apiOpen_keeps)
next
  case (api_close s env r s')
  show ?case
  proof (cases "apOpened s")
    case True
    then show ?thesis using apiClose_open [OF api_close.IH, of env] api_close by auto
  next
    case False
    then show ?thesis using api_close by (simp add: apiClose_def)
  qed
next
  case (api_request s m env ns d ns' d' params r s')
  then have "keepsP apiInv m" using requests_keep by auto
  from keepsP_run [OF this] api_request show ?case by blast
next
  case (api_command s m' env ns d d' r' s')
  then have "keepsP apiInv m'" using requests_keep by auto
  from keepsP_run [OF this] api_command show ?case by blast
next
  case (api_browse s env ns d d' r'' s')
  from keepsP_run [OF apiBrowse_keeps] api_browse show ?case by blast
next
  case (api_message s n cenv attrs events st q s')
  then have "keepsP openClient n"
    using dataChanged_keeps newEvents_keeps sendMessage_keeps unfolding clientStateChanged_def by auto
  from keepsP_run [OF onClient_keeps [OF this]] api_message show ?case by blast
next
  case (api_status s cl hs sub gone srv q' sub')
  then show ?case
    using openClient_session [OF _ _ sessionStep.step_status] by (auto simp: apiInv_def)
qed


text \<open>Closing such a connection joins a thread that was never started.\<close>

lemma api_close_undefined: "apiReachable s \<Longrightarrow> apOpened s \<Longrightarrow> \<exists>s'. apiClose env s = Some (Inl UndefinedBehaviour, s')"
  using apiClose_open apiReachable_inv by blast

text \<open>A second \<open>open\<close> that fails leaves the flag set, and every request then uses a session that is not there.\<close>

lemma api_failed_reopen:
  assumes "apOpened s" "getMapEntry (aeVm env) properties ''host'' = Inr []" "createParamId (aeVm env) ns d = Inr p"
  shows "\<exists>s'. apiOpen env properties s = Some (Inr (ApiThrows ''Failed to open Server connection. No Host given!'' None), s') \<and>
    apiRead env ns d s' = Some (Inl UndefinedBehaviour, s')"
  using assms
  by (auto simp: apiOpen_def apiRead_def connected_def onClient_def newClient_def clientRead_def sessionOf_def
      catchP_def bindP_def)

subsection \<open>Writing and reading back\<close>


subsection \<open>Examples\<close>

definition exampleApiEnv :: api_env where
  "exampleApiEnv = \<lparr>aeClient = exampleClientEnv, aeVm = exampleVm, aePlatform = True,
     aeConnect = (\<lambda>_. exampleConnect), aeSessionId = ''session'', aeDisconnect = True,
     aeBrowse = (\<lambda>_. exampleBrowse)\<rparr>"

definition exampleApi :: api_state where
  "exampleApi = apiInitial\<lparr>apOpened := True, apClient := Some exampleClient\<rparr>"

lemma api_not_connected_witness:
  "apiRead exampleApiEnv 4 (JInteger 4) apiInitial = Some (Inr (ApiThrows notConnected None), apiInitial)"
proof -
  have "\<not> apOpened apiInitial" by (simp add: apiInitial_def)
  from api_not_connected [OF this] show ?thesis by blast
qed

definition exampleProperties :: java_object where
  "exampleProperties = JHashMap [(javaText exampleVm ''host'', JString (javaText exampleVm ''localhost''))]"

definition exampleOpened :: api_state where
  "exampleOpened = \<lparr>apOpened = True, apClient = Some exampleClient, apOptions = noOptions\<lparr>aoHost := Some ''localhost''\<rparr>,
     apConnection = ''localhost'', apServerId = ''localhost@session''\<rparr>"

lemma example_entries:
  "getMapEntry exampleVm exampleProperties ''host'' = Inr ''localhost''"
  "list_all (\<lambda>key. getMapEntry exampleVm exampleProperties key = Inr [])
    [''port'', ''username'', ''password'', ''publishInterval'', ''connectTimeout'', ''sendReceiveTimeout'', ''watchdogInterval'']"
  by code_simp+

lemma example_api_open: "apiOpen exampleApiEnv exampleProperties apiInitial = Some (Inr (ApiReturns ()), exampleOpened)"
proof -
  have "readOptions exampleVm exampleProperties ''localhost'' noOptions = Inr (noOptions\<lparr>aoHost := Some ''localhost''\<rparr>, ''localhost'')"
    using example_entries by (simp add: readOptions_def intOption_def noOptions_def)
  moreover have "clientOpen exampleClientEnv True exampleConnect \<lparr>coConnectTimeout = None\<rparr> newClient = Some (Inr (), exampleClient)"
    by (simp add: clientOpen_def sessionOpen_def sessionConf_def connectLoop.simps exampleConnect_def waitAfter_def
        newHaSession_def openHaSession_def exampleClient_def newClient_def exampleClientEnv_def)
  ultimately show ?thesis
    using example_entries(1)
    by (simp add: apiOpen_def exampleApiEnv_def apiInitial_def onClient_def bindP_def catchP_def exampleOpened_def noOptions_def)
qed

lemma example_api_reachable: "apiReachable exampleOpened"
  using apiReachable.api_open [OF apiReachable.api_start _ example_api_open] by (simp add: apiInitial_def)


text \<open>The variable 4 is an integer; what the client looks up of it is its node id, by whose type the model knows it.\<close>

definition exampleTypeText :: string where
  "exampleTypeText = paramIdToString (ParamNumeric 0 17)"

definition exampleModelClient :: client where
  "exampleModelClient = exampleClient\<lparr>
     clFields := [paramIdToString exampleParam \<mapsto> [exampleTypeText \<mapsto> refModelType exampleTypeText],
                  exampleTypeText \<mapsto> [exampleTypeText \<mapsto> newModelType\<lparr>mtType := 17\<rparr>]],
     clSent := [ModelMessage [paramIdToString exampleParam \<mapsto> [exampleTypeText \<mapsto> refModelType exampleTypeText],
                  exampleTypeText \<mapsto> [exampleTypeText \<mapsto> newModelType\<lparr>mtType := 17\<rparr>]]]\<rparr>"

lemma example_texts: "paramIdToString exampleParam \<noteq> exampleTypeText" "exampleText (UaNumeric 0 17) = exampleTypeText"
    "exampleTypeText \<noteq> []"
  by (code_simp, simp add: exampleText_def exampleTypeText_def, code_simp)

lemma example_check_model: "checkModel exampleClientEnv exampleParam 1 exampleClient = Some (Inr [exampleTypeText], exampleModelClient)"
proof -
  have types: "sessionTypes exampleClientEnv openHaSession (UaNumeric 0 17) = Inr []"
    by (simp add: sessionTypes_def sessionSuperTypes_def openHaSession_def sessionTypesLoop.simps)
  have find: "clientFindModel exampleClientEnv (UaNumeric 0 17)
      (exampleClient\<lparr>clFields := [paramIdToString exampleParam \<mapsto> [exampleTypeText \<mapsto> refModelType exampleTypeText]]\<rparr>) =
    Some (Inr True, exampleModelClient\<lparr>clSent := []\<rparr>)"
    using types example_texts
    by (simp add: clientFindModel_def findFieldModel_def runModel_simps openType_def superTypeField_def sessionBrowser_def
        exampleClientEnv_def exampleClient_def exampleModelClient_def getSession_def sessionOf_def bindP_def newClient_def openHaSession_def)
  show ?thesis
    using find example_texts
    by (simp add: checkModel_def getVariable_def recordModel_def sendMessage_def modelPut_def bindP_def
        exampleClientEnv_def exampleClient_def exampleModelClient_def getSession_def sessionOf_def newClient_def openHaSession_def Let_def)
qed

lemma example_param: "createParamId exampleVm (- 1) (JInteger 4) = Inr exampleParam"
  by (simp add: createParamId_def javaInt_def exampleParam_def)

lemma example_model_stable:
  "javaStable exampleVm (currentModel exampleModelClient) (BScalar (BInt 5)) exampleTypeText
     (refModelType (paramIdToString exampleParam))"
proof -
  let ?m = "currentModel exampleModelClient"
  have m: "?m (paramIdToString exampleParam) = Some [exampleTypeText \<mapsto> refModelType exampleTypeText]"
    "?m exampleTypeText = Some [exampleTypeText \<mapsto> newModelType\<lparr>mtType := 17\<rparr>]"
    using example_texts by (simp_all add: currentModel_def exampleModelClient_def)
  have t: "getDataTypeFromModel ?m exampleTypeText (refModelType (paramIdToString exampleParam)) = refModelType exampleTypeText"
    "getDataTypeFromModel ?m exampleTypeText (refModelType exampleTypeText) = newModelType\<lparr>mtType := 17\<rparr>"
    using m example_texts(3) by (simp_all add: getDataTypeFromModel_def refModelType_def)
  have "scalarModel ?m (refModelType exampleTypeText) = Some (Some 17)"
    using t(2) example_texts(3)
    by (subst scalarModel.simps) (simp add: Let_def refModelType_def newModelType_def)
  then show ?thesis using t(1) by (simp add: scalarStable_def fitsInt_def)
qed


end
