(* ===== verification/Object_Classes.thy ===== *)
theory Object_Classes
  imports Op_Monad Io_Values Bin_Values
begin

text \<open>
  The classes of the values and messages as objects with pointers (\<open>ioDataProvider/*.cpp\<close>,
  \<open>provider/binary/messages/dto/*.cpp\<close>): for each class its data, its constructors, its copy constructor and
  what its destructor deletes. An address stands for a reference, an optional one for a pointer that may be
  \<open>NULL\<close>. Strings, character arrays, vectors and maps are objects of their own; their content is copied and
  deleted by the class that owns them, so a vector or a map is given here the copying and deleting of its
  elements. The private object behind each class and the header of a message always belong to it alone and
  are part of it; an array of characters has the length that is kept beside it.
\<close>

subsection \<open>Copying pointers\<close>

type_synonym addr = nat

definition copyPtr :: "(addr \<Rightarrow> ('s, addr) op) \<Rightarrow> addr option \<Rightarrow> ('s, addr option) op" where
  "copyPtr copy p =
    (case p of None \<Rightarrow> liftP (Inr None) | Some a \<Rightarrow> bindP (copy a) (\<lambda>b. liftP (Inr (Some b))))"

fun copyElements :: "(addr \<Rightarrow> ('s, addr) op) \<Rightarrow> addr list \<Rightarrow> ('s, addr list) op" where
  "copyElements copy [] = liftP (Inr [])"
| "copyElements copy (a # more') =
     bindP (copy a) (\<lambda>b. bindP (copyElements copy more') (\<lambda>bs. liftP (Inr (b # bs))))"

fun copyFieldMap :: "(addr \<Rightarrow> ('s, addr) op) \<Rightarrow> (string \<times> addr) list \<Rightarrow> ('s, (string \<times> addr) list) op" where
  "copyFieldMap copy [] = liftP (Inr [])"
| "copyFieldMap copy ((k, a) # more') =
     bindP (copy a) (\<lambda>b. bindP (copyFieldMap copy more') (\<lambda>bs. liftP (Inr ((k, b) # bs))))"

fun copyPairs :: "(addr \<Rightarrow> ('s, addr) op) \<Rightarrow> (addr \<times> addr) list \<Rightarrow> ('s, (addr \<times> addr) list) op" where
  "copyPairs copy [] = liftP (Inr [])"
| "copyPairs copy ((k, a) # more') =
     bindP (copy k) (\<lambda>l. bindP (copy a) (\<lambda>b. bindP (copyPairs copy more') (\<lambda>bs. liftP (Inr ((l, b) # bs)))))"

subsection \<open>Identifiers\<close>

text \<open>The union of a number and a string is a sum.\<close>

definition copyId :: "(addr \<Rightarrow> ('s, addr) op) \<Rightarrow> 'n + addr \<Rightarrow> ('s, 'n + addr) op" where
  "copyId copy i =
    (case i of Inl n \<Rightarrow> liftP (Inr (Inl n)) | Inr a \<Rightarrow> bindP (copy a) (\<lambda>b. liftP (Inr (Inr b))))"

definition ownedId :: "'n + addr \<Rightarrow> addr option list" where
  "ownedId i = (case i of Inl _ \<Rightarrow> [] | Inr a \<Rightarrow> [Some a])"

record io_node_id_object =
  niNamespaceIndex :: c_int
  niId :: "c_long + addr"
  niAttached :: bool

definition newIoNodeIdNumericObject :: "c_int \<Rightarrow> c_long \<Rightarrow> io_node_id_object" where
  "newIoNodeIdNumericObject namespaceIndex i =
    \<lparr>niNamespaceIndex = namespaceIndex, niId = Inl i, niAttached = False\<rparr>"

definition newIoNodeIdStringObject :: "c_int \<Rightarrow> addr \<Rightarrow> bool \<Rightarrow> io_node_id_object" where
  "newIoNodeIdStringObject namespaceIndex i attachValues =
    \<lparr>niNamespaceIndex = namespaceIndex, niId = Inr i, niAttached = attachValues\<rparr>"

definition copyIoNodeIdObject :: "(addr \<Rightarrow> ('s, addr) op) \<Rightarrow> io_node_id_object \<Rightarrow> ('s, io_node_id_object) op" where
  "copyIoNodeIdObject copy orig =
    bindP (copyId copy (niId orig)) (\<lambda>i. liftP (Inr (orig\<lparr>niId := i, niAttached := True\<rparr>)))"

definition ownedIoNodeIdObject :: "io_node_id_object \<Rightarrow> addr option list" where
  "ownedIoNodeIdObject d = (if niAttached d then ownedId (niId d) else [])"

record param_id_data =
  pdNamespaceIndex :: c_int
  pdId :: "c_ulong + addr"
  pdAttached :: bool

definition newParamIdNumericObject :: "c_int \<Rightarrow> c_ulong \<Rightarrow> param_id_data" where
  "newParamIdNumericObject namespaceIndex i =
    \<lparr>pdNamespaceIndex = namespaceIndex, pdId = Inl i, pdAttached = False\<rparr>"

definition newParamIdStringObject :: "c_int \<Rightarrow> addr \<Rightarrow> bool \<Rightarrow> param_id_data" where
  "newParamIdStringObject namespaceIndex i attachValues =
    \<lparr>pdNamespaceIndex = namespaceIndex, pdId = Inr i, pdAttached = attachValues\<rparr>"

definition copyParamIdObject :: "(addr \<Rightarrow> ('s, addr) op) \<Rightarrow> param_id_data \<Rightarrow> ('s, param_id_data) op" where
  "copyParamIdObject copy orig =
    bindP (copyId copy (pdId orig)) (\<lambda>i. liftP (Inr (orig\<lparr>pdId := i, pdAttached := True\<rparr>)))"

definition ownedParamIdObject :: "param_id_data \<Rightarrow> addr option list" where
  "ownedParamIdObject d = (if pdAttached d then ownedId (pdId d) else [])"

subsection \<open>Scalars\<close>

text \<open>The union of a scalar together with its type.\<close>

datatype scalar_cell =
    CellBool bool
  | CellSChar c_byte
  | CellChar char
  | CellInt c_int
  | CellUInt c_uint
  | CellLong c_long
  | CellULong c_ulong
  | CellLLong "64 word"
  | CellULLong "64 word"
  | CellFloat c_float
  | CellDouble c_double
  | CellString "addr option"
  | CellByteString "addr option"
  | CellLocalizedText "addr option" "addr option"

record io_scalar_object =
  isCell :: scalar_cell
  isAttached :: bool

definition newIoScalarObject :: io_scalar_object where
  "newIoScalarObject = \<lparr>isCell = CellInt 0, isAttached = False\<rparr>"

definition copyCell :: "(addr \<Rightarrow> ('s, addr) op) \<Rightarrow> scalar_cell \<Rightarrow> ('s, scalar_cell) op" where
  "copyCell copy cell =
    (case cell of
       CellString p \<Rightarrow> bindP (copyPtr copy p) (\<lambda>q. liftP (Inr (CellString q)))
     | CellByteString p \<Rightarrow> bindP (copyPtr copy p) (\<lambda>q. liftP (Inr (CellByteString q)))
     | CellLocalizedText locale' text' \<Rightarrow>
         bindP (copyPtr copy locale') (\<lambda>l. bindP (copyPtr copy text') (\<lambda>t. liftP (Inr (CellLocalizedText l t))))
     | _ \<Rightarrow> liftP (Inr cell))"

definition copyIoScalarObject :: "(addr \<Rightarrow> ('s, addr) op) \<Rightarrow> io_scalar_object \<Rightarrow> ('s, io_scalar_object) op" where
  "copyIoScalarObject copy orig =
    bindP (copyCell copy (isCell orig)) (\<lambda>cell. liftP (Inr \<lparr>isCell = cell, isAttached = True\<rparr>))"

text \<open>\<open>clear\<close>, which is the destructor too.\<close>

definition ownedIoScalarObject :: "io_scalar_object \<Rightarrow> addr option list" where
  "ownedIoScalarObject d =
    (if isAttached d then
       (case isCell d of
          CellString p \<Rightarrow> [p]
        | CellByteString p \<Rightarrow> [p]
        | CellLocalizedText locale' text' \<Rightarrow> [locale', text']
        | _ \<Rightarrow> [])
     else [])"

subsection \<open>Values and data of the internal interface\<close>

text \<open>An array of the internal interface; the vector may be \<open>NULL\<close>.\<close>

record io_array_object =
  iaType :: c_int
  iaElements :: "addr option"
  iaAttached :: bool

definition newIoArrayObject :: "c_int \<Rightarrow> addr option \<Rightarrow> bool \<Rightarrow> io_array_object" where
  "newIoArrayObject arrayType elements attachValues = \<lparr>iaType = arrayType, iaElements = elements,
     iaAttached = attachValues\<rparr>"

definition copyIoArrayObject :: "(addr \<Rightarrow> ('s, addr) op) \<Rightarrow> io_array_object \<Rightarrow> ('s, io_array_object) op" where
  "copyIoArrayObject copy orig =
    bindP (copyPtr copy (iaElements orig)) (\<lambda>elements.
      liftP (Inr (orig\<lparr>iaElements := elements, iaAttached := True\<rparr>)))"

definition ownedIoArrayObject :: "io_array_object \<Rightarrow> addr option list" where
  "ownedIoArrayObject d = (if iaAttached d then [iaElements d] else [])"

text \<open>A structure: the id of its type and the map of its fields.\<close>

record io_structure_object =
  ioDataTypeId :: addr
  ioFieldData :: addr
  ioAttached :: bool

definition newIoStructureObject :: "addr \<Rightarrow> addr \<Rightarrow> bool \<Rightarrow> io_structure_object" where
  "newIoStructureObject dataTypeId fieldData attachValues = \<lparr>ioDataTypeId = dataTypeId,
     ioFieldData = fieldData, ioAttached = attachValues\<rparr>"

definition copyIoStructureObject :: "(addr \<Rightarrow> ('s, addr) op) \<Rightarrow> io_structure_object \<Rightarrow> ('s, io_structure_object) op" where
  "copyIoStructureObject copy orig =
    bindP (copy (ioDataTypeId orig)) (\<lambda>dataTypeId.
    bindP (copy (ioFieldData orig)) (\<lambda>fieldData.
      liftP (Inr (orig\<lparr>ioDataTypeId := dataTypeId, ioFieldData := fieldData,
        ioAttached := True\<rparr>))))"

definition ownedIoStructureObject :: "io_structure_object \<Rightarrow> addr option list" where
  "ownedIoStructureObject d = (if ioAttached d then [Some (ioDataTypeId d), Some (ioFieldData d)] else [])"

text \<open>The data of a node, or the exception that reading it caused.\<close>

record node_data_object =
  ndNodeId :: addr
  ndData :: "addr option"
  ndException :: "addr option"
  ndAttached :: bool

definition newNodeDataObject :: "addr \<Rightarrow> addr option \<Rightarrow> bool \<Rightarrow> node_data_object" where
  "newNodeDataObject nodeId data attachValues = \<lparr>ndNodeId = nodeId, ndData = data, ndException = None,
     ndAttached = attachValues\<rparr>"

definition copyNodeDataObject :: "(addr \<Rightarrow> ('s, addr) op) \<Rightarrow> node_data_object \<Rightarrow> ('s, node_data_object) op" where
  "copyNodeDataObject copy orig =
    bindP (copy (ndNodeId orig)) (\<lambda>nodeId.
    bindP (copyPtr copy (ndData orig)) (\<lambda>data.
    bindP (copyPtr copy (ndException orig)) (\<lambda>exception.
      liftP (Inr (orig\<lparr>ndNodeId := nodeId, ndData := data, ndException := exception,
        ndAttached := True\<rparr>)))))"

definition ownedNodeDataObject :: "node_data_object \<Rightarrow> addr option list" where
  "ownedNodeDataObject d = (if ndAttached d then [Some (ndNodeId d), ndData d, ndException d] else [])"

text \<open>A call of a method.\<close>

record method_data_object =
  mdObjectNodeId :: addr
  mdMethodNodeId :: addr
  mdMethodArgs :: addr
  mdException :: "addr option"
  mdAttached :: bool

definition newMethodDataObject :: "addr \<Rightarrow> addr \<Rightarrow> addr \<Rightarrow> bool \<Rightarrow> method_data_object" where
  "newMethodDataObject objectNodeId methodNodeId methodArgs attachValues = \<lparr>mdObjectNodeId = objectNodeId,
     mdMethodNodeId = methodNodeId, mdMethodArgs = methodArgs, mdException = None,
     mdAttached = attachValues\<rparr>"

definition copyMethodDataObject :: "(addr \<Rightarrow> ('s, addr) op) \<Rightarrow> method_data_object \<Rightarrow> ('s, method_data_object) op" where
  "copyMethodDataObject copy orig =
    bindP (copy (mdObjectNodeId orig)) (\<lambda>objectNodeId.
    bindP (copy (mdMethodNodeId orig)) (\<lambda>methodNodeId.
    bindP (copy (mdMethodArgs orig)) (\<lambda>methodArgs.
    bindP (copyPtr copy (mdException orig)) (\<lambda>exception.
      liftP (Inr (orig\<lparr>mdObjectNodeId := objectNodeId, mdMethodNodeId := methodNodeId,
        mdMethodArgs := methodArgs, mdException := exception, mdAttached := True\<rparr>))))))"

definition ownedMethodDataObject :: "method_data_object \<Rightarrow> addr option list" where
  "ownedMethodDataObject d = (if mdAttached d then [Some (mdObjectNodeId d), Some (mdMethodNodeId d), Some (mdMethodArgs d), mdException d] else [])"

text \<open>The data of an event.\<close>

record opc_ua_event_data_object =
  edSeverity :: c_int
  edSourceNodeId :: addr
  edMessage :: addr
  edFieldData :: addr
  edAttached :: bool

definition newOpcUaEventDataObject :: "c_int \<Rightarrow> addr \<Rightarrow> addr \<Rightarrow> addr \<Rightarrow> bool \<Rightarrow> opc_ua_event_data_object" where
  "newOpcUaEventDataObject severity sourceNodeId message fieldData attachValues = \<lparr>edSeverity = severity,
     edSourceNodeId = sourceNodeId, edMessage = message, edFieldData = fieldData,
     edAttached = attachValues\<rparr>"

definition copyOpcUaEventDataObject :: "(addr \<Rightarrow> ('s, addr) op) \<Rightarrow> opc_ua_event_data_object \<Rightarrow> ('s, opc_ua_event_data_object) op" where
  "copyOpcUaEventDataObject copy orig =
    bindP (copy (edSourceNodeId orig)) (\<lambda>sourceNodeId.
    bindP (copy (edMessage orig)) (\<lambda>message.
    bindP (copy (edFieldData orig)) (\<lambda>fieldData.
      liftP (Inr (orig\<lparr>edSourceNodeId := sourceNodeId, edMessage := message, edFieldData := fieldData,
        edAttached := True\<rparr>)))))"

definition ownedOpcUaEventDataObject :: "opc_ua_event_data_object \<Rightarrow> addr option list" where
  "ownedOpcUaEventDataObject d = (if edAttached d then [Some (edSourceNodeId d), Some (edMessage d), Some (edFieldData d)] else [])"

text \<open>An event with its time.\<close>

record io_event_object =
  ieDateTime :: "64 word"
  ieNodeData :: addr
  ieAttached :: bool

definition newIoEventObject :: "64 word \<Rightarrow> addr \<Rightarrow> bool \<Rightarrow> io_event_object" where
  "newIoEventObject dateTime nodeData attachValues = \<lparr>ieDateTime = dateTime, ieNodeData = nodeData,
     ieAttached = attachValues\<rparr>"

definition copyIoEventObject :: "(addr \<Rightarrow> ('s, addr) op) \<Rightarrow> io_event_object \<Rightarrow> ('s, io_event_object) op" where
  "copyIoEventObject copy orig =
    bindP (copy (ieNodeData orig)) (\<lambda>nodeData.
      liftP (Inr (orig\<lparr>ieNodeData := nodeData, ieAttached := True\<rparr>)))"

definition ownedIoEventObject :: "io_event_object \<Rightarrow> addr option list" where
  "ownedIoEventObject d = (if ieAttached d then [Some (ieNodeData d)] else [])"

subsection \<open>Values and messages of the binary protocol\<close>

datatype message_type =
    ReadMessage | ReadResponseMessage | WriteMessage | WriteResponseMessage | SubscribeMessage
  | SubscribeResponseMessage | UnsubscribeMessage | UnsubscribeResponseMessage | NotificationMessageType
  | EventMessageType | CallMessage | CallResponseMessage

record message_header =
  mhType :: message_type
  mhBodyLength :: c_ulong
  mhId :: c_ulong

definition newMessageHeader :: "message_type \<Rightarrow> c_ulong \<Rightarrow> message_header" where
  "newMessageHeader messageType messageId = \<lparr>mhType = messageType, mhBodyLength = 0, mhId = messageId\<rparr>"

text \<open>The common class of the responses that only have a status.\<close>

record status_message =
  smHeader :: message_header
  smStatus :: nat

definition newStatusMessage :: "message_type \<Rightarrow> c_ulong \<Rightarrow> nat \<Rightarrow> status_message" where
  "newStatusMessage messageType messageId status =
    \<lparr>smHeader = newMessageHeader messageType messageId, smStatus = status\<rparr>"

text \<open>An array of the binary protocol.\<close>

record bin_array_object =
  baType :: c_int
  baElements :: addr
  baAttached :: bool

definition newBinArrayObject :: "c_int \<Rightarrow> addr \<Rightarrow> bool \<Rightarrow> bin_array_object" where
  "newBinArrayObject arrayType elements attachValues = \<lparr>baType = arrayType, baElements = elements,
     baAttached = attachValues\<rparr>"

definition copyBinArrayObject :: "(addr \<Rightarrow> ('s, addr) op) \<Rightarrow> bin_array_object \<Rightarrow> ('s, bin_array_object) op" where
  "copyBinArrayObject copy orig =
    bindP (copy (baElements orig)) (\<lambda>elements.
      liftP (Inr (orig\<lparr>baElements := elements, baAttached := True\<rparr>)))"

definition ownedBinArrayObject :: "bin_array_object \<Rightarrow> addr option list" where
  "ownedBinArrayObject d = (if baAttached d then [Some (baElements d)] else [])"

text \<open>A structure of the binary protocol.\<close>

record bin_struct_object =
  bsStructId :: addr
  bsFields :: addr
  bsAttached :: bool

definition newBinStructObject :: "addr \<Rightarrow> addr \<Rightarrow> bool \<Rightarrow> bin_struct_object" where
  "newBinStructObject structId fieldMap attachValues = \<lparr>bsStructId = structId, bsFields = fieldMap,
     bsAttached = attachValues\<rparr>"

definition copyBinStructObject :: "(addr \<Rightarrow> ('s, addr) op) \<Rightarrow> bin_struct_object \<Rightarrow> ('s, bin_struct_object) op" where
  "copyBinStructObject copy orig =
    bindP (copy (bsStructId orig)) (\<lambda>structId.
    bindP (copy (bsFields orig)) (\<lambda>fields.
      liftP (Inr (orig\<lparr>bsStructId := structId, bsFields := fields, bsAttached := True\<rparr>))))"

definition ownedBinStructObject :: "bin_struct_object \<Rightarrow> addr option list" where
  "ownedBinStructObject d = (if bsAttached d then [Some (bsStructId d), Some (bsFields d)] else [])"

text \<open>A list of parameters.\<close>

record param_list_object =
  plElements :: addr
  plAttached :: bool

definition newParamListObject :: "addr \<Rightarrow> bool \<Rightarrow> param_list_object" where
  "newParamListObject elements attachValues = \<lparr>plElements = elements,
     plAttached = attachValues\<rparr>"

definition copyParamListObject :: "(addr \<Rightarrow> ('s, addr) op) \<Rightarrow> param_list_object \<Rightarrow> ('s, param_list_object) op" where
  "copyParamListObject copy orig =
    bindP (copy (plElements orig)) (\<lambda>elements.
      liftP (Inr (orig\<lparr>plElements := elements, plAttached := True\<rparr>)))"

definition ownedParamListObject :: "param_list_object \<Rightarrow> addr option list" where
  "ownedParamListObject d = (if plAttached d then [Some (plElements d)] else [])"

text \<open>A map of parameters, whose keys are objects of their own.\<close>

record param_map_object =
  pmElements :: addr
  pmAttached :: bool

definition newParamMapObject :: "addr \<Rightarrow> bool \<Rightarrow> param_map_object" where
  "newParamMapObject elements attachValues = \<lparr>pmElements = elements, pmAttached = attachValues\<rparr>"

definition copyParamMapObject :: "(addr \<Rightarrow> ('s, addr) op) \<Rightarrow> param_map_object \<Rightarrow> ('s, param_map_object) op" where
  "copyParamMapObject copy orig =
    bindP (copy (pmElements orig)) (\<lambda>elements.
      liftP (Inr (orig\<lparr>pmElements := elements, pmAttached := True\<rparr>)))"

definition ownedParamMapObject :: "param_map_object \<Rightarrow> addr option list" where
  "ownedParamMapObject d = (if pmAttached d then [Some (pmElements d)] else [])"

text \<open>A call.\<close>

record call_object =
  caHeader :: message_header
  caMethodId :: addr
  caParamId :: addr
  caParamList :: addr
  caAttached :: bool

definition newCallObject :: "c_ulong \<Rightarrow> addr \<Rightarrow> addr \<Rightarrow> addr \<Rightarrow> bool \<Rightarrow> call_object" where
  "newCallObject messageId methodId paramId paramList attachValues = \<lparr>caHeader = newMessageHeader CallMessage messageId,
     caMethodId = methodId, caParamId = paramId, caParamList = paramList, caAttached = attachValues\<rparr>"

definition copyCallObject :: "(addr \<Rightarrow> ('s, addr) op) \<Rightarrow> call_object \<Rightarrow> ('s, call_object) op" where
  "copyCallObject copy orig =
    bindP (copy (caMethodId orig)) (\<lambda>methodId.
    bindP (copy (caParamId orig)) (\<lambda>paramId.
    bindP (copy (caParamList orig)) (\<lambda>paramList.
      liftP (Inr (orig\<lparr>caMethodId := methodId, caParamId := paramId, caParamList := paramList,
        caAttached := True\<rparr>)))))"

definition ownedCallObject :: "call_object \<Rightarrow> addr option list" where
  "ownedCallObject d = (if caAttached d then [Some (caMethodId d), Some (caParamId d), Some (caParamList d)] else [])"

text \<open>The response to a call, empty at first.\<close>

record call_response_object =
  crHeader :: message_header
  crStatus :: nat
  crMethodId :: "addr option"
  crParamId :: "addr option"
  crParamList :: "addr option"
  crAttached :: bool

definition newCallResponseObject :: "c_ulong \<Rightarrow> nat \<Rightarrow> bool \<Rightarrow> call_response_object" where
  "newCallResponseObject messageId status attachValues = \<lparr>crHeader = newMessageHeader CallResponseMessage messageId,
     crStatus = status, crMethodId = None, crParamId = None, crParamList = None,
     crAttached = attachValues\<rparr>"

definition copyCallResponseObject :: "(addr \<Rightarrow> ('s, addr) op) \<Rightarrow> call_response_object \<Rightarrow> ('s, call_response_object) op" where
  "copyCallResponseObject copy orig =
    bindP (copyPtr copy (crMethodId orig)) (\<lambda>methodId.
    bindP (copyPtr copy (crParamId orig)) (\<lambda>paramId.
    bindP (copyPtr copy (crParamList orig)) (\<lambda>paramList.
      liftP (Inr (orig\<lparr>crMethodId := methodId, crParamId := paramId, crParamList := paramList,
        crAttached := True\<rparr>)))))"

definition ownedCallResponseObject :: "call_response_object \<Rightarrow> addr option list" where
  "ownedCallResponseObject d = (if crAttached d then [crMethodId d, crParamId d, crParamList d] else [])"

text \<open>An event.\<close>

record bin_event_object =
  beHeader :: message_header
  beTimeStamp :: "64 word"
  beSeverity :: c_long
  beEventId :: addr
  beParamId :: addr
  beMessage :: addr
  beParamMap :: addr
  beAttached :: bool

definition newBinEventObject :: "c_ulong \<Rightarrow> 64 word \<Rightarrow> c_long \<Rightarrow> addr \<Rightarrow> addr \<Rightarrow> addr \<Rightarrow> addr \<Rightarrow> bool \<Rightarrow> bin_event_object" where
  "newBinEventObject messageId timeStamp severity eventId paramId message paramMap attachValues = \<lparr>beHeader = newMessageHeader EventMessageType messageId,
     beTimeStamp = timeStamp, beSeverity = severity, beEventId = eventId, beParamId = paramId,
     beMessage = message, beParamMap = paramMap, beAttached = attachValues\<rparr>"

definition copyBinEventObject :: "(addr \<Rightarrow> ('s, addr) op) \<Rightarrow> bin_event_object \<Rightarrow> ('s, bin_event_object) op" where
  "copyBinEventObject copy orig =
    bindP (copy (beEventId orig)) (\<lambda>eventId.
    bindP (copy (beParamId orig)) (\<lambda>paramId.
    bindP (copy (beMessage orig)) (\<lambda>message.
    bindP (copy (beParamMap orig)) (\<lambda>paramMap.
      liftP (Inr (orig\<lparr>beEventId := eventId, beParamId := paramId, beMessage := message,
        beParamMap := paramMap, beAttached := True\<rparr>))))))"

definition ownedBinEventObject :: "bin_event_object \<Rightarrow> addr option list" where
  "ownedBinEventObject d = (if beAttached d then [Some (beEventId d), Some (beParamId d), Some (beMessage d), Some (beParamMap d)] else [])"

text \<open>A notification.\<close>

record notification_object =
  noHeader :: message_header
  noParamMap :: addr
  noAttached :: bool

definition newNotificationObject :: "c_ulong \<Rightarrow> addr \<Rightarrow> bool \<Rightarrow> notification_object" where
  "newNotificationObject messageId paramMap attachValues = \<lparr>noHeader = newMessageHeader NotificationMessageType messageId,
     noParamMap = paramMap, noAttached = attachValues\<rparr>"

definition copyNotificationObject :: "(addr \<Rightarrow> ('s, addr) op) \<Rightarrow> notification_object \<Rightarrow> ('s, notification_object) op" where
  "copyNotificationObject copy orig =
    bindP (copy (noParamMap orig)) (\<lambda>paramMap.
      liftP (Inr (orig\<lparr>noParamMap := paramMap, noAttached := True\<rparr>)))"

definition ownedNotificationObject :: "notification_object \<Rightarrow> addr option list" where
  "ownedNotificationObject d = (if noAttached d then [Some (noParamMap d)] else [])"

text \<open>The response to a read, empty at first.\<close>

record read_response_object =
  rdHeader :: message_header
  rdStatus :: nat
  rdParamId :: "addr option"
  rdParamValue :: "addr option"
  rdAttached :: bool

definition newReadResponseObject :: "c_ulong \<Rightarrow> nat \<Rightarrow> bool \<Rightarrow> read_response_object" where
  "newReadResponseObject messageId status attachValues = \<lparr>rdHeader = newMessageHeader ReadResponseMessage messageId,
     rdStatus = status, rdParamId = None, rdParamValue = None, rdAttached = attachValues\<rparr>"

definition copyReadResponseObject :: "(addr \<Rightarrow> ('s, addr) op) \<Rightarrow> read_response_object \<Rightarrow> ('s, read_response_object) op" where
  "copyReadResponseObject copy orig =
    bindP (copyPtr copy (rdParamId orig)) (\<lambda>paramId.
    bindP (copyPtr copy (rdParamValue orig)) (\<lambda>paramValue.
      liftP (Inr (orig\<lparr>rdParamId := paramId, rdParamValue := paramValue,
        rdAttached := True\<rparr>))))"

definition ownedReadResponseObject :: "read_response_object \<Rightarrow> addr option list" where
  "ownedReadResponseObject d = (if rdAttached d then [rdParamId d, rdParamValue d] else [])"

text \<open>A write.\<close>

record write_object =
  wrHeader :: message_header
  wrParamId :: addr
  wrParamValue :: addr
  wrAttached :: bool

definition newWriteObject :: "c_ulong \<Rightarrow> addr \<Rightarrow> addr \<Rightarrow> bool \<Rightarrow> write_object" where
  "newWriteObject messageId paramId paramValue attachValues = \<lparr>wrHeader = newMessageHeader WriteMessage messageId,
     wrParamId = paramId, wrParamValue = paramValue, wrAttached = attachValues\<rparr>"

definition copyWriteObject :: "(addr \<Rightarrow> ('s, addr) op) \<Rightarrow> write_object \<Rightarrow> ('s, write_object) op" where
  "copyWriteObject copy orig =
    bindP (copy (wrParamId orig)) (\<lambda>paramId.
    bindP (copy (wrParamValue orig)) (\<lambda>paramValue.
      liftP (Inr (orig\<lparr>wrParamId := paramId, wrParamValue := paramValue,
        wrAttached := True\<rparr>))))"

definition ownedWriteObject :: "write_object \<Rightarrow> addr option list" where
  "ownedWriteObject d = (if wrAttached d then [Some (wrParamId d), Some (wrParamValue d)] else [])"

text \<open>The common class of reads, subscriptions and their ends.\<close>

record param_id_message_object =
  piHeader :: message_header
  piParamId :: addr
  piAttached :: bool

definition newParamIdMessageObject :: "message_type \<Rightarrow> c_ulong \<Rightarrow> addr \<Rightarrow> bool \<Rightarrow> param_id_message_object" where
  "newParamIdMessageObject messageType messageId paramId attachValues = \<lparr>piHeader = newMessageHeader messageType messageId,
     piParamId = paramId, piAttached = attachValues\<rparr>"

definition copyParamIdMessageObject :: "(addr \<Rightarrow> ('s, addr) op) \<Rightarrow> param_id_message_object \<Rightarrow> ('s, param_id_message_object) op" where
  "copyParamIdMessageObject copy orig =
    bindP (copy (piParamId orig)) (\<lambda>paramId.
      liftP (Inr (orig\<lparr>piParamId := paramId, piAttached := True\<rparr>)))"

definition ownedParamIdMessageObject :: "param_id_message_object \<Rightarrow> addr option list" where
  "ownedParamIdMessageObject d = (if piAttached d then [Some (piParamId d)] else [])"

end
