(* ===== verification/Object_Store.thy ===== *)
theory Object_Store
  imports Object_Classes
begin

text \<open>
  A store of objects of the classes of \<open>Object_Classes\<close>: allocation, deletion, the copy that every class
  offers with \<open>copy()\<close>, and the setters. An address is the position in a list; deleting leaves \<open>None\<close> there,
  and a new object never reuses the address of a deleted one, so that a dangling pointer stays one. Using or
  deleting an address without an object is undefined.
\<close>

subsection \<open>Objects and the store\<close>

datatype obj =
    StringObject string
  | CharsObject "c_byte list"
  | ExceptionObject c_exception
  | VectorObject "addr list"
  | FieldMapObject "(string \<times> addr) list"
  | PairsObject "(addr \<times> addr) list"
  | NodePropertiesObject value_handling
  | BinScalarObject bin_scalar
  | StatusObject status_message
  | IoNodeIdObject io_node_id_object
  | IoScalarObject io_scalar_object
  | ParamIdObject param_id_data
  | IoArrayObject io_array_object
  | IoStructureObject io_structure_object
  | NodeDataObject node_data_object
  | MethodDataObject method_data_object
  | OpcUaEventDataObject opc_ua_event_data_object
  | IoEventObject io_event_object
  | BinArrayObject bin_array_object
  | BinStructObject bin_struct_object
  | ParamListObject param_list_object
  | ParamMapObject param_map_object
  | CallObject call_object
  | CallResponseObject call_response_object
  | BinEventObject bin_event_object
  | NotificationObject notification_object
  | ReadResponseObject read_response_object
  | WriteObject write_object
  | ParamIdMessageObject param_id_message_object

type_synonym store = "obj option list"

definition loadP :: "addr \<Rightarrow> (store, obj) op" where
  "loadP a = (\<lambda>st.
    Some (if a < length st then (case st ! a of None \<Rightarrow> Inl UndefinedBehaviour | Some ob \<Rightarrow> Inr ob)
          else Inl UndefinedBehaviour, st))"

definition allocP :: "obj \<Rightarrow> (store, addr) op" where
  "allocP ob = (\<lambda>st. Some (Inr (length st), st @ [Some ob]))"

definition storeAt :: "addr \<Rightarrow> obj \<Rightarrow> (store, unit) op" where
  "storeAt a ob = bindP (loadP a) (\<lambda>_. modifyP (\<lambda>st. st[a := Some ob]))"

definition loadAs :: "(obj \<Rightarrow> 'a option) \<Rightarrow> addr \<Rightarrow> (store, 'a) op" where
  "loadAs cast a =
    bindP (loadP a) (\<lambda>ob. liftP (case cast ob of None \<Rightarrow> Inl UndefinedBehaviour | Some d \<Rightarrow> Inr d))"

subsection \<open>Deleting\<close>

text \<open>What a destructor deletes, by the class of the object.\<close>

fun ownedBy :: "obj \<Rightarrow> addr option list" where
  "ownedBy (VectorObject es) = map Some es"
| "ownedBy (FieldMapObject es) = map (\<lambda>e. Some (snd e)) es"
| "ownedBy (PairsObject es) = concat (map (\<lambda>e. [Some (fst e), Some (snd e)]) es)"
| "ownedBy (IoNodeIdObject d) = ownedIoNodeIdObject d"
| "ownedBy (IoScalarObject d) = ownedIoScalarObject d"
| "ownedBy (ParamIdObject d) = ownedParamIdObject d"
| "ownedBy (IoArrayObject d) = ownedIoArrayObject d"
| "ownedBy (IoStructureObject d) = ownedIoStructureObject d"
| "ownedBy (NodeDataObject d) = ownedNodeDataObject d"
| "ownedBy (MethodDataObject d) = ownedMethodDataObject d"
| "ownedBy (OpcUaEventDataObject d) = ownedOpcUaEventDataObject d"
| "ownedBy (IoEventObject d) = ownedIoEventObject d"
| "ownedBy (BinArrayObject d) = ownedBinArrayObject d"
| "ownedBy (BinStructObject d) = ownedBinStructObject d"
| "ownedBy (ParamListObject d) = ownedParamListObject d"
| "ownedBy (ParamMapObject d) = ownedParamMapObject d"
| "ownedBy (CallObject d) = ownedCallObject d"
| "ownedBy (CallResponseObject d) = ownedCallResponseObject d"
| "ownedBy (BinEventObject d) = ownedBinEventObject d"
| "ownedBy (NotificationObject d) = ownedNotificationObject d"
| "ownedBy (ReadResponseObject d) = ownedReadResponseObject d"
| "ownedBy (WriteObject d) = ownedWriteObject d"
| "ownedBy (ParamIdMessageObject d) = ownedParamIdMessageObject d"
| "ownedBy _ = []"

text \<open>\<open>delete\<close> of the pointers of a list; \<open>NULL\<close> is skipped. The object is gone before what it owns.\<close>

definition live :: "store \<Rightarrow> nat" where
  "live st = length (filter (\<lambda>x. x \<noteq> None) st)"

lemma live_delete: "a < length st \<Longrightarrow> st ! a = Some ob \<Longrightarrow> live (st[a := None]) < live st"
  unfolding live_def by (induction st arbitrary: a) (auto split: nat.splits simp: nth_Cons')

function deleteAll :: "addr option list \<Rightarrow> store \<Rightarrow> (cpp_error, unit) res \<times> store" where
  "deleteAll [] st = (Inr (), st)"
| "deleteAll (None # ps) st = deleteAll ps st"
| "deleteAll (Some a # ps) st =
     (if a < length st then
        (case st ! a of
           None \<Rightarrow> (Inl UndefinedBehaviour, st)
         | Some ob \<Rightarrow> deleteAll (ownedBy ob @ ps) (st[a := None]))
      else (Inl UndefinedBehaviour, st))"
  by pat_completeness auto

termination
  by (relation "measures [\<lambda>(ps, st). live st, \<lambda>(ps, st). length ps]") (auto simp: live_delete)

definition deleteIf :: "bool \<Rightarrow> addr option \<Rightarrow> (store, unit) op" where
  "deleteIf attached p = (if attached then (\<lambda>st. Some (deleteAll [p] st)) else liftP (Inr ()))"

subsection \<open>Copying\<close>

text \<open>What the constructors of classes without pointers give, and their copies.\<close>

definition newBinScalarObject :: bin_scalar where
  "newBinScalarObject = BInt 0"

fun copyBinScalarObject :: "bin_scalar \<Rightarrow> bin_scalar" where
  "copyBinScalarObject (BBoolean v) = BBoolean v"
| "copyBinScalarObject (BChar v) = BChar v"
| "copyBinScalarObject (BByte v) = BByte v"
| "copyBinScalarObject (BShort v) = BShort v"
| "copyBinScalarObject (BInt v) = BInt v"
| "copyBinScalarObject (BLong v) = BLong v"
| "copyBinScalarObject (BFloat v) = BFloat v"
| "copyBinScalarObject (BDouble v) = BDouble v"

fun copyObject :: "(addr \<Rightarrow> ('s, addr) op) \<Rightarrow> obj \<Rightarrow> ('s, obj) op" where
  "copyObject copy (StringObject s) = liftP (Inr (StringObject s))"
| "copyObject copy (CharsObject bs) = liftP (Inr (CharsObject bs))"
| "copyObject copy (ExceptionObject e) = liftP (Inr (ExceptionObject (copyException e)))"
| "copyObject copy (VectorObject es) = bindP (copyElements copy es) (\<lambda>bs. liftP (Inr (VectorObject bs)))"
| "copyObject copy (FieldMapObject es) = bindP (copyFieldMap copy es) (\<lambda>bs. liftP (Inr (FieldMapObject bs)))"
| "copyObject copy (PairsObject es) = bindP (copyPairs copy es) (\<lambda>bs. liftP (Inr (PairsObject bs)))"
| "copyObject copy (NodePropertiesObject h) = liftP (Inr (NodePropertiesObject h))"
| "copyObject copy (BinScalarObject s) = liftP (Inr (BinScalarObject (copyBinScalarObject s)))"
| "copyObject copy (StatusObject m) = liftP (Inr (StatusObject m))"
| "copyObject copy (IoNodeIdObject d) = bindP (copyIoNodeIdObject copy d) (\<lambda>d'. liftP (Inr (IoNodeIdObject d')))"
| "copyObject copy (IoScalarObject d) = bindP (copyIoScalarObject copy d) (\<lambda>d'. liftP (Inr (IoScalarObject d')))"
| "copyObject copy (ParamIdObject d) = bindP (copyParamIdObject copy d) (\<lambda>d'. liftP (Inr (ParamIdObject d')))"
| "copyObject copy (IoArrayObject d) = bindP (copyIoArrayObject copy d) (\<lambda>d'. liftP (Inr (IoArrayObject d')))"
| "copyObject copy (IoStructureObject d) = bindP (copyIoStructureObject copy d) (\<lambda>d'. liftP (Inr (IoStructureObject d')))"
| "copyObject copy (NodeDataObject d) = bindP (copyNodeDataObject copy d) (\<lambda>d'. liftP (Inr (NodeDataObject d')))"
| "copyObject copy (MethodDataObject d) = bindP (copyMethodDataObject copy d) (\<lambda>d'. liftP (Inr (MethodDataObject d')))"
| "copyObject copy (OpcUaEventDataObject d) = bindP (copyOpcUaEventDataObject copy d) (\<lambda>d'. liftP (Inr (OpcUaEventDataObject d')))"
| "copyObject copy (IoEventObject d) = bindP (copyIoEventObject copy d) (\<lambda>d'. liftP (Inr (IoEventObject d')))"
| "copyObject copy (BinArrayObject d) = bindP (copyBinArrayObject copy d) (\<lambda>d'. liftP (Inr (BinArrayObject d')))"
| "copyObject copy (BinStructObject d) = bindP (copyBinStructObject copy d) (\<lambda>d'. liftP (Inr (BinStructObject d')))"
| "copyObject copy (ParamListObject d) = bindP (copyParamListObject copy d) (\<lambda>d'. liftP (Inr (ParamListObject d')))"
| "copyObject copy (ParamMapObject d) = bindP (copyParamMapObject copy d) (\<lambda>d'. liftP (Inr (ParamMapObject d')))"
| "copyObject copy (CallObject d) = bindP (copyCallObject copy d) (\<lambda>d'. liftP (Inr (CallObject d')))"
| "copyObject copy (CallResponseObject d) = bindP (copyCallResponseObject copy d) (\<lambda>d'. liftP (Inr (CallResponseObject d')))"
| "copyObject copy (BinEventObject d) = bindP (copyBinEventObject copy d) (\<lambda>d'. liftP (Inr (BinEventObject d')))"
| "copyObject copy (NotificationObject d) = bindP (copyNotificationObject copy d) (\<lambda>d'. liftP (Inr (NotificationObject d')))"
| "copyObject copy (ReadResponseObject d) = bindP (copyReadResponseObject copy d) (\<lambda>d'. liftP (Inr (ReadResponseObject d')))"
| "copyObject copy (WriteObject d) = bindP (copyWriteObject copy d) (\<lambda>d'. liftP (Inr (WriteObject d')))"
| "copyObject copy (ParamIdMessageObject d) = bindP (copyParamIdMessageObject copy d) (\<lambda>d'. liftP (Inr (ParamIdMessageObject d')))"

lemma mono_copyPtr:
  assumes m: "\<And>a s. mono_option (\<lambda>f. c f a s)"
  shows "mono_option (\<lambda>f. copyPtr (c f) p s)"
  by (cases p; simp only: copyPtr_def option.case) (intro mono_op m)+

lemma mono_copyElements:
  assumes m: "\<And>a s. mono_option (\<lambda>f. c f a s)"
  shows "mono_option (\<lambda>f. copyElements (c f) es s)"
proof (induction es arbitrary: s)
  case (Cons a es)
  show ?case unfolding copyElements.simps by (intro mono_op m Cons)
qed (simp add: mono_option_const)

lemma mono_copyFieldMap:
  assumes m: "\<And>a s. mono_option (\<lambda>f. c f a s)"
  shows "mono_option (\<lambda>f. copyFieldMap (c f) es s)"
proof (induction es arbitrary: s)
  case (Cons e es)
  show ?case by (cases e; simp only: copyFieldMap.simps) (intro mono_op m Cons)
qed (simp add: mono_option_const)

lemma mono_copyPairs:
  assumes m: "\<And>a s. mono_option (\<lambda>f. c f a s)"
  shows "mono_option (\<lambda>f. copyPairs (c f) es s)"
proof (induction es arbitrary: s)
  case (Cons e es)
  show ?case by (cases e; simp only: copyPairs.simps) (intro mono_op m Cons)
qed (simp add: mono_option_const)

lemma mono_copyId:
  assumes m: "\<And>a s. mono_option (\<lambda>f. c f a s)"
  shows "mono_option (\<lambda>f. copyId (c f) i s)"
  by (cases i; simp only: copyId_def sum.case) (intro mono_op m)+

lemma mono_copyCell:
  assumes m: "\<And>a s. mono_option (\<lambda>f. c f a s)"
  shows "mono_option (\<lambda>f. copyCell (c f) cell s)"
  by (cases cell; simp only: copyCell_def scalar_cell.case) (intro mono_op mono_copyPtr m)+

lemmas copy_class_defs =
  copyIoNodeIdObject_def
  copyIoScalarObject_def
  copyParamIdObject_def
  copyIoArrayObject_def
  copyIoStructureObject_def
  copyNodeDataObject_def
  copyMethodDataObject_def
  copyOpcUaEventDataObject_def
  copyIoEventObject_def
  copyBinArrayObject_def
  copyBinStructObject_def
  copyParamListObject_def
  copyParamMapObject_def
  copyCallObject_def
  copyCallResponseObject_def
  copyBinEventObject_def
  copyNotificationObject_def
  copyReadResponseObject_def
  copyWriteObject_def
  copyParamIdMessageObject_def

lemma mono_copyObject:
  assumes "\<And>a s. mono_option (\<lambda>f. c f a s)"
  shows "mono_option (\<lambda>f. copyObject (c f) ob s)"
  by (cases ob; simp only: copyObject.simps copy_class_defs)
    (intro mono_op mono_copyPtr mono_copyElements mono_copyFieldMap mono_copyPairs mono_copyId mono_copyCell assms)+

text \<open>\<open>copy()\<close>: a new object of the same class, filled by its copy constructor.\<close>

definition copyStep :: "(addr \<Rightarrow> (store, addr) op) \<Rightarrow> addr \<Rightarrow> (store, addr) op" where
  "copyStep copy a = bindP (loadP a) (\<lambda>ob. bindP (copyObject copy ob) allocP)"

lemma mono_copyStep:
  assumes "\<And>a s. mono_option (\<lambda>f. c f a s)"
  shows "mono_option (\<lambda>f. copyStep (c f) a s)"
  unfolding copyStep_def by (intro mono_op mono_copyObject assms)

declare mono_copyStep [partial_function_mono]

partial_function (option) copyAt :: "addr \<Rightarrow> store \<Rightarrow> ((cpp_error, addr) res \<times> store) option" where
  "copyAt a st = copyStep copyAt a st"

declare copyAt.simps [code]

subsection \<open>Setters\<close>

text \<open>
  A setter of an object with attached values deletes the old value, whatever the new one is; the object
  keeps its flag. The new value is not copied.
\<close>

definition setNodeDataData :: "addr \<Rightarrow> addr option \<Rightarrow> (store, unit) op" where
  "setNodeDataData this v =
    bindP (loadAs (\<lambda>ob. case ob of NodeDataObject d \<Rightarrow> Some d | _ \<Rightarrow> None) this) (\<lambda>d.
    bindP (deleteIf (ndAttached d) (ndData d)) (\<lambda>_.
      storeAt this (NodeDataObject (d\<lparr>ndData := v\<rparr>))))"

definition setNodeDataException :: "addr \<Rightarrow> addr option \<Rightarrow> (store, unit) op" where
  "setNodeDataException this v =
    bindP (loadAs (\<lambda>ob. case ob of NodeDataObject d \<Rightarrow> Some d | _ \<Rightarrow> None) this) (\<lambda>d.
    bindP (deleteIf (ndAttached d) (ndException d)) (\<lambda>_.
      storeAt this (NodeDataObject (d\<lparr>ndException := v\<rparr>))))"

definition setMethodDataMethodArgs :: "addr \<Rightarrow> addr \<Rightarrow> (store, unit) op" where
  "setMethodDataMethodArgs this v =
    bindP (loadAs (\<lambda>ob. case ob of MethodDataObject d \<Rightarrow> Some d | _ \<Rightarrow> None) this) (\<lambda>d.
    bindP (deleteIf (mdAttached d) (Some (mdMethodArgs d))) (\<lambda>_.
      storeAt this (MethodDataObject (d\<lparr>mdMethodArgs := v\<rparr>))))"

definition setMethodDataException :: "addr \<Rightarrow> addr option \<Rightarrow> (store, unit) op" where
  "setMethodDataException this v =
    bindP (loadAs (\<lambda>ob. case ob of MethodDataObject d \<Rightarrow> Some d | _ \<Rightarrow> None) this) (\<lambda>d.
    bindP (deleteIf (mdAttached d) (mdException d)) (\<lambda>_.
      storeAt this (MethodDataObject (d\<lparr>mdException := v\<rparr>))))"

definition setBinArrayElements :: "addr \<Rightarrow> addr \<Rightarrow> (store, unit) op" where
  "setBinArrayElements this v =
    bindP (loadAs (\<lambda>ob. case ob of BinArrayObject d \<Rightarrow> Some d | _ \<Rightarrow> None) this) (\<lambda>d.
    bindP (deleteIf (baAttached d) (Some (baElements d))) (\<lambda>_.
      storeAt this (BinArrayObject (d\<lparr>baElements := v\<rparr>))))"

definition setBinStructStructId :: "addr \<Rightarrow> addr \<Rightarrow> (store, unit) op" where
  "setBinStructStructId this v =
    bindP (loadAs (\<lambda>ob. case ob of BinStructObject d \<Rightarrow> Some d | _ \<Rightarrow> None) this) (\<lambda>d.
    bindP (deleteIf (bsAttached d) (Some (bsStructId d))) (\<lambda>_.
      storeAt this (BinStructObject (d\<lparr>bsStructId := v\<rparr>))))"

definition setBinStructFields :: "addr \<Rightarrow> addr \<Rightarrow> (store, unit) op" where
  "setBinStructFields this v =
    bindP (loadAs (\<lambda>ob. case ob of BinStructObject d \<Rightarrow> Some d | _ \<Rightarrow> None) this) (\<lambda>d.
    bindP (deleteIf (bsAttached d) (Some (bsFields d))) (\<lambda>_.
      storeAt this (BinStructObject (d\<lparr>bsFields := v\<rparr>))))"

definition setParamListElements :: "addr \<Rightarrow> addr \<Rightarrow> (store, unit) op" where
  "setParamListElements this v =
    bindP (loadAs (\<lambda>ob. case ob of ParamListObject d \<Rightarrow> Some d | _ \<Rightarrow> None) this) (\<lambda>d.
    bindP (deleteIf (plAttached d) (Some (plElements d))) (\<lambda>_.
      storeAt this (ParamListObject (d\<lparr>plElements := v\<rparr>))))"

definition setParamMapElements :: "addr \<Rightarrow> addr \<Rightarrow> (store, unit) op" where
  "setParamMapElements this v =
    bindP (loadAs (\<lambda>ob. case ob of ParamMapObject d \<Rightarrow> Some d | _ \<Rightarrow> None) this) (\<lambda>d.
    bindP (deleteIf (pmAttached d) (Some (pmElements d))) (\<lambda>_.
      storeAt this (ParamMapObject (d\<lparr>pmElements := v\<rparr>))))"

definition setCallMethodId :: "addr \<Rightarrow> addr \<Rightarrow> (store, unit) op" where
  "setCallMethodId this v =
    bindP (loadAs (\<lambda>ob. case ob of CallObject d \<Rightarrow> Some d | _ \<Rightarrow> None) this) (\<lambda>d.
    bindP (deleteIf (caAttached d) (Some (caMethodId d))) (\<lambda>_.
      storeAt this (CallObject (d\<lparr>caMethodId := v\<rparr>))))"

definition setCallParamId :: "addr \<Rightarrow> addr \<Rightarrow> (store, unit) op" where
  "setCallParamId this v =
    bindP (loadAs (\<lambda>ob. case ob of CallObject d \<Rightarrow> Some d | _ \<Rightarrow> None) this) (\<lambda>d.
    bindP (deleteIf (caAttached d) (Some (caParamId d))) (\<lambda>_.
      storeAt this (CallObject (d\<lparr>caParamId := v\<rparr>))))"

definition setCallParamList :: "addr \<Rightarrow> addr \<Rightarrow> (store, unit) op" where
  "setCallParamList this v =
    bindP (loadAs (\<lambda>ob. case ob of CallObject d \<Rightarrow> Some d | _ \<Rightarrow> None) this) (\<lambda>d.
    bindP (deleteIf (caAttached d) (Some (caParamList d))) (\<lambda>_.
      storeAt this (CallObject (d\<lparr>caParamList := v\<rparr>))))"

definition setCallResponseMethodId :: "addr \<Rightarrow> addr option \<Rightarrow> (store, unit) op" where
  "setCallResponseMethodId this v =
    bindP (loadAs (\<lambda>ob. case ob of CallResponseObject d \<Rightarrow> Some d | _ \<Rightarrow> None) this) (\<lambda>d.
    bindP (deleteIf (crAttached d) (crMethodId d)) (\<lambda>_.
      storeAt this (CallResponseObject (d\<lparr>crMethodId := v\<rparr>))))"

definition setCallResponseParamId :: "addr \<Rightarrow> addr option \<Rightarrow> (store, unit) op" where
  "setCallResponseParamId this v =
    bindP (loadAs (\<lambda>ob. case ob of CallResponseObject d \<Rightarrow> Some d | _ \<Rightarrow> None) this) (\<lambda>d.
    bindP (deleteIf (crAttached d) (crParamId d)) (\<lambda>_.
      storeAt this (CallResponseObject (d\<lparr>crParamId := v\<rparr>))))"

definition setCallResponseParamList :: "addr \<Rightarrow> addr option \<Rightarrow> (store, unit) op" where
  "setCallResponseParamList this v =
    bindP (loadAs (\<lambda>ob. case ob of CallResponseObject d \<Rightarrow> Some d | _ \<Rightarrow> None) this) (\<lambda>d.
    bindP (deleteIf (crAttached d) (crParamList d)) (\<lambda>_.
      storeAt this (CallResponseObject (d\<lparr>crParamList := v\<rparr>))))"

definition setBinEventEventId :: "addr \<Rightarrow> addr \<Rightarrow> (store, unit) op" where
  "setBinEventEventId this v =
    bindP (loadAs (\<lambda>ob. case ob of BinEventObject d \<Rightarrow> Some d | _ \<Rightarrow> None) this) (\<lambda>d.
    bindP (deleteIf (beAttached d) (Some (beEventId d))) (\<lambda>_.
      storeAt this (BinEventObject (d\<lparr>beEventId := v\<rparr>))))"

definition setBinEventParamId :: "addr \<Rightarrow> addr \<Rightarrow> (store, unit) op" where
  "setBinEventParamId this v =
    bindP (loadAs (\<lambda>ob. case ob of BinEventObject d \<Rightarrow> Some d | _ \<Rightarrow> None) this) (\<lambda>d.
    bindP (deleteIf (beAttached d) (Some (beParamId d))) (\<lambda>_.
      storeAt this (BinEventObject (d\<lparr>beParamId := v\<rparr>))))"

definition setBinEventMessage :: "addr \<Rightarrow> addr \<Rightarrow> (store, unit) op" where
  "setBinEventMessage this v =
    bindP (loadAs (\<lambda>ob. case ob of BinEventObject d \<Rightarrow> Some d | _ \<Rightarrow> None) this) (\<lambda>d.
    bindP (deleteIf (beAttached d) (Some (beMessage d))) (\<lambda>_.
      storeAt this (BinEventObject (d\<lparr>beMessage := v\<rparr>))))"

definition setBinEventParamMap :: "addr \<Rightarrow> addr \<Rightarrow> (store, unit) op" where
  "setBinEventParamMap this v =
    bindP (loadAs (\<lambda>ob. case ob of BinEventObject d \<Rightarrow> Some d | _ \<Rightarrow> None) this) (\<lambda>d.
    bindP (deleteIf (beAttached d) (Some (beParamMap d))) (\<lambda>_.
      storeAt this (BinEventObject (d\<lparr>beParamMap := v\<rparr>))))"

definition setNotificationParamMap :: "addr \<Rightarrow> addr \<Rightarrow> (store, unit) op" where
  "setNotificationParamMap this v =
    bindP (loadAs (\<lambda>ob. case ob of NotificationObject d \<Rightarrow> Some d | _ \<Rightarrow> None) this) (\<lambda>d.
    bindP (deleteIf (noAttached d) (Some (noParamMap d))) (\<lambda>_.
      storeAt this (NotificationObject (d\<lparr>noParamMap := v\<rparr>))))"

definition setReadResponseParamId :: "addr \<Rightarrow> addr option \<Rightarrow> (store, unit) op" where
  "setReadResponseParamId this v =
    bindP (loadAs (\<lambda>ob. case ob of ReadResponseObject d \<Rightarrow> Some d | _ \<Rightarrow> None) this) (\<lambda>d.
    bindP (deleteIf (rdAttached d) (rdParamId d)) (\<lambda>_.
      storeAt this (ReadResponseObject (d\<lparr>rdParamId := v\<rparr>))))"

definition setReadResponseParamValue :: "addr \<Rightarrow> addr option \<Rightarrow> (store, unit) op" where
  "setReadResponseParamValue this v =
    bindP (loadAs (\<lambda>ob. case ob of ReadResponseObject d \<Rightarrow> Some d | _ \<Rightarrow> None) this) (\<lambda>d.
    bindP (deleteIf (rdAttached d) (rdParamValue d)) (\<lambda>_.
      storeAt this (ReadResponseObject (d\<lparr>rdParamValue := v\<rparr>))))"

definition setWriteParamId :: "addr \<Rightarrow> addr \<Rightarrow> (store, unit) op" where
  "setWriteParamId this v =
    bindP (loadAs (\<lambda>ob. case ob of WriteObject d \<Rightarrow> Some d | _ \<Rightarrow> None) this) (\<lambda>d.
    bindP (deleteIf (wrAttached d) (Some (wrParamId d))) (\<lambda>_.
      storeAt this (WriteObject (d\<lparr>wrParamId := v\<rparr>))))"

definition setWriteParamValue :: "addr \<Rightarrow> addr \<Rightarrow> (store, unit) op" where
  "setWriteParamValue this v =
    bindP (loadAs (\<lambda>ob. case ob of WriteObject d \<Rightarrow> Some d | _ \<Rightarrow> None) this) (\<lambda>d.
    bindP (deleteIf (wrAttached d) (Some (wrParamValue d))) (\<lambda>_.
      storeAt this (WriteObject (d\<lparr>wrParamValue := v\<rparr>))))"

definition setParamIdMessageParamId :: "addr \<Rightarrow> addr \<Rightarrow> (store, unit) op" where
  "setParamIdMessageParamId this v =
    bindP (loadAs (\<lambda>ob. case ob of ParamIdMessageObject d \<Rightarrow> Some d | _ \<Rightarrow> None) this) (\<lambda>d.
    bindP (deleteIf (piAttached d) (Some (piParamId d))) (\<lambda>_.
      storeAt this (ParamIdMessageObject (d\<lparr>piParamId := v\<rparr>))))"

text \<open>The setters of a scalar clear the union first; only those with pointers change the flag.\<close>

definition setCell :: "addr \<Rightarrow> scalar_cell \<Rightarrow> (bool \<Rightarrow> bool) \<Rightarrow> (store, unit) op" where
  "setCell this cell attach =
    bindP (loadAs (\<lambda>ob. case ob of IoScalarObject d \<Rightarrow> Some d | _ \<Rightarrow> None) this) (\<lambda>d.
    bindP (\<lambda>st. Some (deleteAll (ownedIoScalarObject d) st)) (\<lambda>_.
      storeAt this (IoScalarObject \<lparr>isCell = cell, isAttached = attach (isAttached d)\<rparr>)))"

definition setIoScalarBool :: "addr \<Rightarrow> bool \<Rightarrow> (store, unit) op" where
  "setIoScalarBool this v = setCell this (CellBool v) id"

definition setIoScalarSChar :: "addr \<Rightarrow> c_byte \<Rightarrow> (store, unit) op" where
  "setIoScalarSChar this v = setCell this (CellSChar v) id"

definition setIoScalarChar :: "addr \<Rightarrow> char \<Rightarrow> (store, unit) op" where
  "setIoScalarChar this v = setCell this (CellChar v) id"

definition setIoScalarInt :: "addr \<Rightarrow> c_int \<Rightarrow> (store, unit) op" where
  "setIoScalarInt this v = setCell this (CellInt v) id"

definition setIoScalarUInt :: "addr \<Rightarrow> c_uint \<Rightarrow> (store, unit) op" where
  "setIoScalarUInt this v = setCell this (CellUInt v) id"

definition setIoScalarLong :: "addr \<Rightarrow> c_long \<Rightarrow> (store, unit) op" where
  "setIoScalarLong this v = setCell this (CellLong v) id"

definition setIoScalarULong :: "addr \<Rightarrow> c_ulong \<Rightarrow> (store, unit) op" where
  "setIoScalarULong this v = setCell this (CellULong v) id"

definition setIoScalarLLong :: "addr \<Rightarrow> 64 word \<Rightarrow> (store, unit) op" where
  "setIoScalarLLong this v = setCell this (CellLLong v) id"

definition setIoScalarULLong :: "addr \<Rightarrow> 64 word \<Rightarrow> (store, unit) op" where
  "setIoScalarULLong this v = setCell this (CellULLong v) id"

definition setIoScalarFloat :: "addr \<Rightarrow> c_float \<Rightarrow> (store, unit) op" where
  "setIoScalarFloat this v = setCell this (CellFloat v) id"

definition setIoScalarDouble :: "addr \<Rightarrow> c_double \<Rightarrow> (store, unit) op" where
  "setIoScalarDouble this v = setCell this (CellDouble v) id"

definition setIoScalarString :: "addr \<Rightarrow> addr option \<Rightarrow> bool \<Rightarrow> (store, unit) op" where
  "setIoScalarString this v attachValue = setCell this (CellString v) (\<lambda>_. attachValue)"

definition setIoScalarByteString :: "addr \<Rightarrow> addr option \<Rightarrow> bool \<Rightarrow> (store, unit) op" where
  "setIoScalarByteString this v attachValue = setCell this (CellByteString v) (\<lambda>_. attachValue)"

definition setIoScalarLocalizedText :: "addr \<Rightarrow> addr option \<Rightarrow> addr option \<Rightarrow> bool \<Rightarrow> (store, unit) op" where
  "setIoScalarLocalizedText this locale' text' attachValues =
    setCell this (CellLocalizedText locale' text') (\<lambda>_. attachValues)"

text \<open>Setters of plain values.\<close>

definition setBinArrayType :: "addr \<Rightarrow> c_int \<Rightarrow> (store, unit) op" where
  "setBinArrayType this v =
    bindP (loadAs (\<lambda>ob. case ob of BinArrayObject d \<Rightarrow> Some d | _ \<Rightarrow> None) this) (\<lambda>d.
      storeAt this (BinArrayObject (d\<lparr>baType := v\<rparr>)))"

definition setCallResponseStatus :: "addr \<Rightarrow> nat \<Rightarrow> (store, unit) op" where
  "setCallResponseStatus this v =
    bindP (loadAs (\<lambda>ob. case ob of CallResponseObject d \<Rightarrow> Some d | _ \<Rightarrow> None) this) (\<lambda>d.
      storeAt this (CallResponseObject (d\<lparr>crStatus := v\<rparr>)))"

definition setReadResponseStatus :: "addr \<Rightarrow> nat \<Rightarrow> (store, unit) op" where
  "setReadResponseStatus this v =
    bindP (loadAs (\<lambda>ob. case ob of ReadResponseObject d \<Rightarrow> Some d | _ \<Rightarrow> None) this) (\<lambda>d.
      storeAt this (ReadResponseObject (d\<lparr>rdStatus := v\<rparr>)))"

definition setMessageStatus :: "addr \<Rightarrow> nat \<Rightarrow> (store, unit) op" where
  "setMessageStatus this v =
    bindP (loadAs (\<lambda>ob. case ob of StatusObject d \<Rightarrow> Some d | _ \<Rightarrow> None) this) (\<lambda>d.
      storeAt this (StatusObject (d\<lparr>smStatus := v\<rparr>)))"

definition setBinEventTimeStamp :: "addr \<Rightarrow> 64 word \<Rightarrow> (store, unit) op" where
  "setBinEventTimeStamp this v =
    bindP (loadAs (\<lambda>ob. case ob of BinEventObject d \<Rightarrow> Some d | _ \<Rightarrow> None) this) (\<lambda>d.
      storeAt this (BinEventObject (d\<lparr>beTimeStamp := v\<rparr>)))"

definition setBinEventSeverity :: "addr \<Rightarrow> c_long \<Rightarrow> (store, unit) op" where
  "setBinEventSeverity this v =
    bindP (loadAs (\<lambda>ob. case ob of BinEventObject d \<Rightarrow> Some d | _ \<Rightarrow> None) this) (\<lambda>d.
      storeAt this (BinEventObject (d\<lparr>beSeverity := v\<rparr>)))"

definition setNodeProperties :: "addr \<Rightarrow> value_handling \<Rightarrow> (store, unit) op" where
  "setNodeProperties this v =
    bindP (loadAs (\<lambda>ob. case ob of NodePropertiesObject d \<Rightarrow> Some d | _ \<Rightarrow> None) this) (\<lambda>d.
      storeAt this (NodePropertiesObject (v)))"

definition setBinScalarBoolean :: "addr \<Rightarrow> bool \<Rightarrow> (store, unit) op" where
  "setBinScalarBoolean this v =
    bindP (loadAs (\<lambda>ob. case ob of BinScalarObject d \<Rightarrow> Some d | _ \<Rightarrow> None) this) (\<lambda>d.
      storeAt this (BinScalarObject (BBoolean v)))"

definition setBinScalarChar :: "addr \<Rightarrow> char \<Rightarrow> (store, unit) op" where
  "setBinScalarChar this v =
    bindP (loadAs (\<lambda>ob. case ob of BinScalarObject d \<Rightarrow> Some d | _ \<Rightarrow> None) this) (\<lambda>d.
      storeAt this (BinScalarObject (BChar v)))"

definition setBinScalarByte :: "addr \<Rightarrow> c_byte \<Rightarrow> (store, unit) op" where
  "setBinScalarByte this v =
    bindP (loadAs (\<lambda>ob. case ob of BinScalarObject d \<Rightarrow> Some d | _ \<Rightarrow> None) this) (\<lambda>d.
      storeAt this (BinScalarObject (BByte v)))"

definition setBinScalarShort :: "addr \<Rightarrow> c_int \<Rightarrow> (store, unit) op" where
  "setBinScalarShort this v =
    bindP (loadAs (\<lambda>ob. case ob of BinScalarObject d \<Rightarrow> Some d | _ \<Rightarrow> None) this) (\<lambda>d.
      storeAt this (BinScalarObject (BShort v)))"

definition setBinScalarInt :: "addr \<Rightarrow> c_long \<Rightarrow> (store, unit) op" where
  "setBinScalarInt this v =
    bindP (loadAs (\<lambda>ob. case ob of BinScalarObject d \<Rightarrow> Some d | _ \<Rightarrow> None) this) (\<lambda>d.
      storeAt this (BinScalarObject (BInt v)))"

definition setBinScalarLong :: "addr \<Rightarrow> 64 word \<Rightarrow> (store, unit) op" where
  "setBinScalarLong this v =
    bindP (loadAs (\<lambda>ob. case ob of BinScalarObject d \<Rightarrow> Some d | _ \<Rightarrow> None) this) (\<lambda>d.
      storeAt this (BinScalarObject (BLong v)))"

definition setBinScalarFloat :: "addr \<Rightarrow> c_float \<Rightarrow> (store, unit) op" where
  "setBinScalarFloat this v =
    bindP (loadAs (\<lambda>ob. case ob of BinScalarObject d \<Rightarrow> Some d | _ \<Rightarrow> None) this) (\<lambda>d.
      storeAt this (BinScalarObject (BFloat v)))"

definition setBinScalarDouble :: "addr \<Rightarrow> c_double \<Rightarrow> (store, unit) op" where
  "setBinScalarDouble this v =
    bindP (loadAs (\<lambda>ob. case ob of BinScalarObject d \<Rightarrow> Some d | _ \<Rightarrow> None) this) (\<lambda>d.
      storeAt this (BinScalarObject (BDouble v)))"

end
