(* ===== verification/Object_Copies.thy ===== *)
theory Object_Copies
  imports Object_Store
begin

text \<open>
  What copying and deleting objects does: a copy is a new object of the same shape that shares nothing with
  the original, and deleting it gives back exactly what copying it allocated.
\<close>

subsection \<open>The pointers of an object\<close>

text \<open>All pointers, whether they are owned or not, and the attached object with other pointers.\<close>

fun pointers :: "obj \<Rightarrow> addr option list" where
  "pointers (VectorObject es) = map Some es"
| "pointers (FieldMapObject es) = map (\<lambda>e. Some (snd e)) es"
| "pointers (PairsObject es) = concat (map (\<lambda>e. [Some (fst e), Some (snd e)]) es)"
| "pointers (IoNodeIdObject d) = ownedId (niId d)"
| "pointers (IoScalarObject d) = ownedIoScalarObject (d\<lparr>isAttached := True\<rparr>)"
| "pointers (ParamIdObject d) = ownedId (pdId d)"
| "pointers (IoArrayObject d) = [iaElements d]"
| "pointers (IoStructureObject d) = [Some (ioDataTypeId d), Some (ioFieldData d)]"
| "pointers (NodeDataObject d) = [Some (ndNodeId d), ndData d, ndException d]"
| "pointers (MethodDataObject d) = [Some (mdObjectNodeId d), Some (mdMethodNodeId d), Some (mdMethodArgs d), mdException d]"
| "pointers (OpcUaEventDataObject d) = [Some (edSourceNodeId d), Some (edMessage d), Some (edFieldData d)]"
| "pointers (IoEventObject d) = [Some (ieNodeData d)]"
| "pointers (BinArrayObject d) = [Some (baElements d)]"
| "pointers (BinStructObject d) = [Some (bsStructId d), Some (bsFields d)]"
| "pointers (ParamListObject d) = [Some (plElements d)]"
| "pointers (ParamMapObject d) = [Some (pmElements d)]"
| "pointers (CallObject d) = [Some (caMethodId d), Some (caParamId d), Some (caParamList d)]"
| "pointers (CallResponseObject d) = [crMethodId d, crParamId d, crParamList d]"
| "pointers (BinEventObject d) = [Some (beEventId d), Some (beParamId d), Some (beMessage d), Some (beParamMap d)]"
| "pointers (NotificationObject d) = [Some (noParamMap d)]"
| "pointers (ReadResponseObject d) = [rdParamId d, rdParamValue d]"
| "pointers (WriteObject d) = [Some (wrParamId d), Some (wrParamValue d)]"
| "pointers (ParamIdMessageObject d) = [Some (piParamId d)]"
| "pointers _ = []"

definition withId :: "'n + addr \<Rightarrow> addr option list \<Rightarrow> 'n + addr" where
  "withId i ps = (case i of Inl n \<Rightarrow> Inl n | Inr _ \<Rightarrow> Inr (the (ps ! 0)))"

definition withCell :: "scalar_cell \<Rightarrow> addr option list \<Rightarrow> scalar_cell" where
  "withCell cell ps =
    (case cell of
       CellString _ \<Rightarrow> CellString (ps ! 0)
     | CellByteString _ \<Rightarrow> CellByteString (ps ! 0)
     | CellLocalizedText _ _ \<Rightarrow> CellLocalizedText (ps ! 0) (ps ! 1)
     | _ \<Rightarrow> cell)"

fun pairUp :: "(addr \<times> addr) list \<Rightarrow> addr option list \<Rightarrow> (addr \<times> addr) list" where
  "pairUp (_ # es) (p # q # ps) = (the p, the q) # pairUp es ps"
| "pairUp _ _ = []"

fun withPointers :: "obj \<Rightarrow> addr option list \<Rightarrow> obj" where
  "withPointers (VectorObject es) ps = VectorObject (map the ps)"
| "withPointers (FieldMapObject es) ps = FieldMapObject (map2 (\<lambda>e p. (fst e, the p)) es ps)"
| "withPointers (PairsObject es) ps = PairsObject (pairUp es ps)"
| "withPointers (IoNodeIdObject d) ps = IoNodeIdObject (d\<lparr>niId := withId (niId d) ps,
     niAttached := True\<rparr>)"
| "withPointers (IoScalarObject d) ps = IoScalarObject (d\<lparr>isCell := withCell (isCell d) ps,
     isAttached := True\<rparr>)"
| "withPointers (ParamIdObject d) ps = ParamIdObject (d\<lparr>pdId := withId (pdId d) ps,
     pdAttached := True\<rparr>)"
| "withPointers (IoArrayObject d) ps = IoArrayObject (d\<lparr>iaElements := ps ! 0,
     iaAttached := True\<rparr>)"
| "withPointers (IoStructureObject d) ps = IoStructureObject (d\<lparr>ioDataTypeId := the (ps ! 0),
     ioFieldData := the (ps ! 1), ioAttached := True\<rparr>)"
| "withPointers (NodeDataObject d) ps = NodeDataObject (d\<lparr>ndNodeId := the (ps ! 0), ndData := ps ! 1,
     ndException := ps ! 2, ndAttached := True\<rparr>)"
| "withPointers (MethodDataObject d) ps = MethodDataObject (d\<lparr>mdObjectNodeId := the (ps ! 0),
     mdMethodNodeId := the (ps ! 1), mdMethodArgs := the (ps ! 2), mdException := ps ! 3,
     mdAttached := True\<rparr>)"
| "withPointers (OpcUaEventDataObject d) ps = OpcUaEventDataObject (d\<lparr>edSourceNodeId := the (ps ! 0),
     edMessage := the (ps ! 1), edFieldData := the (ps ! 2), edAttached := True\<rparr>)"
| "withPointers (IoEventObject d) ps = IoEventObject (d\<lparr>ieNodeData := the (ps ! 0),
     ieAttached := True\<rparr>)"
| "withPointers (BinArrayObject d) ps = BinArrayObject (d\<lparr>baElements := the (ps ! 0),
     baAttached := True\<rparr>)"
| "withPointers (BinStructObject d) ps = BinStructObject (d\<lparr>bsStructId := the (ps ! 0),
     bsFields := the (ps ! 1), bsAttached := True\<rparr>)"
| "withPointers (ParamListObject d) ps = ParamListObject (d\<lparr>plElements := the (ps ! 0),
     plAttached := True\<rparr>)"
| "withPointers (ParamMapObject d) ps = ParamMapObject (d\<lparr>pmElements := the (ps ! 0),
     pmAttached := True\<rparr>)"
| "withPointers (CallObject d) ps = CallObject (d\<lparr>caMethodId := the (ps ! 0),
     caParamId := the (ps ! 1), caParamList := the (ps ! 2), caAttached := True\<rparr>)"
| "withPointers (CallResponseObject d) ps = CallResponseObject (d\<lparr>crMethodId := ps ! 0,
     crParamId := ps ! 1, crParamList := ps ! 2, crAttached := True\<rparr>)"
| "withPointers (BinEventObject d) ps = BinEventObject (d\<lparr>beEventId := the (ps ! 0),
     beParamId := the (ps ! 1), beMessage := the (ps ! 2), beParamMap := the (ps ! 3),
     beAttached := True\<rparr>)"
| "withPointers (NotificationObject d) ps = NotificationObject (d\<lparr>noParamMap := the (ps ! 0),
     noAttached := True\<rparr>)"
| "withPointers (ReadResponseObject d) ps = ReadResponseObject (d\<lparr>rdParamId := ps ! 0,
     rdParamValue := ps ! 1, rdAttached := True\<rparr>)"
| "withPointers (WriteObject d) ps = WriteObject (d\<lparr>wrParamId := the (ps ! 0),
     wrParamValue := the (ps ! 1), wrAttached := True\<rparr>)"
| "withPointers (ParamIdMessageObject d) ps = ParamIdMessageObject (d\<lparr>piParamId := the (ps ! 0),
     piAttached := True\<rparr>)"
| "withPointers ob ps = ob"

lemmas owned_class_defs =
  ownedIoNodeIdObject_def
  ownedIoScalarObject_def
  ownedParamIdObject_def
  ownedIoArrayObject_def
  ownedIoStructureObject_def
  ownedNodeDataObject_def
  ownedMethodDataObject_def
  ownedOpcUaEventDataObject_def
  ownedIoEventObject_def
  ownedBinArrayObject_def
  ownedBinStructObject_def
  ownedParamListObject_def
  ownedParamMapObject_def
  ownedCallObject_def
  ownedCallResponseObject_def
  ownedBinEventObject_def
  ownedNotificationObject_def
  ownedReadResponseObject_def
  ownedWriteObject_def
  ownedParamIdMessageObject_def

fun copyPtrs :: "(addr \<Rightarrow> ('s, addr) op) \<Rightarrow> addr option list \<Rightarrow> ('s, addr option list) op" where
  "copyPtrs copy [] = liftP (Inr [])"
| "copyPtrs copy (p # ps) =
     bindP (copyPtr copy p) (\<lambda>q. bindP (copyPtrs copy ps) (\<lambda>qs. liftP (Inr (q # qs))))"

lemma bindP_assoc: "bindP (bindP m f) g = bindP m (\<lambda>x. bindP (f x) g)"
  by (rule ext) (auto simp: bindP_def split: option.split sum.split prod.split)

lemma bindP_return [simp]: "bindP m (\<lambda>x. liftP (Inr x)) = m"
  by (rule ext) (auto simp: bindP_def liftP_def split: option.split sum.split prod.split)

lemma copyPtr_simps [simp]:
  "copyPtr copy None = liftP (Inr None)"
  "copyPtr copy (Some a) = bindP (copy a) (\<lambda>b. liftP (Inr (Some b)))"
  by (simp_all add: copyPtr_def)

declare opP_simps(1) [simp del]

lemma copyBinScalar_same [simp]: "copyBinScalarObject s = s"
  by (cases s) simp_all

lemma copyElements_ptrs:
  "copyElements copy es = bindP (copyPtrs copy (map Some es)) (\<lambda>ps. liftP (Inr (map the ps)))"
  by (induction es) (simp_all add: bindP_assoc)

lemma copyFieldMap_ptrs:
  "copyFieldMap copy es =
   bindP (copyPtrs copy (map (\<lambda>e. Some (snd e)) es)) (\<lambda>ps. liftP (Inr (map2 (\<lambda>e p. (fst e, the p)) es ps)))"
proof (induction es)
  case (Cons e es)
  then show ?case by (cases e) (simp add: bindP_assoc)
qed simp

lemma copyPairs_ptrs:
  "copyPairs copy es =
   bindP (copyPtrs copy (concat (map (\<lambda>e. [Some (fst e), Some (snd e)]) es))) (\<lambda>ps. liftP (Inr (pairUp es ps)))"
proof (induction es)
  case (Cons e es)
  then show ?case by (cases e) (simp add: bindP_assoc)
qed simp

lemma copyId_ptrs: "copyId copy i = bindP (copyPtrs copy (ownedId i)) (\<lambda>ps. liftP (Inr (withId i ps)))"
  by (cases i) (simp_all add: copyId_def ownedId_def withId_def bindP_assoc)

lemma copyCell_ptrs:
  "copyCell copy cell =
   bindP (copyPtrs copy (ownedIoScalarObject \<lparr>isCell = cell, isAttached = True\<rparr>)) (\<lambda>ps. liftP (Inr (withCell cell ps)))"
  by (cases cell) (simp_all add: copyCell_def ownedIoScalarObject_def withCell_def bindP_assoc)

text \<open>Copying an object copies its pointers in order.\<close>

lemma copyObject_ptrs:
  "copyObject copy ob = bindP (copyPtrs copy (pointers ob)) (\<lambda>ps. liftP (Inr (withPointers ob ps)))"
proof (cases ob)
  case (IoScalarObject d)
  then show ?thesis by (cases d) (simp add: copyIoScalarObject_def copyCell_ptrs bindP_assoc)
qed (simp_all add: copy_class_defs copyElements_ptrs copyFieldMap_ptrs copyPairs_ptrs copyId_ptrs bindP_assoc)

declare opP_simps(1) [simp]

definition sameShape :: "addr option list \<Rightarrow> addr option list \<Rightarrow> bool" where
  "sameShape ps qs = list_all2 (\<lambda>p q. (p = None) = (q = None)) ps qs"

lemma sameShape_simps [simp]:
  "sameShape [] qs = (qs = [])"
  "sameShape (None # ps) qs = (\<exists>rs. qs = None # rs \<and> sameShape ps rs)"
  "sameShape (Some a # ps) qs = (\<exists>b rs. qs = Some b # rs \<and> sameShape ps rs)"
  by (auto simp: sameShape_def list_all2_Cons1)

lemma sameShape_Some: "sameShape (map (\<lambda>e. Some (f e)) es) qs \<longleftrightarrow> (\<exists>bs. qs = map Some bs \<and> length bs = length es)"
proof (induction es arbitrary: qs)
  case (Cons e es)
  show ?case
    unfolding list.map sameShape_simps Cons
    by (auto simp: length_Suc_conv) (metis length_Suc_conv list.map(2))
qed auto

lemma pairs_shape:
  "sameShape (concat (map (\<lambda>e. [Some (fst e), Some (snd e)]) es)) qs \<Longrightarrow>
   concat (map (\<lambda>e. [Some (fst e), Some (snd e)]) (pairUp es qs)) = qs \<and> length (pairUp es qs) = length es"
  by (induction es arbitrary: qs) auto

lemma pairs_again:
  "sameShape (concat (map (\<lambda>e. [Some (fst e), Some (snd e)]) es)) qs \<Longrightarrow> pairUp (pairUp es qs) rs = pairUp es rs"
proof (induction es arbitrary: qs rs)
  case (Cons e es)
  then obtain b c qs' where qs: "qs = Some b # Some c # qs'" "sameShape (concat (map (\<lambda>e. [Some (fst e), Some (snd e)]) es)) qs'"
    by auto
  show ?case
  proof (cases rs)
    case (Cons p ps)
    then show ?thesis using qs Cons.IH [OF qs(2)] by (cases ps) simp_all
  qed (use qs in simp)
qed simp

lemma map_the_Some:
  "map ((\<lambda>e. Some (snd e)) \<circ> (\<lambda>(e, p). (fst e, the p))) (zip es (map Some bs)) = map Some (take (length es) bs)"
proof (induction es arbitrary: bs)
  case (Cons e es)
  then show ?case by (cases bs) simp_all
qed simp

lemma map2_again:
  "length bs = length es \<Longrightarrow>
   map2 (\<lambda>e p. (fst e, the p)) (map2 (\<lambda>e p. (fst e, the p)) es (map Some bs)) qs = map2 (\<lambda>e p. (fst e, the p)) es qs"
proof (induction es arbitrary: bs qs)
  case (Cons e es)
  then show ?case by (cases bs; cases qs) simp_all
qed simp

lemma id_shape:
  "sameShape (ownedId i) qs \<Longrightarrow> ownedId (withId i qs) = qs" "withId (withId i qs) rs = withId i rs"
  by (cases i; auto simp: ownedId_def withId_def)+

lemma cell_shape:
  "sameShape (ownedIoScalarObject \<lparr>isCell = cell, isAttached = True\<rparr>) qs \<Longrightarrow>
   ownedIoScalarObject \<lparr>isCell = withCell cell qs, isAttached = True\<rparr> = qs"
  "withCell (withCell cell qs) rs = withCell cell rs"
  by (cases cell; auto simp: ownedIoScalarObject_def withCell_def sameShape_def list_all2_Cons1)+

text \<open>The laws of an object with other pointers of the same shape: it has these pointers, and it owns them.\<close>

lemma pointers_with: "sameShape (pointers ob) qs \<Longrightarrow> pointers (withPointers ob qs) = qs"
proof (cases ob)
  case (VectorObject es)
  assume "sameShape (pointers ob) qs"
  then show ?thesis using sameShape_Some [of "\<lambda>x. x" es qs] VectorObject by auto
next
  case (FieldMapObject es)
  assume "sameShape (pointers ob) qs"
  then show ?thesis using sameShape_Some [of snd es qs] FieldMapObject by (auto simp: map_the_Some)
next
  case (PairsObject es)
  assume "sameShape (pointers ob) qs"
  then show ?thesis using pairs_shape [of es qs] PairsObject by simp
next
  case (IoScalarObject d)
  assume "sameShape (pointers ob) qs"
  then show ?thesis using IoScalarObject cell_shape(1) [of "isCell d" qs] by (cases d) simp
qed (auto simp: sameShape_def list_all2_Cons1 id_shape [unfolded sameShape_def])

lemma owned_with: "sameShape (pointers ob) qs \<Longrightarrow> ownedBy (withPointers ob qs) = qs"
proof (cases ob)
  case (VectorObject es)
  assume "sameShape (pointers ob) qs"
  then show ?thesis using sameShape_Some [of "\<lambda>x. x" es qs] VectorObject by auto
next
  case (FieldMapObject es)
  assume "sameShape (pointers ob) qs"
  then show ?thesis using sameShape_Some [of snd es qs] FieldMapObject by (auto simp: map_the_Some)
next
  case (PairsObject es)
  assume "sameShape (pointers ob) qs"
  then show ?thesis using pairs_shape [of es qs] PairsObject by simp
next
  case (IoScalarObject d)
  assume "sameShape (pointers ob) qs"
  then show ?thesis using IoScalarObject cell_shape(1) [of "isCell d" qs] by (cases d) simp
qed (auto simp: owned_class_defs sameShape_def list_all2_Cons1 id_shape [unfolded sameShape_def])

lemma with_again: "sameShape (pointers ob) qs \<Longrightarrow> withPointers (withPointers ob qs) rs = withPointers ob rs"
proof (cases ob)
  case (FieldMapObject es)
  assume "sameShape (pointers ob) qs"
  then show ?thesis using sameShape_Some [of snd es qs] FieldMapObject by (auto simp: map2_again)
next
  case (PairsObject es)
  assume "sameShape (pointers ob) qs"
  then show ?thesis using pairs_again [of es qs] PairsObject by simp
qed (simp_all add: id_shape cell_shape)

subsection \<open>The value of an object\<close>

text \<open>
  What an object stands for, apart from addresses and flags: the object without its pointers, and what the
  pointers lead to. There is such a tree when everything the pointers reach exists and is not cyclic.
\<close>

datatype obj_tree = Tree obj "obj_tree option list"

definition skeleton :: "obj \<Rightarrow> obj" where
  "skeleton ob = withPointers ob (map (map_option (\<lambda>_. 0)) (pointers ob))"

inductive represents :: "store \<Rightarrow> addr \<Rightarrow> obj_tree \<Rightarrow> bool" for st where
  node: "a < length st \<Longrightarrow> st ! a = Some ob \<Longrightarrow> list_all2 (rel_option (represents st)) (pointers ob) ts \<Longrightarrow>
    represents st a (Tree (skeleton ob) ts)"

lemma sameShape_map: "sameShape ps qs \<Longrightarrow> map (map_option (\<lambda>_. c)) qs = map (map_option (\<lambda>_. c)) ps"
proof (induction ps arbitrary: qs)
  case (Cons p ps)
  then show ?case by (cases p) fastforce+
qed simp

lemma skeleton_with: "sameShape (pointers ob) qs \<Longrightarrow> skeleton (withPointers ob qs) = skeleton ob"
  unfolding skeleton_def by (subst pointers_with, assumption, subst with_again, assumption, subst sameShape_map) simp_all

text \<open>
  A block of new objects stands on its own when, whatever the rest of the store is, it represents a tree and
  deleting its root deletes exactly the block.
\<close>

definition standalone :: "nat \<Rightarrow> obj list \<Rightarrow> addr option list \<Rightarrow> obj_tree option list \<Rightarrow> bool" where
  "standalone n new ps ts \<longleftrightarrow>
    (\<forall>pre suf. length pre = n \<longrightarrow>
      list_all2 (rel_option (represents (pre @ map Some new @ suf))) ps ts \<and>
      (\<forall>rest. deleteAll (ps @ rest) (pre @ map Some new @ suf) =
         deleteAll rest (pre @ replicate (length new) None @ suf)))"

lemma standalone_Nil [simp]: "standalone n [] [] []"
  by (simp add: standalone_def)

lemma standalone_None: "standalone n new ps ts \<Longrightarrow> standalone n new (None # ps) (None # ts)"
  by (simp add: standalone_def)

lemma standalone_Cons:
  assumes "standalone n new [p] [t]" "standalone (n + length new) new' ps ts"
  shows "standalone n (new @ new') (p # ps) (t # ts)"
  unfolding standalone_def
proof (intro allI impI conjI)
  fix pre suf :: store
  assume n: "length pre = n"
  have one: "rel_option (represents (pre @ map Some new @ map Some new' @ suf)) p t"
    "deleteAll (p # rest) (pre @ map Some new @ map Some new' @ suf) =
      deleteAll rest (pre @ replicate (length new) None @ map Some new' @ suf)" for rest
    using assms(1) n unfolding standalone_def by auto
  have others: "list_all2 (rel_option (represents ((pre @ map Some new) @ map Some new' @ suf))) ps ts"
    using assms(2) n unfolding standalone_def by (metis length_append length_map)
  have del: "deleteAll (ps @ rest) ((pre @ replicate (length new) None) @ map Some new' @ suf) =
      deleteAll rest ((pre @ replicate (length new) None) @ replicate (length new') None @ suf)" for rest
    using assms(2) n unfolding standalone_def by (metis length_append length_replicate)
  show "list_all2 (rel_option (represents (pre @ map Some (new @ new') @ suf))) (p # ps) (t # ts)"
    using one(1) others by simp
  show "deleteAll ((p # ps) @ rest) (pre @ map Some (new @ new') @ suf) =
      deleteAll rest (pre @ replicate (length (new @ new')) None @ suf)" for rest
    using one(2) [of "ps @ rest"] del [of rest] by (simp add: replicate_add)
qed

lemma standalone_object:
  assumes "standalone n new qs ts" "sameShape (pointers ob) qs"
  shows "standalone n (new @ [withPointers ob qs]) [Some (n + length new)] [Some (Tree (skeleton ob) ts)]"
  unfolding standalone_def
proof (intro allI impI conjI)
  fix pre suf :: store
  assume n: "length pre = n"
  let ?ob = "withPointers ob qs"
  let ?st = "pre @ map Some (new @ [?ob]) @ suf"
  have at: "n + length new < length ?st" "?st ! (n + length new) = Some ?ob"
    using n by (simp_all add: nth_append)
  have "list_all2 (rel_option (represents (pre @ map Some new @ Some ?ob # suf))) qs ts"
    using assms(1) n unfolding standalone_def by simp
  then have "represents ?st (n + length new) (Tree (skeleton ?ob) ts)"
    using represents.node [of "n + length new" ?st ?ob ts] at pointers_with [OF assms(2)] by simp
  then show "list_all2 (rel_option (represents ?st)) [Some (n + length new)] [Some (Tree (skeleton ob) ts)]"
    by (simp add: skeleton_with [OF assms(2)])
  have "?st[n + length new := None] = pre @ map Some new @ None # suf"
    using n by (simp add: list_update_append)
  then have "deleteAll (Some (n + length new) # rest) ?st = deleteAll (qs @ rest) (pre @ map Some new @ None # suf)" for rest
    using at owned_with [OF assms(2)] by simp
  moreover have "deleteAll (qs @ rest) (pre @ map Some new @ None # suf) =
      deleteAll rest (pre @ replicate (length new) None @ None # suf)" for rest
    using assms(1) n unfolding standalone_def by simp
  ultimately show "deleteAll ([Some (n + length new)] @ rest) ?st =
      deleteAll rest (pre @ replicate (length (new @ [?ob])) None @ suf)" for rest
    by (simp add: replicate_append_same [symmetric])
qed

text \<open>Copying in any extension of the store adds such a block.\<close>

definition copiesTo :: "store \<Rightarrow> addr \<Rightarrow> obj_tree \<Rightarrow> bool" where
  "copiesTo st a t \<longleftrightarrow>
    (\<forall>ext. \<exists>b new. copyAt a (st @ ext) = Some (Inr b, st @ ext @ map Some new) \<and>
       standalone (length (st @ ext)) new [Some b] [Some t])"

lemma copyPtrs_ok:
  "list_all2 (rel_option (copiesTo st)) ps ts \<Longrightarrow>
   \<exists>qs new. copyPtrs copyAt ps (st @ ext) = Some (Inr qs, st @ ext @ map Some new) \<and> sameShape ps qs \<and>
     standalone (length (st @ ext)) new qs ts"
proof (induction arbitrary: ext rule: list_all2_induct)
  case Nil
  show ?case by (intro exI [of _ "[]"]) simp
next
  case (Cons p ps t ts)
  show ?case
  proof (cases p)
    case None
    then have t: "t = None" using Cons(1) by (cases t) simp_all
    from Cons.IH [of ext] obtain qs new where "copyPtrs copyAt ps (st @ ext) = Some (Inr qs, st @ ext @ map Some new)"
      "sameShape ps qs" "standalone (length (st @ ext)) new qs ts" by blast
    then show ?thesis
      using None t by (intro exI [of _ "None # qs"] exI [of _ new]) (simp add: bindP_def standalone_None)
  next
    case (Some a)
    then obtain u where t: "t = Some u" "copiesTo st a u" using Cons(1) by (cases t) simp_all
    then obtain b new where b: "copyAt a (st @ ext) = Some (Inr b, st @ ext @ map Some new)"
      "standalone (length (st @ ext)) new [Some b] [Some u]"
      unfolding copiesTo_def by blast
    from Cons.IH [of "ext @ map Some new"] obtain qs new' where
      qs: "copyPtrs copyAt ps (st @ ext @ map Some new) = Some (Inr qs, st @ ext @ map Some (new @ new'))"
      "sameShape ps qs" "standalone (length (st @ ext) + length new) new' qs ts"
      by (auto simp: add.assoc)
    then show ?thesis
      using Some t b standalone_Cons [OF b(2) qs(3)]
      by (intro exI [of _ "Some b # qs"] exI [of _ "new @ new'"]) (simp add: bindP_def)
  qed
qed

lemma copyAt_ok: "represents st a t \<Longrightarrow> copiesTo st a t"
proof (induction rule: represents.induct)
  case (node a ob ts)
  have "list_all2 (rel_option (copiesTo st)) (pointers ob) ts"
    using node(3) by (auto elim!: list.rel_mono_strong option.rel_mono_strong)
  from copyPtrs_ok [OF this] show ?case
    unfolding copiesTo_def
  proof (intro allI)
    fix ext
    assume "\<And>ext. \<exists>qs new. copyPtrs copyAt (pointers ob) (st @ ext) = Some (Inr qs, st @ ext @ map Some new) \<and>
      sameShape (pointers ob) qs \<and> standalone (length (st @ ext)) new qs ts"
    then obtain qs new where qs: "copyPtrs copyAt (pointers ob) (st @ ext) = Some (Inr qs, st @ ext @ map Some new)"
      "sameShape (pointers ob) qs" "standalone (length (st @ ext)) new qs ts" by blast
    have "loadP a (st @ ext) = Some (Inr ob, st @ ext)"
      using node(1,2) by (simp add: loadP_def nth_append)
    then have "copyAt a (st @ ext) =
        Some (Inr (length (st @ ext) + length new), st @ ext @ map Some (new @ [withPointers ob qs]))"
      using qs(1) by (subst copyAt.simps) (simp add: copyStep_def copyObject_ptrs bindP_def allocP_def)
    then show "\<exists>b new. copyAt a (st @ ext) = Some (Inr b, st @ ext @ map Some new) \<and>
        standalone (length (st @ ext)) new [Some b] [Some (Tree (skeleton ob) ts)]"
      using standalone_object [OF qs(3,2)] by blast
  qed
qed


subsection \<open>Copies are faithful and separate\<close>

text \<open>
  C8. Copying an object that represents a value returns, leaves every object as it is, and gives an object that
  represents the same value; it goes on to do so when the objects that were there before are changed or
  deleted, so the copy shares nothing with the original.
\<close>

theorem copy_refines:
  assumes "represents st a t"
  shows "\<exists>b new. copyAt a st = Some (Inr b, st @ map Some new) \<and>
    (\<forall>old. length old = length st \<longrightarrow> represents (old @ map Some new) b t)"
proof -
  obtain b new where b: "copyAt a (st @ []) = Some (Inr b, st @ [] @ map Some new)"
    "standalone (length (st @ [])) new [Some b] [Some t]"
    using copyAt_ok [OF assms] unfolding copiesTo_def by blast
  have "represents (old @ map Some new) b t" if "length old = length st" for old
    using b(2) that unfolding standalone_def by (metis append_Nil2 list.rel_inject(2) option.rel_inject(2))
  then show ?thesis using b(1) by auto
qed

text \<open>
  C9. Deleting a copy never deletes anything twice: it deletes every object that copying has created, and no
  other one.
\<close>

theorem copy_deleted:
  assumes "represents st a t" "copyAt a st = Some (Inr b, st')"
  shows "\<exists>n. length st' = length st + n \<and> deleteAll [Some b] st' = (Inr (), st @ replicate n None)"
proof -
  obtain b' new where b: "copyAt a (st @ []) = Some (Inr b', st @ [] @ map Some new)"
    "standalone (length (st @ [])) new [Some b'] [Some t]"
    using copyAt_ok [OF assms(1)] unfolding copiesTo_def by blast
  have "deleteAll ([Some b'] @ []) (st @ map Some new @ []) = deleteAll [] (st @ replicate (length new) None @ [])"
    using b(2) unfolding standalone_def by (metis append_Nil2)
  then show ?thesis using b(1) assms(2) by auto
qed

subsection \<open>Owned objects\<close>

text \<open>
  The objects that deleting an object deletes, when it and everything it owns is deleted once. An object
  that is not owned may lie anywhere.
\<close>

inductive owns :: "store \<Rightarrow> addr option list \<Rightarrow> addr set \<Rightarrow> bool" for st where
  owns_Nil: "owns st [] {}"
| owns_None: "owns st ps S \<Longrightarrow> owns st (None # ps) S"
| owns_Some: "a < length st \<Longrightarrow> st ! a = Some ob \<Longrightarrow> owns st (ownedBy ob) S \<Longrightarrow> a \<notin> S \<Longrightarrow>
    owns st ps T \<Longrightarrow> insert a S \<inter> T = {} \<Longrightarrow> owns st (Some a # ps) (insert a S \<union> T)"

inductive_cases owns_NilE: "owns st [] S"
inductive_cases owns_NoneE: "owns st (None # ps) S"
inductive_cases owns_SomeE: "owns st (Some a # ps) S"

lemma owns_None_iff [simp]: "owns st (None # ps) S \<longleftrightarrow> owns st ps S"
  by (auto intro: owns_None elim: owns_NoneE)

definition agreeOn :: "addr set \<Rightarrow> store \<Rightarrow> store \<Rightarrow> bool" where
  "agreeOn S st st' \<longleftrightarrow> length st' = length st \<and> (\<forall>a\<in>S. st' ! a = st ! a)"

definition clearAll :: "addr set \<Rightarrow> store \<Rightarrow> store" where
  "clearAll S st = map (\<lambda>a. if a \<in> S then None else st ! a) [0..<length st]"

lemma clearAll_simps [simp]:
  "length (clearAll S st) = length st"
  "a < length st \<Longrightarrow> clearAll S st ! a = (if a \<in> S then None else st ! a)"
  by (simp_all add: clearAll_def)

lemma clearAll_empty [simp]: "clearAll {} st = st"
  by (rule nth_equalityI) simp_all

lemma clearAll_again: "clearAll T (clearAll S st) = clearAll (S \<union> T) st"
  by (rule nth_equalityI) auto

lemma clearAll_insert: "a < length st \<Longrightarrow> clearAll S (st[a := None]) = clearAll (insert a S) st"
  by (rule nth_equalityI) auto

lemma owns_below: "owns st ps S \<Longrightarrow> a \<in> S \<Longrightarrow> a < length st"
  by (induction arbitrary: a rule: owns.induct) auto

text \<open>Deleting owned objects ends well and deletes just them, also when other objects have changed.\<close>

lemma delete_owned: "owns st ps S \<Longrightarrow> agreeOn S st st' \<Longrightarrow> deleteAll (ps @ rest) st' = deleteAll rest (clearAll S st')"
proof (induction arbitrary: st' rest rule: owns.induct)
  case (owns_Some a ob S ps T)
  have a: "a < length st'" "st' ! a = Some ob"
    using owns_Some by (auto simp: agreeOn_def)
  have "agreeOn S st (st'[a := None])" "agreeOn T st (clearAll (insert a S) st')"
    using owns_Some owns_below by (auto simp: agreeOn_def nth_list_update)
  then show ?case
    using a owns_Some.IH by (simp add: clearAll_insert clearAll_again)
qed simp_all

lemma owns_agree: "owns st ps S \<Longrightarrow> agreeOn S st st' \<Longrightarrow> owns st' ps S"
proof (induction rule: owns.induct)
  case (owns_Some a ob S ps T)
  then show ?case by (intro owns.owns_Some [where ob = ob]) (auto simp: agreeOn_def)
qed (auto intro: owns.intros)

lemma owns_append:
  "owns st (ps @ qs) S \<longleftrightarrow> (\<exists>P Q. owns st ps P \<and> owns st qs Q \<and> P \<inter> Q = {} \<and> S = P \<union> Q)"
proof (induction ps arbitrary: S)
  case Nil
  show ?case by (auto intro: owns.intros elim: owns_NilE)
next
  case (Cons p ps)
  show ?case
  proof (cases p)
    case None
    then show ?thesis by (simp add: Cons)
  next
    case (Some a)
    show ?thesis
    proof (intro iffI; (elim exE conjE)?)
      assume "owns st ((p # ps) @ qs) S"
      then obtain ob A T where t: "a < length st" "st ! a = Some ob" "owns st (ownedBy ob) A" "a \<notin> A"
        "owns st (ps @ qs) T" "insert a A \<inter> T = {}" "S = insert a A \<union> T"
        using Some by (auto elim: owns_SomeE)
      then obtain P Q where "owns st ps P" "owns st qs Q" "P \<inter> Q = {}" "T = P \<union> Q" using Cons by blast
      then show "\<exists>P Q. owns st (p # ps) P \<and> owns st qs Q \<and> P \<inter> Q = {} \<and> S = P \<union> Q"
        using t Some owns_Some [OF t(1-4), of ps P]
        by (intro exI [of _ "insert a A \<union> P"] exI [of _ Q]) auto
    next
      fix P Q
      assume pq: "owns st (p # ps) P" "owns st qs Q" "P \<inter> Q = {}" "S = P \<union> Q"
      then obtain ob A T where t: "a < length st" "st ! a = Some ob" "owns st (ownedBy ob) A" "a \<notin> A"
        "owns st ps T" "insert a A \<inter> T = {}" "P = insert a A \<union> T"
        using Some by (auto elim: owns_SomeE)
      then have "owns st (ps @ qs) (T \<union> Q)" using Cons pq by blast
      from owns_Some [OF t(1-4) this] show "owns st ((p # ps) @ qs) S"
        using t pq Some by (simp add: Un_assoc) blast
    qed
  qed
qed

text \<open>
  Replacing one owned pointer of an object: the old value is deleted, and the object owns the rest and the
  new value.
\<close>

lemma replace_owned:
  assumes own: "owns st [Some a] S" and ob: "st ! a = Some ob" "ownedBy ob = ps @ p # qs"
    and new: "owns st [v] V" "V \<inter> S = {}" and ob': "ownedBy ob' = ps @ v # qs"
  shows "\<exists>P. P \<subseteq> S - {a} \<and> deleteAll [p] st = (Inr (), clearAll P st) \<and> a < length st \<and>
    owns ((clearAll P st)[a := Some ob']) [Some a] (S - P \<union> V)"
proof -
  obtain A where A: "a < length st" "owns st (ownedBy ob) A" "a \<notin> A" "S = insert a A"
    using own ob(1) by (auto elim!: owns_SomeE owns_NilE)
  then have "owns st (ps @ [p] @ qs) A" using ob(2) by simp
  then obtain L P R where l: "owns st ps L" "owns st [p] P" "owns st qs R" "A = L \<union> P \<union> R"
    "L \<inter> P = {}" "L \<inter> R = {}" "P \<inter> R = {}"
    unfolding owns_append by blast
  let ?st = "(clearAll P st)[a := Some ob']"
  have agree: "agreeOn X st ?st" if "X \<inter> P = {}" "a \<notin> X" "X \<subseteq> L \<union> R \<union> V" for X
  proof -
    have "x < length st" if "x \<in> X" for x
      using that \<open>X \<subseteq> L \<union> R \<union> V\<close> owns_below l(1,3) new(1) by blast
    moreover have "x \<noteq> a" "x \<notin> P" if "x \<in> X" for x using that \<open>X \<inter> P = {}\<close> \<open>a \<notin> X\<close> by auto
    ultimately show ?thesis using A(1) by (fastforce simp: agreeOn_def nth_list_update)
  qed
  have disj: "L \<inter> V = {}" "P \<inter> V = {}" "R \<inter> V = {}" "a \<notin> V" using new(2) A(4) l(4) by auto
  have "owns ?st ps L" by (rule owns_agree [OF l(1) agree]) (use l A in auto)
  moreover have "owns ?st [v] V" by (rule owns_agree [OF new(1) agree]) (use disj in auto)
  moreover have "owns ?st qs R" by (rule owns_agree [OF l(3) agree]) (use l A in auto)
  ultimately have "owns ?st (ps @ [v] @ qs) (L \<union> (V \<union> R))"
    unfolding owns_append using disj l by blast
  moreover have "S - P \<union> V = insert a (L \<union> (V \<union> R)) \<union> {}" using A l by auto
  moreover have "a \<notin> L \<union> (V \<union> R)" using A(3) l(4) disj by auto
  ultimately have "owns ?st [Some a] (S - P \<union> V)"
    using A(1) ob' by (simp only:) (rule owns_Some [where ob = ob'], simp_all add: owns_Nil)
  moreover have "agreeOn P st st" by (simp add: agreeOn_def)
  then have "deleteAll [p] st = (Inr (), clearAll P st)" using delete_owned [OF l(2), of st "[]"] by simp
  ultimately show ?thesis using A l(4) by blast
qed

text \<open>
  C38. Setting the data of a node that owns its values deletes the old data and nothing else, and the node then
  owns the new data, if that does not overlap with what the node owned.
\<close>

theorem set_data_owned:
  assumes "owns st [Some a] S" "st ! a = Some (NodeDataObject d)" "ndAttached d"
    and "owns st [v] V" "V \<inter> S = {}"
  shows "\<exists>P st'. setNodeDataData a v st = Some (Inr (), st') \<and> P \<subseteq> S - {a} \<and>
    st' = (clearAll P st)[a := Some (NodeDataObject (d\<lparr>ndData := v\<rparr>))] \<and> owns st' [Some a] (S - P \<union> V)"
proof -
  have own: "ownedBy (NodeDataObject d) = [Some (ndNodeId d)] @ ndData d # [ndException d]"
    "ownedBy (NodeDataObject (d\<lparr>ndData := v\<rparr>)) = [Some (ndNodeId d)] @ v # [ndException d]"
    using assms(3) by (simp_all add: ownedNodeDataObject_def)
  obtain P where P: "P \<subseteq> S - {a}" "deleteAll [ndData d] st = (Inr (), clearAll P st)" "a < length st"
    "owns ((clearAll P st)[a := Some (NodeDataObject (d\<lparr>ndData := v\<rparr>))]) [Some a] (S - P \<union> V)"
    using replace_owned [OF assms(1,2) own(1) assms(4,5) own(2)] by blast
  have "clearAll P st ! a = Some (NodeDataObject d)" using P(1,3) assms(2) by auto
  then have "setNodeDataData a v st =
      Some (Inr (), (clearAll P st)[a := Some (NodeDataObject (d\<lparr>ndData := v\<rparr>))])"
    using assms(2,3) P(2,3)
    by (simp add: setNodeDataData_def loadAs_def loadP_def deleteIf_def storeAt_def bindP_def)
  then show ?thesis using P(1,4) by blast
qed

text \<open>Setting the value that is there already leaves a pointer to a deleted object, which is then deleted again.\<close>

lemma set_data_same:
  assumes "owns st [Some a] S" "st ! a = Some (NodeDataObject d)" "ndAttached d" "ndData d = Some b"
  shows "\<exists>st'. setNodeDataData a (Some b) st = Some (Inr (), st') \<and>
    fst (deleteAll [Some a] st') = Inl UndefinedBehaviour"
proof -
  obtain A where A: "a < length st" "owns st [Some (ndNodeId d), Some b, ndException d] A" "a \<notin> A"
    using assms by (auto simp: ownedNodeDataObject_def elim!: owns_SomeE owns_NilE)
  then obtain L T where l: "owns st [Some (ndNodeId d)] L" "owns st [Some b, ndException d] T" "L \<inter> T = {}" "A = L \<union> T"
    using owns_append [of st "[Some (ndNodeId d)]" "[Some b, ndException d]" A] by auto
  then obtain P R where p: "owns st [Some b] P" "owns st [ndException d] R" "P \<inter> R = {}" "T = P \<union> R"
    using owns_append [of st "[Some b]" "[ndException d]" T] by auto
  have b: "b \<in> P" "b < length st" using p(1) by (auto elim!: owns_SomeE)
  define st' where "st' = (clearAll P st)[a := Some (NodeDataObject (d\<lparr>ndData := Some b\<rparr>))]"
  have "agreeOn P st st" by (simp add: agreeOn_def)
  then have del: "deleteAll [Some b] st = (Inr (), clearAll P st)" using delete_owned [OF p(1), of st "[]"] by simp
  have a: "a \<notin> P" "a \<notin> L" "L \<inter> P = {}" using A(3) l p by auto
  then have set': "setNodeDataData a (Some b) st = Some (Inr (), st')"
    using assms(2-4) A(1) del
    by (simp add: setNodeDataData_def loadAs_def loadP_def deleteIf_def storeAt_def bindP_def st'_def)
  have "agreeOn L st (st'[a := None])"
    using a A(1) owns_below [OF l(1)] by (fastforce simp: agreeOn_def st'_def nth_list_update)
  from delete_owned [OF l(1) this]
  have "deleteAll (Some (ndNodeId d) # rest) (st'[a := None]) = deleteAll rest (clearAll L (st'[a := None]))" for rest
    by simp
  moreover have "clearAll L (st'[a := None]) ! b = None"
    using b a A(1) by (auto simp: st'_def nth_list_update)
  moreover have "a < length st'" "st' ! a = Some (NodeDataObject (d\<lparr>ndData := Some b\<rparr>))"
    using A(1) by (simp_all add: st'_def)
  ultimately have "fst (deleteAll [Some a] st') = Inl UndefinedBehaviour"
    using assms(3) b(2) by (simp add: ownedNodeDataObject_def st'_def)
  then show ?thesis using set' by blast
qed

subsection \<open>Example\<close>

text \<open>
  A structure that owns nothing: both fields are the same scalar with the string \<open>x\<close>. The data of the node
  6 is the scalar, which it owns together with its node id.
\<close>

definition exampleStore :: store where
  "exampleStore = map Some
    [StringObject ''id'',
     IoNodeIdObject (newIoNodeIdStringObject 4 0 True),
     StringObject ''x'',
     IoScalarObject \<lparr>isCell = CellString (Some 2), isAttached = True\<rparr>,
     FieldMapObject [(''f'', 3), (''g'', 3)],
     IoStructureObject (newIoStructureObject 1 4 False),
     NodeDataObject (newNodeDataObject 1 (Some 3) True),
     IoScalarObject newIoScalarObject]"

lemma representsI:
  "a < length st \<Longrightarrow> st ! a = Some ob \<Longrightarrow> list_all2 (rel_option (represents st)) (pointers ob) ts \<Longrightarrow> sk = skeleton ob \<Longrightarrow>
   represents st a (Tree sk ts)"
  by (simp add: represents.node)

definition exampleTree :: obj_tree where
  "exampleTree =
    (let leaf = (\<lambda>a. Some (Tree (skeleton (the (exampleStore ! a))) []));
         above = (\<lambda>a ts. Some (Tree (skeleton (the (exampleStore ! a))) ts));
         scalar = above 3 [leaf 2]
     in Tree (skeleton (the (exampleStore ! 5))) [above 1 [leaf 0], above 4 [scalar, scalar]])"

lemmas example_objects = exampleStore_def newIoNodeIdStringObject_def newIoStructureObject_def newNodeDataObject_def
  newIoScalarObject_def ownedId_def ownedIoScalarObject_def ownedIoNodeIdObject_def ownedIoStructureObject_def
  ownedNodeDataObject_def

lemma example_represents: "represents exampleStore 5 exampleTree"
  unfolding exampleTree_def Let_def
  by (intro representsI list_all2_Cons [THEN iffD2] conjI; (simp add: example_objects)?;
      (intro representsI; simp add: example_objects)?)+

theorem copy_refines_witness: "\<exists>b new. copyAt 5 exampleStore = Some (Inr b, exampleStore @ map Some new)"
  using copy_refines [OF example_represents] by blast

lemma example_copy:
  "case copyAt 5 exampleStore of Some (Inr b, st) \<Rightarrow> length st = 16 \<and> fst (deleteAll [Some b] st) = Inr () | _ \<Rightarrow> False"
  by code_simp

theorem copy_deleted_witness:
  "\<exists>b st' n. copyAt 5 exampleStore = Some (Inr b, st') \<and> deleteAll [Some b] st' = (Inr (), exampleStore @ replicate n None)"
proof -
  obtain b new where c: "copyAt 5 exampleStore = Some (Inr b, exampleStore @ map Some new)"
    using copyAt_ok [OF example_represents] unfolding copiesTo_def by (metis append_Nil append_Nil2)
  from copy_deleted [OF example_represents this] c show ?thesis by blast
qed

lemma owns_one: "a < length st \<Longrightarrow> st ! a = Some ob \<Longrightarrow> owns st (ownedBy ob) S \<Longrightarrow> a \<notin> S \<Longrightarrow> owns st [Some a] (insert a S)"
  using owns_Some [of a st ob S "[]" "{}"] by (simp add: owns_Nil)

lemma example_owns: "owns exampleStore [Some 6] {6, 1, 0, 3, 2}" "owns exampleStore [Some 7] {7}"
proof -
  have leaf: "owns exampleStore [Some 0] {0}" "owns exampleStore [Some 2] {2}" "owns exampleStore [Some 7] {7}"
    using owns_one [of 0 exampleStore "StringObject ''id''" "{}"] owns_one [of 2 exampleStore "StringObject ''x''" "{}"]
      owns_one [of 7 exampleStore "IoScalarObject newIoScalarObject" "{}"]
    by (simp_all add: example_objects owns_Nil)
  have id': "owns exampleStore [Some 1] {1, 0}"
    using owns_one [of 1 exampleStore "IoNodeIdObject (newIoNodeIdStringObject 4 0 True)" "{0}"] leaf(1)
    by (simp add: example_objects)
  have scalar: "owns exampleStore [Some 3] {3, 2}"
    using owns_one [of 3 exampleStore "IoScalarObject \<lparr>isCell = CellString (Some 2), isAttached = True\<rparr>" "{2}"] leaf(2)
    by (simp add: example_objects)
  have "owns exampleStore ([Some 1] @ [Some 3, None]) ({1, 0} \<union> {3, 2})"
    unfolding owns_append using id' scalar owns_append [of exampleStore "[Some 3]" "[None]"]
    by (intro exI [of _ "{1, 0}"] exI [of _ "{3, 2}"]) (auto intro: owns_Nil)
  then have "owns exampleStore [Some 6] (insert 6 ({1, 0} \<union> {3, 2}))"
    by (intro owns_one [where ob = "NodeDataObject (newNodeDataObject 1 (Some 3) True)"]) (simp_all add: example_objects)
  then show "owns exampleStore [Some 6] {6, 1, 0, 3, 2}" by (simp add: insert_commute)
  show "owns exampleStore [Some 7] {7}" by (rule leaf(3))
qed

theorem set_data_owned_witness:
  "\<exists>P st'. setNodeDataData 6 (Some 7) exampleStore = Some (Inr (), st') \<and> owns st' [Some 6] ({6, 1, 0, 3, 2} - P \<union> {7})"
  using set_data_owned [OF example_owns(1), of "newNodeDataObject 1 (Some 3) True" "Some 7" "{7}"] example_owns(2)
  by (auto simp: exampleStore_def newNodeDataObject_def)

end
