(* ===== verification/Object_Conversion.thy ===== *)
theory Object_Conversion
  imports Object_Copies Converter_Bin2IO
begin

text \<open>
  Scope guards (\<open>common/ScopeGuard.h\<close>, \<open>common/VectorScopeGuard.h\<close>, \<open>common/MapScopeGuard.h\<close>) and the
  conversion of binary values as it allocates objects: \<open>convertBin2io\<close> of
  \<open>provider/binary/messages/ConverterBin2IO.cpp\<close> with its guards, containers and exceptions. The value that is
  converted is read through its getters, so it is a value of the model; the result is an object of the store.
\<close>

subsection \<open>Scope guards\<close>

text \<open>
  A guard holds a pointer until it is detached. Its destructor runs when the scope is left, by \<open>return\<close> or by
  an exception; the guards of containers delete the elements first.
\<close>

definition detachGuard :: "addr option \<Rightarrow> addr option \<times> addr option" where
  "detachGuard p = (p, None)"

definition destroyGuard :: "addr option \<Rightarrow> (store, unit) op" where
  "destroyGuard p = (\<lambda>st. Some (deleteAll [p] st))"

definition freeContainer :: "addr \<Rightarrow> (store, unit) op" where
  "freeContainer a = bindP (loadP a) (\<lambda>_. modifyP (\<lambda>st. st[a := None]))"

definition destroyVectorGuard :: "addr option \<Rightarrow> (store, unit) op" where
  "destroyVectorGuard p =
    (case p of
       None \<Rightarrow> liftP (Inr ())
     | Some a \<Rightarrow>
         bindP (loadAs (\<lambda>ob. case ob of VectorObject es \<Rightarrow> Some es | _ \<Rightarrow> None) a) (\<lambda>es.
         bindP (\<lambda>st. Some (deleteAll (map Some es) st)) (\<lambda>_. freeContainer a)))"

definition destroyMapGuard :: "addr option \<Rightarrow> (store, unit) op" where
  "destroyMapGuard p =
    (case p of
       None \<Rightarrow> liftP (Inr ())
     | Some a \<Rightarrow>
         bindP (loadAs (\<lambda>ob. case ob of FieldMapObject es \<Rightarrow> Some es | _ \<Rightarrow> None) a) (\<lambda>es.
         bindP (\<lambda>st. Some (deleteAll (map (\<lambda>e. Some (snd e)) es) st)) (\<lambda>_. freeContainer a)))"

text \<open>
  The scope of a guard: the body gives its result together with what the guard holds in the end; an
  exception leaves a guard that was not detached.
\<close>

definition withGuard :: "(addr option \<Rightarrow> (store, unit) op) \<Rightarrow> addr option \<Rightarrow> (store, 'a \<times> addr option) op \<Rightarrow> (store, 'a) op" where
  "withGuard destroy p body = (\<lambda>st.
    case body st of
      None \<Rightarrow> None
    | Some (Inr (x, q), st') \<Rightarrow> bindP (destroy q) (\<lambda>_. liftP (Inr x)) st'
    | Some (Inl e, st') \<Rightarrow>
        if e = UndefinedBehaviour then Some (Inl e, st') else bindP (destroy p) (\<lambda>_. liftP (Inl e)) st')"

lemma destroyed_guard [simp]:
  "destroyGuard None = liftP (Inr ())" "destroyVectorGuard None = liftP (Inr ())" "destroyMapGuard None = liftP (Inr ())"
  by (auto simp: destroyGuard_def destroyVectorGuard_def destroyMapGuard_def liftP_def)

lemma withGuard_return:
  "body st = Some (Inr (x, None), st') \<Longrightarrow> destroy None = liftP (Inr ()) \<Longrightarrow> withGuard destroy p body st = Some (Inr x, st')"
  by (simp add: withGuard_def)

lemma withGuard_throw:
  "body st = Some (Inl e, st') \<Longrightarrow> e \<noteq> UndefinedBehaviour \<Longrightarrow> destroy p st' = Some (Inr (), st'') \<Longrightarrow>
   withGuard destroy p body st = Some (Inl e, st'')"
  by (simp add: withGuard_def)

subsection \<open>Conversion of binary values to new objects\<close>

definition pushBack :: "addr \<Rightarrow> addr \<Rightarrow> (store, unit) op" where
  "pushBack this a =
    bindP (loadAs (\<lambda>ob. case ob of VectorObject es \<Rightarrow> Some es | _ \<Rightarrow> None) this) (\<lambda>es.
      storeAt this (VectorObject (es @ [a])))"

text \<open>The fields are visited in the order of their names, so a new field comes last.\<close>

definition putField :: "string \<Rightarrow> addr \<Rightarrow> addr \<Rightarrow> (store, unit) op" where
  "putField name this a =
    bindP (loadAs (\<lambda>ob. case ob of FieldMapObject es \<Rightarrow> Some es | _ \<Rightarrow> None) this) (\<lambda>es.
      storeAt this (FieldMapObject (es @ [(name, a)])))"

text \<open>A loop that converts the elements one by one and adds each to the container of the guard.\<close>

fun buildLoop ::
  "('x \<Rightarrow> (store, addr) op) \<Rightarrow> ('x \<Rightarrow> addr \<Rightarrow> (store, unit) op) \<Rightarrow> ('t \<Rightarrow> addr \<Rightarrow> (store, 't) op) \<Rightarrow> 't \<Rightarrow> 'x list \<Rightarrow> (store, 't) op"
where
  "buildLoop build put after acc [] = liftP (Inr acc)"
| "buildLoop build put after acc (x # xs) =
     bindP (build x) (\<lambda>a.
     bindP (after acc a) (\<lambda>acc'.
     bindP (put x a) (\<lambda>_. buildLoop build put after acc' xs)))"

lemma buildLoop_cong [fundef_cong]:
  "p = p' \<Longrightarrow> t = t' \<Longrightarrow> acc = acc' \<Longrightarrow> xs = xs' \<Longrightarrow> (\<And>x. x \<in> set xs' \<Longrightarrow> f x = g x) \<Longrightarrow>
   buildLoop f p t acc xs = buildLoop g p' t' acc' xs'"
proof (induction xs' arbitrary: xs acc acc')
  case (Cons x xs')
  then have "buildLoop f p t a xs' = buildLoop g p' t' a xs'" for a by simp
  then show ?case using Cons.prems by simp
qed simp

fun cellType :: "scalar_cell \<Rightarrow> int" where
  "cellType (CellBool _) = ioBOOL"
| "cellType (CellSChar _) = ioSCHAR"
| "cellType (CellChar _) = ioCHAR"
| "cellType (CellInt _) = ioINT"
| "cellType (CellUInt _) = ioUINT"
| "cellType (CellLong _) = ioLONG"
| "cellType (CellULong _) = ioULONG"
| "cellType (CellLLong _) = ioLLONG"
| "cellType (CellULLong _) = ioULLONG"
| "cellType (CellFloat _) = ioFLOAT"
| "cellType (CellDouble _) = ioDOUBLE"
| "cellType (CellString _) = ioSTRING"
| "cellType (CellByteString _) = ioBYTE_STRING"
| "cellType (CellLocalizedText _ _) = ioLOCALIZED_TEXT"

text \<open>The type of an array of arrays becomes that of an element that is a scalar.\<close>

definition typeAfterObject :: "int \<Rightarrow> obj \<Rightarrow> int" where
  "typeAfterObject arrayType ob =
    (case ob of IoScalarObject d \<Rightarrow> if arrayType = ioARRAY then cellType (isCell d) else arrayType | _ \<Rightarrow> arrayType)"

definition typeAfterElement :: "int \<Rightarrow> addr \<Rightarrow> (store, int) op" where
  "typeAfterElement arrayType a = bindP (loadP a) (\<lambda>ob. liftP (Inr (typeAfterObject arrayType ob)))"

fun setBin2ioScalar :: "addr \<Rightarrow> bin_scalar \<Rightarrow> (store, unit) op" where
  "setBin2ioScalar ret (BBoolean v) = setIoScalarBool ret v"
| "setBin2ioScalar ret (BByte v) = setIoScalarSChar ret v"
| "setBin2ioScalar ret (BChar v) = setIoScalarChar ret v"
| "setBin2ioScalar ret (BShort v) = setIoScalarInt ret v"
| "setBin2ioScalar ret (BInt v) = setIoScalarLong ret v"
| "setBin2ioScalar ret (BLong v) = setIoScalarLLong ret v"
| "setBin2ioScalar ret (BFloat v) = setIoScalarFloat ret v"
| "setBin2ioScalar ret (BDouble v) = setIoScalarDouble ret v"

definition buildScalar :: "bin_scalar \<Rightarrow> (store, addr) op" where
  "buildScalar s =
    bindP (allocP (IoScalarObject newIoScalarObject)) (\<lambda>ret. bindP (setBin2ioScalar ret s) (\<lambda>_. liftP (Inr ret)))"

definition buildNodeId :: "param_id \<Rightarrow> c_int \<Rightarrow> (store, addr) op" where
  "buildNodeId paramId dest =
    (case bin2ioNodeId paramId dest of
       NodeIdNumeric namespaceIndex i \<Rightarrow> allocP (IoNodeIdObject (newIoNodeIdNumericObject namespaceIndex i))
     | NodeIdString namespaceIndex s \<Rightarrow>
         bindP (allocP (StringObject s)) (\<lambda>p.
           allocP (IoNodeIdObject (newIoNodeIdStringObject namespaceIndex p True))))"

definition buildArray :: "(bin_variant \<Rightarrow> (store, addr) op) \<Rightarrow> int \<Rightarrow> bin_variant list \<Rightarrow> (store, addr) op" where
  "buildArray build t elements =
    (if t = binCHAR then
       bindP (liftP (traverseR binGetChar elements)) (\<lambda>str.
       bindP (allocP (IoScalarObject newIoScalarObject)) (\<lambda>s.
       bindP (allocP (StringObject (cstr str))) (\<lambda>p.
       bindP (setIoScalarString s (Some p) True) (\<lambda>_. liftP (Inr s)))))
     else if t = binBYTE then
       bindP (liftP (traverseR binGetByte elements)) (\<lambda>str.
       bindP (allocP (CharsObject str)) (\<lambda>p.
       bindP (allocP (IoScalarObject newIoScalarObject)) (\<lambda>s.
       bindP (setIoScalarByteString s (Some p) True) (\<lambda>_. liftP (Inr s)))))
     else
       (case bin2ioArrayType t of
          None \<Rightarrow> liftP (Inl ConversionException)
        | Some arrayType \<Rightarrow>
            bindP (allocP (VectorObject [])) (\<lambda>elems.
            withGuard destroyVectorGuard (Some elems)
              (bindP (buildLoop build (\<lambda>_. pushBack elems) typeAfterElement arrayType elements) (\<lambda>arrayType'.
                 case detachGuard (Some elems) of (p, g) \<Rightarrow>
                   bindP (allocP (IoArrayObject (newIoArrayObject (word_of_int arrayType') p True))) (\<lambda>ret.
                     liftP (Inr (ret, g))))))))"

definition buildStructure ::
  "(bin_variant \<Rightarrow> (store, addr) op) \<Rightarrow> c_int \<Rightarrow> param_id \<Rightarrow> (string \<times> bin_variant) list \<Rightarrow> (store, addr) op"
where
  "buildStructure build dest structId members =
    bindP (buildNodeId structId dest) (\<lambda>dataTypeId.
    withGuard destroyGuard (Some dataTypeId)
      (bindP (allocP (FieldMapObject [])) (\<lambda>fieldData.
       withGuard destroyMapGuard (Some fieldData)
         (bindP (buildLoop (\<lambda>e. build (snd e)) (\<lambda>e. putField (fst e) fieldData) (\<lambda>_ _. liftP (Inr ())) () members) (\<lambda>_.
            case (detachGuard (Some dataTypeId), detachGuard (Some fieldData)) of ((n, g), (m, h)) \<Rightarrow>
              bindP (allocP (IoStructureObject (newIoStructureObject (the n) (the m) True))) (\<lambda>ret.
                liftP (Inr ((ret, g), h))))))))"

lemma buildArray_cong [fundef_cong]:
  assumes "t = t'" "es = es'" "\<And>x. x \<in> set es' \<Longrightarrow> f x = g x"
  shows "buildArray f t es = buildArray g t' es'"
proof -
  have eq: "buildLoop f put after acc es' = buildLoop g put after acc es'" for put and after :: "int \<Rightarrow> addr \<Rightarrow> (store, int) op" and acc
    using assms(3) by (intro buildLoop_cong) simp_all
  show ?thesis unfolding assms(1,2) buildArray_def eq ..
qed

lemma buildStructure_cong [fundef_cong]:
  assumes "d = d'" "p = p'" "ms = ms'" "\<And>x. x \<in> snd ` set ms' \<Longrightarrow> f x = g x"
  shows "buildStructure f d p ms = buildStructure g d' p' ms'"
proof -
  have eq: "buildLoop (\<lambda>e. f (snd e)) put after acc ms' = buildLoop (\<lambda>e. g (snd e)) put after acc ms'"
    for put and after :: "unit \<Rightarrow> addr \<Rightarrow> (store, unit) op" and acc
    using assms(4) by (intro buildLoop_cong) simp_all
  show ?thesis unfolding assms(1-3) buildStructure_def eq ..
qed

fun buildBin2io :: "c_int \<Rightarrow> bin_variant \<Rightarrow> (store, addr) op" where
  "buildBin2io dest (BScalar s) = buildScalar s"
| "buildBin2io dest (BArray t elements) = buildArray (buildBin2io dest) t elements"
| "buildBin2io dest (BStruct structId members) = buildStructure (buildBin2io dest) dest structId members"

subsection \<open>The tree of a value\<close>

definition textTree :: "string \<Rightarrow> obj_tree" where
  "textTree s = Tree (StringObject s) []"

definition noAddr :: "'a option \<Rightarrow> addr option" where
  "noAddr p = map_option (\<lambda>_. 0) p"

definition cellTree :: "scalar_cell \<Rightarrow> obj_tree option list \<Rightarrow> obj_tree" where
  "cellTree cell ts = Tree (IoScalarObject \<lparr>isCell = cell, isAttached = True\<rparr>) ts"

fun ioScalarTree :: "io_scalar \<Rightarrow> obj_tree" where
  "ioScalarTree (IOBool v) = cellTree (CellBool v) []"
| "ioScalarTree (IOSChar v) = cellTree (CellSChar v) []"
| "ioScalarTree (IOChar v) = cellTree (CellChar v) []"
| "ioScalarTree (IOInt v) = cellTree (CellInt v) []"
| "ioScalarTree (IOUInt v) = cellTree (CellUInt v) []"
| "ioScalarTree (IOLong v) = cellTree (CellLong v) []"
| "ioScalarTree (IOULong v) = cellTree (CellULong v) []"
| "ioScalarTree (IOLLong v) = cellTree (CellLLong v) []"
| "ioScalarTree (IOULLong v) = cellTree (CellULLong v) []"
| "ioScalarTree (IOFloat v) = cellTree (CellFloat v) []"
| "ioScalarTree (IODouble v) = cellTree (CellDouble v) []"
| "ioScalarTree (IOString v) = cellTree (CellString (noAddr v)) [map_option textTree v]"
| "ioScalarTree (IOByteString v) = cellTree (CellByteString (noAddr v)) [map_option (\<lambda>b. Tree (CharsObject b) []) v]"
| "ioScalarTree (IOLocalizedText l t) =
     cellTree (CellLocalizedText (noAddr l) (noAddr t)) [map_option textTree l, map_option textTree t]"

fun ioNodeIdTree :: "io_node_id \<Rightarrow> obj_tree" where
  "ioNodeIdTree (NodeIdNumeric n i) = Tree (IoNodeIdObject \<lparr>niNamespaceIndex = n, niId = Inl i, niAttached = True\<rparr>) []"
| "ioNodeIdTree (NodeIdString n s) =
     Tree (IoNodeIdObject \<lparr>niNamespaceIndex = n, niId = Inr 0, niAttached = True\<rparr>) [Some (textTree s)]"

definition vectorTree :: "obj_tree list \<Rightarrow> obj_tree" where
  "vectorTree ts = Tree (VectorObject (replicate (length ts) 0)) (map Some ts)"

definition fieldMapTree :: "(string \<times> obj_tree) list \<Rightarrow> obj_tree" where
  "fieldMapTree fs = Tree (FieldMapObject (map (\<lambda>f. (fst f, 0)) fs)) (map (\<lambda>f. Some (snd f)) fs)"

definition ioNodeDataTree :: "io_node_id \<Rightarrow> obj_tree option \<Rightarrow> c_exception option \<Rightarrow> obj_tree" where
  "ioNodeDataTree n data ex =
    Tree (NodeDataObject \<lparr>ndNodeId = 0, ndData = noAddr data, ndException = noAddr ex, ndAttached = True\<rparr>)
      [Some (ioNodeIdTree n), data, map_option (\<lambda>e. Tree (ExceptionObject e) []) ex]"

text \<open>The objects that hold a value, apart from addresses and ownership.\<close>

fun ioTree :: "io_variant \<Rightarrow> obj_tree" where
  "ioTree (IOScalar s) = ioScalarTree s"
| "ioTree (IOArray t es) =
     Tree (IoArrayObject \<lparr>iaType = word_of_int t, iaElements = noAddr es, iaAttached = True\<rparr>)
       [map_option (\<lambda>xs. vectorTree (map ioTree xs)) es]"
| "ioTree (IONodeId n) = ioNodeIdTree n"
| "ioTree (IOStructure n fs) =
     Tree (IoStructureObject \<lparr>ioDataTypeId = 0, ioFieldData = 0, ioAttached = True\<rparr>)
       [Some (ioNodeIdTree n), Some (fieldMapTree (map (\<lambda>f. (fst f, ioTree (snd f))) fs))]"
| "ioTree (IONodeProperties h) = Tree (NodePropertiesObject h) []"
| "ioTree (IOEventData source msg severity fs) =
     Tree (OpcUaEventDataObject \<lparr>edSeverity = severity, edSourceNodeId = 0, edMessage = 0, edFieldData = 0, edAttached = True\<rparr>)
       [Some (ioNodeIdTree source), Some (textTree msg),
        Some (vectorTree (map (\<lambda>(n, d, e). ioNodeDataTree n (map_option ioTree d) e) fs))]"

subsection \<open>Blocks of new objects\<close>

lemma standalone_append:
  assumes "standalone n new ps ts" "standalone (n + length new) new' qs us"
  shows "standalone n (new @ new') (ps @ qs) (ts @ us)"
  unfolding standalone_def
proof (intro allI impI conjI)
  fix pre suf :: store
  assume n: "length pre = n"
  have one: "list_all2 (rel_option (represents (pre @ map Some new @ map Some new' @ suf))) ps ts"
    "deleteAll (ps @ rest) (pre @ map Some new @ map Some new' @ suf) =
      deleteAll rest (pre @ replicate (length new) None @ map Some new' @ suf)" for rest
    using assms(1) n unfolding standalone_def by auto
  have two: "list_all2 (rel_option (represents ((pre @ map Some new) @ map Some new' @ suf))) qs us"
    using assms(2) n unfolding standalone_def by (metis length_append length_map)
  have del: "deleteAll (qs @ rest) ((pre @ replicate (length new) None) @ map Some new' @ suf) =
      deleteAll rest ((pre @ replicate (length new) None) @ replicate (length new') None @ suf)" for rest
    using assms(2) n unfolding standalone_def by (metis length_append length_replicate)
  show "list_all2 (rel_option (represents (pre @ map Some (new @ new') @ suf))) (ps @ qs) (ts @ us)"
    using one(1) two by (simp add: list_all2_appendI)
  show "deleteAll ((ps @ qs) @ rest) (pre @ map Some (new @ new') @ suf) =
      deleteAll rest (pre @ replicate (length (new @ new')) None @ suf)" for rest
    using one(2) [of "qs @ rest"] del [of rest] by (simp add: replicate_add)
qed

text \<open>The object whose pointers lead to a block may come before it.\<close>

lemma standalone_front:
  assumes "standalone (Suc n) new qs ts" "pointers ob = qs" "ownedBy ob = qs"
  shows "standalone n (ob # new) [Some n] [Some (Tree (skeleton ob) ts)]"
  unfolding standalone_def
proof (intro allI impI conjI)
  fix pre suf :: store
  assume n: "length pre = n"
  let ?st = "pre @ map Some (ob # new) @ suf"
  have at: "n < length ?st" "?st ! n = Some ob" using n by (simp_all add: nth_append)
  have "list_all2 (rel_option (represents ((pre @ [Some ob]) @ map Some new @ suf))) qs ts"
    using assms(1) n unfolding standalone_def by (metis length_append_singleton)
  then have "represents ?st n (Tree (skeleton ob) ts)"
    using represents.node [of n ?st ob ts] at assms(2) by simp
  then show "list_all2 (rel_option (represents ?st)) [Some n] [Some (Tree (skeleton ob) ts)]" by simp
  have del: "deleteAll (qs @ rest) ((pre @ [None]) @ map Some new @ suf) =
      deleteAll rest ((pre @ [None]) @ replicate (length new) None @ suf)" for rest
    using assms(1) n unfolding standalone_def by (metis length_append_singleton)
  have upd: "?st[n := None] = (pre @ [None]) @ map Some new @ suf"
    using n by (simp add: list_update_append)
  show "deleteAll ([Some n] @ rest) ?st = deleteAll rest (pre @ replicate (length (ob # new)) None @ suf)" for rest
    using at assms(3) del [of rest] by (simp add: upd [simplified])
qed

text \<open>
  An operation builds a tree when it returns a new object that stands on its own for it, and when it has given
  back everything it allocated if it throws.
\<close>

definition builds :: "(store, addr) op \<Rightarrow> (cpp_error, obj_tree) res \<Rightarrow> bool" where
  "builds m r \<longleftrightarrow>
    (\<forall>st. case r of
       Inr t \<Rightarrow> \<exists>a new. m st = Some (Inr a, st @ map Some new) \<and> standalone (length st) new [Some a] [Some t]
     | Inl e \<Rightarrow> e = UndefinedBehaviour \<or> (\<exists>k. m st = Some (Inl e, st @ replicate k None)))"

lemma builds_Inr: "builds m (Inr t) \<Longrightarrow>
    \<exists>a new. m st = Some (Inr a, st @ map Some new) \<and> standalone (length st) new [Some a] [Some t]"
  by (simp add: builds_def)

lemma builds_Inl: "builds m (Inl e) \<Longrightarrow> e \<noteq> UndefinedBehaviour \<Longrightarrow> \<exists>k. m st = Some (Inl e, st @ replicate k None)"
  by (simp add: builds_def)

lemma standalone_represents:
  "standalone n new [Some a] [Some t] \<Longrightarrow> length pre = n \<Longrightarrow> represents (pre @ map Some new @ suf) a t"
  by (simp add: standalone_def)

text \<open>
  The interface of the two containers: what they point to, what adding an element does, and what the
  destructor of their guard does.
\<close>

locale container =
  fixes C :: "'e list \<Rightarrow> obj" and ptr :: "'e \<Rightarrow> addr" and entry :: "'x \<Rightarrow> addr \<Rightarrow> 'e"
    and put :: "'x \<Rightarrow> addr \<Rightarrow> addr \<Rightarrow> (store, unit) op" and destroy :: "addr option \<Rightarrow> (store, unit) op"
  assumes put_C: "a < length st \<Longrightarrow> st ! a = Some (C es) \<Longrightarrow>
      put x a b st = Some (Inr (), st[a := Some (C (es @ [entry x b]))])"
    and destroy_C: "a < length st \<Longrightarrow> st ! a = Some (C es) \<Longrightarrow>
      deleteAll (map (\<lambda>e. Some (ptr e)) es) st = (Inr (), st') \<Longrightarrow> a < length st' \<Longrightarrow> st' ! a = Some (C es) \<Longrightarrow>
      destroy (Some a) st = Some (Inr (), st'[a := None])"
    and ptr_entry: "ptr (entry x b) = b"
    and pointers_C: "pointers (C es) = map (\<lambda>e. Some (ptr e)) es"
    and owned_C: "ownedBy (C es) = map (\<lambda>e. Some (ptr e)) es"
begin

lemma container_done:
  "standalone (Suc n) new (map (\<lambda>e. Some (ptr e)) es) ts \<Longrightarrow>
   standalone n (C es # new) [Some n] [Some (Tree (skeleton (C es)) ts)]"
  using standalone_front pointers_C owned_C by metis

lemma container_destroyed:
  assumes "standalone (Suc (length st)) new (map (\<lambda>e. Some (ptr e)) es) ts"
  shows "destroy (Some (length st)) (st @ Some (C es) # map Some new @ suf) =
    Some (Inr (), st @ replicate (Suc (length new)) None @ suf)"
proof -
  have "deleteAll (map (\<lambda>e. Some (ptr e)) es @ []) ((st @ [Some (C es)]) @ map Some new @ suf) =
      deleteAll [] ((st @ [Some (C es)]) @ replicate (length new) None @ suf)"
    using assms unfolding standalone_def by (metis length_append_singleton)
  then show ?thesis
    by (subst destroy_C [where es = es and st' = "st @ Some (C es) # replicate (length new) None @ suf"]) (simp_all add: nth_append list_update_append)
qed

lemma loop_step:
  assumes "builds (build x) (Inr (tree w))"
    and after: "\<And>acc w a s. represents s a (tree w) \<Longrightarrow> after acc a s = Some (Inr (aft acc w), s)"
    and "standalone (Suc (length st)) new (map (\<lambda>e. Some (ptr e)) es) ts"
  shows "\<exists>a newx.
    (\<forall>acc xs. buildLoop build (\<lambda>x. put x (length st)) after acc (x # xs) (st @ Some (C es) # map Some new) =
      buildLoop build (\<lambda>x. put x (length st)) after (aft acc w) xs (st @ Some (C (es @ [entry x a])) # map Some (new @ newx))) \<and>
    standalone (Suc (length st)) (new @ newx) (map (\<lambda>e. Some (ptr e)) (es @ [entry x a])) (ts @ [Some (tree w)])"
proof -
  let ?S = "st @ Some (C es) # map Some new"
  from builds_Inr [OF assms(1), of ?S] obtain a newx where a: "build x ?S = Some (Inr a, ?S @ map Some newx)"
    "standalone (length ?S) newx [Some a] [Some (tree w)]" by blast
  have rep: "represents (?S @ map Some newx) a (tree w)"
    using standalone_represents [OF a(2) refl, of "[]"] by simp
  have "put x (length st) a (?S @ map Some newx) =
      Some (Inr (), (?S @ map Some newx)[length st := Some (C (es @ [entry x a]))])"
    by (rule put_C) (simp_all add: nth_append)
  then have put: "put x (length st) a (?S @ map Some newx) =
      Some (Inr (), st @ Some (C (es @ [entry x a])) # map Some (new @ newx))"
    by (simp add: list_update_append)
  have "standalone (Suc (length st) + length new) newx [Some a] [Some (tree w)]" using a(2) by simp
  from standalone_append [OF assms(3) this]
  have "standalone (Suc (length st)) (new @ newx) (map (\<lambda>e. Some (ptr e)) (es @ [entry x a])) (ts @ [Some (tree w)])"
    by (simp add: ptr_entry)
  then show ?thesis using a(1) after [OF rep] put by (intro exI [of _ a] exI [of _ newx]) simp
qed

lemma loop_returns:
  assumes "\<And>x. x \<in> set xs \<Longrightarrow> builds (build x) (mapR tree (f x))"
    and after: "\<And>acc w a s. represents s a (tree w) \<Longrightarrow> after acc a s = Some (Inr (aft acc w), s)"
    and "standalone (Suc (length st)) new (map (\<lambda>e. Some (ptr e)) es) ts" "traverseR f xs = Inr ws"
  shows "\<exists>as new'. length as = length xs \<and>
    buildLoop build (\<lambda>x. put x (length st)) after acc xs (st @ Some (C es) # map Some new) =
      Some (Inr (foldl aft acc ws), st @ Some (C (es @ map2 entry xs as)) # map Some (new @ new')) \<and>
    standalone (Suc (length st)) (new @ new') (map (\<lambda>e. Some (ptr e)) (es @ map2 entry xs as))
      (ts @ map (\<lambda>w. Some (tree w)) ws)"
  using assms(1,3,4)
proof (induction xs arbitrary: acc es new ts ws)
  case Nil
  then show ?case by (intro exI [of _ "[]"]) simp
next
  case (Cons x xs)
  obtain w ws' where w: "f x = Inr w" "traverseR f xs = Inr ws'" "ws = w # ws'"
    using Cons.prems(3) by (auto simp: bindR_eq_Inr)
  have "builds (build x) (Inr (tree w))" using Cons.prems(1) [of x] w(1) by simp
  from loop_step [where aft = aft and tree = tree and build = build and x = x and w = w and after = after, OF this after Cons.prems(2)] obtain a newx where
    one: "\<And>acc xs. buildLoop build (\<lambda>x. put x (length st)) after acc (x # xs) (st @ Some (C es) # map Some new) =
      buildLoop build (\<lambda>x. put x (length st)) after (aft acc w) xs (st @ Some (C (es @ [entry x a])) # map Some (new @ newx))"
    and sa: "standalone (Suc (length st)) (new @ newx) (map (\<lambda>e. Some (ptr e)) (es @ [entry x a])) (ts @ [Some (tree w)])"
    by blast
  have "\<And>x. x \<in> set xs \<Longrightarrow> builds (build x) (mapR tree (f x))" using Cons.prems(1) by simp
  from Cons.IH [OF this sa w(2), of "aft acc w"] obtain as new' where IH: "length as = length xs"
    "buildLoop build (\<lambda>x. put x (length st)) after (aft acc w) xs (st @ Some (C (es @ [entry x a])) # map Some (new @ newx)) =
      Some (Inr (foldl aft (aft acc w) ws'),
        st @ Some (C ((es @ [entry x a]) @ map2 entry xs as)) # map Some ((new @ newx) @ new'))"
    "standalone (Suc (length st)) ((new @ newx) @ new')
      (map (\<lambda>e. Some (ptr e)) ((es @ [entry x a]) @ map2 entry xs as)) ((ts @ [Some (tree w)]) @ map (\<lambda>w. Some (tree w)) ws')"
    by blast
  have "map2 entry (x # xs) (a # as) = entry x a # map2 entry xs as" by simp
  then show ?case using IH one w(3)
    by (intro exI [of _ "a # as"] exI [of _ "newx @ new'"]) simp
qed

lemma loop_throws:
  assumes "\<And>x. x \<in> set xs \<Longrightarrow> builds (build x) (mapR tree (f x))"
    and after: "\<And>acc w a s. represents s a (tree w) \<Longrightarrow> after acc a s = Some (Inr (aft acc w), s)"
    and "standalone (Suc (length st)) new (map (\<lambda>e. Some (ptr e)) es) ts" "traverseR f xs = Inl e"
    "e \<noteq> UndefinedBehaviour"
  shows "\<exists>es' new' ts' k.
    buildLoop build (\<lambda>x. put x (length st)) after acc xs (st @ Some (C es) # map Some new) =
      Some (Inl e, st @ Some (C es') # map Some new' @ replicate k None) \<and>
    standalone (Suc (length st)) new' (map (\<lambda>e. Some (ptr e)) es') ts'"
  using assms(1,3,4)
proof (induction xs arbitrary: acc es new ts)
  case (Cons x xs)
  let ?S = "st @ Some (C es) # map Some new"
  show ?case
  proof (cases "f x")
    case (Inl e')
    then have "builds (build x) (Inl e)" using Cons.prems(1) [of x] Cons.prems(3) by simp
    from builds_Inl [OF this assms(5), of ?S] obtain k where "build x ?S = Some (Inl e, ?S @ replicate k None)" by blast
    then have "buildLoop build (\<lambda>x. put x (length st)) after acc (x # xs) ?S =
        Some (Inl e, st @ Some (C es) # map Some new @ replicate k None)"
      by (simp add: bindP_def)
    then show ?thesis using Cons.prems(2) by blast
  next
    case (Inr w)
    then have rest: "traverseR f xs = Inl e" using Cons.prems(3) by (auto simp: bindR_eq_Inl)
    have "builds (build x) (Inr (tree w))" using Cons.prems(1) [of x] Inr by simp
    from loop_step [where aft = aft and tree = tree and build = build and x = x and w = w and after = after, OF this after Cons.prems(2)] obtain a newx where
      one: "\<And>acc xs. buildLoop build (\<lambda>x. put x (length st)) after acc (x # xs) ?S =
        buildLoop build (\<lambda>x. put x (length st)) after (aft acc w) xs (st @ Some (C (es @ [entry x a])) # map Some (new @ newx))"
      and sa: "standalone (Suc (length st)) (new @ newx) (map (\<lambda>e. Some (ptr e)) (es @ [entry x a])) (ts @ [Some (tree w)])"
      by blast
    have "\<And>x. x \<in> set xs \<Longrightarrow> builds (build x) (mapR tree (f x))" using Cons.prems(1) by simp
    from Cons.IH [OF this sa rest, of "aft acc w"] show ?thesis unfolding one .
  qed
qed simp

end

lemmas container_op_defs = pushBack_def putField_def destroyVectorGuard_def destroyMapGuard_def freeContainer_def
  loadAs_def loadP_def storeAt_def bindP_def

interpretation vec: container VectorObject "\<lambda>a. a" "\<lambda>_ a. a" "\<lambda>_. pushBack" destroyVectorGuard
  by unfold_locales (simp_all add: container_op_defs)

interpretation fld: container FieldMapObject snd "\<lambda>e b. (fst e, b)" "\<lambda>e. putField (fst e)" destroyMapGuard
  by unfold_locales (simp_all add: container_op_defs)

subsection \<open>Conversion builds the tree of the converted value\<close>

lemma standalone_leaf:
  "pointers ob = [] \<Longrightarrow> ownedBy ob = [] \<Longrightarrow> standalone n [ob] [Some n] [Some (Tree (skeleton ob) [])]"
  by (rule standalone_front) simp_all

lemma standalone_back:
  assumes "standalone n new (pointers ob) ts" "withPointers ob (pointers ob) = ob"
  shows "standalone n (new @ [ob]) [Some (n + length new)] [Some (Tree (skeleton ob) ts)]"
proof -
  have "sameShape (pointers ob) (pointers ob)" by (simp add: sameShape_def list_all2_refl)
  from standalone_object [OF assms(1) this] show ?thesis by (simp add: assms(2))
qed

lemmas object_defs = ownedIoScalarObject_def ownedIoNodeIdObject_def ownedIoArrayObject_def ownedIoStructureObject_def
  newIoScalarObject_def newIoNodeIdNumericObject_def newIoNodeIdStringObject_def newIoArrayObject_def
  newIoStructureObject_def ownedId_def withId_def withCell_def skeleton_def

lemma setCell_new:
  "a < length st \<Longrightarrow> st ! a = Some (IoScalarObject newIoScalarObject) \<Longrightarrow>
   setCell a cell attach st = Some (Inr (), st[a := Some (IoScalarObject \<lparr>isCell = cell, isAttached = attach False\<rparr>)])"
  by (simp add: setCell_def loadAs_def loadP_def storeAt_def bindP_def newIoScalarObject_def ownedIoScalarObject_def)

lemma setBin2ioScalar_cell:
  "\<exists>cell. (\<forall>a. setBin2ioScalar a s = setCell a cell id) \<and>
    pointers (IoScalarObject \<lparr>isCell = cell, isAttached = False\<rparr>) = [] \<and>
    Tree (skeleton (IoScalarObject \<lparr>isCell = cell, isAttached = False\<rparr>)) [] = ioScalarTree (bin2ioScalar s)"
  by (cases s) (force simp: object_defs cellTree_def setIoScalarBool_def setIoScalarSChar_def setIoScalarChar_def
      setIoScalarInt_def setIoScalarLong_def setIoScalarLLong_def setIoScalarFloat_def setIoScalarDouble_def)+

lemma buildsI:
  "(\<And>st. m st = Some (Inr (f (length st)), st @ map Some (new (length st)))) \<Longrightarrow>
   (\<And>n. standalone n (new n) [Some (f n)] [Some t]) \<Longrightarrow> builds m (Inr t)"
  unfolding builds_def by simp

lemma builds_scalar: "builds (buildScalar s) (Inr (ioScalarTree (bin2ioScalar s)))"
proof -
  obtain cell where cell: "\<And>a. setBin2ioScalar a s = setCell a cell id"
    "pointers (IoScalarObject \<lparr>isCell = cell, isAttached = False\<rparr>) = []"
    "Tree (skeleton (IoScalarObject \<lparr>isCell = cell, isAttached = False\<rparr>)) [] = ioScalarTree (bin2ioScalar s)"
    using setBin2ioScalar_cell by blast
  let ?ob = "IoScalarObject \<lparr>isCell = cell, isAttached = False\<rparr>"
  show ?thesis
  proof (rule buildsI [where f = "\<lambda>n. n" and new = "\<lambda>_. [?ob]"])
    show "buildScalar s st = Some (Inr (length st), st @ map Some [?ob])" for st
      using cell(1) by (simp add: buildScalar_def allocP_def setCell_new bindP_def)
    show "standalone n [?ob] [Some n] [Some (ioScalarTree (bin2ioScalar s))]" for n
      using standalone_leaf [OF cell(2)] cell(3) by (simp add: ownedIoScalarObject_def)
  qed
qed

lemma builds_nodeId: "builds (buildNodeId paramId dest) (Inr (ioNodeIdTree (bin2ioNodeId paramId dest)))"
proof (cases "bin2ioNodeId paramId dest")
  case (NodeIdNumeric n i)
  let ?ob = "IoNodeIdObject (newIoNodeIdNumericObject n i)"
  show ?thesis
    by (rule buildsI [where f = "\<lambda>n. n" and new = "\<lambda>_. [?ob]"])
      (use NodeIdNumeric standalone_leaf [of ?ob] in \<open>simp_all add: object_defs buildNodeId_def allocP_def\<close>)
next
  case (NodeIdString n s)
  let ?ob = "\<lambda>m. IoNodeIdObject (newIoNodeIdStringObject n m True)"
  show ?thesis
    by (rule buildsI [where f = "\<lambda>n. n + 1" and new = "\<lambda>m. [StringObject s] @ [?ob m]"])
      (use NodeIdString standalone_back [of m "[StringObject s]" "?ob m" "[Some (textTree s)]" for m]
        standalone_leaf [of "StringObject s"]
       in \<open>simp_all add: object_defs textTree_def buildNodeId_def allocP_def bindP_def\<close>)
qed

text \<open>The type of the array sees of an element what the value-level conversion sees.\<close>

lemma typeAfterObject_skeleton: "typeAfterObject t (skeleton ob) = typeAfterObject t ob"
proof (cases ob)
  case (IoScalarObject d)
  then show ?thesis by (cases "isCell d") (simp_all add: typeAfterObject_def skeleton_def withCell_def)
qed (simp_all add: typeAfterObject_def skeleton_def)

fun treeRoot :: "obj_tree \<Rightarrow> obj" where
  "treeRoot (Tree ob ts) = ob"

lemma typeAfterObject_tree: "typeAfterObject t (treeRoot (ioTree v)) = arrayTypeAfter t v"
proof (cases v)
  case (IOScalar s)
  then show ?thesis by (cases s) (simp_all add: typeAfterObject_def arrayTypeAfter_def cellTree_def)
next
  case (IONodeId n)
  then show ?thesis by (cases n) (simp_all add: typeAfterObject_def arrayTypeAfter_def)
qed (simp_all add: typeAfterObject_def arrayTypeAfter_def)

lemma typeAfterElement_tree:
  "represents st a (ioTree v) \<Longrightarrow> typeAfterElement t a st = Some (Inr (arrayTypeAfter t v), st)"
  by (erule represents.cases)
    (auto simp: typeAfterElement_def loadP_def bindP_def typeAfterObject_skeleton
      simp flip: typeAfterObject_tree)

lemma vectorTree_done:
  "length as = length ws \<Longrightarrow>
   Tree (skeleton (VectorObject as)) (map (\<lambda>w. Some (tree w)) ws) = vectorTree (map tree ws)"
  by (simp add: skeleton_def vectorTree_def comp_def map_replicate_const)

lemma fieldMapTree_done:
  assumes "map fst es = map fst ws"
  shows "Tree (skeleton (FieldMapObject es)) (map (\<lambda>w. Some (tree (snd w))) ws) =
    fieldMapTree (map (\<lambda>w. (fst w, tree (snd w))) ws)"
proof -
  have "map2 (\<lambda>e p. (fst e, the p)) es (map (map_option (\<lambda>_. 0)) (map (\<lambda>e. Some (snd e)) es)) =
      map (\<lambda>n. (n, 0 :: addr)) (map fst es)"
    by (induction es) simp_all
  then show ?thesis using assms by (simp add: skeleton_def fieldMapTree_def comp_def del: map_map) (simp add: comp_def)
qed

lemma map_fst_entries: "length as = length ms \<Longrightarrow> map fst (map2 (\<lambda>e b. (fst e, b)) ms as) = map fst ms"
  by (induction rule: list_induct2) simp_all

lemma binGet_error:
  "binGetChar x = Inl e \<Longrightarrow> e = UndefinedBehaviour"
  "binGetByte x = Inl e \<Longrightarrow> e = UndefinedBehaviour"
  by (cases x rule: binGetChar.cases; simp) (cases x rule: binGetByte.cases; simp)

lemma map2_second: "length as = length xs \<Longrightarrow> map2 (\<lambda>_ a. a) xs as = as"
  by (induction rule: list_induct2) simp_all

lemma builds_array:
  assumes "\<And>x. x \<in> set elements \<Longrightarrow> builds (build x) (mapR ioTree (convert x))"
  shows "builds (buildArray build t elements) (mapR ioTree (bin2ioArrayValue convert t elements))"
proof (cases "t = binCHAR \<or> t = binBYTE")
  case True
  show ?thesis
  proof (cases "t = binCHAR")
    case char: True
    show ?thesis
    proof (cases "traverseR binGetChar elements")
      case (Inl e)
      then have "e = UndefinedBehaviour"
        using traverseR_error_from [OF Inl] binGet_error(1) by blast
      then show ?thesis using char Inl by (simp add: builds_def)
    next
      case (Inr str)
      let ?ob = "\<lambda>n. IoScalarObject \<lparr>isCell = CellString (Some (Suc n)), isAttached = True\<rparr>"
      have "standalone n [?ob n, StringObject (cstr str)] [Some n] [Some (ioScalarTree (IOString (Some (cstr str))))]" for n
        using standalone_front [of n "[StringObject (cstr str)]" "[Some (Suc n)]" "[Some (textTree (cstr str))]" "?ob n"]
          standalone_leaf [of "StringObject (cstr str)" "Suc n"]
        by (simp add: object_defs cellTree_def noAddr_def textTree_def)
      then have "builds (buildArray build t elements) (Inr (ioScalarTree (IOString (Some (cstr str)))))"
        by (intro buildsI [where f = "\<lambda>n. n" and new = "\<lambda>n. [?ob n, StringObject (cstr str)]"])
          (simp_all add: buildArray_def char Inr allocP_def bindP_def setIoScalarString_def setCell_new nth_append)
      then show ?thesis using char Inr by simp
    qed
  next
    case byte: False
    then have t: "t = binBYTE" "binBYTE \<noteq> binCHAR" using True by auto
    show ?thesis
    proof (cases "traverseR binGetByte elements")
      case (Inl e)
      then have "e = UndefinedBehaviour"
        using traverseR_error_from [OF Inl] binGet_error(2) by blast
      then show ?thesis using byte t Inl by (simp add: builds_def)
    next
      case (Inr str)
      let ?ob = "\<lambda>n. IoScalarObject \<lparr>isCell = CellByteString (Some n), isAttached = True\<rparr>"
      have "standalone n [CharsObject str, ?ob n] [Some (Suc n)] [Some (ioScalarTree (IOByteString (Some str)))]" for n
        using standalone_back [of n "[CharsObject str]" "?ob n" "[Some (Tree (CharsObject str) [])]"]
          standalone_leaf [of "CharsObject str" n]
        by (simp add: object_defs cellTree_def noAddr_def)
      then have "builds (buildArray build t elements) (Inr (ioScalarTree (IOByteString (Some str))))"
        by (intro buildsI [where f = "\<lambda>n. Suc n" and new = "\<lambda>n. [CharsObject str, ?ob n]"])
          (simp_all add: buildArray_def byte t Inr allocP_def bindP_def setIoScalarByteString_def setCell_new nth_append)
      then show ?thesis using byte t Inr by simp
    qed
  qed
next
  case False
  then have arr: "buildArray build t elements =
      (case bin2ioArrayType t of
         None \<Rightarrow> liftP (Inl ConversionException)
       | Some arrayType \<Rightarrow>
           bindP (allocP (VectorObject [])) (\<lambda>elems.
           withGuard destroyVectorGuard (Some elems)
             (bindP (buildLoop build (\<lambda>_. pushBack elems) typeAfterElement arrayType elements) (\<lambda>arrayType'.
                bindP (allocP (IoArrayObject (newIoArrayObject (word_of_int arrayType') (Some elems) True))) (\<lambda>ret.
                  liftP (Inr (ret, None)))))))"
    by (auto simp: buildArray_def detachGuard_def split: option.split)
  show ?thesis
  proof (cases "bin2ioArrayType t")
    case None
    then have "buildArray build t elements st = Some (Inl ConversionException, st @ replicate 0 None)" for st
      by (simp add: arr)
    then show ?thesis using None False unfolding builds_def by (simp del: replicate_0)
  next
    case (Some arrayType)
    show ?thesis
    proof (cases "traverseR convert elements")
      case (Inl e)
      have "\<exists>k. buildArray build t elements st = Some (Inl e, st @ replicate k None)"
        if e: "e \<noteq> UndefinedBehaviour" for st
      proof -
        obtain es' new' ts' k where l:
          "buildLoop build (\<lambda>_. pushBack (length st)) typeAfterElement arrayType elements (st @ [Some (VectorObject [])]) =
            Some (Inl e, st @ Some (VectorObject es') # map Some new' @ replicate k None)"
          "standalone (Suc (length st)) new' (map (\<lambda>e. Some e) es') ts'"
          using vec.loop_throws [where f = convert and tree = ioTree and aft = arrayTypeAfter and es = "[]" and new = "[]"
              and ts = "[]" and st = st and acc = arrayType and after = typeAfterElement, OF assms typeAfterElement_tree _ Inl e]
          by (simp only: list.map append_Nil standalone_Nil) blast
        have "destroyVectorGuard (Some (length st)) (st @ Some (VectorObject es') # map Some new' @ replicate k None) =
            Some (Inr (), st @ replicate (Suc (length new')) None @ replicate k None)"
          by (rule vec.container_destroyed [OF l(2)])
        then have "buildArray build t elements st = Some (Inl e, st @ replicate (Suc (length new') + k) None)"
          using l(1) e Some by (simp add: arr allocP_def bindP_def withGuard_def replicate_add)
        then show ?thesis by blast
      qed
      then show ?thesis using False Some Inl by (auto simp: builds_def)
    next
      case (Inr ws)
      have "\<exists>a new. buildArray build t elements st = Some (Inr a, st @ map Some new) \<and>
          standalone (length st) new [Some a] [Some (ioTree (IOArray (foldl arrayTypeAfter arrayType ws) (Some ws)))]" for st
      proof -
        have nil: "standalone (Suc (length st)) [] (map (\<lambda>e. Some e) []) []" by simp
        obtain as new' where raw: "length as = length elements"
          "buildLoop build (\<lambda>_. pushBack (length st)) typeAfterElement arrayType elements (st @ Some (VectorObject []) # map Some []) =
            Some (Inr (foldl arrayTypeAfter arrayType ws),
              st @ Some (VectorObject ([] @ map2 (\<lambda>_ a. a) elements as)) # map Some ([] @ new'))"
          "standalone (Suc (length st)) ([] @ new') (map (\<lambda>e. Some e) ([] @ map2 (\<lambda>_ a. a) elements as))
            ([] @ map (\<lambda>w. Some (ioTree w)) ws)"
          using vec.loop_returns [where aft = arrayTypeAfter and after = typeAfterElement, OF assms typeAfterElement_tree nil Inr]
          by blast
        have as: "map2 (\<lambda>_ a. a) elements as = as" using raw(1) by (rule map2_second)
        note l = raw [unfolded as append_Nil list.map(1)]
        let ?ob = "IoArrayObject (newIoArrayObject (word_of_int (foldl arrayTypeAfter arrayType ws)) (Some (length st)) True)"
        have "length as = length ws" using l(1) traverseR_length [OF Inr] by simp
        then have v: "standalone (length st) (VectorObject as # new') [Some (length st)] [Some (vectorTree (map ioTree ws))]"
          using vec.container_done [OF l(3)] by (simp add: vectorTree_done)
        have "standalone (length st) ((VectorObject as # new') @ [?ob]) [Some (length st + length (VectorObject as # new'))]
            [Some (Tree (skeleton ?ob) [Some (vectorTree (map ioTree ws))])]"
          by (rule standalone_back) (use v in \<open>simp_all add: object_defs\<close>)
        moreover have "Tree (skeleton ?ob) [Some (vectorTree (map ioTree ws))] =
            ioTree (IOArray (foldl arrayTypeAfter arrayType ws) (Some ws))"
          by (simp add: object_defs noAddr_def)
        moreover have "buildArray build t elements st =
            Some (Inr (length st + length (VectorObject as # new')), st @ map Some ((VectorObject as # new') @ [?ob]))"
          using l(2) Some by (simp add: arr allocP_def bindP_def withGuard_def)
        ultimately show ?thesis by (intro exI conjI) (assumption, simp)
      qed
      then show ?thesis using False Some Inr by (simp add: builds_def)
    qed
  qed
qed

lemma builds_structure:
  assumes "\<And>x. x \<in> snd ` set members \<Longrightarrow> builds (build x) (mapR ioTree (convert x))"
  shows "builds (buildStructure build dest structId members)
    (mapR ioTree (bin2ioStructureValue convert dest structId members))"
proof -
  let ?f = "\<lambda>p. bindR (convert (snd p)) (\<lambda>y. Inr (fst p, y))"
  let ?loop = "\<lambda>m. buildLoop (\<lambda>e. build (snd e)) (\<lambda>e. putField (fst e) m) (\<lambda>_ _. liftP (Inr ())) () members"
  have each: "builds (build (snd x)) (mapR (\<lambda>w. ioTree (snd w)) (?f x))" if "x \<in> set members" for x
  proof -
    have "mapR (\<lambda>w. ioTree (snd w)) (?f x) = mapR ioTree (convert (snd x))"
      by (cases "convert (snd x)") simp_all
    then show ?thesis using assms [of "snd x"] that by simp
  qed
  have str: "buildStructure build dest structId members =
      bindP (buildNodeId structId dest) (\<lambda>n.
      withGuard destroyGuard (Some n)
        (bindP (allocP (FieldMapObject [])) (\<lambda>m.
         withGuard destroyMapGuard (Some m)
           (bindP (?loop m) (\<lambda>_.
              bindP (allocP (IoStructureObject (newIoStructureObject n m True))) (\<lambda>ret. liftP (Inr ((ret, None), None))))))))"
    by (simp add: buildStructure_def detachGuard_def)
  show ?thesis
  proof (cases "traverseFieldsR convert members")
    case (Inl e)
    have "\<exists>k. buildStructure build dest structId members st = Some (Inl e, st @ replicate k None)"
      if e: "e \<noteq> UndefinedBehaviour" for st
    proof -
      obtain n new0 where n: "buildNodeId structId dest st = Some (Inr n, st @ map Some new0)"
        "standalone (length st) new0 [Some n] [Some (ioNodeIdTree (bin2ioNodeId structId dest))]"
        using builds_Inr [OF builds_nodeId] by blast
      let ?S = "st @ map Some new0"
      obtain es' new' ts' k where l:
        "?loop (length ?S) (?S @ [Some (FieldMapObject [])]) =
          Some (Inl e, ?S @ Some (FieldMapObject es') # map Some new' @ replicate k None)"
        "standalone (Suc (length ?S)) new' (map (\<lambda>e. Some (snd e)) es') ts'"
        using fld.loop_throws [where f = ?f and tree = "\<lambda>w. ioTree (snd w)" and aft = "\<lambda>_ _. ()" and es = "[]" and new = "[]"
            and ts = "[]" and st = ?S and acc = "()" and after = "\<lambda>_ _. liftP (Inr ())", OF each _ _ Inl [unfolded traverseFieldsR_def] e]
        by auto
      have inner: "destroyMapGuard (Some (length ?S)) (?S @ Some (FieldMapObject es') # map Some new' @ replicate k None) =
          Some (Inr (), ?S @ replicate (Suc (length new')) None @ replicate k None)"
        by (rule fld.container_destroyed [OF l(2)])
      let ?suf = "replicate (Suc (length new')) None @ replicate k None"
      have "deleteAll ([Some n] @ []) (st @ map Some new0 @ ?suf) = deleteAll [] (st @ replicate (length new0) None @ ?suf)"
        using n(2) unfolding standalone_def by blast
      then have outer: "destroyGuard (Some n) (?S @ ?suf) = Some (Inr (), st @ replicate (length new0) None @ ?suf)"
        by (simp add: destroyGuard_def)
      have "buildStructure build dest structId members st =
          Some (Inl e, st @ replicate (length new0 + (Suc (length new') + k)) None)"
        using n(1) l(1) inner outer e
        by (simp add: str allocP_def bindP_def withGuard_def replicate_add replicate_append_same)
      then show ?thesis by blast
    qed
    then show ?thesis using Inl by (auto simp: builds_def)
  next
    case (Inr ws)
    let ?v = "IOStructure (bin2ioNodeId structId dest) ws"
    have "\<exists>a new. buildStructure build dest structId members st = Some (Inr a, st @ map Some new) \<and>
        standalone (length st) new [Some a] [Some (ioTree ?v)]" for st
    proof -
      obtain n new0 where n: "buildNodeId structId dest st = Some (Inr n, st @ map Some new0)"
        "standalone (length st) new0 [Some n] [Some (ioNodeIdTree (bin2ioNodeId structId dest))]"
        using builds_Inr [OF builds_nodeId] by blast
      let ?S = "st @ map Some new0"
      obtain as new' where l: "length as = length members"
        "?loop (length ?S) (?S @ [Some (FieldMapObject [])]) =
          Some (Inr (), ?S @ Some (FieldMapObject (map2 (\<lambda>e b. (fst e, b)) members as)) # map Some new')"
        "standalone (Suc (length ?S)) new' (map (\<lambda>e. Some (snd e)) (map2 (\<lambda>e b. (fst e, b)) members as))
          (map (\<lambda>w. Some (ioTree (snd w))) ws)"
        using fld.loop_returns [where f = ?f and tree = "\<lambda>w. ioTree (snd w)" and aft = "\<lambda>_ _. ()" and es = "[]" and new = "[]"
            and ts = "[]" and st = ?S and acc = "()" and after = "\<lambda>_ _. liftP (Inr ())", OF each _ _ Inr [unfolded traverseFieldsR_def]]
        by auto
      let ?es = "map2 (\<lambda>e b. (fst e, b)) members as"
      let ?m = "fieldMapTree (map (\<lambda>w. (fst w, ioTree (snd w))) ws)"
      have "map fst ?es = map fst ws"
        using map_fst_entries [OF l(1)] traverseFieldsR_keys [OF Inr] by simp
      from fieldMapTree_done [OF this]
      have m: "standalone (length ?S) (FieldMapObject ?es # new') [Some (length ?S)] [Some ?m]"
        using fld.container_done [OF l(3)] by simp
      have both: "standalone (length st) (new0 @ FieldMapObject ?es # new') [Some n, Some (length ?S)]
          [Some (ioNodeIdTree (bin2ioNodeId structId dest)), Some ?m]"
        using standalone_Cons [OF n(2)] m by simp
      let ?ob = "IoStructureObject (newIoStructureObject n (length ?S) True)"
      let ?new = "new0 @ FieldMapObject ?es # new'"
      have "standalone (length st) (?new @ [?ob]) [Some (length st + length ?new)]
          [Some (Tree (skeleton ?ob) [Some (ioNodeIdTree (bin2ioNodeId structId dest)), Some ?m])]"
        by (rule standalone_back) (use both in \<open>simp_all add: object_defs\<close>)
      moreover have "Tree (skeleton ?ob) [Some (ioNodeIdTree (bin2ioNodeId structId dest)), Some ?m] = ioTree ?v"
        by (simp add: object_defs)
      moreover have "buildStructure build dest structId members st =
          Some (Inr (length st + length ?new), st @ map Some (?new @ [?ob]))"
        using n(1) l(2) by (simp add: str allocP_def bindP_def withGuard_def)
      ultimately show ?thesis by (intro exI conjI) (assumption, simp)
    qed
    then show ?thesis using Inr by (simp add: builds_def)
  qed
qed

lemma builds_bin2io: "builds (buildBin2io dest v) (mapR ioTree (bin2io dest v))"
proof (induction v rule: bin2io.induct)
  case (1 dest s)
  then show ?case by (simp add: builds_scalar)
next
  case (2 dest t elements)
  then show ?case using builds_array [of elements "buildBin2io dest" "bin2io dest" t] by (simp del: bin2io_defs)
next
  case (3 dest structId members)
  then show ?case using builds_structure [of members "buildBin2io dest" "bin2io dest" dest structId]
    by (simp del: bin2io_defs)
qed

text \<open>
  C7. The conversion of a binary value as it allocates objects does what the conversion of values does: if that
  gives a value, a new object is returned that holds the value, no object that was there before is changed,
  and deleting the new object gives back exactly what was allocated. If it throws, the guards have deleted
  everything that was allocated, whatever was converted before.
\<close>

theorem bin2io_objects:
  "case bin2io dest v of
     Inr w \<Rightarrow> \<exists>a new. buildBin2io dest v st = Some (Inr a, st @ map Some new) \<and>
       represents (st @ map Some new) a (ioTree w) \<and>
       deleteAll [Some a] (st @ map Some new) = (Inr (), st @ replicate (length new) None)
   | Inl e \<Rightarrow> e = UndefinedBehaviour \<or> (\<exists>k. buildBin2io dest v st = Some (Inl e, st @ replicate k None))"
proof (cases "bin2io dest v")
  case (Inl e)
  then show ?thesis using builds_bin2io [of dest v] by (auto simp: builds_def)
next
  case (Inr w)
  then have "builds (buildBin2io dest v) (Inr (ioTree w))" using builds_bin2io [of dest v] by simp
  from builds_Inr [OF this, of st] obtain a new where b: "buildBin2io dest v st = Some (Inr a, st @ map Some new)"
    "standalone (length st) new [Some a] [Some (ioTree w)]" by blast
  have "represents (st @ map Some new @ []) a (ioTree w)" by (rule standalone_represents [OF b(2) refl])
  moreover have "deleteAll ([Some a] @ []) (st @ map Some new @ []) = deleteAll [] (st @ replicate (length new) None @ [])"
    using b(2) unfolding standalone_def by blast
  ultimately show ?thesis using b(1) Inr by simp
qed

text \<open>A structure whose second field has an unknown array type: nothing is left of its name and its first field.\<close>

lemma example_object_conversion:
  "case buildBin2io 3 (BStruct (ParamString (- 1) ''S'') [(''a'', BScalar (BInt 5)), (''b'', BArray binCHAR [BScalar (BChar CHR ''x'')])]) [] of
     Some (Inr a, st) \<Rightarrow> length st = 7 \<and> deleteAll [Some a] st = (Inr (), replicate 7 None) | _ \<Rightarrow> False"
  "case buildBin2io 3 (BStruct (ParamString (- 1) ''S'') [(''a'', BScalar (BInt 5)), (''b'', BArray 99 [])]) [] of
     Some (Inl e, st) \<Rightarrow> e = ConversionException \<and> st = replicate 4 None | _ \<Rightarrow> False"
  by code_simp+

end
