(* ===== verification/Value_Text.thy ===== *)
theory Value_Text
  imports Io_Values Bin_Values
begin

text \<open>
  The texts of values (\<open>toString\<close> of the classes in \<open>ioDataProvider/*.cpp\<close> and
  \<open>provider/binary/messages/dto/*.cpp\<close>). How a stream prints floating point numbers is a parameter. A signed
  character is printed as a character; the bytes of a byte string are printed with \<open>%x\<close> after the promotion
  of \<open>char\<close> to \<open>int\<close>, so a byte from 128 on has eight digits.
\<close>

subsection \<open>Hexadecimal numbers\<close>

definition hexChar :: "nat \<Rightarrow> char" where
  "hexChar n = (if n < 10 then char_of (48 + n) else char_of (87 + n))"

fun showHex :: "nat \<Rightarrow> string" where
  "showHex n = (if n < 16 then [hexChar n] else showHex (n div 16) @ [hexChar (n mod 16)])"

declare showHex.simps [simp del]

definition byteText :: "c_byte \<Rightarrow> string" where
  "byteText b = ''0x'' @ showHex (unat (scast b :: 32 word))"

definition showBool :: "bool \<Rightarrow> string" where
  "showBool b = (if b then ''1'' else ''0'')"

definition charOfByte :: "c_byte \<Rightarrow> char" where
  "charOfByte b = char_of (unat b)"

record float_texts =
  ftFloat :: "c_float \<Rightarrow> string"
  ftDouble :: "c_double \<Rightarrow> string"

subsection \<open>Values of the internal interface\<close>

definition textOrNull :: "string option \<Rightarrow> string" where
  "textOrNull s = (case s of None \<Rightarrow> ''<NULL>'' | Some t \<Rightarrow> t)"

fun ioScalarBody :: "float_texts \<Rightarrow> io_scalar \<Rightarrow> string" where
  "ioScalarBody ft (IOBool v) = ''bool,value='' @ showBool v"
| "ioScalarBody ft (IOSChar v) = ''byte,value='' @ [charOfByte v]"
| "ioScalarBody ft (IOChar v) = ''char,value='' @ [v]"
| "ioScalarBody ft (IOInt v) = ''int,value='' @ showInt (sint v)"
| "ioScalarBody ft (IOUInt v) = ''uint,value='' @ showNat (unat v)"
| "ioScalarBody ft (IOLong v) = ''long,value='' @ showInt (sint v)"
| "ioScalarBody ft (IOULong v) = ''ulong,value='' @ showNat (unat v)"
| "ioScalarBody ft (IOLLong v) = ''llong,value='' @ showInt (sint v)"
| "ioScalarBody ft (IOULLong v) = ''ullong,value='' @ showNat (unat v)"
| "ioScalarBody ft (IOFloat v) = ''float,value='' @ ftFloat ft v"
| "ioScalarBody ft (IODouble v) = ''double,value='' @ ftDouble ft v"
| "ioScalarBody ft (IOString v) = ''string,value='' @ textOrNull v"
| "ioScalarBody ft (IOByteString v) = ''byteString,value='' @
     (case v of None \<Rightarrow> ''<NULL>'' | Some bs \<Rightarrow> joinWith '' '' (map byteText bs))"
| "ioScalarBody ft (IOLocalizedText l t) = ''localizedText,locale='' @ textOrNull l @ '',text='' @ textOrNull t"

definition ioScalarToString :: "float_texts \<Rightarrow> io_scalar \<Rightarrow> string" where
  "ioScalarToString ft s = ''IODataProviderNamespace::Scalar[type='' @ ioScalarBody ft s @ '']''"

definition nodePropertiesToString :: "value_handling \<Rightarrow> string" where
  "nodePropertiesToString h = ''IODataProviderNamespace::NodeProperties[valueHandling='' @
     (case h of VhNone \<Rightarrow> ''none'' | VhSync \<Rightarrow> ''sync'' | VhAsync \<Rightarrow> ''async'') @ '']''"

definition nodeDataToString :: "io_node_id \<Rightarrow> string option \<Rightarrow> c_exception option \<Rightarrow> string" where
  "nodeDataToString n data ex = ''IODataProviderNamespace::NodeData[nodeId='' @ ioNodeIdToString n @
     '',data='' @ textOrNull data @ '',exception='' @
     (case ex of None \<Rightarrow> ''<NULL>'' | Some e \<Rightarrow> getStackTrace e []) @ '']''"

fun ioToString :: "float_texts \<Rightarrow> io_variant \<Rightarrow> string" where
  "ioToString ft (IOScalar s) = ioScalarToString ft s"
| "ioToString ft (IOArray t es) = ''IODataProviderNamespace::Array[type='' @ showInt t @ '',elements='' @
     (case es of None \<Rightarrow> ''<NULL>'' | Some xs \<Rightarrow> joinWith '','' (map (ioToString ft) xs)) @ '']''"
| "ioToString ft (IONodeId n) = ioNodeIdToString n"
| "ioToString ft (IOStructure n fs) = ''IODataProviderNamespace::Structure[dataTypeId='' @ ioNodeIdToString n @
     '',fieldData='' @ joinWith '' '' (map (\<lambda>(k, v). k @ ''=>'' @ ioToString ft v) fs) @ '']''"
| "ioToString ft (IONodeProperties h) = nodePropertiesToString h"
| "ioToString ft (IOEventData source msg severity fs) =
     ''IODataProviderNamespace::OpcUaEventData[sourceNodeId='' @ ioNodeIdToString source @ '',message='' @ msg @
     '',severity='' @ showInt (sint severity) @ '',fieldData='' @
     joinWith '' '' (map (\<lambda>(n, d, e). nodeDataToString n (case d of None \<Rightarrow> None | Some v \<Rightarrow> Some (ioToString ft v)) e) fs) @ '']''"

subsection \<open>Values of the binary protocol\<close>

fun binScalarBody :: "float_texts \<Rightarrow> bin_scalar \<Rightarrow> string" where
  "binScalarBody ft (BBoolean v) = ''boolean,value='' @ showBool v"
| "binScalarBody ft (BChar v) = ''char,value='' @ [v]"
| "binScalarBody ft (BByte v) = ''byte,value='' @ [charOfByte v]"
| "binScalarBody ft (BShort v) = ''short,value='' @ showInt (sint v)"
| "binScalarBody ft (BInt v) = ''int,value='' @ showInt (sint v)"
| "binScalarBody ft (BLong v) = ''long,value='' @ showInt (sint v)"
| "binScalarBody ft (BFloat v) = ''float,value='' @ ftFloat ft v"
| "binScalarBody ft (BDouble v) = ''double,value='' @ ftDouble ft v"

fun binToString :: "float_texts \<Rightarrow> bin_variant \<Rightarrow> string" where
  "binToString ft (BScalar s) = ''Scalar[type='' @ binScalarBody ft s @ '']''"
| "binToString ft (BArray t es) =
     ''Array[type='' @ showInt t @ '',elements='' @ joinWith '','' (map (binToString ft) es) @ '']''"
| "binToString ft (BStruct n fs) = ''Struct[structId='' @ paramIdToString n @ '',fields='' @
     joinWith '','' (map (\<lambda>(k, v). k @ ''=>'' @ binToString ft v) fs) @ '']''"

text \<open>The text of a scalar tells the scalars apart, if the numbers are told apart.\<close>

lemma charOfByte_eq [simp]: "charOfByte a = charOfByte b \<longleftrightarrow> a = b"
proof
  assume "charOfByte a = charOfByte b"
  then have "(of_char (char_of (unat a) :: char) :: nat) = of_char (char_of (unat b) :: char)" by (simp add: charOfByte_def)
  then have "unat a = unat b" using unsigned_less [where 'a = nat, of a] unsigned_less [where 'a = nat, of b] by simp
  then show "a = b" by (simp add: unsigned_word_eqI)
qed simp

lemma showBool_eq [simp]: "showBool a = showBool b \<longleftrightarrow> a = b"
  by (simp add: showBool_def)

lemma showNat_eq [simp]: "showNat m = showNat n \<longleftrightarrow> m = n"
  by (metis digitsVal_showNat)

lemma showNat_noMinus [simp]: "showNat n \<noteq> CHR ''-'' # s" "CHR ''-'' # s \<noteq> showNat n"
proof -
  have "CHR ''-'' \<notin> set (showNat n)" using showNat_digits by (auto simp: isDigit_def)
  then show "showNat n \<noteq> CHR ''-'' # s" by auto
  then show "CHR ''-'' # s \<noteq> showNat n" by (rule not_sym)
qed

lemma showInt_eq [simp]: "showInt i = showInt j \<longleftrightarrow> i = j"
  by (auto simp: showInt_def)

theorem bin_scalar_text:
  "inj (ftFloat ft) \<Longrightarrow> inj (ftDouble ft) \<Longrightarrow> binToString ft (BScalar s) = binToString ft (BScalar t) \<longleftrightarrow> s = t"
  by (cases s; cases t) (auto simp: inj_eq)

end
