(* ===== verification/Server_Core.thy ===== *)
theory Server_Core
  imports Ha_Server
begin

text \<open>
  The core of the server (\<open>src/OpcUaServerCore.cpp\<close>): the hooks with which the SDK starts and stops the module
  of the OPC UA server, and the build date. What the module's functions return is a parameter; the SDK calls
  the first hook and, if it was successful, the second one when the core starts, and the third one when a
  started core stops.
\<close>

subsection \<open>The server module\<close>

datatype module_event = ModuleNew | ModuleInit | ModuleStart | ModuleShutDown | ModuleDelete

record server_core =
  scModule :: bool
  scModuleTrace :: "module_event list"

definition newServerCore :: server_core where
  "newServerCore = \<lparr>scModule = False, scModuleTrace = []\<rparr>"

definition logModule :: "module_event list \<Rightarrow> server_core \<Rightarrow> server_core" where
  "logModule es c = c\<lparr>scModuleTrace := scModuleTrace c @ es\<rparr>"

definition afterInitialize :: "bool \<Rightarrow> (server_core, bool) op" where
  "afterInitialize initialized =
    bindP (modifyP (\<lambda>c. logModule [ModuleNew, ModuleInit] (c\<lparr>scModule := True\<rparr>))) (\<lambda>_. liftP (Inr initialized))"

definition afterStartUp :: "bool \<Rightarrow> (server_core, bool) op" where
  "afterStartUp startedUp =
    bindP (getP scModule) (\<lambda>m.
    bindP (liftP (guardR m UndefinedBehaviour)) (\<lambda>_.
    bindP (modifyP (logModule [ModuleStart])) (\<lambda>_.
      if startedUp then liftP (Inr True)
      else
        bindP (modifyP (\<lambda>c. logModule [ModuleShutDown, ModuleDelete] (c\<lparr>scModule := False\<rparr>))) (\<lambda>_.
          liftP (Inr False)))))"

definition beforeShutdown :: "(server_core, unit) op" where
  "beforeShutdown =
    modifyP (\<lambda>c. if scModule c then logModule [ModuleShutDown, ModuleDelete] (c\<lparr>scModule := False\<rparr>) else c)"

text \<open>The destructor; \<open>delete\<close> of a module that is not there does nothing.\<close>

definition destroyServerCore :: "bool \<Rightarrow> (server_core, unit) op" where
  "destroyServerCore started =
    bindP (if started then beforeShutdown else liftP (Inr ())) (\<lambda>_.
      modifyP (\<lambda>c. if scModule c then logModule [ModuleDelete] (c\<lparr>scModule := False\<rparr>) else c))"

text \<open>The life of a core as the server uses it: one start, perhaps a stop, and the destructor.\<close>

definition coreLife :: "bool \<Rightarrow> bool \<Rightarrow> bool \<Rightarrow> (server_core, unit) op" where
  "coreLife initialized startedUp stopped =
    bindP (afterInitialize initialized) (\<lambda>good.
    bindP (if good then afterStartUp startedUp else liftP (Inr False)) (\<lambda>started.
    bindP (if started \<and> stopped then beforeShutdown else liftP (Inr ())) (\<lambda>_.
      destroyServerCore (started \<and> \<not> stopped))))"

text \<open>
  The module is created, started at most once and deleted exactly once, and it is shut down before exactly
  when it was told to start.
\<close>

theorem core_life:
  "\<exists>c. coreLife initialized startedUp stopped newServerCore = Some (Inr (), c) \<and> \<not> scModule c \<and>
    scModuleTrace c = [ModuleNew, ModuleInit] @ (if initialized then [ModuleStart, ModuleShutDown] else []) @ [ModuleDelete]"
  by (cases initialized; cases startedUp; cases stopped)
    (simp_all add: coreLife_def afterInitialize_def afterStartUp_def beforeShutdown_def destroyServerCore_def
      newServerCore_def logModule_def bindP_def guardR_def)

subsection \<open>The build date\<close>

definition monthNames :: "string list" where
  "monthNames = [''Jan'', ''Feb'', ''Mar'', ''Apr'', ''May'', ''Jun'', ''Jul'', ''Aug'', ''Sep'', ''Oct'', ''Nov'', ''Dec'']"

text \<open>The loop over the names, which stops at the last one whatever the date is.\<close>

fun monthLoop :: "string \<Rightarrow> string list \<Rightarrow> nat \<Rightarrow> nat" where
  "monthLoop szDate [] mon = mon"
| "monthLoop szDate (m # ms) mon = (if m \<noteq> take 3 szDate \<and> mon < 11 then monthLoop szDate ms (mon + 1) else mon)"

text \<open>\<open>__DATE__\<close> is \<open>Mon DD YYYY\<close>, the day padded with a blank; \<open>__TIME__\<close> is \<open>HH:MM:SS\<close>.\<close>

definition buildIso :: "string \<Rightarrow> string \<Rightarrow> string" where
  "buildIso szDate szTime =
    (let mon = monthLoop szDate monthNames 0 + 1 in
     take 4 (drop 7 szDate) @ ''-'' @ [digitChar (mon div 10), digitChar (mon mod 10)] @ ''-'' @
     take 2 (drop 4 szDate) @ ''T'' @ szTime @ ''Z'')"

text \<open>The conversion of the text and the seconds of the time zone are those of the SDK.\<close>

definition getBuildDate :: "(string \<Rightarrow> 't) \<Rightarrow> ('t \<Rightarrow> int \<Rightarrow> 't) \<Rightarrow> int \<Rightarrow> string \<Rightarrow> string \<Rightarrow> 't" where
  "getBuildDate parse addSecs zone szDate szTime = addSecs (parse (buildIso szDate szTime)) (zone * 3600 * - 1)"

lemma monthNames_nth: "m < 12 \<Longrightarrow> \<exists>x y z. monthNames ! m = [x, y, z]"
  by (auto simp: monthNames_def less_Suc_eq numeral_eq_Suc)

lemma monthLoop_names: "m < 12 \<Longrightarrow> monthLoop (monthNames ! m @ rest) monthNames 0 = m"
  by (auto simp: monthNames_def less_Suc_eq numeral_eq_Suc)

lemma build_iso_month:
  assumes "m < 12" "length day = 2" "length year = 4"
  shows "buildIso (monthNames ! m @ '' '' @ day @ '' '' @ year) szTime =
    year @ ''-'' @ [digitChar ((m + 1) div 10), digitChar ((m + 1) mod 10)] @ ''-'' @ day @ ''T'' @ szTime @ ''Z''"
proof -
  obtain x y z where "monthNames ! m = [x, y, z]" using monthNames_nth [OF assms(1)] by blast
  then show ?thesis using assms(2,3) monthLoop_names [OF assms(1)]
    by (simp add: buildIso_def Let_def)
qed

text \<open>Before the tenth day of a month the date has a blank instead of the first digit.\<close>

lemma build_iso_blank: "buildIso ''Jan  5 2020'' ''10:00:00'' = ''2020-01- 5T10:00:00Z''"
  by code_simp

end
