(* ===== verification/Logger_Threads.thy ===== *)
theory Logger_Threads
  imports Loggers
begin

text \<open>
  Mutexes and locks (\<open>common/Mutex.cpp\<close>, \<open>common/MutexLock.cpp\<close>) and the threads that ask a factory for
  loggers at the same time. A lock does not lock its mutex: both calls are commented out in the source. The
  body of \<open>getLogger\<close> is therefore a sequence of steps that other threads interleave with; an operation of
  the map is one step.
\<close>

subsection \<open>Mutexes and locks\<close>

text \<open>The constructor of a mutex, by the results of the four calls it makes; it throws on the first that fails.\<close>

datatype mutex_error = MutexException string

definition mutexStatus :: "int \<Rightarrow> int \<Rightarrow> int \<Rightarrow> int \<Rightarrow> int" where
  "mutexStatus attrInit setType mutexInit attrDestroy =
    (if attrInit = 0 then
       (let status = (if setType = 0 then mutexInit else setType)
        in if status = 0 then attrDestroy else status)
     else attrInit)"

definition newMutex :: "int \<Rightarrow> int \<Rightarrow> int \<Rightarrow> int \<Rightarrow> (mutex_error, unit) res" where
  "newMutex attrInit setType mutexInit attrDestroy =
    guardR (mutexStatus attrInit setType mutexInit attrDestroy = 0) (MutexException ''Cannot initialize mutex'')"

definition destroyMutex :: "int \<Rightarrow> (mutex_error, unit) res" where
  "destroyMutex status = guardR (status = 0) (MutexException ''Cannot destroy mutex'')"

lemma newMutex_ok: "isOk (newMutex a b c d) \<longleftrightarrow> a = 0 \<and> b = 0 \<and> c = 0 \<and> d = 0"
  by (simp add: newMutex_def mutexStatus_def guardR_def isOk_def)

text \<open>A lock points to its mutex until it is unlocked; the mutex itself is not touched.\<close>

record mutex_lock =
  mlMutex :: "nat option"

definition newMutexLock :: "nat \<Rightarrow> mutex_lock" where
  "newMutexLock mutex = \<lparr>mlMutex = Some mutex\<rparr>"

definition unlockMutexLock :: "mutex_lock \<Rightarrow> mutex_lock" where
  "unlockMutexLock l = (if mlMutex l \<noteq> None then l\<lparr>mlMutex := None\<rparr> else l)"

subsection \<open>A thread in getLogger\<close>

text \<open>
  A thread has its name, has searched the map, has created a logger, or has got its logger. The logger of a
  successful search is read through the iterator when the function returns.
\<close>

datatype getter = Asking nat | Searched nat bool | Creating nat nat | Got nat nat

fun getterStep :: "getter \<Rightarrow> logger_map \<Rightarrow> (getter \<times> logger_map) option" where
  "getterStep (Asking name) lm = Some (Searched name (map_of (lmLoggers lm) name \<noteq> None), lm)"
| "getterStep (Searched name found) lm =
     (if found then
        (case map_of (lmLoggers lm) name of
           None \<Rightarrow> None
         | Some logger \<Rightarrow> Some (Got name logger, lm))
      else Some (Creating name (lmCreated lm), lm\<lparr>lmCreated := lmCreated lm + 1\<rparr>))"
| "getterStep (Creating name logger) lm =
     Some (Got name logger, lm\<lparr>lmLoggers := smInsert name logger (lmLoggers lm)\<rparr>)"
| "getterStep (Got name logger) lm = None"

text \<open>A thread that is alone does what the function does.\<close>

fun getterRun :: "nat \<Rightarrow> getter \<Rightarrow> logger_map \<Rightarrow> getter \<times> logger_map" where
  "getterRun 0 g lm = (g, lm)"
| "getterRun (Suc n) g lm = (case getterStep g lm of None \<Rightarrow> (g, lm) | Some (g', lm') \<Rightarrow> getterRun n g' lm')"

lemma getter_alone:
  "getterRun 3 (Asking name) lm = (Got name (fst (factoryGetLogger name lm)), snd (factoryGetLogger name lm))"
  by (cases "map_of (lmLoggers lm) name") (simp_all add: factoryGetLogger_def numeral_3_eq_3)

subsection \<open>Interleavings\<close>

type_synonym factory_race = "getter list \<times> logger_map"

inductive raceStep :: "factory_race \<Rightarrow> factory_race \<Rightarrow> bool" where
  step: "i < length ts \<Longrightarrow> getterStep (ts ! i) lm = Some (g, lm') \<Longrightarrow> raceStep (ts, lm) (ts[i := g], lm')"

inductive raceReach :: "nat list \<Rightarrow> factory_race \<Rightarrow> bool" for names where
  start: "raceReach names (map Asking names, newLoggerMap)"
| more: "raceReach names s \<Longrightarrow> raceStep s s' \<Longrightarrow> raceReach names s'"

fun getterName :: "getter \<Rightarrow> nat" where
  "getterName (Asking n) = n"
| "getterName (Searched n _) = n"
| "getterName (Creating n _) = n"
| "getterName (Got n _) = n"

text \<open>The loggers that are created and not in the map yet.\<close>

fun pendingLogger :: "getter \<Rightarrow> nat list" where
  "pendingLogger (Creating n l) = [l]"
| "pendingLogger _ = []"

fun getterOk :: "logger_map \<Rightarrow> getter \<Rightarrow> bool" where
  "getterOk lm (Asking n) = True"
| "getterOk lm (Searched n found) = (found \<longrightarrow> map_of (lmLoggers lm) n \<noteq> None)"
| "getterOk lm (Creating n l) = (l < lmCreated lm \<and> l \<notin> ran (map_of (lmLoggers lm)))"
| "getterOk lm (Got n l) = (l < lmCreated lm \<and> map_of (lmLoggers lm) n \<noteq> None)"

definition raceInv :: "factory_race \<Rightarrow> bool" where
  "raceInv s =
    (case s of (ts, lm) \<Rightarrow>
       smInv (lmLoggers lm) \<and> list_all (getterOk lm) ts \<and> distinct (concat (map pendingLogger ts)) \<and>
       inj_on (map_of (lmLoggers lm)) (dom (map_of (lmLoggers lm))) \<and>
       ran (map_of (lmLoggers lm)) \<subseteq> {..<lmCreated lm})"

inductive_cases raceStepE: "raceStep (ts, lm) s'"

lemma raceInv_start: "raceInv (map Asking names, newLoggerMap)"
  by (induction names) (simp_all add: raceInv_def newLoggerMap_def lessThan_def)

lemma list_all_split: "list_all P (us @ x # vs) \<longleftrightarrow> list_all P us \<and> P x \<and> list_all P vs"
  by simp

lemma raceInv_step:
  assumes "raceInv (us @ g # vs, lm)" "getterStep g lm = Some (g', lm')"
  shows "raceInv (us @ g' # vs, lm')"
proof (cases g)
  case (Asking name)
  then show ?thesis using assms by (auto simp: raceInv_def)
next
  case (Searched name found)
  have new: "distinct (pendingLogger g' @ concat (map pendingLogger (us @ vs)))" if "\<not> found"
  proof -
    have "l < lmCreated lm" if "x \<in> set (us @ vs)" "l \<in> set (pendingLogger x)" for x l
    proof -
      have "getterOk lm x" using assms(1) that(1) by (auto simp: raceInv_def list_all_iff)
      then show ?thesis using that(2) by (cases x) auto
    qed
    then have "lmCreated lm \<notin> set (concat (map pendingLogger (us @ vs)))" by fastforce
    then show ?thesis using assms that Searched by (auto simp: raceInv_def)
  qed
  have keep: "getterOk lm x \<Longrightarrow> getterOk (lm\<lparr>lmCreated := Suc (lmCreated lm)\<rparr>) x" for x
    by (cases x) auto
  show ?thesis
  proof (cases found)
    case False
    then have res: "g' = Creating name (lmCreated lm)" "lm' = lm\<lparr>lmCreated := Suc (lmCreated lm)\<rparr>"
      using assms(2) Searched by auto
    have "list_all (getterOk lm') (us @ vs)"
      using assms(1) keep by (auto simp: raceInv_def list_all_iff res(2))
    then show ?thesis using assms(1) new [OF False] Searched False
      by (auto simp: raceInv_def res)
  qed (use assms Searched in \<open>auto simp: raceInv_def split: option.splits intro: ranI\<close>)
next
  case (Creating name l)
  have res: "g' = Got name l" "lm' = lm\<lparr>lmLoggers := smInsert name l (lmLoggers lm)\<rparr>"
    using assms(2) Creating by auto
  let ?m = "map_of (lmLoggers lm)"
  have inv: "smInv (lmLoggers lm)" using assms(1) by (simp add: raceInv_def)
  then have m: "map_of (lmLoggers lm') = ?m(name \<mapsto> l)" by (simp add: res)
  have l: "l < lmCreated lm" "l \<notin> ran ?m" using assms(1) Creating by (auto simp: raceInv_def)
  have fresh: "?m x \<noteq> Some l" for x using l(2) by (auto intro: ranI)
  have "getterOk lm' x" if "x \<in> set (us @ vs)" for x
  proof -
    have ok: "getterOk lm x" using assms(1) that by (auto simp: raceInv_def list_all_iff)
    show ?thesis
    proof (cases x)
      case (Creating n k)
      have "k \<noteq> l" using assms(1) that \<open>g = Creating name l\<close> Creating by (force simp: raceInv_def)
      then show ?thesis using ok Creating m by (auto simp: res(2) ran_def split: if_splits)
    qed (use ok m in \<open>auto simp: res(2)\<close>)
  qed
  moreover have "inj_on (?m(name \<mapsto> l)) (insert name (dom ?m))"
    using assms(1) fresh by (auto simp: raceInv_def inj_on_def)
  moreover have "ran (?m(name \<mapsto> l)) \<subseteq> {..<lmCreated lm}"
    using assms(1) l(1) by (auto simp: raceInv_def ran_def)
  ultimately show ?thesis using assms(1) l(1) m Creating
    by (auto simp: raceInv_def res list_all_iff)
qed (use assms in simp)

lemma raceReach_inv: "raceReach names s \<Longrightarrow> raceInv s \<and> map getterName (fst s) = names"
proof (induction rule: raceReach.induct)
  case start
  then show ?case by (simp add: raceInv_start comp_def)
next
  case (more s s')
  obtain ts lm where s: "s = (ts, lm)" by fastforce
  from more.hyps(2) obtain i g lm' where i: "i < length ts" "getterStep (ts ! i) lm = Some (g, lm')"
    "s' = (ts[i := g], lm')" by (auto simp: s elim: raceStepE)
  have ts: "ts = take i ts @ ts ! i # drop (Suc i) ts" "ts[i := g] = take i ts @ g # drop (Suc i) ts"
    using i(1) by (simp_all add: id_take_nth_drop upd_conv_take_nth_drop)
  have "raceInv (take i ts @ ts ! i # drop (Suc i) ts, lm)" using more.IH s ts(1) by simp
  from raceInv_step [OF this i(2)] have "raceInv s'" by (simp add: i(3) ts(2))
  moreover have "getterName g = getterName (ts ! i)"
    using i(2) by (cases "(ts ! i, lm)" rule: getterStep.cases) (auto split: option.splits if_splits)
  then have "map getterName (ts[i := g]) = map getterName ts"
    using i(1) by (simp add: map_update list_update_same_conv)
  ultimately show ?case using more.IH s i(3) by simp
qed

text \<open>A thread whose name no other thread has.\<close>

fun getterSolo :: "logger_map \<Rightarrow> getter \<Rightarrow> bool" where
  "getterSolo lm (Asking n) = (map_of (lmLoggers lm) n = None)"
| "getterSolo lm (Searched n found) = (map_of (lmLoggers lm) n = None \<and> \<not> found)"
| "getterSolo lm (Creating n l) = (map_of (lmLoggers lm) n = None)"
| "getterSolo lm (Got n l) = (map_of (lmLoggers lm) n = Some l)"

lemma getterSolo_other:
  assumes "raceInv (ts, lm)" "getterStep g lm = Some (g', lm')" "getterName x \<noteq> getterName g" "getterSolo lm x"
  shows "getterSolo lm' x"
proof -
  have "smInv (lmLoggers lm)" using assms(1) by (simp add: raceInv_def)
  then have "map_of (lmLoggers lm') (getterName x) = map_of (lmLoggers lm) (getterName x)"
    using assms(2,3) by (cases "(g, lm)" rule: getterStep.cases) (auto split: option.splits if_splits)
  then show ?thesis using assms(4) by (cases x) simp_all
qed

lemma getterSolo_self:
  "raceInv (ts, lm) \<Longrightarrow> getterStep g lm = Some (g', lm') \<Longrightarrow> getterSolo lm g \<Longrightarrow> getterSolo lm' g'"
  by (cases "(g, lm)" rule: getterStep.cases) (auto simp: raceInv_def split: option.splits if_splits)

lemma raceReach_solo:
  "raceReach names s \<Longrightarrow> distinct names \<Longrightarrow> \<forall>x \<in> set (fst s). getterSolo (snd s) x"
proof (induction rule: raceReach.induct)
  case start
  then show ?case by (simp add: newLoggerMap_def)
next
  case (more s s')
  obtain ts lm where s: "s = (ts, lm)" by fastforce
  from more.hyps(2) obtain i g lm' where i: "i < length ts" "getterStep (ts ! i) lm = Some (g, lm')"
    "s' = (ts[i := g], lm')" by (auto simp: s elim: raceStepE)
  have inv: "raceInv (ts, lm)" "distinct (map getterName ts)"
    using raceReach_inv [OF more.hyps(1)] more.prems by (simp_all add: s)
  have solo: "getterSolo lm (ts ! j)" if "j < length ts" for j
    using more.IH [OF more.prems] that by (simp add: s)
  have "getterSolo lm' (ts[i := g] ! j)" if j: "j < length ts" for j
  proof (cases "j = i")
    case True
    then show ?thesis using getterSolo_self [OF inv(1) i(2) solo [OF i(1)]] i(1) by simp
  next
    case False
    then have "getterName (ts ! j) \<noteq> getterName (ts ! i)"
      using inv(2) i(1) j by (simp add: distinct_conv_nth)
    then show ?thesis using getterSolo_other [OF inv(1) i(2) _ solo [OF j]] False by simp
  qed
  then show ?case using i(3) by (simp add: all_set_conv_all_nth)
qed


text \<open>Two threads that ask for the same name: both search before one of them enters its logger.\<close>

lemma raceReach_step:
  "raceReach names (ts, lm) \<Longrightarrow> i < length ts \<Longrightarrow> getterStep (ts ! i) lm = Some (g, lm') \<Longrightarrow> s = (ts[i := g], lm') \<Longrightarrow>
   raceReach names s"
  by (auto intro: raceReach.more raceStep.step)

definition lostLogger :: factory_race where
  "lostLogger = ([Got 7 0, Got 7 1], \<lparr>lmLoggers = [(7, 1)], lmCreated = 2\<rparr>)"

lemma logger_lost: "raceReach [7, 7] lostLogger \<and> 0 \<notin> set (factoryDeletes (snd lostLogger))"
proof
  have "raceReach [7, 7] ([Asking 7, Asking 7], newLoggerMap)" using raceReach.start [of "[7, 7]"] by simp
  then have "raceReach [7, 7] ([Searched 7 False, Asking 7], newLoggerMap)"
    by (rule raceReach_step [where i = 0]) (simp_all add: newLoggerMap_def)
  then have "raceReach [7, 7] ([Searched 7 False, Searched 7 False], newLoggerMap)"
    by (rule raceReach_step [where i = 1]) (simp_all add: newLoggerMap_def)
  then have "raceReach [7, 7] ([Creating 7 0, Searched 7 False], \<lparr>lmLoggers = [], lmCreated = 1\<rparr>)"
    by (rule raceReach_step [where i = 0]) (simp_all add: newLoggerMap_def)
  then have "raceReach [7, 7] ([Creating 7 0, Creating 7 1], \<lparr>lmLoggers = [], lmCreated = 2\<rparr>)"
    by (rule raceReach_step [where i = 1]) simp_all
  then have "raceReach [7, 7] ([Got 7 0, Creating 7 1], \<lparr>lmLoggers = [(7, 0)], lmCreated = 2\<rparr>)"
    by (rule raceReach_step [where i = 0]) simp_all
  then show "raceReach [7, 7] lostLogger"
    by (rule raceReach_step [where i = 1]) (simp_all add: lostLogger_def)
qed (simp add: lostLogger_def factoryDeletes_def)


end
