(* ===== verification/Java_Bridge.thy ===== *)
theory Java_Bridge
  imports Java_Provider Node_Provider
begin

text \<open>
  The Java data provider behind the bridge of a node manager: the node properties that
  \<open>provider/binary/jDataProvider/JDataProvider.cpp\<close> gives to the bridge
  (\<open>sasModelProvider/base/HaNodeManagerIODataProviderBridge.cpp\<close>) when it starts, what the bridge makes of them, and
  what it deletes when it shuts down.
\<close>

subsection \<open>The properties of the Java data provider\<close>

definition idsNone :: "string list" where
  "idsNone =
    [''AirConditioner_1.Humidity.EURange'',
     ''AirConditioner_1.Humidity.EngineeringUnits'',
     ''AirConditioner_1.HumiditySetpoint.EURange'',
     ''AirConditioner_1.HumiditySetpoint.EngineeringUnits'',
     ''AirConditioner_1.Temperature.EURange'',
     ''AirConditioner_1.Temperature.EngineeringUnits'',
     ''AirConditioner_1.TemperatureSetpoint.EURange'',
     ''AirConditioner_1.TemperatureSetpoint.EngineeringUnits'',
     ''Furnace_2.Temperature.EURange'',
     ''Furnace_2.Temperature.EngineeringUnits'',
     ''Furnace_2.TemperatureSetpoint.EURange'',
     ''Furnace_2.TemperatureSetpoint.EngineeringUnits'']"

definition idsSync :: "string list" where
  "idsSync =
    [''rfr310.IOData.HS1'',
     ''rfr310.IOData.HS1.direction'', ''rfr310.IOData.HS2'',
     ''rfr310.IOData.HS2.direction'', ''rfr310.IOData.HS3'',
     ''rfr310.IOData.HS3.direction'', ''rfr310.IOData.HS4'',
     ''rfr310.IOData.HS4.direction'', ''rfr310.IOData.SWS1_SWD1'',
     ''rfr310.IOData.SWS1_SWD1.direction'', ''rfr310.IOData.SWS2_SWD2'',
     ''rfr310.IOData.SWS2_SWD2.direction'', ''rfr310.IOData.LS1'',
     ''rfr310.IOData.LS1.direction'', ''rfr310.IOData.LS2'',
     ''rfr310.IOData.LS2.direction'', ''rfr310.RuntimeParameters.RfPower'',
     ''rfr310.RuntimeParameters.MinRssi'', ''AirConditioner_1.Temperature'',
     ''ControllerConfigurations'']"

definition nodeProperties :: "c_int \<Rightarrow> value_handling \<Rightarrow> string \<Rightarrow> io_node_data" where
  "nodeProperties namespaceIndex h s = newNodeData (NodeIdString namespaceIndex s) (Some (IONodeProperties h))"

definition jNodeProperties :: "c_int \<Rightarrow> io_node_data list" where
  "jNodeProperties namespaceIndex =
    map (nodeProperties namespaceIndex VhNone) idsNone @ map (nodeProperties namespaceIndex VhSync) idsSync"

text \<open>The name space of the provider is the one of the manager that asked last.\<close>

definition jDefaultNodeProperties :: "c_int \<Rightarrow> ('j, value_handling) jp_op" where
  "jDefaultNodeProperties namespaceIndex =
    bindP (modifyP (\<lambda>s. s\<lparr>jpNamespace := namespaceIndex\<rparr>)) (\<lambda>_. liftP (Inr VhAsync))"

text \<open>A configuration directory cannot be opened.\<close>

definition jOpenConfiguration :: "string \<Rightarrow> (cpp_error, unit) res" where
  "jOpenConfiguration confDir = Inl IODataProviderException"

subsection \<open>The bridge on the Java data provider\<close>

definition javaBridgeStart ::
  "converter_env \<Rightarrow> c_int \<Rightarrow> ('j, 32 word \<times> bridge_parts) jp_op"
where
  "javaBridgeStart env namespaceIndex =
    bindP (jDefaultNodeProperties namespaceIndex) (\<lambda>d.
      liftP (bridgeAfterStartUp env (Inr (Some d)) (Inr (Some (jNodeProperties namespaceIndex))) newBridge))"

lemma find_nodeProperties:
  "find (\<lambda>p. n = io_node_data.ndNodeId p) (map (nodeProperties ns h) ss) =
    (case n of
       NodeIdString m s \<Rightarrow> if m = ns \<and> s \<in> set ss then Some (nodeProperties ns h s) else None
     | _ \<Rightarrow> None)"
proof (cases n)
  case (NodeIdString m s)
  then show ?thesis by (induction ss) (auto simp: nodeProperties_def newNodeData_def)
next
  case (NodeIdNumeric m i)
  then show ?thesis by (induction ss) (auto simp: nodeProperties_def newNodeData_def)
qed

lemma find_two_lists: "find P (xs @ ys) = (case find P xs of None \<Rightarrow> find P ys | Some x \<Rightarrow> Some x)"
  by (induction xs) simp_all

definition javaHandling :: "c_int \<Rightarrow> io_node_id \<Rightarrow> value_handling" where
  "javaHandling namespaceIndex n =
    (case n of
       NodeIdString m s \<Rightarrow>
         if m \<noteq> namespaceIndex then VhAsync
         else if s \<in> set idsNone then VhNone
         else if s \<in> set idsSync then VhSync
         else VhAsync
     | NodeIdNumeric _ _ \<Rightarrow> VhAsync)"

text \<open>
  C40. A bridge starts successfully on the Java data provider, which then uses the name space of the bridge's
  manager. From then on the value handling of each node is determined: disabled for the nodes of the one fixed
  list, synchronous for those of the other one, and asynchronous for every other node; it is never unknown.
\<close>

theorem java_value_handling:
  "\<exists>b br s'. javaBridgeStart env namespaceIndex s = Some (Inr (OpcUa_Good, b), s') \<and> s' = s\<lparr>jpNamespace := namespaceIndex\<rparr> \<and>
    bridgeOf b = Some br \<and> brEnv br = env \<and> (\<forall>n. getValueHandling br n = Inr (javaHandling namespaceIndex n))"
proof -
  let ?b = "newBridge\<lparr>bpBrowser := True, bpDefault := Some VhAsync,
    bpProps := Some (jNodeProperties namespaceIndex), bpConverter := Some env\<rparr>"
  let ?br = "\<lparr>brEnv = env, brDefault = Some VhAsync, brProps = Some (jNodeProperties namespaceIndex)\<rparr>"
  have "javaBridgeStart env namespaceIndex s = Some (Inr (OpcUa_Good, ?b), s\<lparr>jpNamespace := namespaceIndex\<rparr>)"
    by (simp add: javaBridgeStart_def jDefaultNodeProperties_def bindP_def bridgeAfterStartUp_def attemptR_def newBridge_def)
  moreover have "bridgeOf ?b = Some ?br" by (simp add: bridgeOf_def)
  moreover have "getValueHandling ?br n = Inr (javaHandling namespaceIndex n)" for n
    by (cases n) (simp_all add: getValueHandling_def jNodeProperties_def find_two_lists find_nodeProperties javaHandling_def
      nodeProperties_def newNodeData_def)
  ultimately show ?thesis by (intro exI [of _ ?b] exI [of _ ?br]) simp
qed

subsection \<open>The end of the bridge\<close>

text \<open>
  What \<open>beforeShutDown\<close> deletes, in order; a \<open>NULL\<close> pointer is skipped. The callback of the subscriptions is created
  with the browser. No pointer is reset, and the data provider keeps the one to the deleted browser.
\<close>

datatype bridge_delete =
    DeleteConverter
  | DeleteNodeData io_node_data
  | DeletePropertiesMap
  | DeleteDefault
  | DeleteCallback
  | DeleteBrowser

definition bridgeBeforeShutDown :: "bridge_parts \<Rightarrow> bridge_delete list \<times> 32 word" where
  "bridgeBeforeShutDown b =
    ((if bpConverter b \<noteq> None then [DeleteConverter] else []) @
     (case bpProps b of None \<Rightarrow> [] | Some ps \<Rightarrow> map DeleteNodeData ps @ [DeletePropertiesMap]) @
     (if bpDefault b \<noteq> None then [DeleteDefault] else []) @
     (if bpBrowser b then [DeleteCallback, DeleteBrowser] else []), OpcUa_Good)"

text \<open>Whatever the start of a bridge did, its end deletes the browser, and the provider's data only if it was given.\<close>

lemma bridge_end:
  "bridgeAfterStartUp env defaults props newBridge = Inr (status, b) \<Longrightarrow>
   DeleteBrowser \<in> set (fst (bridgeBeforeShutDown b)) \<and> count_list (fst (bridgeBeforeShutDown b)) DeleteBrowser = 1 \<and>
   (DeleteConverter \<in> set (fst (bridgeBeforeShutDown b)) \<longleftrightarrow> status = OpcUa_Good)"
  by (auto simp: bridgeAfterStartUp_def newBridge_def bridgeBeforeShutDown_def Let_def bindR_eq_Inr mapR_eq_Inr
      OpcUa_Good_def OpcUa_Bad_def count_list_0_iff split: option.splits)

end
