(* ===== verification/Utilities.thy ===== *)
theory Utilities
  imports Prelude
begin

text \<open>
  The functions of \<open>utilities/linux.cpp\<close> for signals and for the path of the application; its clock functions are
  in the theory of the loggers, which use them.
\<close>

subsection \<open>Signals\<close>

datatype signal_kind = SigInt | SigTerm | SigPipe

datatype signal_action = SignalDefault | SignalIgnored | SetsShutDownFlag

text \<open>A signal that the process ignores already stays ignored.\<close>

definition installAction ::
  "signal_kind \<Rightarrow> signal_action \<Rightarrow> (signal_kind \<Rightarrow> signal_action) \<Rightarrow> (signal_kind \<Rightarrow> signal_action)"
where
  "installAction signo action actions = (if actions signo \<noteq> SignalIgnored then actions(signo := action) else actions)"

definition registerSignalHandler :: "(signal_kind \<Rightarrow> signal_action) \<Rightarrow> (signal_kind \<Rightarrow> signal_action)" where
  "registerSignalHandler actions =
    installAction SigPipe SignalIgnored
      (installAction SigTerm SetsShutDownFlag (installAction SigInt SetsShutDownFlag actions))"

definition signalHandler :: "32 word \<Rightarrow> 32 word" where
  "signalHandler shutDown = 1"

text \<open>The flag after some signals; \<open>None\<close> is the default action, which ends the process.\<close>

fun signalsArrive :: "(signal_kind \<Rightarrow> signal_action) \<Rightarrow> signal_kind list \<Rightarrow> 32 word \<Rightarrow> 32 word option" where
  "signalsArrive actions [] flag = Some flag"
| "signalsArrive actions (s # ss) flag =
     (case actions s of
        SignalDefault \<Rightarrow> None
      | SignalIgnored \<Rightarrow> signalsArrive actions ss flag
      | SetsShutDownFlag \<Rightarrow> signalsArrive actions ss (signalHandler flag))"

lemma registered_actions:
  "registerSignalHandler actions s =
    (if s = SigPipe \<or> actions s = SignalIgnored then SignalIgnored else SetsShutDownFlag)"
  by (cases s) (simp_all add: registerSignalHandler_def installAction_def)

text \<open>
  Once the handlers are registered no signal ends the process, and the flag is set exactly when a signal came
  that was not ignored.
\<close>

lemma signals_set_flag:
  "signalsArrive (registerSignalHandler actions) ss flag =
    Some (if \<exists>s \<in> set ss. s \<noteq> SigPipe \<and> actions s \<noteq> SignalIgnored then 1 else flag)"
  by (induction ss arbitrary: flag) (auto simp: registered_actions signalHandler_def)

subsection \<open>The path of the application\<close>

text \<open>What \<open>readlink\<close> gives for the executable, at most \<open>PATH_MAX - 1\<close> characters, up to the last slash.\<close>

definition pathMax :: nat where
  "pathMax = 4096"

definition getAppPath :: "string \<Rightarrow> string" where
  "getAppPath link =
    (let appPath = take (pathMax - 1) link in
     if CHR ''/'' \<in> set appPath then rev (drop 1 (dropWhile (\<lambda>c. c \<noteq> CHR ''/'') (rev appPath))) else appPath)"

lemma getAppPath_directory:
  assumes "CHR ''/'' \<notin> set name" "length dir + length name + 1 < pathMax"
  shows "getAppPath (dir @ CHR ''/'' # name) = dir"
proof -
  have "dropWhile (\<lambda>c. c \<noteq> CHR ''/'') (rev name @ CHR ''/'' # rev dir) = CHR ''/'' # rev dir"
    using assms(1) by (subst dropWhile_append2) auto
  moreover have "take (pathMax - 1) (dir @ CHR ''/'' # name) = dir @ CHR ''/'' # name"
    using assms(2) by simp
  ultimately show ?thesis by (simp add: getAppPath_def)
qed

end
