(* ===== verification/Spec2Isabelle.thy ===== *)
theory Spec2Isabelle
  imports Converter_Bin2IO Type_Sources Ha_Subscription Subscriber Client Java_Provider Node_Provider Loggers Generator_Provider Opcua_Api Object_Conversion Value_Text Server_Core Logger_Threads Java_Bridge Utilities
begin

text \<open>
  This development models an OPC UA server whose node managers read node set files and hand values, calls and
  events to data providers, and an OPC UA client that a Java program uses through native methods. Paths are
  relative to the repository's \<open>src/\<close> directory unless they start with \<open>include/\<close>.

  \<^bold>\<open>How the program is put together.\<close> The server (\<open>Server.cpp\<close>) starts the core of the SDK (\<open>OpcUaServerCore.cpp\<close>)
  and loads libraries with factories of model providers and of data providers. A model provider
  (\<open>provider/uaNodeSetXml\<close>) reads node set files and creates a node manager for each name space; while the SDK
  creates the nodes, the manager collects variables and object types, registers event types and starts the
  value handling. Each manager has a bridge (\<open>HaNodeManagerIODataProviderBridge.cpp\<close>) that turns the services of
  the server into calls of a data provider: it converts OPC UA values to values of the internal interface
  (\<open>ConverterUa2IO.cpp\<close>), and a data provider that is written in Java (\<open>JDataProvider.cpp\<close>) converts those to
  binary values (\<open>ConverterBin2IO.cpp\<close>) and these to Java objects (\<open>Native2J.cpp\<close>). New values and events come back
  through the subscriber callback. A data provider of generated values serves for tests. The client
  (\<open>Client.cpp\<close>) serves requests in binary values through a session (\<open>HaSession.cpp\<close>) and its subscription
  (\<open>HaSubscription.cpp\<close>), with a cache of type information, and the native methods (\<open>opcua_OPCUA.cpp\<close>) put it
  behind Java. Loggers and exceptions are shared by all.

  \<^bold>\<open>The theories and the code.\<close>

  \<^item> Foundations. \<open>Prelude\<close>: the types of the platform, the errors (one constructor for each class of exceptions, and
    \<open>UndefinedBehaviour\<close>), the error monad and loops over lists. \<open>Op_Monad\<close>: operations on an object's state that may
    throw and may not return. \<open>Work_Loop\<close>: recursions of the source as a loop over pending items. \<open>Text_Util\<close>: the C
    string functions. \<open>Ua_Model\<close>: the data of the SDK, and sorted maps. \<open>Example_Text\<close>: node ids for examples.

  \<^item> Common library. \<open>Common_Lib\<close>: \<open>common/Exception.cpp\<close>, \<open>common/logging/LoggerFactory.cpp\<close>. \<open>Loggers\<close>: the console,
    SDK and Java loggers, their factories, the clock of \<open>utilities/linux.cpp\<close>. \<open>Logger_Threads\<close>: mutexes and locks, and
    \<open>getLogger\<close> as threads interleave in it. \<open>Utilities\<close>: the rest of \<open>utilities/linux.cpp\<close>.

  \<^item> Values. \<open>Io_Values\<close>: \<open>ioDataProvider/*.cpp\<close> as values. \<open>Bin_Values\<close>: \<open>provider/binary/messages/dto/*.cpp\<close> as values, with
    the text of parameter ids. \<open>Value_Text\<close>: their \<open>toString\<close>. \<open>Object_Classes\<close>, \<open>Object_Store\<close>: the same classes as
    objects with pointers in a store, one record, constructor, copy constructor, destructor and set of setters for
    each class. \<open>Object_Copies\<close>: what copies, destructors and setters guarantee. \<open>Object_Conversion\<close>: the scope guards of
    \<open>include/common\<close> and the conversion of binary values with its allocations.

  \<^item> Converters. \<open>Converter_Bin2IO\<close>: \<open>ConverterBin2IO.cpp\<close>. \<open>Converter_Ua2IO\<close> and \<open>Converter_Io2Ua\<close>: the two directions of
    \<open>ConverterUa2IO.cpp\<close>. \<open>Java_Values\<close>: \<open>Native2J.cpp\<close>.

  \<^item> Types and events. \<open>Type_Sources\<close>: \<open>CachedConverterCallback.cpp\<close> and \<open>NodeBrowser.cpp\<close>. \<open>Event_Types\<close>:
    \<open>EventTypeRegistry.cpp\<close>, \<open>EventTypeData.cpp\<close>. \<open>Field_Model\<close>: the model of data types for the Java conversions.

  \<^item> Server. \<open>Io_Bridge\<close>: the bridge. \<open>Subscriber\<close>: \<open>IODataProviderSubscriberCallback.cpp\<close>. \<open>Node_Manager\<close>, \<open>Node_Set\<close>,
    \<open>Node_Provider\<close>: \<open>provider/uaNodeSetXml\<close>. \<open>Ha_Server\<close>: \<open>Server.cpp\<close>. \<open>Server_Core\<close>: \<open>OpcUaServerCore.cpp\<close>.
    \<open>Java_Provider\<close>: \<open>JDataProvider.cpp\<close>. \<open>Java_Bridge\<close>: this provider behind a bridge. \<open>Data_Generator\<close>, \<open>Event_Generator\<close>,
    \<open>Generator_Provider\<close>: \<open>sasModelProvider/base/generator\<close>.

  \<^item> Client. \<open>Ha_Subscription\<close>, \<open>Ha_Session\<close>, \<open>Client\<close>: the files of the same names in \<open>binaryServer\<close>. \<open>Opcua_Api\<close>: the native
    methods in \<open>main/native\<close>.

  \<^bold>\<open>State and operations.\<close> An object is a record of its members; an operation takes the state and returns it
  together with a value or an error, and each \<open>throw\<close>, early \<open>return\<close> and \<open>catch\<close> of the source is a branch.
  Exceptions are caught where the source catches them, undefined behaviour never is. Integers are words of
  the platform's width (LP64: \<open>int\<close> 32, \<open>long\<close> and \<open>long long\<close> 64 bits), except where the source only
  compares them. A map of the source is a list in the order of its keys, or a function if its order plays no part.
  A map keyed by pointers is in the order of insertion.

  Loops that follow references of an address space, types of fields or the clock may not end. They are
  \<open>partial_function\<close>s in the option monad, or loops of \<open>Work_Loop\<close>, without fuel: \<open>None\<close> is a run that does not end,
  and that a run ends is proved from a measure or from a condition on the address space.

  \<^bold>\<open>What the lemmas show.\<close> For the converters: the two directions are inverse to each other exactly on the stable
  values, results have the requested type, and errors are conversion exceptions. For the objects: a copy and a
  conversion give a separate object for the same value, deletion gives back exactly what was allocated, and an
  exception leaves nothing behind. For the node managers: exactly the event types and variables of the node set are
  registered; walks end exactly on acyclic references. For the bridge and the Java provider: each
  variable gets the result of its own node, and what is written is read back. For the subscription, the session,
  the client and the native methods: invariants of the reachable states, the result of each request,
  ordering of the messages, time stamps, and that a connection is only used while it exists. For the server:
  resources are released in an allowed order on each path. For the loggers: no part of a message is lost, and
  what threads can and cannot do to each other.

  \<^bold>\<open>Interfaces.\<close> The locales state contracts, and each is interpreted on the model: \<open>map_spec\<close> (sorted maps),
  \<open>scope_stack\<close> (logger factories), \<open>type_source\<close> (the cache), \<open>exact_conversion\<close> (pairs of conversions),
  \<open>work_invariant\<close> and \<open>work_measure\<close> (walks over references), \<open>container\<close> (the vectors and maps under a guard).

  \<^bold>\<open>What the code relies on.\<close> The SDK, the JVM and the file system are parameters: the answers of services, what a
  node is, whether a value is accepted, the methods of a Java object as functions on its state. Of the data of the
  SDK the documented content is used: a variant holds one value of a built-in type or an array, a null byte string
  is empty, the parts of a localized text may be null, \<open>setField\<close> stores a value that \<open>value\<close> gives back, the
  levels of traces are in their documented order, the XML text of a node id identifies it. Of C++: \<open>new T()\<close>
  initializes the private classes with zero, the members of a union of the same size may be read for each other,
  a destructor may throw, and no address is used twice in the store of objects. Log messages have less than
  \<open>2 ^ 31\<close> characters.

  \<^bold>\<open>Not modelled.\<close>

  \<^item> Concurrency other than in the logger factories: the locks of the source do not lock, so what is proved of the
    other objects is about one thread at a time.

  \<^item> Ownership in the value models: the converters, the bridge, the providers and the client work on values; pointers are
    followed in the theories of objects, for the classes of values and messages and one direction of one converter.
    The event, event field and node attribute classes of the client are only modelled as values.

  \<^item> Methods that only call a method of the same name (node managers, XML node factories, the public classes in
    front of private ones), interfaces, classes of exceptions and \<open>create\<close> of the factories.

  \<^item> Log output inside operations (except where it changes the result), the texts of exceptions where no
    other part looks at them, and the file and line of an exception.

  \<^item> Matrices and multi-dimensional arrays of the SDK, which the source does not handle, and how floating point
    numbers are printed and parsed.

  \<^item> The Java classes, the tests, the node sets, the build and the packaging. In the native methods the copy of browse
    results into Java maps and the release of Java strings.
\<close>

end
